(* ===== verification/Prelude.thy ===== *)
theory Prelude
  imports Main "HOL-Library.Word" "HOL-Library.Signed_Division"
begin

text \<open>
  What every component of the model shares: the outcomes of a Go call, the run-time checks of
  slice and index expressions, and the lemmas about them.

  A Go function that may panic or may not return is modelled by a value of type
  \<open>abort + 'a\<close>: \<open>Inl (Panic m)\<close> is a panic, \<open>Inl Diverges\<close> a call that never
  returns, \<open>Inr x\<close> an ordinary return.  A Go function with an \<^verbatim>\<open>error\<close> result has a sum with
  its own error type on the left.  Go's \<^verbatim>\<open>int\<close> is the unbounded \<^typ>\<open>int\<close> wherever its value is
  bounded by a slice length, and a word where the wrap-around matters.
\<close>

unbundle bit_operations_syntax

subsection \<open>Outcomes\<close>

datatype (plugins only: code size) abort = Panic string | Diverges

type_synonym 'a outcome = "abort + 'a"

named_theorems go_simps \<open>unfolding the Go run-time operations\<close>

definition rbind :: "'e + 'a \<Rightarrow> ('a \<Rightarrow> 'e + 'b) \<Rightarrow> 'e + 'b" where
  "rbind m f = (case m of Inl e \<Rightarrow> Inl e | Inr x \<Rightarrow> f x)"

lemma rbind_simps [simp]: "rbind (Inl e) f = Inl e" "rbind (Inr x) f = f x"
  by (simp_all add: rbind_def)

lemma rbind_eq_Inr: "rbind m f = Inr y \<longleftrightarrow> (\<exists>x. m = Inr x \<and> f x = Inr y)"
  by (cases m) auto

lemma rbind_eq_Inl: "rbind m f = Inl e \<longleftrightarrow> m = Inl e \<or> (\<exists>x. m = Inr x \<and> f x = Inl e)"
  by (cases m) auto

lemma rbind_assoc: "rbind (rbind m f) g = rbind m (\<lambda>x. rbind (f x) g)"
  by (cases m) auto

lemma rbind_cong [fundef_cong]:
  "m = m' \<Longrightarrow> (\<And>x. m' = Inr x \<Longrightarrow> f x = g x) \<Longrightarrow> rbind m f = rbind m' g"
  by (cases m') auto

definition of_option :: "'e \<Rightarrow> 'a option \<Rightarrow> 'e + 'a" where
  "of_option e x = (case x of None \<Rightarrow> Inl e | Some y \<Rightarrow> Inr y)"

lemma of_option_simps [simp]:
  "of_option e None = Inl e" "of_option e (Some y) = Inr y"
  "of_option e x = Inr y \<longleftrightarrow> x = Some y"
  by (auto simp: of_option_def split: option.splits)

subsection \<open>Slices\<close>

text \<open>\<^verbatim>\<open>xs[i]\<close>, \<^verbatim>\<open>xs[i] = v\<close>, \<^verbatim>\<open>xs[lo:hi]\<close>, \<^verbatim>\<open>make([]T, n)\<close> and \<^verbatim>\<open>copy(dst, src)\<close>.\<close>

definition go_get :: "'a list \<Rightarrow> int \<Rightarrow> 'a outcome" where
  "go_get xs i = (if 0 \<le> i \<and> i < int (length xs) then Inr (xs ! nat i)
                  else Inl (Panic ''index out of range''))"

definition go_set :: "'a list \<Rightarrow> int \<Rightarrow> 'a \<Rightarrow> 'a list outcome" where
  "go_set xs i v = (if 0 \<le> i \<and> i < int (length xs) then Inr (xs[nat i := v])
                    else Inl (Panic ''index out of range''))"

definition go_slice :: "'a list \<Rightarrow> int \<Rightarrow> int \<Rightarrow> 'a list outcome" where
  "go_slice xs lo hi = (if 0 \<le> lo \<and> lo \<le> hi \<and> hi \<le> int (length xs)
                        then Inr (take (nat hi - nat lo) (drop (nat lo) xs))
                        else Inl (Panic ''slice bounds out of range''))"

definition go_make :: "'a \<Rightarrow> int \<Rightarrow> 'a list outcome" where
  "go_make z n = (if 0 \<le> n then Inr (replicate (nat n) z)
                  else Inl (Panic ''makeslice: len out of range''))"

definition go_copy :: "'a list \<Rightarrow> 'a list \<Rightarrow> 'a list" where
  "go_copy dst src = take (length dst) src @ drop (length src) dst"

lemma go_get_ok [simp]: "0 \<le> i \<Longrightarrow> i < int (length xs) \<Longrightarrow> go_get xs i = Inr (xs ! nat i)"
  by (simp add: go_get_def)

lemma go_set_ok [simp]: "0 \<le> i \<Longrightarrow> i < int (length xs) \<Longrightarrow> go_set xs i v = Inr (xs[nat i := v])"
  by (simp add: go_set_def)

lemma go_slice_ok [simp]:
  "0 \<le> lo \<Longrightarrow> lo \<le> hi \<Longrightarrow> hi \<le> int (length xs) \<Longrightarrow>
   go_slice xs lo hi = Inr (take (nat hi - nat lo) (drop (nat lo) xs))"
  by (simp add: go_slice_def)

lemma go_make_ok [simp]: "0 \<le> n \<Longrightarrow> go_make z n = Inr (replicate (nat n) z)"
  by (simp add: go_make_def)

lemma length_go_copy [simp]: "length (go_copy dst src) = length dst"
  by (simp add: go_copy_def)

lemma go_get_eq_Inr: "go_get xs i = Inr x \<longleftrightarrow> 0 \<le> i \<and> i < int (length xs) \<and> x = xs ! nat i"
  by (auto simp: go_get_def)

lemma go_set_eq_Inr:
  "go_set xs i v = Inr ys \<longleftrightarrow> 0 \<le> i \<and> i < int (length xs) \<and> ys = xs[nat i := v]"
  by (auto simp: go_set_def)

lemma nth_go_copy:
  "i < length dst \<Longrightarrow> go_copy dst src ! i = (if i < length src then src ! i else dst ! i)"
  by (auto simp: go_copy_def nth_append min_def)

lemma go_copy_replicate:
  "length s \<le> n \<Longrightarrow> go_copy (replicate n z) s = s @ replicate (n - length s) z"
  by (simp add: go_copy_def)

subsection \<open>Bitwise modulus\<close>

definition is_pow2 :: "int \<Rightarrow> bool" where
  "is_pow2 n \<longleftrightarrow> (\<exists>k. n = 2 ^ k)"

lemma is_pow2_pos: "is_pow2 n \<Longrightarrow> 0 < n"
  by (auto simp: is_pow2_def)

lemma is_pow2_double: "is_pow2 n \<Longrightarrow> is_pow2 (2 * n)"
  unfolding is_pow2_def by (metis power_Suc)

lemma is_pow2_half:
  assumes "is_pow2 (2 * n)" shows "is_pow2 n"
proof -
  from assms obtain k where k: "2 * n = (2::int) ^ k" by (auto simp: is_pow2_def)
  show ?thesis
  proof (cases k)
    case 0
    with k have "2 * n = 1" by simp
    then have False by presburger
    then show ?thesis ..
  next
    case (Suc m)
    with k show ?thesis by (auto simp: is_pow2_def)
  qed
qed

lemma is_pow2_8 [simp]: "is_pow2 8"
  unfolding is_pow2_def by (rule exI [of _ 3]) simp

lemma and_mask_mod: "is_pow2 n \<Longrightarrow> x AND (n - 1) = x mod n" for x n :: int
  by (auto simp: is_pow2_def take_bit_eq_mask [symmetric] mask_eq_exp_minus_1 [symmetric] take_bit_eq_mod)

lemma nat_mod_int: "0 \<le> x \<Longrightarrow> nat (x mod int n) = nat x mod n"
  by (metis nat_int nat_mod_distrib of_nat_0_le_iff)

end
