(* ===== verification/Deque.thy ===== *)
theory Deque
  imports Prelude
begin

text \<open>
  The ring-buffer double-ended queue of \<^verbatim>\<open>mihomo/common/deque/deque.go\<close>.  The buffer is a list
  whose length is the capacity, the indexes are Go \<^verbatim>\<open>int\<close>s, and every buffer access is checked, so
  that an index out of range is a panic of the model.  The zero value of the element type, which
  Go writes into freed slots, is the first argument \<open>z\<close>.  The operations on a nil receiver
  are not modelled: a queue is a value.
\<close>

subsection \<open>State and index arithmetic\<close>

record 'a deque =
  buf :: "'a list"
  head :: int
  tail :: int
  count :: int
  minCap :: int

definition minCapacity :: int where
  "minCapacity = 8"

definition emptyDeque :: "'a deque" where
  "emptyDeque = \<lparr>buf = [], head = 0, tail = 0, count = 0, minCap = 0\<rparr>"

definition Cap :: "'a deque \<Rightarrow> int" where
  "Cap q = int (length (buf q))"

definition Len :: "'a deque \<Rightarrow> int" where
  "Len q = count q"

definition prev :: "'a deque \<Rightarrow> int \<Rightarrow> int" where
  "prev q i = (i - 1) AND (Cap q - 1)"

definition nxt :: "'a deque \<Rightarrow> int \<Rightarrow> int" where
  "nxt q i = (i + 1) AND (Cap q - 1)"

text \<open>
  \<^verbatim>\<open>for c < n { c <<= 1 }\<close>: the loop has no bound of its own, so its model is partial;
  \<open>None\<close> is a loop that never ends (\<open>c\<close> not positive).
\<close>

partial_function (option) doubling :: "int \<Rightarrow> int \<Rightarrow> int option" where
  "doubling c n = (if c < n then doubling (2 * c) n else Some c)"

declare doubling.simps [code]

subsection \<open>Resizing\<close>

definition resize :: "'a \<Rightarrow> int \<Rightarrow> 'a deque \<Rightarrow> 'a deque outcome" where
  "resize z newSize q =
     rbind (go_make z newSize) (\<lambda>newBuf.
     rbind (if tail q > head q
            then rbind (go_slice (buf q) (head q) (tail q)) (\<lambda>s. Inr (go_copy newBuf s))
            else rbind (go_slice (buf q) (head q) (Cap q)) (\<lambda>s1.
                 let n = min (length newBuf) (length s1); b1 = go_copy newBuf s1 in
                 rbind (go_slice (buf q) 0 (tail q)) (\<lambda>s2.
                 Inr (take n b1 @ go_copy (drop n b1) s2)))) (\<lambda>b.
     Inr (q\<lparr>head := 0, tail := count q, buf := b\<rparr>)))"

definition growIfFull :: "'a \<Rightarrow> 'a deque \<Rightarrow> 'a deque outcome" where
  "growIfFull z q =
     (if count q \<noteq> Cap q then Inr q
      else if Cap q = 0 then
        let q' = (if minCap q = 0 then q\<lparr>minCap := minCapacity\<rparr> else q) in
        rbind (go_make z (minCap q')) (\<lambda>b. Inr (q'\<lparr>buf := b\<rparr>))
      else resize z (2 * count q) q)"

definition shrinkIfExcess :: "'a \<Rightarrow> 'a deque \<Rightarrow> 'a deque outcome" where
  "shrinkIfExcess z q =
     (if Cap q > minCap q \<and> 4 * count q = Cap q then resize z (2 * count q) q else Inr q)"

definition shrinkToFit :: "'a \<Rightarrow> 'a deque \<Rightarrow> 'a deque outcome" where
  "shrinkToFit z q =
     (if Cap q > minCap q \<and> 4 * count q \<le> Cap q then
        if count q = 0 then
          rbind (go_make z (minCap q)) (\<lambda>b. Inr (q\<lparr>head := 0, tail := 0, buf := b\<rparr>))
        else rbind (of_option Diverges (doubling (minCap q) (count q))) (\<lambda>c. resize z c q)
      else Inr q)"

subsection \<open>Pushing and popping\<close>

definition PushBack :: "'a \<Rightarrow> 'a \<Rightarrow> 'a deque \<Rightarrow> 'a deque outcome" where
  "PushBack z x q =
     rbind (growIfFull z q) (\<lambda>q.
     rbind (go_set (buf q) (tail q) x) (\<lambda>b.
     let q = q\<lparr>buf := b\<rparr> in
     Inr (q\<lparr>tail := nxt q (tail q), count := count q + 1\<rparr>)))"

definition PushFront :: "'a \<Rightarrow> 'a \<Rightarrow> 'a deque \<Rightarrow> 'a deque outcome" where
  "PushFront z x q =
     rbind (growIfFull z q) (\<lambda>q.
     let h = prev q (head q) in
     rbind (go_set (buf q) h x) (\<lambda>b.
     Inr (q\<lparr>head := h, buf := b, count := count q + 1\<rparr>)))"

text \<open>The common step of \<open>PopFront\<close> and the loop of \<open>IterPopFront\<close>, and its mirror image.\<close>

definition takeFront :: "'a \<Rightarrow> 'a deque \<Rightarrow> ('a \<times> 'a deque) outcome" where
  "takeFront z q =
     rbind (go_get (buf q) (head q)) (\<lambda>ret.
     rbind (go_set (buf q) (head q) z) (\<lambda>b.
     Inr (ret, q\<lparr>buf := b, head := nxt q (head q), count := count q - 1\<rparr>)))"

definition takeBack :: "'a \<Rightarrow> 'a deque \<Rightarrow> ('a \<times> 'a deque) outcome" where
  "takeBack z q =
     (let t = prev q (tail q) in
     rbind (go_get (buf q) t) (\<lambda>ret.
     rbind (go_set (buf q) t z) (\<lambda>b.
     Inr (ret, q\<lparr>tail := t, buf := b, count := count q - 1\<rparr>))))"

definition PopFront :: "'a \<Rightarrow> 'a deque \<Rightarrow> ('a \<times> 'a deque) outcome" where
  "PopFront z q =
     (if count q \<le> 0 then Inl (Panic ''deque: PopFront() called on empty queue'')
      else rbind (takeFront z q) (\<lambda>(ret, q).
           rbind (shrinkIfExcess z q) (\<lambda>q. Inr (ret, q))))"

definition PopBack :: "'a \<Rightarrow> 'a deque \<Rightarrow> ('a \<times> 'a deque) outcome" where
  "PopBack z q =
     (if count q \<le> 0 then Inl (Panic ''deque: PopBack() called on empty queue'')
      else rbind (takeBack z q) (\<lambda>(ret, q).
           rbind (shrinkIfExcess z q) (\<lambda>q. Inr (ret, q))))"

text \<open>
  The draining iterators.  The consumer is the function \<open>yield\<close> on a state of its own; a
  negative \<open>count\<close> would never reach 0 by decrements.
\<close>

function popFrontLoop ::
  "'a \<Rightarrow> ('a \<Rightarrow> 's \<Rightarrow> bool \<times> 's) \<Rightarrow> 's \<Rightarrow> 'a deque \<Rightarrow> ('s \<times> 'a deque) outcome" where
  "popFrontLoop z yield s q =
     (if count q = 0 then Inr (s, q)
      else if count q < 0 then Inl Diverges
      else rbind (takeFront z q) (\<lambda>(ret, q').
           case yield ret s of (go, s') \<Rightarrow>
             if go then popFrontLoop z yield s' q' else Inr (s', q')))"
  by pat_completeness auto
termination
  by (relation "measure (\<lambda>(z, yield, s, q). nat (count q))")
     (auto simp: takeFront_def rbind_eq_Inr)

function popBackLoop ::
  "'a \<Rightarrow> ('a \<Rightarrow> 's \<Rightarrow> bool \<times> 's) \<Rightarrow> 's \<Rightarrow> 'a deque \<Rightarrow> ('s \<times> 'a deque) outcome" where
  "popBackLoop z yield s q =
     (if count q = 0 then Inr (s, q)
      else if count q < 0 then Inl Diverges
      else rbind (takeBack z q) (\<lambda>(ret, q').
           case yield ret s of (go, s') \<Rightarrow>
             if go then popBackLoop z yield s' q' else Inr (s', q')))"
  by pat_completeness auto
termination
  by (relation "measure (\<lambda>(z, yield, s, q). nat (count q))")
     (auto simp: takeBack_def Let_def rbind_eq_Inr)

definition IterPopFront ::
  "'a \<Rightarrow> ('a \<Rightarrow> 's \<Rightarrow> bool \<times> 's) \<Rightarrow> 's \<Rightarrow> 'a deque \<Rightarrow> ('s \<times> 'a deque) outcome" where
  "IterPopFront z yield s q =
     (if Len q = 0 then Inr (s, q)
      else rbind (popFrontLoop z yield s q) (\<lambda>(s, q).
           rbind (shrinkToFit z q) (\<lambda>q. Inr (s, q))))"

definition IterPopBack ::
  "'a \<Rightarrow> ('a \<Rightarrow> 's \<Rightarrow> bool \<times> 's) \<Rightarrow> 's \<Rightarrow> 'a deque \<Rightarrow> ('s \<times> 'a deque) outcome" where
  "IterPopBack z yield s q =
     (if Len q = 0 then Inr (s, q)
      else rbind (popBackLoop z yield s q) (\<lambda>(s, q).
           rbind (shrinkToFit z q) (\<lambda>q. Inr (s, q))))"

subsection \<open>Reading and writing by position\<close>

definition Front :: "'a deque \<Rightarrow> 'a outcome" where
  "Front q = (if count q \<le> 0 then Inl (Panic ''deque: Front() called when empty'')
              else go_get (buf q) (head q))"

definition Back :: "'a deque \<Rightarrow> 'a outcome" where
  "Back q = (if count q \<le> 0 then Inl (Panic ''deque: Back() called when empty'')
             else go_get (buf q) (prev q (tail q)))"

definition checkRange :: "'a deque \<Rightarrow> int \<Rightarrow> unit outcome" where
  "checkRange q i = (if i < 0 \<or> i \<ge> count q then Inl (Panic ''deque: index out of range'')
                     else Inr ())"

definition At :: "'a deque \<Rightarrow> int \<Rightarrow> 'a outcome" where
  "At q i = rbind (checkRange q i) (\<lambda>_. go_get (buf q) ((head q + i) AND (Cap q - 1)))"

definition Set :: "int \<Rightarrow> 'a \<Rightarrow> 'a deque \<Rightarrow> 'a deque outcome" where
  "Set i x q = rbind (checkRange q i) (\<lambda>_.
     rbind (go_set (buf q) ((head q + i) AND (Cap q - 1)) x) (\<lambda>b. Inr (q\<lparr>buf := b\<rparr>)))"

definition swapAt :: "int \<Rightarrow> int \<Rightarrow> 'a deque \<Rightarrow> 'a deque outcome" where
  "swapAt i j q =
     rbind (go_get (buf q) j) (\<lambda>x. rbind (go_get (buf q) i) (\<lambda>y.
     rbind (go_set (buf q) i x) (\<lambda>b. rbind (go_set b j y) (\<lambda>b. Inr (q\<lparr>buf := b\<rparr>)))))"

definition Swap :: "int \<Rightarrow> int \<Rightarrow> 'a deque \<Rightarrow> 'a deque outcome" where
  "Swap idxA idxB q = rbind (checkRange q idxA) (\<lambda>_. rbind (checkRange q idxB) (\<lambda>_.
     if idxA = idxB then Inr q
     else swapAt ((head q + idxA) AND (Cap q - 1)) ((head q + idxB) AND (Cap q - 1)) q))"

text \<open>The reading iterators, to a consumer that does not touch the queue.\<close>

function iterLoop :: "'a deque \<Rightarrow> ('a \<Rightarrow> 's \<Rightarrow> bool \<times> 's) \<Rightarrow> int \<Rightarrow> int \<Rightarrow> 's \<Rightarrow> 's outcome" where
  "iterLoop q yield i h s =
     (if i < Len q
      then rbind (go_get (buf q) h) (\<lambda>x. case yield x s of (go, s') \<Rightarrow>
             if go then iterLoop q yield (i + 1) (nxt q h) s' else Inr s')
      else Inr s)"
  by pat_completeness auto
termination
  by (relation "measure (\<lambda>(q, yield, i, h, s). nat (Len q - i))") auto

definition Iter :: "'a deque \<Rightarrow> ('a \<Rightarrow> 's \<Rightarrow> bool \<times> 's) \<Rightarrow> 's \<Rightarrow> 's outcome" where
  "Iter q yield s = iterLoop q yield 0 (head q) s"

function riterLoop :: "'a deque \<Rightarrow> ('a \<Rightarrow> 's \<Rightarrow> bool \<times> 's) \<Rightarrow> int \<Rightarrow> int \<Rightarrow> 's \<Rightarrow> 's outcome" where
  "riterLoop q yield i t s =
     (if i < Len q
      then let t = prev q t in
           rbind (go_get (buf q) t) (\<lambda>x. case yield x s of (go, s') \<Rightarrow>
             if go then riterLoop q yield (i + 1) t s' else Inr s')
      else Inr s)"
  by pat_completeness auto
termination
  by (relation "measure (\<lambda>(q, yield, i, t, s). nat (Len q - i))") auto

definition RIter :: "'a deque \<Rightarrow> ('a \<Rightarrow> 's \<Rightarrow> bool \<times> 's) \<Rightarrow> 's \<Rightarrow> 's outcome" where
  "RIter q yield s = riterLoop q yield 0 (tail q) s"

function indexLoop :: "'a deque \<Rightarrow> ('a \<Rightarrow> bool) \<Rightarrow> int \<Rightarrow> int outcome" where
  "indexLoop q f i =
     (if i < count q
      then rbind (go_get (buf q) ((head q + i) AND (Cap q - 1))) (\<lambda>x.
             if f x then Inr i else indexLoop q f (i + 1))
      else Inr (-1))"
  by pat_completeness auto
termination
  by (relation "measure (\<lambda>(q, f, i). nat (count q - i))") auto

definition Index :: "('a \<Rightarrow> bool) \<Rightarrow> 'a deque \<Rightarrow> int outcome" where
  "Index f q = (if Len q > 0 then indexLoop q f 0 else Inr (-1))"

function rindexLoop :: "'a deque \<Rightarrow> ('a \<Rightarrow> bool) \<Rightarrow> int \<Rightarrow> int outcome" where
  "rindexLoop q f i =
     (if i \<ge> 0
      then rbind (go_get (buf q) ((head q + i) AND (Cap q - 1))) (\<lambda>x.
             if f x then Inr i else rindexLoop q f (i - 1))
      else Inr (-1))"
  by pat_completeness auto
termination
  by (relation "measure (\<lambda>(q, f, i). nat (i + 1))") auto

definition RIndex :: "('a \<Rightarrow> bool) \<Rightarrow> 'a deque \<Rightarrow> int outcome" where
  "RIndex f q = (if Len q > 0 then rindexLoop q f (count q - 1) else Inr (-1))"

declare popFrontLoop.simps [simp del] popBackLoop.simps [simp del] iterLoop.simps [simp del]
  riterLoop.simps [simp del] indexLoop.simps [simp del] rindexLoop.simps [simp del]

subsection \<open>Clearing, growing and copying\<close>

definition clearRange :: "'a \<Rightarrow> int \<Rightarrow> int \<Rightarrow> 'a list \<Rightarrow> 'a list outcome" where
  "clearRange z lo hi b = rbind (go_slice b lo hi) (\<lambda>s.
     Inr (take (nat lo) b @ map (\<lambda>_. z) s @ drop (nat hi) b))"

definition Clear :: "'a \<Rightarrow> 'a deque \<Rightarrow> 'a deque outcome" where
  "Clear z q =
     (if Len q = 0 then Inr q
      else let h = head q; t = tail q; q = q\<lparr>count := 0, head := 0, tail := 0\<rparr> in
        if h \<ge> t
        then rbind (clearRange z h (Cap q) (buf q)) (\<lambda>b.
             rbind (clearRange z 0 t b) (\<lambda>b. Inr (q\<lparr>buf := b\<rparr>)))
        else rbind (clearRange z h t (buf q)) (\<lambda>b. Inr (q\<lparr>buf := b\<rparr>)))"

definition Grow :: "'a \<Rightarrow> int \<Rightarrow> 'a deque \<Rightarrow> 'a deque outcome" where
  "Grow z n q =
     (if n < 0 then Inl (Panic ''deque.Grow: negative count'')
      else let c = Cap q; l = Len q in
        if n \<le> c - l then Inr q
        else rbind (of_option Diverges (doubling (if c = 0 then minCapacity else c) (l + n))) (\<lambda>c.
          if l = 0 then rbind (go_make z c) (\<lambda>b. Inr (q\<lparr>buf := b, head := 0, tail := 0\<rparr>))
          else resize z c q))"

definition SetBaseCap :: "int \<Rightarrow> 'a deque \<Rightarrow> 'a deque outcome" where
  "SetBaseCap baseCap q =
     rbind (of_option Diverges (doubling minCapacity baseCap)) (\<lambda>c. Inr (q\<lparr>minCap := c\<rparr>))"

definition CopyOutSlice :: "'a list \<Rightarrow> 'a deque \<Rightarrow> (int \<times> 'a list) outcome" where
  "CopyOutSlice out q =
     (if count q = 0 \<or> out = [] then Inr (0, out)
      else if head q \<ge> tail q
      then rbind (go_slice (buf q) (head q) (Cap q)) (\<lambda>s1.
           let n = min (length out) (length s1); out1 = go_copy out s1 in
           if n = length out then Inr (int n, out1)
           else rbind (go_slice (buf q) 0 (tail q)) (\<lambda>s2.
             Inr (int (n + min (length out - n) (length s2)),
                  take n out1 @ go_copy (drop n out1) s2)))
      else rbind (go_slice (buf q) (head q) (tail q)) (\<lambda>s.
           Inr (int (min (length out) (length s)), go_copy out s)))"

definition AppendToSlice :: "'a list \<Rightarrow> 'a deque \<Rightarrow> 'a list outcome" where
  "AppendToSlice out q =
     (if count q = 0 then Inr out
      else if head q \<ge> tail q
      then rbind (go_slice (buf q) (head q) (Cap q)) (\<lambda>s1.
           rbind (go_slice (buf q) 0 (tail q)) (\<lambda>s2. Inr (out @ s1 @ s2)))
      else rbind (go_slice (buf q) (head q) (tail q)) (\<lambda>s. Inr (out @ s)))"

definition CopyInSlice :: "'a \<Rightarrow> 'a list \<Rightarrow> 'a deque \<Rightarrow> 'a deque outcome" where
  "CopyInSlice z xs q =
     rbind (if Cap q < int (length xs)
            then let q' = (if Cap q = 0 then q\<lparr>minCap := minCapacity\<rparr> else q);
                     newCap = (if Cap q = 0 then minCapacity else Cap q) in
                 rbind (of_option Diverges (doubling newCap (int (length xs)))) (\<lambda>newCap.
                 rbind (go_make z newCap) (\<lambda>b. Inr (q'\<lparr>buf := b\<rparr>)))
            else if Cap q > int (length xs) then Clear z q else Inr q) (\<lambda>q.
     let n = int (min (length (buf q)) (length xs)) in
     Inr (q\<lparr>buf := go_copy (buf q) xs, count := n, tail := n, head := 0\<rparr>))"

text \<open>\<^verbatim>\<open>Copy\<close>, from a queue with a buffer of its own.\<close>

definition Copy :: "'a \<Rightarrow> 'a deque \<Rightarrow> 'a deque \<Rightarrow> (int \<times> 'a deque) outcome" where
  "Copy z src q =
     rbind (Clear z q) (\<lambda>q. rbind (Grow z (Len src) q) (\<lambda>q.
     rbind (CopyOutSlice (buf q) src) (\<lambda>(n, b).
     Inr (n, q\<lparr>buf := b, count := n, tail := n, head := 0\<rparr>))))"

subsection \<open>Rotating, inserting and removing\<close>

fun rotateBack :: "'a \<Rightarrow> nat \<Rightarrow> 'a deque \<Rightarrow> 'a deque outcome" where
  "rotateBack z 0 q = Inr q"
| "rotateBack z (Suc k) q =
     (let h = (head q - 1) AND (Cap q - 1); t = (tail q - 1) AND (Cap q - 1) in
     rbind (go_get (buf q) t) (\<lambda>x. rbind (go_set (buf q) h x) (\<lambda>b. rbind (go_set b t z) (\<lambda>b.
     rotateBack z k (q\<lparr>head := h, tail := t, buf := b\<rparr>)))))"

fun rotateFront :: "'a \<Rightarrow> nat \<Rightarrow> 'a deque \<Rightarrow> 'a deque outcome" where
  "rotateFront z 0 q = Inr q"
| "rotateFront z (Suc k) q =
     rbind (go_get (buf q) (head q)) (\<lambda>x. rbind (go_set (buf q) (tail q) x) (\<lambda>b.
     rbind (go_set b (head q) z) (\<lambda>b.
     rotateFront z k (q\<lparr>head := (head q + 1) AND (Cap q - 1),
                        tail := (tail q + 1) AND (Cap q - 1), buf := b\<rparr>))))"

definition Rotate :: "'a \<Rightarrow> int \<Rightarrow> 'a deque \<Rightarrow> 'a deque outcome" where
  "Rotate z n q =
     (if Len q \<le> 1 then Inr q
      else let n = n smod count q in
        if n = 0 then Inr q
        else if head q = tail q
        then let h = (head q + n) AND (Cap q - 1) in Inr (q\<lparr>head := h, tail := h\<rparr>)
        else if n < 0 then rotateBack z (nat (- n)) q
        else rotateFront z (nat n) q)"

fun swapUp :: "nat \<Rightarrow> int \<Rightarrow> 'a deque \<Rightarrow> 'a deque outcome" where
  "swapUp 0 i q = Inr q"
| "swapUp (Suc k) i q = rbind (swapAt i (nxt q i) q) (\<lambda>q. swapUp k (nxt q i) q)"

fun swapDown :: "nat \<Rightarrow> int \<Rightarrow> 'a deque \<Rightarrow> 'a deque outcome" where
  "swapDown 0 i q = Inr q"
| "swapDown (Suc k) i q = rbind (swapAt i (prev q i) q) (\<lambda>q. swapDown k (prev q i) q)"

definition Insert :: "'a \<Rightarrow> int \<Rightarrow> 'a \<Rightarrow> 'a deque \<Rightarrow> 'a deque outcome" where
  "Insert z at x q =
     (if at \<le> 0 then PushFront z x q
      else if at \<ge> Len q then PushBack z x q
      else if at * 2 < count q
      then rbind (PushFront z x q) (\<lambda>q. swapUp (nat at) (head q) q)
      else let swaps = count q - at in
           rbind (PushBack z x q) (\<lambda>q. swapDown (nat swaps) (prev q (tail q)) q))"

definition Remove :: "'a \<Rightarrow> int \<Rightarrow> 'a deque \<Rightarrow> ('a \<times> 'a deque) outcome" where
  "Remove z at q =
     rbind (checkRange q at) (\<lambda>_.
     let rm = (head q + at) AND (Cap q - 1) in
     if at * 2 < count q
     then rbind (swapDown (nat at) rm q) (\<lambda>q. PopFront z q)
     else rbind (swapUp (nat (count q - at - 1)) rm q) (\<lambda>q. PopBack z q))"

end
