(* ===== verification/DequeRep.thy ===== *)
theory DequeRep
  imports Deque
begin

text \<open>
  The contract of the ring buffer of theory Deque: the abstraction to the list of its elements, and
  the lemma of each operation over it.
\<close>

subsection \<open>The abstraction\<close>

definition contents :: "'a deque \<Rightarrow> 'a list" where
  "contents q = take (nat (count q)) (rotate (nat (head q)) (buf q))"

text \<open>
  The representation invariant.  Read from \<open>head\<close>, the buffer holds the elements and then only
  freed slots, which hold the zero value.
\<close>

definition rep :: "'a \<Rightarrow> 'a deque \<Rightarrow> 'a list \<Rightarrow> bool" where
  "rep z q xs \<longleftrightarrow>
     count q = int (length xs) \<and> length xs \<le> length (buf q) \<and>
     (if buf q = [] then head q = 0 \<and> tail q = 0
      else is_pow2 (Cap q) \<and> 0 \<le> head q \<and> head q < Cap q \<and>
           tail q = (head q + count q) mod Cap q) \<and>
     rotate (nat (head q)) (buf q) = xs @ replicate (length (buf q) - length xs) z \<and>
     (minCap q = 0 \<or> is_pow2 (minCap q))"

definition wf_deque :: "'a \<Rightarrow> 'a deque \<Rightarrow> bool" where
  "wf_deque z q \<longleftrightarrow> rep z q (contents q)"

lemma rep_contents: "rep z q xs \<Longrightarrow> contents q = xs"
  by (auto simp: rep_def contents_def)

lemma rep_wf: "rep z q xs \<Longrightarrow> wf_deque z q"
  by (simp add: wf_deque_def rep_contents)

lemma rep_empty [simp]: "rep z emptyDeque []"
  by (simp add: rep_def emptyDeque_def)

lemma rep_count: "rep z q xs \<Longrightarrow> count q = int (length xs)"
  by (simp add: rep_def)

text \<open>A queue with a buffer, its indexes as natural numbers.\<close>

lemma rep_nonempty_buf:
  assumes r: "rep z q xs" and ne: "buf q \<noteq> []"
  obtains h where "head q = int h" "h < length (buf q)" "count q = int (length xs)"
    "length xs \<le> length (buf q)" "tail q = int ((h + length xs) mod length (buf q))"
    "is_pow2 (int (length (buf q)))"
    "rotate h (buf q) = xs @ replicate (length (buf q) - length xs) z"
    "minCap q = 0 \<or> is_pow2 (minCap q)"
proof -
  have c: "count q = int (length xs)" and h0: "0 \<le> head q" and h1: "head q < int (length (buf q))"
    and t: "tail q = (head q + int (length xs)) mod int (length (buf q))"
    and rest: "length xs \<le> length (buf q)" "is_pow2 (int (length (buf q)))"
    "rotate (nat (head q)) (buf q) = xs @ replicate (length (buf q) - length xs) z"
    "minCap q = 0 \<or> is_pow2 (minCap q)"
    using r ne unfolding rep_def Cap_def by simp_all
  have h: "head q = int (nat (head q))" using h0 by simp
  have "tail q = int ((nat (head q) + length xs) mod length (buf q))"
    unfolding t by (subst h) (simp only: of_nat_add [symmetric] zmod_int)
  with h0 h1 c rest show thesis by (intro that [of "nat (head q)"]) simp_all
qed

lemma repI:
  assumes "buf q \<noteq> []" "head q = int h" "h < length (buf q)" "count q = int (length xs)"
    "length xs \<le> length (buf q)" "tail q = int ((h + length xs) mod length (buf q))"
    "is_pow2 (int (length (buf q)))"
    "rotate h (buf q) = xs @ replicate (length (buf q) - length xs) z"
    "minCap q = 0 \<or> is_pow2 (minCap q)"
  shows "rep z q xs"
  unfolding rep_def Cap_def using assms by (simp add: zmod_int)

subsection \<open>Rotation lemmas\<close>

lemma add_mod_cancel:
  "(h + i) mod n = (h + j) mod n \<Longrightarrow> i < n \<Longrightarrow> j < n \<Longrightarrow> i = j" for h i j n :: nat
proof (induction i j rule: linorder_wlog)
  case (le i j)
  then have "n dvd (h + j) - (h + i)" by (intro mod_eq_dvd_iff_nat [THEN iffD1]) simp_all
  then have "n dvd j - i" by simp
  with le show ?case by (metis dvd_imp_le diff_is_0_eq le_antisym less_imp_diff_less not_less zero_less_iff_neq_zero)
next
  case (sym i j)
  then show ?case by simp
qed

lemma rotate_update:
  assumes "i < length xs"
  shows "rotate h (xs[(h + i) mod length xs := x]) = (rotate h xs)[i := x]"
proof (rule nth_equalityI)
  fix j assume "j < length (rotate h (xs[(h + i) mod length xs := x]))"
  then have j: "j < length xs" by simp
  have "(h + j) mod length xs = (h + i) mod length xs \<longleftrightarrow> j = i"
    using assms j by (auto dest: add_mod_cancel)
  moreover have "(h + i) mod length xs < length xs"
    using assms by (intro mod_less_divisor) auto
  ultimately show "rotate h (xs[(h + i) mod length xs := x]) ! j = (rotate h xs)[i := x] ! j"
    using assms j by (auto simp: nth_rotate nth_list_update)
qed simp

lemma rotate_at: "i < length xs \<Longrightarrow> xs ! ((h + i) mod length xs) = rotate h xs ! i"
  by (simp add: nth_rotate)

lemma rotate_next: "rotate (Suc h mod length xs) xs = rotate1 (rotate h xs)"
  by (metis rotate_Suc rotate_conv_mod)

lemma rotate_prev:
  assumes "xs \<noteq> []"
  shows "rotate ((h + length xs - 1) mod length xs) xs = last (rotate h xs) # butlast (rotate h xs)"
proof -
  let ?r = "rotate ((h + length xs - 1) mod length xs) xs"
  have "Suc (h + length xs - 1) = h + length xs" using assms by (cases xs) auto
  then have "rotate1 ?r = rotate h xs"
    by (metis rotate_Suc rotate_conv_mod mod_add_self2)
  moreover from assms have "?r \<noteq> []" by simp
  ultimately have "rotate h xs = tl ?r @ [hd ?r]" by (metis rotate1_hd_tl)
  with \<open>?r \<noteq> []\<close> show ?thesis by simp
qed

subsection \<open>Resizing\<close>

lemma contents_segments:
  assumes "h < length b" "length xs \<le> length b" "xs \<noteq> []"
    and rot: "rotate h b = xs @ replicate (length b - length xs) z"
    and t: "t = (h + length xs) mod length b"
  shows "h < t \<Longrightarrow> take (t - h) (drop h b) = xs"
    and "\<not> h < t \<Longrightarrow> drop h b @ take t b = xs"
proof -
  have r: "rotate h b = drop h b @ take h b"
    using assms(1) by (simp add: rotate_drop_take)
  then have xs: "xs = take (length xs) (drop h b @ take h b)"
    by (metis append_eq_conv_conj rot)
  have t_cases: "t = (if h + length xs < length b then h + length xs else h + length xs - length b)"
    using assms by (auto simp: mod_if)
  show "take (t - h) (drop h b) = xs" if "h < t"
  proof -
    have "t = h + length xs" using that t_cases assms by (auto split: if_splits)
    moreover from this t_cases assms(1,3) have "h + length xs < length b"
      by (auto split: if_splits)
    ultimately show ?thesis using xs by simp
  qed
  show "drop h b @ take t b = xs" if "\<not> h < t"
  proof -
    have "\<not> h + length xs < length b" using that t_cases assms(3) by auto
    then have "take (length xs) (drop h b @ take h b) = drop h b @ take t b"
      using t_cases assms by (auto simp: min_def add.commute)
    with xs show ?thesis by simp
  qed
qed

lemma resize_eq:
  assumes r: "rep z q xs" and ne: "buf q \<noteq> []" "xs \<noteq> []" and n: "int (length xs) \<le> n"
  shows "resize z n q = Inr (q\<lparr>head := 0, tail := count q,
           buf := xs @ replicate (nat n - length xs) z\<rparr>)"
proof -
  from rep_nonempty_buf [OF r ne(1)] obtain h where h: "head q = int h" "h < length (buf q)"
    and l: "length xs \<le> length (buf q)" and t: "tail q = int ((h + length xs) mod length (buf q))"
    and rot: "rotate h (buf q) = xs @ replicate (length (buf q) - length xs) z" .
  define t' where "t' = (h + length xs) mod length (buf q)"
  have t': "tail q = int t'" "t' < length (buf q)" using t h by (auto simp: t'_def intro!: mod_less_divisor)
  note seg = contents_segments [OF h(2) l ne(2) rot t'_def]
  have n0: "length xs \<le> nat n" using n by simp
  show ?thesis
  proof (cases "h < t'")
    case True
    with seg have "take (t' - h) (drop h (buf q)) = xs" by simp
    with True t' h n n0 show ?thesis
      by (simp add: resize_def go_copy_def)
  next
    case False
    with seg have xs: "drop h (buf q) @ take t' (buf q) = xs" by simp
    then have len: "length (buf q) - h + t' = length xs"
      using h t' by (metis length_append length_drop length_take less_imp_le min.absorb2)
    have bound: "length (buf q) - h \<le> nat n" "t' \<le> nat n - (length (buf q) - h)"
      using len n0 by simp_all
    have "nat n - (length (buf q) - h) - t' = nat n - length xs" using len by simp
    moreover have "resize z n q = Inr (q\<lparr>head := 0, tail := count q,
        buf := (drop h (buf q) @ take t' (buf q)) @
               replicate (nat n - (length (buf q) - h) - t') z\<rparr>)"
      using False t' h n bound by (simp add: resize_def go_copy_replicate Cap_def)
    ultimately show ?thesis by (simp only: xs)
  qed
qed

lemma rep_front:
  assumes "count q = int (length xs)" "head q = 0" "tail q = int (length xs)"
    "buf q = xs @ replicate k z" "0 < k" "is_pow2 (Cap q)" "minCap q = 0 \<or> is_pow2 (minCap q)"
  shows "rep z q xs"
  using assms by (intro repI [where h = 0]) (simp_all add: Cap_def)

lemma resize_rep:
  assumes r: "rep z q xs" and "buf q \<noteq> []" "xs \<noteq> []" "int (length xs) < n" "is_pow2 n"
  shows "\<exists>q'. resize z n q = Inr q' \<and> rep z q' xs \<and> Cap q' = n \<and> minCap q' = minCap q"
proof -
  have "count q = int (length xs)" "minCap q = 0 \<or> is_pow2 (minCap q)"
    using r by (simp_all add: rep_def)
  moreover have "nat n = length xs + (nat n - length xs)" "length xs < nat n"
    using assms(4) by simp_all
  ultimately show ?thesis
    using assms by (simp add: resize_eq)
      (intro conjI rep_front [where k = "nat n - length xs"]; simp add: Cap_def)
qed

lemma growIfFull_rep:
  assumes r: "rep z q xs"
  shows "\<exists>q'. growIfFull z q = Inr q' \<and> rep z q' xs \<and> buf q' \<noteq> [] \<and> length xs < length (buf q')"
proof (cases "count q = Cap q")
  case False
  moreover have "length xs \<le> length (buf q)" "count q = int (length xs)"
    using r by (simp_all add: rep_def)
  ultimately have "length xs < length (buf q)" by (simp add: Cap_def)
  with False r show ?thesis by (auto simp: growIfFull_def)
next
  case full: True
  have c: "count q = int (length xs)" and m: "minCap q = 0 \<or> is_pow2 (minCap q)"
    using r by (simp_all add: rep_def)
  show ?thesis
  proof (cases "buf q = []")
    case True
    define m' where "m' = (if minCap q = 0 then 8 else minCap q)"
    have m': "is_pow2 m'" "0 < m'" using m by (auto simp: m'_def dest: is_pow2_pos)
    have "xs = []" "head q = 0" "tail q = 0" using full True c r by (simp_all add: Cap_def rep_def)
    with True full c m' have
      "rep z (q\<lparr>minCap := m', buf := replicate (nat m') z\<rparr>) xs"
      by (intro rep_front [where k = "nat m'"]) (simp_all add: Cap_def)
    moreover have "growIfFull z q = Inr (q\<lparr>minCap := m', buf := replicate (nat m') z\<rparr>)"
      using True full m' by (auto simp: growIfFull_def Cap_def m'_def minCapacity_def)
    ultimately show ?thesis using m' \<open>xs = []\<close> by simp
  next
    case False
    with c full have xs: "xs \<noteq> []" by (auto simp: Cap_def)
    have "is_pow2 (2 * count q)"
      using r full False by (metis is_pow2_double rep_def)
    with resize_rep [OF r False xs, of "2 * count q"] xs c obtain q' where
      q': "resize z (2 * count q) q = Inr q'" "rep z q' xs" "Cap q' = 2 * count q" by auto
    moreover have "0 < length xs" using xs by simp
    moreover from this have "length xs < length (buf q')" using q'(3) c unfolding Cap_def by linarith
    ultimately show ?thesis using full False by (auto simp: growIfFull_def Cap_def)
  qed
qed

lemma shrinkIfExcess_rep:
  assumes r: "rep z q xs"
  shows "\<exists>q'. shrinkIfExcess z q = Inr q' \<and> rep z q' xs"
proof (cases "Cap q > minCap q \<and> 4 * count q = Cap q")
  case False
  with r show ?thesis by (auto simp: shrinkIfExcess_def)
next
  case True
  have c: "count q = int (length xs)" and m: "0 \<le> minCap q"
    using r by (auto simp: rep_def dest: is_pow2_pos)
  with True have ne: "buf q \<noteq> []" "xs \<noteq> []" by (auto simp: Cap_def)
  with r True have "is_pow2 (2 * (2 * count q))" by (simp add: rep_def)
  then have "is_pow2 (2 * count q)" by (rule is_pow2_half)
  with resize_rep [OF r ne, of "2 * count q"] True ne c show ?thesis
    by (simp add: shrinkIfExcess_def) blast
qed

subsection \<open>Pushing and popping\<close>

lemma nxt_nat:
  "is_pow2 (int (length (buf q))) \<Longrightarrow> nxt q (int h) = int (Suc h mod length (buf q))"
  by (simp add: nxt_def Cap_def and_mask_mod zmod_int add.commute)

lemma prev_nat:
  assumes "is_pow2 (int (length (buf q)))"
  shows "prev q (int t) = int ((t + length (buf q) - 1) mod length (buf q))"
proof -
  have "0 < length (buf q)" using is_pow2_pos [OF assms] by simp
  then have "int ((t + length (buf q) - 1) mod length (buf q)) =
             (int t - 1 + int (length (buf q))) mod int (length (buf q))"
    by (cases "length (buf q)") (simp_all add: zmod_int algebra_simps)
  then show ?thesis using assms by (simp add: prev_def Cap_def and_mask_mod)
qed

lemma replicate_room:
  assumes "m < n"
  shows "replicate (n - m) z = z # replicate (n - Suc m) z"
    and "replicate (n - m) z = replicate (n - Suc m) z @ [z]"
proof -
  from assms have n: "n - m = Suc (n - Suc m)" by simp
  show "replicate (n - m) z = z # replicate (n - Suc m) z" by (subst n) simp
  then show "replicate (n - m) z = replicate (n - Suc m) z @ [z]"
    by (simp add: replicate_append_same)
qed

lemma pushBack_slot:
  assumes r: "rep z q xs" and room: "length xs < length (buf q)"
  shows "\<exists>b. go_set (buf q) (tail q) x = Inr b \<and>
     rep z (q\<lparr>buf := b, tail := nxt (q\<lparr>buf := b\<rparr>) (tail q), count := count q + 1\<rparr>) (xs @ [x])"
proof -
  from room have ne: "buf q \<noteq> []" by auto
  from rep_nonempty_buf [OF r ne] obtain h where h: "head q = int h" "h < length (buf q)"
    and c: "count q = int (length xs)"
    and t: "tail q = int ((h + length xs) mod length (buf q))"
    and p: "is_pow2 (int (length (buf q)))" and m: "minCap q = 0 \<or> is_pow2 (minCap q)"
    and rot: "rotate h (buf q) = xs @ replicate (length (buf q) - length xs) z" .
  let ?t = "(h + length xs) mod length (buf q)"
  have t0: "?t < length (buf q)" using ne by simp
  define b where "b = (buf q)[?t := x]"
  have "rotate h b = (xs @ replicate (length (buf q) - length xs) z)[length xs := x]"
    by (simp add: b_def rotate_update room rot)
  moreover have "replicate (length (buf q) - length xs) z = z # replicate (length (buf q) - Suc (length xs)) z"
    using room by (rule replicate_room)
  ultimately have rb: "rotate h b = (xs @ [x]) @ replicate (length b - length (xs @ [x])) z"
    by (simp add: b_def)
  have "rep z (q\<lparr>buf := b, tail := nxt (q\<lparr>buf := b\<rparr>) (tail q), count := count q + 1\<rparr>) (xs @ [x])"
    using ne h c t p m rb room
    by (intro repI [where h = h]) (simp_all add: b_def nxt_nat mod_Suc_eq)
  then show ?thesis using t t0 by (auto simp: b_def)
qed

lemma pushFront_slot:
  assumes r: "rep z q xs" and room: "length xs < length (buf q)"
  shows "\<exists>b. go_set (buf q) (prev q (head q)) x = Inr b \<and>
     rep z (q\<lparr>head := prev q (head q), buf := b, count := count q + 1\<rparr>) (x # xs)"
proof -
  from room have ne: "buf q \<noteq> []" by auto
  from rep_nonempty_buf [OF r ne] obtain h where h: "head q = int h" "h < length (buf q)"
    and c: "count q = int (length xs)"
    and t: "tail q = int ((h + length xs) mod length (buf q))"
    and p: "is_pow2 (int (length (buf q)))" and m: "minCap q = 0 \<or> is_pow2 (minCap q)"
    and rot: "rotate h (buf q) = xs @ replicate (length (buf q) - length xs) z" .
  let ?n = "length (buf q)"
  let ?h = "(h + ?n - 1) mod ?n"
  have h0: "?h < ?n" using ne by simp
  have ph: "prev q (head q) = int ?h" using h p by (simp add: prev_nat)
  define b where "b = (buf q)[?h := x]"
  have "rotate ?h b = (rotate ?h (buf q))[0 := x]"
    using rotate_update [of 0 "buf q" ?h x] ne by (simp add: b_def)
  also have "rotate ?h (buf q) = z # xs @ replicate (?n - Suc (length xs)) z"
    using rotate_prev [OF ne, of h] room
    by (simp add: rot butlast_append replicate_room(2))
  finally have rb: "rotate ?h b = (x # xs) @ replicate (length b - length (x # xs)) z"
    by (simp add: b_def)
  have "(?h + Suc (length xs)) mod ?n = (h + length xs) mod ?n"
  proof -
    have "(?h + Suc (length xs)) mod ?n = (h + ?n - 1 + Suc (length xs)) mod ?n"
      by (simp add: mod_add_left_eq del: add_Suc_right)
    also have "h + ?n - 1 + Suc (length xs) = h + length xs + ?n" using ne by (cases ?n) auto
    finally show ?thesis by simp
  qed
  then have "rep z (q\<lparr>head := prev q (head q), buf := b, count := count q + 1\<rparr>) (x # xs)"
    using ne c t p m rb room h0 ph
    by (intro repI [where h = ?h]) (simp_all add: b_def)
  then show ?thesis using ph h0 by (auto simp: b_def)
qed

lemma PushBack_rep:
  assumes "rep z q xs"
  shows "\<exists>q'. PushBack z x q = Inr q' \<and> rep z q' (xs @ [x])"
proof -
  from growIfFull_rep [OF assms] obtain q1 where g: "growIfFull z q = Inr q1"
    and r: "rep z q1 xs" and room: "length xs < length (buf q1)" by blast
  from pushBack_slot [OF r room, of x] g show ?thesis
    by (auto simp: PushBack_def Let_def)
qed

lemma PushFront_rep:
  assumes "rep z q xs"
  shows "\<exists>q'. PushFront z x q = Inr q' \<and> rep z q' (x # xs)"
proof -
  from growIfFull_rep [OF assms] obtain q1 where g: "growIfFull z q = Inr q1"
    and r: "rep z q1 xs" and room: "length xs < length (buf q1)" by blast
  from pushFront_slot [OF r room, of x] g show ?thesis
    by (auto simp: PushFront_def Let_def)
qed

lemma takeFront_rep:
  assumes r: "rep z q (x # xs)"
  shows "\<exists>q'. takeFront z q = Inr (x, q') \<and> rep z q' xs \<and> Cap q' = Cap q \<and> minCap q' = minCap q"
proof -
  from r have ne: "buf q \<noteq> []" by (auto simp: rep_def)
  from rep_nonempty_buf [OF r ne] obtain h where h: "head q = int h" "h < length (buf q)"
    and c: "count q = int (length (x # xs))" and l: "length (x # xs) \<le> length (buf q)"
    and t: "tail q = int ((h + length (x # xs)) mod length (buf q))"
    and p: "is_pow2 (int (length (buf q)))" and m: "minCap q = 0 \<or> is_pow2 (minCap q)"
    and rot: "rotate h (buf q) = (x # xs) @ replicate (length (buf q) - length (x # xs)) z" .
  let ?n = "length (buf q)"
  let ?b = "(buf q)[h := z]"
  have "buf q ! h = rotate h (buf q) ! 0" using rotate_at [of 0 "buf q" h] h ne by simp
  then have x: "buf q ! h = x" by (simp add: rot)
  have "rotate (Suc h mod length ?b) ?b = rotate1 (rotate h ?b)" by (rule rotate_next)
  also have "rotate h ?b = (rotate h (buf q))[0 := z]"
    using rotate_update [of 0 "buf q" h z] h ne by simp
  finally have rb: "rotate (Suc h mod ?n) ?b = xs @ replicate (?n - length xs) z"
    using l replicate_room(2) [of "length xs" ?n z] by (simp add: rot)
  have "(Suc h mod ?n + length xs) mod ?n = (h + length (x # xs)) mod ?n"
    by (simp add: mod_add_left_eq)
  with ne c t p m rb l h have
    "rep z (q\<lparr>buf := ?b, head := nxt q (head q), count := count q - 1\<rparr>) xs"
    by (intro repI [where h = "Suc h mod ?n"]) (simp_all add: nxt_nat)
  with x h show ?thesis by (simp add: takeFront_def Cap_def)
qed

lemma takeBack_rep:
  assumes r: "rep z q (xs @ [x])"
  shows "\<exists>q'. takeBack z q = Inr (x, q') \<and> rep z q' xs \<and> Cap q' = Cap q \<and> minCap q' = minCap q"
proof -
  from r have ne: "buf q \<noteq> []" by (auto simp: rep_def)
  from rep_nonempty_buf [OF r ne] obtain h where h: "head q = int h" "h < length (buf q)"
    and c: "count q = int (length (xs @ [x]))" and l: "length (xs @ [x]) \<le> length (buf q)"
    and t: "tail q = int ((h + length (xs @ [x])) mod length (buf q))"
    and p: "is_pow2 (int (length (buf q)))" and m: "minCap q = 0 \<or> is_pow2 (minCap q)"
    and rot: "rotate h (buf q) = (xs @ [x]) @ replicate (length (buf q) - length (xs @ [x])) z" .
  let ?n = "length (buf q)"
  let ?t = "(h + length xs) mod ?n"
  have lx: "length xs < ?n" using l by simp
  have t0: "?t < ?n" using ne by simp
  have "prev q (tail q) = int (((h + Suc (length xs)) mod ?n + ?n - 1) mod ?n)"
    using t p by (simp add: prev_nat)
  also have "((h + Suc (length xs)) mod ?n + ?n - 1) mod ?n = ?t"
  proof -
    obtain k where k: "?n = Suc k" using ne by (cases ?n) auto
    have "((h + Suc (length xs)) mod ?n + k) mod ?n = (h + Suc (length xs) + k) mod ?n"
      by (rule mod_add_left_eq)
    moreover have "h + Suc (length xs) + k = h + length xs + ?n" using k by simp
    moreover have "(h + Suc (length xs)) mod ?n + ?n - 1 = (h + Suc (length xs)) mod ?n + k"
      using k by simp
    ultimately show ?thesis by (simp only: mod_add_self2)
  qed
  finally have pt: "prev q (tail q) = int ?t" .
  have x: "buf q ! ?t = x" using rotate_at [OF lx, of h] by (simp add: rot)
  have rb: "rotate h ((buf q)[?t := z]) = xs @ replicate (?n - length xs) z"
    using lx replicate_room(1) [OF lx, of z] by (simp add: rotate_update rot)
  from ne c t p m rb l h pt t0 have
    "rep z (q\<lparr>tail := prev q (tail q), buf := (buf q)[?t := z], count := count q - 1\<rparr>) xs"
    by (intro repI [where h = h]) simp_all
  with x pt t0 show ?thesis by (simp add: takeBack_def Let_def Cap_def)
qed

lemma PopFront_rep:
  assumes r: "rep z q (x # xs)"
  shows "\<exists>q'. PopFront z q = Inr (x, q') \<and> rep z q' xs"
proof -
  from takeFront_rep [OF r] obtain q1 where t: "takeFront z q = Inr (x, q1)" and r1: "rep z q1 xs"
    by blast
  moreover have "0 < count q" using r by (simp add: rep_count)
  ultimately show ?thesis using shrinkIfExcess_rep [OF r1] by (auto simp: PopFront_def)
qed

lemma PopBack_rep:
  assumes r: "rep z q (xs @ [x])"
  shows "\<exists>q'. PopBack z q = Inr (x, q') \<and> rep z q' xs"
proof -
  from takeBack_rep [OF r] obtain q1 where t: "takeBack z q = Inr (x, q1)" and r1: "rep z q1 xs"
    by blast
  moreover have "0 < count q" using r by (simp add: rep_count)
  ultimately show ?thesis using shrinkIfExcess_rep [OF r1] by (auto simp: PopBack_def)
qed

lemma Pop_empty:
  assumes "rep z q []"
  shows "PopFront z q = Inl (Panic ''deque: PopFront() called on empty queue'')"
    and "PopBack z q = Inl (Panic ''deque: PopBack() called on empty queue'')"
  using assms by (simp_all add: PopFront_def PopBack_def rep_count)

end
