(* ===== verification/DequeOps.thy ===== *)
theory DequeOps
  imports DequeRep
begin

text \<open>
  The remaining operations of the ring buffer over its representation: access by position, the
  swaps behind \<open>Insert\<close> and \<open>Remove\<close>, rotation, growing, copying and draining.
\<close>

subsection \<open>Access by position\<close>

definition slot :: "'a deque \<Rightarrow> nat \<Rightarrow> int" where
  "slot q i = (head q + int i) AND (Cap q - 1)"

lemma slot_nat:
  assumes "rep z q xs" "buf q \<noteq> []"
  shows "slot q i = int ((nat (head q) + i) mod length (buf q))"
  using assms by (auto simp: slot_def Cap_def and_mask_mod zmod_int elim!: rep_nonempty_buf)

lemma slot_mod:
  assumes "rep z q xs" "buf q \<noteq> []"
  shows "0 \<le> slot q i" "slot q i < int (length (buf q))"
  using assms by (simp_all add: slot_nat)

lemma rep_ne: "rep z q xs \<Longrightarrow> xs \<noteq> [] \<Longrightarrow> buf q \<noteq> []"
  by (auto simp: rep_def)

lemma slot_get:
  assumes r: "rep z q xs" and i: "i < length xs"
  shows "go_get (buf q) (slot q i) = Inr (xs ! i)"
proof -
  have ne: "buf q \<noteq> []" using rep_ne [OF r] i by (cases xs) auto
  have rot: "rotate (nat (head q)) (buf q) = xs @ replicate (length (buf q) - length xs) z"
    and l: "length xs \<le> length (buf q)" using r by (simp_all add: rep_def)
  have "buf q ! ((nat (head q) + i) mod length (buf q)) = xs ! i"
    using rotate_at [of i "buf q" "nat (head q)"] i l by (simp add: rot nth_append)
  with slot_nat [OF r ne] ne show ?thesis by simp
qed

lemma slot_set:
  assumes r: "rep z q xs" and i: "i < length xs"
  shows "\<exists>b. go_set (buf q) (slot q i) x = Inr b \<and> rep z (q\<lparr>buf := b\<rparr>) (xs[i := x]) \<and>
             length b = length (buf q)"
proof -
  have ne: "buf q \<noteq> []" using rep_ne [OF r] i by (cases xs) auto
  from rep_nonempty_buf [OF r ne] obtain h where h: "head q = int h" "h < length (buf q)"
    and c: "count q = int (length xs)" and l: "length xs \<le> length (buf q)"
    and t: "tail q = int ((h + length xs) mod length (buf q))"
    and p: "is_pow2 (int (length (buf q)))" and m: "minCap q = 0 \<or> is_pow2 (minCap q)"
    and rot: "rotate h (buf q) = xs @ replicate (length (buf q) - length xs) z" .
  let ?i = "(h + i) mod length (buf q)"
  have "rotate h ((buf q)[?i := x]) = xs[i := x] @ replicate (length (buf q) - length xs) z"
    using i l by (simp add: rotate_update rot list_update_append)
  with ne h c l t p m have "rep z (q\<lparr>buf := (buf q)[?i := x]\<rparr>) (xs[i := x])"
    by (intro repI [where h = h]) simp_all
  moreover have "slot q i = int ?i" using slot_nat [OF r ne] h by simp
  ultimately show ?thesis using ne by simp
qed

lemma checkRange_rep:
  "rep z q xs \<Longrightarrow> 0 \<le> i \<Longrightarrow> i < int (length xs) \<Longrightarrow> checkRange q i = Inr ()"
  "rep z q xs \<Longrightarrow> i < 0 \<or> int (length xs) \<le> i \<Longrightarrow>
     checkRange q i = Inl (Panic ''deque: index out of range'')"
  by (auto simp: checkRange_def rep_count)

lemma At_rep: "rep z q xs \<Longrightarrow> i < length xs \<Longrightarrow> At q (int i) = Inr (xs ! i)"
  using slot_get [of z q xs i] by (simp add: At_def checkRange_rep slot_def)

lemma Set_rep:
  assumes r: "rep z q xs" and i: "i < length xs"
  shows "\<exists>q'. Set (int i) x q = Inr q' \<and> rep z q' (xs[i := x])"
  using slot_set [OF assms, of x] assms by (auto simp: Set_def checkRange_rep slot_def)

lemma tail_slot:
  assumes r: "rep z q xs" and ne: "buf q \<noteq> []"
  shows "tail q = slot q (length xs)" "head q = slot q 0"
  using assms by (auto simp: slot_nat [OF assms] elim!: rep_nonempty_buf)

lemma slot_next:
  assumes r: "rep z q xs" and ne: "buf q \<noteq> []"
  shows "nxt q (slot q i) = slot q (Suc i)"
proof -
  have "is_pow2 (int (length (buf q)))" using assms by (auto elim: rep_nonempty_buf)
  then show ?thesis by (simp add: slot_nat [OF assms] nxt_nat mod_Suc_eq)
qed

lemma slot_prev:
  assumes r: "rep z q xs" and ne: "buf q \<noteq> []"
  shows "prev q (slot q (Suc i)) = slot q i"
proof -
  have p: "is_pow2 (int (length (buf q)))" using assms by (auto elim: rep_nonempty_buf)
  obtain k where k: "length (buf q) = Suc k" using ne by (cases "length (buf q)") auto
  let ?h = "nat (head q)"
  have "((?h + Suc i) mod length (buf q) + k) mod length (buf q) =
        (?h + Suc i + k) mod length (buf q)" by (rule mod_add_left_eq)
  also have "?h + Suc i + k = ?h + i + length (buf q)" using k by simp
  also have "(?h + i + length (buf q)) mod length (buf q) = (?h + i) mod length (buf q)" by simp
  finally show ?thesis
    using k by (simp add: slot_nat [OF assms] prev_nat [OF p])
qed

lemma Front_rep: "rep z q (x # xs) \<Longrightarrow> Front q = Inr x"
  using slot_get [of z q "x # xs" 0] tail_slot(2) [of z q "x # xs"] rep_ne [of z q "x # xs"]
  by (simp add: Front_def rep_count)

lemma Back_rep: "rep z q (xs @ [x]) \<Longrightarrow> Back q = Inr x"
  using slot_get [of z q "xs @ [x]" "length xs"] tail_slot(1) [of z q "xs @ [x]"]
    slot_prev [of z q "xs @ [x]" "length xs"] rep_ne [of z q "xs @ [x]"]
  by (simp add: Back_def rep_count)

subsection \<open>Swaps\<close>

lemma swapAt_rep:
  assumes r: "rep z q xs" and i: "i < length xs" "j < length xs"
  shows "\<exists>q'. swapAt (slot q i) (slot q j) q = Inr q' \<and> rep z q' (xs[i := xs ! j, j := xs ! i]) \<and>
              head q' = head q \<and> Cap q' = Cap q"
proof -
  from slot_set [OF r i(1)] obtain b where b: "go_set (buf q) (slot q i) (xs ! j) = Inr b"
    and rb: "rep z (q\<lparr>buf := b\<rparr>) (xs[i := xs ! j])" and lb: "length b = length (buf q)" by blast
  have "slot (q\<lparr>buf := b\<rparr>) j = slot q j" using lb by (simp add: slot_def Cap_def)
  with slot_set [OF rb, of j "xs ! i"] i obtain b' where "go_set b (slot q j) (xs ! i) = Inr b'"
    "rep z (q\<lparr>buf := b'\<rparr>) (xs[i := xs ! j, j := xs ! i])" "length b' = length b" by auto
  with b lb slot_get [OF r i(1)] slot_get [OF r i(2)] show ?thesis
    by (simp add: swapAt_def Cap_def)
qed

lemma swap_adjacent:
  assumes "rep z q (as @ x # y # cs)"
  shows "\<exists>q'. swapAt (slot q (length as)) (slot q (Suc (length as))) q = Inr q' \<and>
              rep z q' (as @ y # x # cs) \<and> head q' = head q \<and> Cap q' = Cap q"
    and "\<exists>q'. swapAt (slot q (Suc (length as))) (slot q (length as)) q = Inr q' \<and>
              rep z q' (as @ y # x # cs) \<and> head q' = head q \<and> Cap q' = Cap q"
  using swapAt_rep [OF assms, of "length as" "Suc (length as)"]
    swapAt_rep [OF assms, of "Suc (length as)" "length as"]
  by (simp_all add: nth_append list_update_append)

lemma slot_cong: "head q' = head q \<Longrightarrow> Cap q' = Cap q \<Longrightarrow> slot q' i = slot q i"
  by (simp add: slot_def)

lemma swapUp_rep:
  "rep z q (as @ x # bs @ cs) \<Longrightarrow>
   \<exists>q'. swapUp (length bs) (slot q (length as)) q = Inr q' \<and> rep z q' (as @ bs @ x # cs)"
proof (induction bs arbitrary: q as)
  case Nil
  then show ?case by simp
next
  case (Cons b bs)
  from Cons.prems have r: "rep z q (as @ x # b # bs @ cs)" by simp
  have nx: "nxt q (slot q (length as)) = slot q (Suc (length as))"
    using slot_next [OF r] rep_ne [OF r] by simp
  from swap_adjacent(1) [OF r] obtain q1 where
    q1: "swapAt (slot q (length as)) (slot q (Suc (length as))) q = Inr q1"
      "rep z q1 ((as @ [b]) @ x # bs @ cs)" "head q1 = head q" "Cap q1 = Cap q" by auto
  have "nxt q1 (slot q (length as)) = slot q1 (length (as @ [b]))"
    using q1 nx by (simp add: nxt_def slot_def)
  with Cons.IH [OF q1(2)] q1(1) nx show ?case by simp
qed

lemma swapDown_rep:
  "rep z q (as @ bs @ x # cs) \<Longrightarrow>
   \<exists>q'. swapDown (length bs) (slot q (length as + length bs)) q = Inr q' \<and>
        rep z q' (as @ x # bs @ cs)"
proof (induction bs arbitrary: q cs rule: rev_induct)
  case Nil
  then show ?case by simp
next
  case (snoc b bs)
  from snoc.prems have r: "rep z q ((as @ bs) @ b # x # cs)" by simp
  have pv: "prev q (slot q (Suc (length as + length bs))) = slot q (length as + length bs)"
    using slot_prev [OF r] rep_ne [OF r] by simp
  from swap_adjacent(2) [OF r] obtain q1 where
    q1: "swapAt (slot q (Suc (length as + length bs))) (slot q (length as + length bs)) q = Inr q1"
      "rep z q1 (as @ bs @ x # b # cs)" "head q1 = head q" "Cap q1 = Cap q" by auto
  have "prev q1 (slot q (Suc (length as + length bs))) = slot q1 (length as + length bs)"
    using q1 pv by (simp add: prev_def slot_def)
  with snoc.IH [OF q1(2)] q1(1) pv show ?case by simp
qed

lemma Swap_rep:
  assumes "rep z q xs" "i < length xs" "j < length xs"
  shows "\<exists>q'. Swap (int i) (int j) q = Inr q' \<and> rep z q' (xs[i := xs ! j, j := xs ! i])"
  using swapAt_rep [OF assms] assms by (auto simp: Swap_def checkRange_rep slot_def)

lemma Insert_rep:
  assumes r: "rep z q xs"
  shows "\<exists>q'. Insert z at x q = Inr q' \<and> rep z q' (take (nat at) xs @ x # drop (nat at) xs)"
proof -
  note c = rep_count [OF r]
  consider "at \<le> 0" | "0 < at" "int (length xs) \<le> at"
    | k where "at = int k" "k < length xs" "0 < k" "2 * k < length xs"
    | k where "at = int k" "k < length xs" "0 < k" "\<not> 2 * k < length xs"
    by (cases "at \<le> 0"; cases "int (length xs) \<le> at")
      (auto, metis nonneg_int_cases less_imp_le not_le of_nat_0_less_iff of_nat_less_iff)
  then show ?thesis
  proof cases
    case 1
    with PushFront_rep [OF r] show ?thesis by (simp add: Insert_def)
  next
    case 2
    with PushBack_rep [OF r] c show ?thesis by (simp add: Insert_def Len_def)
  next
    case (3 k)
    from PushFront_rep [OF r, of x] obtain q1 where q1: "PushFront z x q = Inr q1" "rep z q1 (x # xs)"
      by blast
    have "head q1 = slot q1 0" using tail_slot(2) [OF q1(2)] rep_ne [OF q1(2)] by simp
    with swapUp_rep [of z q1 "[]" x "take k xs" "drop k xs"] q1 3 c show ?thesis
      by (simp add: Insert_def Len_def)
  next
    case (4 k)
    from PushBack_rep [OF r, of x] obtain q1 where q1: "PushBack z x q = Inr q1" "rep z q1 (xs @ [x])"
      by blast
    have "prev q1 (tail q1) = slot q1 (length xs)"
      using tail_slot(1) [OF q1(2)] slot_prev [OF q1(2)] rep_ne [OF q1(2)] by simp
    moreover have "rep z q1 (take k xs @ drop k xs @ x # [])"
      using q1 by (simp flip: append_assoc)
    ultimately show ?thesis
      using swapDown_rep [of z q1 "take k xs" "drop k xs" x "[]"] q1 4 c
      by (simp add: Insert_def Len_def nat_diff_distrib)
  qed
qed

lemma Remove_rep:
  assumes r: "rep z q (as @ x # bs)"
  shows "\<exists>q'. Remove z (int (length as)) q = Inr (x, q') \<and> rep z q' (as @ bs)"
proof (cases "2 * length as < length (as @ x # bs)")
  case True
  from swapDown_rep [of z q "[]" as x bs] r obtain q1 where
    "swapDown (length as) (slot q (length as)) q = Inr q1" "rep z q1 (x # as @ bs)" by auto
  with PopFront_rep [OF this(2)] True r show ?thesis
    by (simp add: Remove_def checkRange_rep rep_count slot_def)
next
  case False
  from swapUp_rep [of z q as x bs "[]"] r obtain q1 where
    "swapUp (length bs) (slot q (length as)) q = Inr q1" "rep z q1 ((as @ bs) @ [x])" by auto
  with PopBack_rep [OF this(2)] False r show ?thesis
    by (simp add: Remove_def checkRange_rep rep_count slot_def nat_diff_distrib)
qed


subsection \<open>Doubling and growing\<close>

lemma doubling_ends:
  "0 < c \<Longrightarrow> is_pow2 c \<Longrightarrow> \<exists>d. doubling c n = Some d \<and> is_pow2 d \<and> n \<le> d \<and> c \<le> d \<and> (d = c \<or> d < 2 * n)"
proof (induction "nat (n - c)" arbitrary: c rule: less_induct)
  case less
  show ?case
  proof (cases "c < n")
    case False
    with less.prems show ?thesis by (simp add: doubling.simps)
  next
    case True
    with less.prems less.hyps [of "2 * c"] obtain d where "doubling (2 * c) n = Some d"
      "is_pow2 d" "n \<le> d" "2 * c \<le> d" "d = 2 * c \<or> d < 2 * n"
      by (auto simp: is_pow2_double)
    with True less.prems show ?thesis by (auto simp: doubling.simps [of c])
  qed
qed

lemma doubling_diverges:
  assumes "c \<le> 0" "c < n"
  shows "doubling c n = None"
proof (rule ccontr)
  assume "doubling c n \<noteq> None"
  then obtain d where d: "doubling c n = Some d" by auto
  have "c \<le> 0 \<longrightarrow> c < n \<longrightarrow> False"
  proof (rule doubling.raw_induct [OF _ d, where P = "\<lambda>c n d. c \<le> 0 \<longrightarrow> c < n \<longrightarrow> False"])
    fix f :: "int \<Rightarrow> int \<Rightarrow> int option" and c n d
    assume IH: "\<And>c n d. f c n = Some d \<Longrightarrow> c \<le> 0 \<longrightarrow> c < n \<longrightarrow> False"
      and eq: "(if c < n then f (2 * c) n else Some c) = Some d"
    show "c \<le> 0 \<longrightarrow> c < n \<longrightarrow> False"
      using IH [of "2 * c" n d] eq by (auto split: if_splits)
  qed
  with assms show False by blast
qed

lemma Grow_rep:
  assumes r: "rep z q xs" and n: "0 \<le> n"
  shows "\<exists>q'. Grow z n q = Inr q' \<and> rep z q' xs \<and> n \<le> Cap q' - Len q'"
proof (cases "n \<le> Cap q - Len q")
  case True
  with r n show ?thesis by (auto simp: Grow_def)
next
  case False
  have c: "count q = int (length xs)" by (rule rep_count [OF r])
  have m: "minCap q = 0 \<or> is_pow2 (minCap q)" using r by (simp add: rep_def)
  define c0 where "c0 = (if Cap q = 0 then minCapacity else Cap q)"
  have "0 < c0 \<and> is_pow2 c0 \<and> Cap q \<le> c0"
    using r by (auto simp: c0_def minCapacity_def rep_def dest: is_pow2_pos) (auto simp: Cap_def)
  then obtain d where d: "doubling c0 (count q + n) = Some d" "is_pow2 d" "count q + n \<le> d"
    using doubling_ends [of c0 "count q + n"] by auto
  have d0: "0 < d" by (rule is_pow2_pos [OF d(2)])
  have G: "Grow z n q = (if Len q = 0
      then rbind (go_make z d) (\<lambda>b. Inr (q\<lparr>buf := b, head := 0, tail := 0\<rparr>)) else resize z d q)"
    using False n d(1) by (simp add: Grow_def Len_def c0_def Let_def)
  show ?thesis
  proof (cases "xs = []")
    case True
    then have "rep z (q\<lparr>buf := replicate (nat d) z, head := 0, tail := 0\<rparr>) xs"
      using c m d d0 by (intro rep_front [where k = "nat d"]) (simp_all add: Cap_def)
    then show ?thesis using True c d d0 by (simp add: G Len_def Cap_def)
  next
    case ne: False
    have b: "buf q \<noteq> []" by (rule rep_ne [OF r ne])
    have "0 < n" using False r b n by (auto simp: Cap_def Len_def rep_def)
    with resize_rep [OF r b ne _ d(2)] d c obtain q' where
      "resize z d q = Inr q'" "rep z q' xs" "Cap q' = d" by auto
    moreover have "count q' = int (length xs)" by (rule rep_count) fact
    ultimately show ?thesis using ne c d by (simp add: G Len_def)
  qed
qed

lemma shrinkToFit_rep:
  assumes r: "rep z q xs" and m: "0 < minCap q"
    and fit: "xs = [] \<or> (\<forall>d. doubling (minCap q) (int (length xs)) = Some d \<longrightarrow> int (length xs) < d)"
  shows "\<exists>q'. shrinkToFit z q = Inr q' \<and> rep z q' xs"
proof (cases "Cap q > minCap q \<and> 4 * count q \<le> Cap q")
  case False
  with r show ?thesis by (auto simp: shrinkToFit_def)
next
  case True
  have c: "count q = int (length xs)" by (rule rep_count [OF r])
  have mp: "is_pow2 (minCap q)" using r m by (simp add: rep_def)
  show ?thesis
  proof (cases "xs = []")
    case xs: True
    then have "rep z (q\<lparr>head := 0, tail := 0, buf := replicate (nat (minCap q)) z\<rparr>) xs"
      using c m mp by (intro rep_front [where k = "nat (minCap q)"]) (simp_all add: Cap_def)
    with True xs c m show ?thesis by (simp add: shrinkToFit_def)
  next
    case xs: False
    from doubling_ends [OF m mp, of "count q"] obtain d where
      d: "doubling (minCap q) (count q) = Some d" "is_pow2 d" by blast
    with fit xs c have "int (length xs) < d" by simp
    from resize_rep [OF r rep_ne [OF r xs] xs this d(2)] d True xs c show ?thesis
      by (auto simp: shrinkToFit_def)
  qed
qed

end
