(* ===== verification/DequeBulk.thy ===== *)
theory DequeBulk
  imports DequeOps
begin

text \<open>
  Whole-queue operations of the ring buffer: rotation, clearing, copying in and out, iteration,
  search and draining.
\<close>

subsection \<open>Rotation\<close>

lemma rotateFront_rep:
  "rep z q xs \<Longrightarrow> xs \<noteq> [] \<Longrightarrow> length xs < length (buf q) \<Longrightarrow>
   \<exists>q'. rotateFront z k q = Inr q' \<and> rep z q' (rotate k xs)"
proof (induction k arbitrary: q xs)
  case 0
  then show ?case by auto
next
  case (Suc k)
  then obtain x ys where xs: "xs = x # ys" by (cases xs) auto
  note r = Suc.prems(1)
  have ne: "buf q \<noteq> []" by (rule rep_ne [OF r Suc.prems(2)])
  have g: "go_get (buf q) (head q) = Inr x"
    using slot_get [OF r, of 0] tail_slot(2) [OF r ne] xs by simp
  from pushBack_slot [OF r Suc.prems(3), of x] obtain b where
    b: "go_set (buf q) (tail q) x = Inr b"
    and rb: "rep z (q\<lparr>buf := b, tail := nxt (q\<lparr>buf := b\<rparr>) (tail q), count := count q + 1\<rparr>) (x # ys @ [x])"
    using xs by auto
  let ?q1 = "q\<lparr>buf := b, tail := nxt (q\<lparr>buf := b\<rparr>) (tail q), count := count q + 1\<rparr>"
  have lb: "length b = length (buf q)" using b by (auto simp: go_set_eq_Inr)
  from takeFront_rep [OF rb] obtain q2 where "takeFront z ?q1 = Inr (x, q2)" and r2: "rep z q2 (ys @ [x])"
    by blast
  then obtain b2 where b2: "go_set b (head q) z = Inr b2"
    and q2: "q2 = ?q1\<lparr>buf := b2, head := nxt ?q1 (head q), count := count q\<rparr>"
    by (auto simp: takeFront_def rbind_eq_Inr)
  have lb2: "length b2 = length b" using b2 by (auto simp: go_set_eq_Inr)
  have "q\<lparr>head := (head q + 1) AND (Cap q - 1), tail := (tail q + 1) AND (Cap q - 1), buf := b2\<rparr> = q2"
    using lb by (cases q) (simp add: q2 nxt_def Cap_def)
  with g b b2 have "rotateFront z (Suc k) q = rotateFront z k q2" by simp
  moreover have "length (ys @ [x]) < length (buf q2)" using Suc.prems(3) xs lb lb2 by (simp add: q2)
  ultimately show ?case using Suc.IH [OF r2] xs
    by (simp add: rotate1_rotate_swap)
qed

lemma rotateBack_rep:
  "rep z q xs \<Longrightarrow> xs \<noteq> [] \<Longrightarrow> length xs < length (buf q) \<Longrightarrow>
   \<exists>q' ys. rotateBack z k q = Inr q' \<and> rep z q' ys \<and> rotate k ys = xs"
proof (induction k arbitrary: q xs)
  case 0
  then show ?case by auto
next
  case (Suc k)
  then obtain x ys where xs: "xs = ys @ [x]" by (cases xs rule: rev_cases) auto
  note r = Suc.prems(1)
  have ne: "buf q \<noteq> []" by (rule rep_ne [OF r Suc.prems(2)])
  have t: "prev q (tail q) = slot q (length ys)"
    using tail_slot(1) [OF r ne] slot_prev [OF r ne, of "length ys"] xs by simp
  have g: "go_get (buf q) (prev q (tail q)) = Inr x"
    using slot_get [OF r, of "length ys"] t xs by simp
  from pushFront_slot [OF r Suc.prems(3), of x] obtain b where
    b: "go_set (buf q) (prev q (head q)) x = Inr b"
    and rb: "rep z (q\<lparr>head := prev q (head q), buf := b, count := count q + 1\<rparr>) ((x # ys) @ [x])"
    using xs by auto
  let ?q1 = "q\<lparr>head := prev q (head q), buf := b, count := count q + 1\<rparr>"
  have lb: "length b = length (buf q)" using b by (auto simp: go_set_eq_Inr)
  from takeBack_rep [OF rb] obtain q2 where "takeBack z ?q1 = Inr (x, q2)" and r2: "rep z q2 (x # ys)"
    by blast
  then obtain b2 where b2: "go_set b (prev q (tail q)) z = Inr b2"
    and q2: "q2 = ?q1\<lparr>tail := prev q (tail q), buf := b2, count := count q\<rparr>"
    using lb by (auto simp: takeBack_def rbind_eq_Inr Let_def prev_def Cap_def)
  have lb2: "length b2 = length b" using b2 by (auto simp: go_set_eq_Inr)
  have step: "rotateBack z (Suc k) q = rotateBack z k q2"
    using g b b2 by (simp add: q2 prev_def Let_def)
  have "length (x # ys) < length (buf q2)" using Suc.prems(3) xs lb lb2 by (simp add: q2)
  with Suc.IH [OF r2] obtain q' zs where "rotateBack z k q2 = Inr q'" "rep z q' zs"
    "rotate k zs = x # ys" by auto
  with step xs show ?case by auto
qed

lemma rotate_neg:
  assumes "rotate k ys = xs" "k \<le> length ys"
  shows "ys = rotate (length ys - k) xs"
  using assms by (metis le_add_diff_inverse2 rotate_id mod_self rotate_rotate)

lemma Rotate_rep:
  assumes r: "rep z q xs"
  shows "\<exists>q'. Rotate z n q = Inr q' \<and> rep z q' (rotate (nat (n mod int (length xs))) xs)"
proof (cases "length xs \<le> 1")
  case True
  then have "rotate (nat (n mod int (length xs))) xs = xs"
    by (cases xs) auto
  with True r show ?thesis by (auto simp: Rotate_def Len_def rep_count)
next
  case big: False
  let ?c = "int (length xs)"
  define m where "m = n smod ?c"
  have c0: "?c \<noteq> 0" using big by auto
  have mm: "m mod ?c = n mod ?c"
    unfolding m_def signed_modulo_int_eq_modulo_int
    by (cases "sgn n \<noteq> sgn ?c \<and> \<not> ?c dvd n") simp_all
  have mlt: "- ?c < m" "m < ?c" using smod_int_range [OF c0, of n] by (auto simp: m_def)
  have xs: "xs \<noteq> []" using big by auto
  note ne = xs rep_ne [OF r xs]
  have c: "count q = ?c" by (rule rep_count [OF r])
  from rep_nonempty_buf [OF r ne(2)] obtain h where h: "head q = int h" "h < length (buf q)"
    and l: "length xs \<le> length (buf q)"
    and t: "tail q = int ((h + length xs) mod length (buf q))"
    and p: "is_pow2 (int (length (buf q)))" and mc: "minCap q = 0 \<or> is_pow2 (minCap q)"
    and rot: "rotate h (buf q) = xs @ replicate (length (buf q) - length xs) z" .
  consider "m = 0" | "m \<noteq> 0" "head q = tail q" | "m < 0" "head q \<noteq> tail q"
    | "0 < m" "head q \<noteq> tail q" by linarith
  then show ?thesis
  proof cases
    case 1
    with mm r show ?thesis by (auto simp: Rotate_def Len_def c m_def Let_def)
  next
    case 2
    have full: "length xs = length (buf q)"
    proof (rule ccontr)
      assume "length xs \<noteq> length (buf q)"
      with l have "length xs < length (buf q)" by simp
      moreover have "(h + length xs) mod length (buf q) = (h + 0) mod length (buf q)"
        using 2 h t by simp
      moreover from h(2) have "0 < length (buf q)" by linarith
      ultimately have "length xs = 0"
        using add_mod_cancel [of h "length xs" "length (buf q)" 0] by blast
      with ne show False by simp
    qed
    let ?N = "length (buf q)"
    define k where "k = nat (n mod int ?N)"
    have k: "int k = m mod int ?N" using mm ne full by (simp add: k_def)
    have "(head q + m) AND (Cap q - 1) = (int h + m) mod int ?N"
      using h p by (simp add: and_mask_mod Cap_def)
    also have "\<dots> = (int h + int k) mod int ?N" by (simp add: k mod_add_right_eq)
    finally have hm: "(head q + m) AND (Cap q - 1) = int ((h + k) mod ?N)" by (simp add: zmod_int)
    have "rotate ((h + k) mod ?N) (buf q) = rotate k (rotate h (buf q))"
      by (metis add.commute rotate_conv_mod rotate_rotate)
    then have "rotate ((h + k) mod ?N) (buf q) = rotate k xs" using rot full by simp
    then have "rep z (q\<lparr>head := int ((h + k) mod ?N), tail := int ((h + k) mod ?N)\<rparr>) (rotate k xs)"
      using ne c p mc full by (intro repI [where h = "(h + k) mod ?N"]) simp_all
    with 2 big hm full show ?thesis
      by (simp add: Rotate_def Len_def c m_def Let_def k_def)
  next
    case 3
    have room: "length xs < length (buf q)"
      using 3 h t l by (cases "length xs = length (buf q)") simp_all
    from rotateBack_rep [OF r ne(1) room, of "nat (- m)"] obtain q' ys where
      q': "rotateBack z (nat (- m)) q = Inr q'" "rep z q' ys" "rotate (nat (- m)) ys = xs" by blast
    then have len: "length ys = length xs" by (metis length_rotate)
    have "ys = rotate (length xs - nat (- m)) xs"
      using rotate_neg [OF q'(3)] mlt len by simp
    moreover have "(m + ?c) mod ?c = m + ?c"
      using 3 mlt by (intro mod_pos_pos_trivial) simp_all
    then have "m mod ?c = m + ?c" by (simp only: mod_add_self2)
    moreover have "length xs - nat (- m) = nat (m + ?c)" using 3 mlt by simp
    ultimately have "ys = rotate (nat (n mod ?c)) xs" using mm by simp
    with q' 3 big show ?thesis by (simp add: Rotate_def Len_def c m_def Let_def)
  next
    case 4
    have room: "length xs < length (buf q)"
      using 4 h t l by (cases "length xs = length (buf q)") simp_all
    have "m mod ?c = m" using 4 mlt by simp
    with rotateFront_rep [OF r ne(1) room, of "nat m"] 4 big mm show ?thesis
      by (auto simp: Rotate_def Len_def c m_def Let_def)
  qed
qed

subsection \<open>Clearing\<close>

lemma layout:
  assumes r: "rep z q xs" and ne: "xs \<noteq> []"
  obtains (straight) h where "head q = int h" "tail q = int (h + length xs)"
      "h + length xs < length (buf q)"
      "buf q = replicate h z @ xs @ replicate (length (buf q) - (h + length xs)) z"
    | (wrapped) as bs where "xs = as @ bs" "as \<noteq> []"
      "head q = int (length (buf q) - length as)" "tail q = int (length bs)" "length xs \<le> length (buf q)"
      "buf q = bs @ replicate (length (buf q) - length xs) z @ as"
proof -
  from rep_nonempty_buf [OF r rep_ne [OF r ne]] obtain h where
    h: "head q = int h" "h < length (buf q)" and l: "length xs \<le> length (buf q)"
    and t: "tail q = int ((h + length xs) mod length (buf q))"
    and rot: "rotate h (buf q) = xs @ replicate (length (buf q) - length xs) z" .
  let ?n = "length (buf q)"
  have dt: "drop h (buf q) @ take h (buf q) = xs @ replicate (?n - length xs) z"
    using h rot by (simp add: rotate_drop_take)
  have d: "drop h (buf q) = take (?n - h) (xs @ replicate (?n - length xs) z)"
    by (metis dt append_eq_conv_conj length_drop)
  have k: "take h (buf q) = drop (?n - h) (xs @ replicate (?n - length xs) z)"
    by (metis dt append_eq_conv_conj length_drop)
  have b: "buf q = take h (buf q) @ drop h (buf q)" by simp
  show thesis
  proof (cases "h + length xs < ?n")
    case True
    have "take h (buf q) = replicate h z"
      using k True h by simp
    moreover have "drop h (buf q) = xs @ replicate (?n - (h + length xs)) z"
      using d True by (simp add: min_def)
    ultimately have "buf q = replicate h z @ xs @ replicate (?n - (h + length xs)) z"
      using b by simp
    with True h t show thesis by (intro straight) simp_all
  next
    case False
    have t': "(h + length xs) mod ?n = length xs - (?n - h)"
      using False h l by (subst mod_if) (auto simp: mod_if)
    have "drop h (buf q) = take (?n - h) xs" using d False h by simp
    moreover have "take h (buf q) = drop (?n - h) xs @ replicate (?n - length xs) z"
      using k False h by simp
    ultimately have "buf q = drop (?n - h) xs @ replicate (?n - length xs) z @ take (?n - h) xs"
      using b by simp
    moreover have "?n - length (take (?n - h) xs) = h" using False h by simp
    ultimately show thesis using False h t t' l
      by (intro wrapped [of "take (?n - h) xs" "drop (?n - h) xs"]) auto
  qed
qed

lemma clearRange_ok:
  "clearRange z (int (length as)) (int (length as + length bs)) (as @ bs @ cs) =
   Inr (as @ replicate (length bs) z @ cs)"
  by (simp add: clearRange_def map_replicate_const nat_add_distrib)

lemma Clear_rep:
  assumes r: "rep z q xs" and ne: "xs \<noteq> []"
  shows "Clear z q = Inr (q\<lparr>count := 0, head := 0, tail := 0, buf := replicate (length (buf q)) z\<rparr>)"
proof -
  have c: "Len q \<noteq> 0" using r ne by (simp add: Len_def rep_count)
  from r ne show ?thesis
  proof (cases rule: layout)
    case (straight h)
    define k where "k = length (buf q) - (h + length xs)"
    have b: "buf q = replicate h z @ xs @ replicate k z" using straight by (simp add: k_def)
    from clearRange_ok [of z "replicate h z" xs "replicate k z"] b straight ne c show ?thesis
      by (simp add: Clear_def replicate_add [symmetric] add.assoc)
  next
    case (wrapped as bs)
    define k where "k = length (buf q) - length xs"
    have b: "buf q = bs @ replicate k z @ as" using wrapped by (simp add: k_def)
    then have hd: "length (buf q) - length as = length (bs @ replicate k z)" by simp
    have h: "head q = int (length (bs @ replicate k z))" using wrapped hd by simp
    have n: "Cap q = int (length (bs @ replicate k z) + length as)" using b by (simp add: Cap_def)
    have "clearRange z (head q) (Cap q) (buf q) = Inr ((bs @ replicate k z) @ replicate (length as) z)"
      using clearRange_ok [of z "bs @ replicate k z" as "[]"] unfolding h n by (simp add: b)
    moreover have "clearRange z 0 (tail q) ((bs @ replicate k z) @ replicate (length as) z) =
        Inr (replicate (length (buf q)) z)"
      using clearRange_ok [of z "[]" bs "replicate k z @ replicate (length as) z"] wrapped b
      by (simp add: replicate_add [symmetric] add.assoc)
    moreover have "head q \<ge> tail q" using h wrapped by simp
    ultimately show ?thesis using c by (simp add: Clear_def Cap_def)
  qed
qed

lemma Clear_empty: "rep z q [] \<Longrightarrow> Clear z q = Inr q"
  by (simp add: Clear_def Len_def rep_count)

subsection \<open>Copying\<close>

lemma slices:
  assumes r: "rep z q xs" and ne: "xs \<noteq> []"
  obtains (one) "head q < tail q" "go_slice (buf q) (head q) (tail q) = Inr xs"
    | (two) as bs where "tail q \<le> head q" "xs = as @ bs" "go_slice (buf q) (head q) (Cap q) = Inr as"
        "go_slice (buf q) 0 (tail q) = Inr bs"
  using r ne
proof (cases rule: layout)
  case (straight h)
  then have "drop h (buf q) = xs @ replicate (length (buf q) - (h + length xs)) z"
    by (metis append_eq_conv_conj length_replicate)
  with straight ne show thesis
    by (intro one) (auto simp: nat_add_distrib)
next
  case (wrapped as bs)
  then have len: "length as + length bs \<le> length (buf q)" by simp
  have "drop (length (buf q) - length as) (buf q) = as"
    by (subst (2) wrapped(6)) (use wrapped(1,5) in simp)
  moreover have "take (length bs) (buf q) = bs"
    by (subst wrapped(6)) simp
  ultimately show thesis using wrapped len
    by (intro two [of as bs]) (auto simp: Cap_def nat_diff_distrib)
qed

lemma AppendToSlice_rep:
  assumes r: "rep z q xs" shows "AppendToSlice out q = Inr (out @ xs)"
proof (cases "xs = []")
  case True
  with r show ?thesis by (simp add: AppendToSlice_def rep_count)
next
  case False
  with r have "count q \<noteq> 0" by (simp add: rep_count)
  with r False show ?thesis by (cases rule: slices) (auto simp: AppendToSlice_def)
qed

lemma CopyOutSlice_rep:
  assumes r: "rep z q xs"
  shows "CopyOutSlice out q = Inr (int (min (length out) (length xs)), go_copy out xs)"
proof (cases "xs = [] \<or> out = []")
  case True
  with r show ?thesis by (auto simp: CopyOutSlice_def rep_count go_copy_def)
next
  case False
  then have xs: "xs \<noteq> []" by simp
  have c: "\<not> (count q = 0 \<or> out = [])" using r False by (simp add: rep_count)
  from r xs show ?thesis
  proof (cases rule: slices)
    case one
    with c show ?thesis by (simp add: CopyOutSlice_def)
  next
    case (two as bs)
    show ?thesis
    proof (cases "length out \<le> length as")
      case True
      with c two show ?thesis by (simp add: CopyOutSlice_def go_copy_def Let_def)
    next
      case False
      then have "go_copy out as = as @ drop (length as) out" by (simp add: go_copy_def)
      with False c two show ?thesis
        by (simp add: CopyOutSlice_def go_copy_def add.commute Let_def)
    qed
  qed
qed


text \<open>
  \<open>CopyInSlice\<close> and \<open>Copy\<close> leave \<open>tail\<close> at the number of elements, which is a valid position only
  if a free slot remains.
\<close>

lemma filled_rep:
  assumes "length b = n" "length xs < n" "is_pow2 (int n)" "drop (length xs) b = replicate (n - length xs) z"
    "minCap q = 0 \<or> is_pow2 (minCap q)"
  shows "rep z (q\<lparr>buf := go_copy b xs, count := int (length xs), tail := int (length xs), head := 0\<rparr>) xs"
  using assms by (intro rep_front [where k = "n - length xs"]) (auto simp: Cap_def go_copy_def)

lemma CopyInSlice_rep:
  assumes r: "rep z q ys" and room: "int (length xs) \<noteq> Cap q"
    and fit: "Cap q < int (length xs) \<Longrightarrow> \<not> is_pow2 (int (length xs))"
  shows "\<exists>q'. CopyInSlice z xs q = Inr q' \<and> rep z q' xs"
proof (cases "Cap q < int (length xs)")
  case True
  define c0 where "c0 = (if Cap q = 0 then minCapacity else Cap q)"
  define m0 where "m0 = (if Cap q = 0 then minCapacity else minCap q)"
  have "0 < c0 \<and> is_pow2 c0"
    using r by (auto simp: c0_def minCapacity_def rep_def dest: is_pow2_pos) (auto simp: Cap_def)
  then obtain d where d: "doubling c0 (int (length xs)) = Some d" "is_pow2 d" "int (length xs) \<le> d"
    using doubling_ends [of c0 "int (length xs)"] by auto
  have m0: "m0 = 0 \<or> is_pow2 m0" using r by (auto simp: m0_def minCapacity_def rep_def)
  have lt: "length xs < nat d" and d0: "0 < d"
    using fit [OF True] d is_pow2_pos [OF d(2)] by (cases "int (length xs) = d"; force)+
  have "CopyInSlice z xs q = Inr (q\<lparr>minCap := m0, buf := go_copy (replicate (nat d) z) xs,
      count := int (length xs), tail := int (length xs), head := 0\<rparr>)"
    using True d d0 lt by (cases "Cap q = 0")
      (simp_all add: CopyInSlice_def c0_def m0_def Let_def min_def)
  moreover have "rep z (q\<lparr>minCap := m0, buf := go_copy (replicate (nat d) z) xs,
      count := int (length xs), tail := int (length xs), head := 0\<rparr>) xs"
    using filled_rep [of "replicate (nat d) z" "nat d" xs z "q\<lparr>minCap := m0\<rparr>"] lt d d0 m0 by simp
  ultimately show ?thesis by simp
next
  case False
  with room have lt: "int (length xs) < Cap q" by simp
  then have ne: "buf q \<noteq> []" by (auto simp: Cap_def)
  have p: "is_pow2 (int (length (buf q)))" and m: "minCap q = 0 \<or> is_pow2 (minCap q)"
    using r ne by (auto elim: rep_nonempty_buf)
  obtain q1 where q1: "Clear z q = Inr q1" "length (buf q1) = length (buf q)" "minCap q1 = minCap q"
    and z: "buf q1 = replicate (length (buf q)) z"
  proof (cases "ys = []")
    case True
    have "rotate (nat (head q)) (buf q) = replicate (length (buf q)) z"
      using r True by (simp add: rep_def)
    then have "set (buf q) = {z}" using ne by (metis set_rotate set_replicate length_0_conv)
    then have "buf q = replicate (length (buf q)) z" by (simp add: replicate_length_same)
    with that [of q] True r show thesis by (simp add: Clear_empty)
  next
    case False
    with that Clear_rep [OF r False] show thesis by simp
  qed
  have "rep z (q1\<lparr>buf := go_copy (buf q1) xs, count := int (length xs),
      tail := int (length xs), head := 0\<rparr>) xs"
    using filled_rep [of "buf q1" "length (buf q)" xs z q1] q1 z lt p m by (simp add: Cap_def)
  moreover have "CopyInSlice z xs q = Inr (q1\<lparr>buf := go_copy (buf q1) xs, count := int (length xs),
      tail := int (length xs), head := 0\<rparr>)"
    using lt q1 by (simp add: CopyInSlice_def Let_def Cap_def min_def)
  ultimately show ?thesis by simp
qed

subsection \<open>Iteration and search\<close>

text \<open>The consumer run over a list: it stops at the first element for which it answers false.\<close>

fun consume :: "('a \<Rightarrow> 's \<Rightarrow> bool \<times> 's) \<Rightarrow> 'a list \<Rightarrow> 's \<Rightarrow> 's \<times> 'a list" where
  "consume yield [] s = (s, [])"
| "consume yield (x # xs) s =
     (case yield x s of (go, s') \<Rightarrow> if go then consume yield xs s' else (s', xs))"

lemma iterLoop_rep:
  assumes r: "rep z q xs" and i: "i \<le> length xs"
  shows "iterLoop q yield (int i) (slot q i) s = Inr (fst (consume yield (drop i xs) s))"
  using i
proof (induction "length xs - i" arbitrary: i s)
  case 0
  with r show ?case by (simp add: iterLoop.simps [of q] Len_def rep_count)
next
  case (Suc n)
  then have lt: "i < length xs" by simp
  have ne: "buf q \<noteq> []" by (rule rep_ne [OF r]) (use lt in auto)
  have "n = length xs - Suc i" using Suc by simp
  note IH = Suc.hyps(1) [OF this, of "snd (yield (xs ! i) s)"]
  have "drop i xs = xs ! i # drop (Suc i) xs" using lt by (simp add: Cons_nth_drop_Suc)
  moreover obtain go s' where "yield (xs ! i) s = (go, s')" by fastforce
  ultimately show ?case
    using IH lt slot_get [OF r lt] slot_next [OF r ne, of i] r
    by (simp add: iterLoop.simps [of q yield "int i"] Len_def rep_count add.commute)
qed

lemma Iter_rep:
  assumes r: "rep z q xs" shows "Iter q yield s = Inr (fst (consume yield xs s))"
proof (cases "xs = []")
  case True
  with r show ?thesis by (simp add: Iter_def iterLoop.simps [of q] Len_def rep_count)
next
  case False
  with iterLoop_rep [OF r, of 0 yield s] tail_slot(2) [OF r rep_ne [OF r False]] show ?thesis
    by (simp add: Iter_def)
qed


lemma riterLoop_rep:
  assumes r: "rep z q xs" and i: "i \<le> length xs"
  shows "riterLoop q yield (int i) (slot q (length xs - i)) s =
         Inr (fst (consume yield (drop i (rev xs)) s))"
  using i
proof (induction "length xs - i" arbitrary: i s)
  case 0
  with r show ?case by (simp add: riterLoop.simps [of q] Len_def rep_count)
next
  case (Suc n)
  then have lt: "i < length xs" by simp
  have ne: "buf q \<noteq> []" by (rule rep_ne [OF r]) (use lt in auto)
  let ?j = "length xs - Suc i"
  have j: "length xs - i = Suc ?j" "?j < length xs" using lt by simp_all
  have "n = length xs - Suc i" using Suc by simp
  note IH = Suc.hyps(1) [OF this, of "snd (yield (xs ! ?j) s)"]
  have "drop i (rev xs) = xs ! ?j # drop (Suc i) (rev xs)"
    using lt by (metis Cons_nth_drop_Suc length_rev rev_nth)
  moreover obtain go s' where "yield (xs ! ?j) s = (go, s')" by fastforce
  ultimately show ?case
    using IH lt slot_get [OF r j(2)] slot_prev [OF r ne, of ?j] r
    by (simp add: riterLoop.simps [of q yield "int i"] j(1) Len_def rep_count add.commute Let_def)
qed

lemma RIter_rep:
  assumes r: "rep z q xs" shows "RIter q yield s = Inr (fst (consume yield (rev xs) s))"
proof (cases "xs = []")
  case True
  with r show ?thesis by (simp add: RIter_def riterLoop.simps [of q] Len_def rep_count)
next
  case False
  with riterLoop_rep [OF r, of 0 yield s] tail_slot(1) [OF r rep_ne [OF r False]] show ?thesis
    by (simp add: RIter_def)
qed

text \<open>The position of the first, and of the last, element that satisfies a predicate.\<close>

fun first_index :: "('a \<Rightarrow> bool) \<Rightarrow> 'a list \<Rightarrow> nat option" where
  "first_index f [] = None"
| "first_index f (x # xs) = (if f x then Some 0 else map_option Suc (first_index f xs))"

definition go_index :: "nat option \<Rightarrow> int" where
  "go_index i = (case i of None \<Rightarrow> -1 | Some k \<Rightarrow> int k)"

lemma indexLoop_rep:
  assumes r: "rep z q xs" and i: "i \<le> length xs"
  shows "indexLoop q f (int i) = Inr (go_index (map_option ((+) i) (first_index f (drop i xs))))"
  using i
proof (induction "length xs - i" arbitrary: i)
  case 0
  with r show ?case by (simp add: indexLoop.simps [of q] rep_count go_index_def)
next
  case (Suc n)
  then have lt: "i < length xs" by simp
  have "n = length xs - Suc i" using Suc by simp
  note IH = Suc.hyps(1) [OF this]
  have "drop i xs = xs ! i # drop (Suc i) xs" using lt by (simp add: Cons_nth_drop_Suc)
  with IH lt slot_get [OF r lt] r show ?case
    by (simp add: indexLoop.simps [of q f "int i"] rep_count slot_def add.commute go_index_def
        split: option.split)
qed

lemma Index_rep:
  assumes r: "rep z q xs" shows "Index f q = Inr (go_index (first_index f xs))"
proof (cases "xs = []")
  case True
  with r show ?thesis by (simp add: Index_def Len_def rep_count go_index_def)
next
  case False
  with r indexLoop_rep [OF r, of 0 f] show ?thesis
    by (simp add: Index_def Len_def rep_count option.map_ident cong: option.map_cong)
qed

lemma rindexLoop_rep:
  assumes r: "rep z q xs" and i: "i \<le> length xs"
  shows "rindexLoop q f (int i - 1) =
         Inr (go_index (map_option (\<lambda>k. i - Suc k) (first_index f (rev (take i xs)))))"
  using i
proof (induction i)
  case 0
  show ?case by (simp add: rindexLoop.simps [of q] go_index_def)
next
  case (Suc i)
  then have lt: "i < length xs" by simp
  have "rev (take (Suc i) xs) = xs ! i # rev (take i xs)"
    using lt by (simp add: take_Suc_conv_app_nth)
  with Suc lt slot_get [OF r lt] show ?case
    by (simp add: rindexLoop.simps [of q f "int i"] slot_def go_index_def split: option.split)
qed

lemma RIndex_rep:
  assumes r: "rep z q xs"
  shows "RIndex f q = Inr (go_index (map_option (\<lambda>k. length xs - Suc k) (first_index f (rev xs))))"
proof (cases "xs = []")
  case True
  with r show ?thesis by (simp add: RIndex_def Len_def rep_count go_index_def)
next
  case False
  with r rindexLoop_rep [OF r, of "length xs" f] show ?thesis
    by (simp add: RIndex_def Len_def rep_count)
qed

subsection \<open>Draining\<close>

lemma popFrontLoop_rep:
  "rep z q xs \<Longrightarrow> \<exists>q'. popFrontLoop z yield s q = Inr (fst (consume yield xs s), q') \<and>
     rep z q' (snd (consume yield xs s)) \<and> minCap q' = minCap q \<and> Cap q' = Cap q"
proof (induction xs arbitrary: q s)
  case Nil
  then show ?case by (auto simp: popFrontLoop.simps [of z yield s q] rep_count)
next
  case (Cons x xs)
  from takeFront_rep [OF Cons.prems] obtain q1 where t: "takeFront z q = Inr (x, q1)"
    and r: "rep z q1 xs" and e: "Cap q1 = Cap q" "minCap q1 = minCap q" by blast
  obtain go s' where y: "yield x s = (go, s')" by fastforce
  have "popFrontLoop z yield s q =
      (if go then popFrontLoop z yield s' q1 else Inr (s', q1))"
    using Cons.prems t y by (simp add: popFrontLoop.simps [of z yield s q] rep_count)
  with Cons.IH [OF r, of s'] r y e show ?case by (auto split: if_splits)
qed

lemma popBackLoop_rep:
  "rep z q xs \<Longrightarrow> \<exists>q'. popBackLoop z yield s q = Inr (fst (consume yield (rev xs) s), q') \<and>
     rep z q' (rev (snd (consume yield (rev xs) s))) \<and> minCap q' = minCap q \<and> Cap q' = Cap q"
proof (induction xs arbitrary: q s rule: rev_induct)
  case Nil
  then show ?case by (auto simp: popBackLoop.simps [of z yield s q] rep_count)
next
  case (snoc x xs)
  from takeBack_rep [OF snoc.prems] obtain q1 where t: "takeBack z q = Inr (x, q1)"
    and r: "rep z q1 xs" and e: "Cap q1 = Cap q" "minCap q1 = minCap q" by blast
  obtain go s' where y: "yield x s = (go, s')" by fastforce
  have "popBackLoop z yield s q =
      (if go then popBackLoop z yield s' q1 else Inr (s', q1))"
    using snoc.prems t y by (simp add: popBackLoop.simps [of z yield s q] rep_count)
  with snoc.IH [OF r, of s'] r y e show ?case by (auto split: if_splits)
qed

end
