(* ===== verification/DequeSpec.thy ===== *)
theory DequeSpec
  imports DequeBulk
begin

text \<open>
  The interface that the clients of the ring buffer rely on, its interpretation by the ring buffer,
  and the properties of the ring buffer: any sequence of operations on it is the same sequence on
  a list.
\<close>

subsection \<open>The interface\<close>

locale double_ended =
  fixes repr :: "'q \<Rightarrow> 'a list \<Rightarrow> bool"
    and push_back :: "'a \<Rightarrow> 'q \<Rightarrow> 'q outcome"
    and push_front :: "'a \<Rightarrow> 'q \<Rightarrow> 'q outcome"
    and pop_front :: "'q \<Rightarrow> ('a \<times> 'q) outcome"
    and pop_back :: "'q \<Rightarrow> ('a \<times> 'q) outcome"
    and len :: "'q \<Rightarrow> int"
  assumes push_back: "repr q xs \<Longrightarrow> \<exists>q'. push_back x q = Inr q' \<and> repr q' (xs @ [x])"
    and push_front: "repr q xs \<Longrightarrow> \<exists>q'. push_front x q = Inr q' \<and> repr q' (x # xs)"
    and pop_front: "repr q (x # xs) \<Longrightarrow> \<exists>q'. pop_front q = Inr (x, q') \<and> repr q' xs"
    and pop_back: "repr q (xs @ [x]) \<Longrightarrow> \<exists>q'. pop_back q = Inr (x, q') \<and> repr q' xs"
    and len: "repr q xs \<Longrightarrow> len q = int (length xs)"
begin

text \<open>Last in, first out at the back.\<close>

lemma pop_pushed:
  assumes "repr q xs"
  shows "\<exists>q'. rbind (push_back x q) pop_back = Inr (x, q') \<and> repr q' xs"
proof -
  from push_back [OF assms, of x] obtain q1 where "push_back x q = Inr q1" "repr q1 (xs @ [x])"
    by blast
  with pop_back [of q1 xs x] show ?thesis by simp
qed

text \<open>Putting back into a pool of at most \<open>n\<close> elements: the oldest leaves first.\<close>

lemma put_bounded:
  assumes r: "repr q xs" and n: "0 < n"
  shows "\<exists>out q'.
     rbind (if len q \<ge> int n then rbind (pop_front q) (\<lambda>(old, q). Inr ([old], q)) else Inr ([], q))
       (\<lambda>(out, q). rbind (push_back x q) (\<lambda>q. Inr (out, q))) = Inr (out, q') \<and>
     repr q' (drop (length out) xs @ [x]) \<and> out = (if length xs < n then [] else [hd xs])"
proof (cases "length xs < n")
  case True
  with push_back [OF r, of x] len [OF r] show ?thesis by auto
next
  case False
  with n obtain y ys where xs: "xs = y # ys" by (cases xs) auto
  with pop_front r obtain q1 where q1: "pop_front q = Inr (y, q1)" "repr q1 ys" by blast
  from push_back [OF q1(2), of x] obtain q2 where "push_back x q1 = Inr q2" "repr q2 (ys @ [x])"
    by blast
  with q1 False len [OF r] xs show ?thesis by auto
qed

end

interpretation ring: double_ended "rep z" "PushBack z" "PushFront z" "PopFront z" "PopBack z" Len
  by unfold_locales
    (simp_all add: PushBack_rep PushFront_rep PopFront_rep PopBack_rep Len_def rep_count)

subsection \<open>Any sequence of operations\<close>

datatype (plugins only: code size) 'a dq_op = OpPushBack 'a | OpPushFront 'a | OpPopFront | OpPopBack | OpFront | OpBack
  | OpAt int | OpSet int 'a | OpSwap int int | OpInsert int 'a | OpRemove int | OpRotate int
  | OpClear | OpGrow int | OpSetBaseCap int

text \<open>One call on the ring buffer: the element it returns, if any, and the queue after it.\<close>

fun run_op :: "'a \<Rightarrow> 'a dq_op \<Rightarrow> 'a deque \<Rightarrow> ('a option \<times> 'a deque) outcome" where
  "run_op z (OpPushBack x) q = rbind (PushBack z x q) (\<lambda>q. Inr (None, q))"
| "run_op z (OpPushFront x) q = rbind (PushFront z x q) (\<lambda>q. Inr (None, q))"
| "run_op z OpPopFront q = rbind (PopFront z q) (\<lambda>(x, q). Inr (Some x, q))"
| "run_op z OpPopBack q = rbind (PopBack z q) (\<lambda>(x, q). Inr (Some x, q))"
| "run_op z OpFront q = rbind (Front q) (\<lambda>x. Inr (Some x, q))"
| "run_op z OpBack q = rbind (Back q) (\<lambda>x. Inr (Some x, q))"
| "run_op z (OpAt i) q = rbind (At q i) (\<lambda>x. Inr (Some x, q))"
| "run_op z (OpSet i x) q = rbind (Set i x q) (\<lambda>q. Inr (None, q))"
| "run_op z (OpSwap i j) q = rbind (Swap i j q) (\<lambda>q. Inr (None, q))"
| "run_op z (OpInsert i x) q = rbind (Insert z i x q) (\<lambda>q. Inr (None, q))"
| "run_op z (OpRemove i) q = rbind (Remove z i q) (\<lambda>(x, q). Inr (Some x, q))"
| "run_op z (OpRotate n) q = rbind (Rotate z n q) (\<lambda>q. Inr (None, q))"
| "run_op z OpClear q = rbind (Clear z q) (\<lambda>q. Inr (None, q))"
| "run_op z (OpGrow n) q = rbind (Grow z n q) (\<lambda>q. Inr (None, q))"
| "run_op z (OpSetBaseCap n) q = rbind (SetBaseCap n q) (\<lambda>q. Inr (None, q))"

text \<open>The same call on a list; \<open>None\<close> where the code panics.\<close>

definition in_range :: "int \<Rightarrow> 'a list \<Rightarrow> bool" where
  "in_range i xs \<longleftrightarrow> 0 \<le> i \<and> i < int (length xs)"

fun list_op :: "'a dq_op \<Rightarrow> 'a list \<Rightarrow> ('a option \<times> 'a list) option" where
  "list_op (OpPushBack x) xs = Some (None, xs @ [x])"
| "list_op (OpPushFront x) xs = Some (None, x # xs)"
| "list_op OpPopFront xs = (if xs = [] then None else Some (Some (hd xs), tl xs))"
| "list_op OpPopBack xs = (if xs = [] then None else Some (Some (last xs), butlast xs))"
| "list_op OpFront xs = (if xs = [] then None else Some (Some (hd xs), xs))"
| "list_op OpBack xs = (if xs = [] then None else Some (Some (last xs), xs))"
| "list_op (OpAt i) xs = (if in_range i xs then Some (Some (xs ! nat i), xs) else None)"
| "list_op (OpSet i x) xs = (if in_range i xs then Some (None, xs[nat i := x]) else None)"
| "list_op (OpSwap i j) xs = (if in_range i xs \<and> in_range j xs
     then Some (None, xs[nat i := xs ! nat j, nat j := xs ! nat i]) else None)"
| "list_op (OpInsert i x) xs = Some (None, take (nat i) xs @ x # drop (nat i) xs)"
| "list_op (OpRemove i) xs = (if in_range i xs
     then Some (Some (xs ! nat i), take (nat i) xs @ drop (Suc (nat i)) xs) else None)"
| "list_op (OpRotate n) xs = Some (None, rotate (nat (n mod int (length xs))) xs)"
| "list_op OpClear xs = Some (None, [])"
| "list_op (OpGrow n) xs = (if n < 0 then None else Some (None, xs))"
| "list_op (OpSetBaseCap n) xs = Some (None, xs)"

fun run_ops :: "'a \<Rightarrow> 'a dq_op list \<Rightarrow> 'a deque \<Rightarrow> ('a option list \<times> 'a deque) outcome" where
  "run_ops z [] q = Inr ([], q)"
| "run_ops z (op # ops) q =
     rbind (run_op z op q) (\<lambda>(r, q). rbind (run_ops z ops q) (\<lambda>(rs, q). Inr (r # rs, q)))"

fun list_ops :: "'a dq_op list \<Rightarrow> 'a list \<Rightarrow> ('a option list \<times> 'a list) option" where
  "list_ops [] xs = Some ([], xs)"
| "list_ops (op # ops) xs =
     (case list_op op xs of None \<Rightarrow> None | Some (r, xs) \<Rightarrow>
        (case list_ops ops xs of None \<Rightarrow> None | Some (rs, xs) \<Rightarrow> Some (r # rs, xs)))"

text \<open>
  The two agree: both answer, with the same element and with representations of the same list,
  or the list has no answer and the code panics.
\<close>

definition agree :: "'a \<Rightarrow> ('r \<times> 'a deque) outcome \<Rightarrow> ('r \<times> 'a list) option \<Rightarrow> bool" where
  "agree z c a = (case a of Some (r, ys) \<Rightarrow> (\<exists>q'. c = Inr (r, q') \<and> rep z q' ys)
                          | None \<Rightarrow> (\<exists>m. c = Inl (Panic m)))"

lemma SetBaseCap_rep:
  assumes "rep z q xs" shows "\<exists>q'. SetBaseCap n q = Inr q' \<and> rep z q' xs \<and> is_pow2 (minCap q')"
  using doubling_ends [of minCapacity n] assms
  by (auto simp: SetBaseCap_def minCapacity_def rep_def Cap_def)

lemma in_range_nat: "in_range i xs \<longleftrightarrow> (\<exists>k. i = int k \<and> k < length xs)"
  unfolding in_range_def by (auto intro: exI [of _ "nat i"])

lemma not_in_range:
  "rep z q xs \<Longrightarrow> \<not> in_range i xs \<Longrightarrow> checkRange q i = Inl (Panic ''deque: index out of range'')"
  by (auto simp: in_range_def intro: checkRange_rep)

lemma rep_dropped:
  "k < length xs \<Longrightarrow> take k xs @ xs ! k # drop (Suc k) xs = xs"
  by (simp add: id_take_nth_drop [symmetric])

lemma step_ends:
  assumes r: "rep z q xs"
  shows "agree z (run_op z OpPopFront q) (list_op OpPopFront xs)"
    "agree z (run_op z OpPopBack q) (list_op OpPopBack xs)"
    "agree z (run_op z OpFront q) (list_op OpFront xs)"
    "agree z (run_op z OpBack q) (list_op OpBack xs)"
proof -
  show "agree z (run_op z OpPopFront q) (list_op OpPopFront xs)"
    using r PopFront_rep [of z q "hd xs" "tl xs"] Pop_empty [of z q] by (cases xs) (auto simp: agree_def)
  show "agree z (run_op z OpPopBack q) (list_op OpPopBack xs)"
    using r PopBack_rep [of z q "butlast xs" "last xs"] Pop_empty [of z q]
    by (cases xs rule: rev_cases) (auto simp: agree_def)
  show "agree z (run_op z OpFront q) (list_op OpFront xs)"
    using r Front_rep [of z q "hd xs" "tl xs"] by (cases xs) (auto simp: agree_def Front_def rep_count)
  show "agree z (run_op z OpBack q) (list_op OpBack xs)"
    using r Back_rep [of z q "butlast xs" "last xs"]
    by (cases xs rule: rev_cases) (auto simp: agree_def Back_def rep_count)
qed

lemma step_positions:
  assumes r: "rep z q xs"
  shows "agree z (run_op z (OpAt i) q) (list_op (OpAt i) xs)"
    "agree z (run_op z (OpSet i x) q) (list_op (OpSet i x) xs)"
    "agree z (run_op z (OpSwap i j) q) (list_op (OpSwap i j) xs)"
    "agree z (run_op z (OpRemove i) q) (list_op (OpRemove i) xs)"
proof -
  show "agree z (run_op z (OpAt i) q) (list_op (OpAt i) xs)"
    using r At_rep [OF r] not_in_range [OF r, of i]
    by (cases "in_range i xs") (auto simp: agree_def in_range_nat At_def)
  show "agree z (run_op z (OpSet i x) q) (list_op (OpSet i x) xs)"
    using Set_rep [OF r, of "nat i" x] not_in_range [OF r, of i]
    by (cases "in_range i xs") (auto simp: agree_def in_range_nat Set_def)
  show "agree z (run_op z (OpRemove i) q) (list_op (OpRemove i) xs)"
  proof (cases "in_range i xs")
    case True
    then obtain k where k: "i = int k" "k < length xs" by (auto simp: in_range_nat)
    with r have "rep z q (take k xs @ xs ! k # drop (Suc k) xs)" by (simp add: rep_dropped)
    from Remove_rep [OF this] k show ?thesis by (auto simp: agree_def in_range_def)
  next
    case False
    with not_in_range [OF r False] show ?thesis by (simp add: agree_def Remove_def)
  qed
  show "agree z (run_op z (OpSwap i j) q) (list_op (OpSwap i j) xs)"
  proof (cases "in_range i xs \<and> in_range j xs")
    case True
    with Swap_rep [OF r, of "nat i" "nat j"] show ?thesis by (auto simp: agree_def in_range_nat)
  next
    case False
    moreover have "in_range i xs \<Longrightarrow> checkRange q i = Inr ()"
      by (simp add: in_range_def checkRange_rep(1) [OF r])
    ultimately show ?thesis using not_in_range [OF r]
      by (cases "in_range i xs") (auto simp: agree_def Swap_def)
  qed
qed

lemma step_agrees:
  assumes r: "rep z q xs"
  shows "agree z (run_op z op q) (list_op op xs)"
proof (cases op)
  case (OpPushBack x)
  with PushBack_rep [OF r, of x] show ?thesis by (auto simp: agree_def)
next
  case (OpPushFront x)
  with PushFront_rep [OF r, of x] show ?thesis by (auto simp: agree_def)
next
  case (OpInsert i x)
  with Insert_rep [OF r, of i x] show ?thesis by (auto simp: agree_def)
next
  case (OpRotate n)
  with Rotate_rep [OF r, of n] show ?thesis by (auto simp: agree_def)
next
  case OpClear
  have "rep z (q\<lparr>count := 0, head := 0, tail := 0, buf := replicate (length (buf q)) z\<rparr>) []"
    if "xs \<noteq> []" using r rep_ne [OF r that] is_pow2_pos
    by (intro rep_front [where k = "length (buf q)"]) (auto simp: rep_def Cap_def)
  with OpClear r Clear_empty [of z q] Clear_rep [OF r] show ?thesis
    by (cases "xs = []") (auto simp: agree_def)
next
  case (OpGrow n)
  with Grow_rep [OF r, of n] show ?thesis by (cases "n < 0") (auto simp: agree_def Grow_def)
next
  case (OpSetBaseCap n)
  with SetBaseCap_rep [OF r, of n] show ?thesis by (auto simp: agree_def)
qed (simp_all only: step_ends [OF r] step_positions [OF r])

lemma run_agrees: "rep z q xs \<Longrightarrow> agree z (run_ops z ops q) (list_ops ops xs)"
proof (induction ops arbitrary: q xs)
  case Nil
  then show ?case by (simp add: agree_def)
next
  case (Cons op ops)
  from step_agrees [OF Cons.prems, of op] consider
      m where "list_op op xs = None" "run_op z op q = Inl (Panic m)"
    | r ys q1 where "list_op op xs = Some (r, ys)" "run_op z op q = Inr (r, q1)" "rep z q1 ys"
    by (auto simp: agree_def split: option.splits)
  then show ?case
  proof cases
    case 1
    then show ?thesis by (simp add: agree_def)
  next
    case 2
    with Cons.IH [OF 2(3)] show ?thesis
      by (cases "list_ops ops ys") (auto simp: agree_def)
  qed
qed



subsection \<open>Draining and the full buffer\<close>

lemma shrinkToFit_drained: "rep z q [] \<Longrightarrow> \<exists>q'. shrinkToFit z q = Inr q' \<and> rep z q' []"
proof -
  assume r: "rep z q []"
  show ?thesis
  proof (cases "0 < minCap q")
    case True
    with shrinkToFit_rep [OF r] show ?thesis by simp
  next
    case False
    then have "minCap q = 0" using r by (auto simp: rep_def dest: is_pow2_pos)
    moreover from this have "rep z (q\<lparr>head := 0, tail := 0, buf := []\<rparr>) []"
      using r by (simp add: rep_def)
    ultimately show ?thesis using r
      by (cases "0 < Cap q") (auto simp: shrinkToFit_def rep_count)
  qed
qed

text \<open>
  Draining a queue through \<^verbatim>\<open>IterPopFront\<close> hands the consumer the elements from front to back.
  If the consumer takes them all, the queue is empty afterwards and its buffer is well-formed,
  whatever capacity it had.
\<close>

theorem iter_pop_front_drains:
  assumes "rep z q xs" and "\<And>x s. fst (yield x s)"
  shows "\<exists>q'. IterPopFront z yield s q = Inr (fold (\<lambda>x s. snd (yield x s)) xs s, q') \<and> rep z q' []"
proof -
  have all: "consume yield ys s = (fold (\<lambda>x s. snd (yield x s)) ys s, [])" for ys s
    using assms(2) by (induction ys arbitrary: s) (simp_all add: case_prod_beta)
  from popFrontLoop_rep [OF assms(1), of yield s] all obtain q1 where
    q1: "popFrontLoop z yield s q = Inr (fold (\<lambda>x s. snd (yield x s)) xs s, q1)" "rep z q1 []"
    by auto
  from shrinkToFit_drained [OF q1(2)] obtain q2 where "shrinkToFit z q1 = Inr q2" "rep z q2 []"
    by blast
  with q1 assms(1) show ?thesis
    by (cases "xs = []") (auto simp: IterPopFront_def Len_def rep_count)
qed

theorem iter_pop_front_drains_witness:
  "\<exists>q q'. rep 0 q [7, 8, 9 :: nat] \<and>
     IterPopFront 0 (\<lambda>x s. (True, s @ [x])) [] q = Inr ([7, 8, 9], q') \<and> rep 0 q' []"
proof -
  have "\<exists>q. rep 0 q [7, 8, 9 :: nat]"
    using run_agrees [OF rep_empty, of 0 "[OpPushBack 7, OpPushBack 8, OpPushBack (9 :: nat)]"]
    by (auto simp: agree_def)
  then obtain q where q: "rep 0 q [7, 8, 9 :: nat]" ..
  from iter_pop_front_drains [OF q, of "\<lambda>x s. (True, s @ [x])" "[]"] q show ?thesis by auto
qed

text \<open>
  \<^verbatim>\<open>CopyInSlice\<close> of exactly as many elements as the buffer holds leaves \<^verbatim>\<open>tail\<close> one past the end
  instead of 0.  The elements are right, but the next \<^verbatim>\<open>PushBack\<close> after a \<^verbatim>\<open>PopFront\<close> panics with an
  index out of range.
\<close>

theorem copy_in_full_buffer_breaks:
  assumes r: "rep z q ys" and full: "int (length xs) = Cap q" and two: "2 \<le> length xs"
  shows "\<exists>q1 q2. CopyInSlice z xs q = Inr q1 \<and> contents q1 = xs \<and> tail q1 = Cap q1 \<and>
     PopFront z q1 = Inr (hd xs, q2) \<and> PushBack z x q2 = Inl (Panic ''index out of range'')"
proof -
  from two obtain y y' xs' where xs: "xs = y # y' # xs'" by (cases xs; cases "tl xs") auto
  have ne: "buf q \<noteq> []" using full xs by (auto simp: Cap_def)
  then have p: "is_pow2 (int (length xs))" using r full by (auto simp: rep_def Cap_def)
  define q1 where "q1 = q\<lparr>buf := xs, count := int (length xs), tail := int (length xs), head := 0\<rparr>"
  have c: "CopyInSlice z xs q = Inr q1"
    using full by (simp add: CopyInSlice_def q1_def Cap_def go_copy_def Let_def)
  define n where "n = int (length xs)"
  have n: "2 \<le> n" "is_pow2 n" "n = int (length xs') + 2" using two p xs by (simp_all add: n_def)
  have odd: "4 * (n - 1) \<noteq> n" by presburger
  define q2 where "q2 = q1\<lparr>buf := xs[0 := z], head := 1, count := n - 1\<rparr>"
  have "nxt q1 0 = 1 AND (n - 1)" by (simp add: nxt_def q1_def Cap_def n_def)
  also have "\<dots> = 1" using n by (simp only: and_mask_mod) simp
  finally have t: "takeFront z q1 = Inr (y, q2)"
    using xs by (simp add: takeFront_def q1_def q2_def n_def)
  have "shrinkIfExcess z q2 = Inr q2"
    using odd by (simp add: shrinkIfExcess_def q2_def q1_def Cap_def n_def)
  with t n have pop: "PopFront z q1 = Inr (hd xs, q2)"
    using xs by (simp add: PopFront_def q1_def)
  have "PushBack z x q2 = Inl (Panic ''index out of range'')"
    by (simp add: PushBack_def growIfFull_def q2_def q1_def Cap_def n_def go_set_def)
  with c pop show ?thesis
    by (auto simp: q1_def contents_def Cap_def)
qed

theorem copy_in_full_buffer_breaks_witness:
  "\<exists>q q1 q2. rep 0 q [] \<and> CopyInSlice 0 [1, 2, 3, 4, 5, 6, 7, 8 :: nat] q = Inr q1 \<and>
     PopFront 0 q1 = Inr (1, q2) \<and> PushBack 0 9 q2 = Inl (Panic ''index out of range'')"
proof -
  obtain q :: "nat deque" where q: "Grow 0 8 emptyDeque = Inr q" "rep 0 q []"
    using Grow_rep [OF rep_empty, of 8 0] by auto
  have "Cap q = 8" using q(1)
    by (auto simp: Grow_def emptyDeque_def Cap_def Len_def minCapacity_def doubling.simps)
  with copy_in_full_buffer_breaks [OF q(2), of "[1, 2, 3, 4, 5, 6, 7, 8]" 9] q show ?thesis
    by auto
qed



end
