(* ===== verification/Dot.thy ===== *)
theory Dot
  imports DequeSpec "HOL-Library.Multiset"
begin

text \<open>
  The DNS-over-TLS client of \<^verbatim>\<open>mihomo/dns/dot.go\<close>: a last-in first-out pool of at most eight idle
  connections, kept in the ring buffer, and the exchange loop that retries while it draws old
  connections.  A connection variable is an option, \<open>None\<close> for Go's nil.  The network is the
  record \<open>env\<close> of what the context, the dialer and the DNS library answer in a world \<open>'w\<close>.  The
  connections closed in a goroutine of their own are closed at once here.
\<close>

subsection \<open>The client and its critical sections\<close>

record 'c dot_client =
  port :: string
  host :: string
  skipCertVerify :: bool
  nameCertVerify :: string
  disableReuse :: bool
  connections :: "'c option deque"

definition maxOldDotConns :: int where
  "maxOldDotConns = 8"

text \<open>\<open>split\<close> is \<^verbatim>\<open>net.SplitHostPort\<close>; an absent key of \<open>params\<close> reads as the empty string.\<close>

definition newDoTClient ::
  "(string \<Rightarrow> string \<times> string) \<Rightarrow> string \<Rightarrow> (string \<rightharpoonup> string) \<Rightarrow> 'c dot_client outcome" where
  "newDoTClient split addr params =
     (case split addr of (h, p) \<Rightarrow>
      let param = (\<lambda>k. case params k of None \<Rightarrow> [] | Some v \<Rightarrow> v) in
      rbind (SetBaseCap maxOldDotConns emptyDeque) (\<lambda>q.
      Inr \<lparr>port = p, host = h, skipCertVerify = (param ''skip-cert-verify'' = ''true''),
           nameCertVerify = param ''name-cert-verify'',
           disableReuse = (param ''disable-reuse'' = ''true''), connections = q\<rparr>))"

text \<open>The section that draws an idle connection.\<close>

definition dot_take :: "'c dot_client \<Rightarrow> ('c option \<times> 'c dot_client) outcome" where
  "dot_take t =
     (if disableReuse t then Inr (None, t)
      else if Len (connections t) > 0
      then rbind (PopBack None (connections t)) (\<lambda>(c, q). Inr (c, t\<lparr>connections := q\<rparr>))
      else Inr (None, t))"

text \<open>The section that returns a connection: what it evicts, to be closed, and the client.\<close>

definition dot_put :: "'c option \<Rightarrow> 'c dot_client \<Rightarrow> ('c option list \<times> 'c dot_client) outcome" where
  "dot_put c t =
     rbind (rbind (if Len (connections t) \<ge> maxOldDotConns
                   then rbind (PopFront None (connections t)) (\<lambda>(old, q). Inr ([old], q))
                   else Inr ([], connections t))
              (\<lambda>(out, q). rbind (PushBack None c q) (\<lambda>q. Inr (out, q))))
       (\<lambda>(out, q). Inr (out, t\<lparr>connections := q\<rparr>))"

text \<open>The loop of \<^verbatim>\<open>ResetConnection\<close>: the connections it closes.\<close>

lemma resize_count: "resize z n q = Inr q' \<Longrightarrow> deque.count q' = deque.count q"
  by (auto simp: resize_def rbind_eq_Inr)

lemma shrink_count: "shrinkIfExcess z q = Inr q' \<Longrightarrow> deque.count q' = deque.count q"
  by (auto simp: shrinkIfExcess_def resize_count split: if_splits)

lemma pop_count:
  "PopFront z q = Inr (x, q') \<Longrightarrow> 0 < deque.count q \<and> deque.count q' = deque.count q - 1"
  "PopBack z q = Inr (x, q') \<Longrightarrow> 0 < deque.count q \<and> deque.count q' = deque.count q - 1"
  by (auto simp: PopFront_def PopBack_def takeFront_def takeBack_def Let_def rbind_eq_Inr
      dest!: shrink_count split: if_splits)

function popAllFront :: "'c option deque \<Rightarrow> ('c option list \<times> 'c option deque) outcome" where
  "popAllFront q =
     (if Len q > 0
      then rbind (PopFront None q) (\<lambda>(c, q'). rbind (popAllFront q') (\<lambda>(cs, q''). Inr (c # cs, q'')))
      else Inr ([], q))"
  by pat_completeness auto
termination
  by (relation "measure (\<lambda>q. nat (deque.count q))") (auto simp: Len_def dest: pop_count)

declare popAllFront.simps [simp del]

definition ResetConnection :: "'c dot_client \<Rightarrow> ('c option list \<times> 'c dot_client) outcome" where
  "ResetConnection t =
     (if disableReuse t then Inr ([], t)
      else rbind (popAllFront (connections t)) (\<lambda>(cs, q). Inr (cs, t\<lparr>connections := q\<rparr>)))"

definition dotClose :: "'c dot_client \<Rightarrow> ('c option list \<times> 'c dot_client) outcome" where
  "dotClose t = ResetConnection t"

subsection \<open>The exchange loop\<close>

record ('c, 'w, 'e, 'm) dot_env =
  ctxErr :: "'w \<Rightarrow> 'e option \<times> 'w"
  dialContext :: "'w \<Rightarrow> ('e + 'c) \<times> 'w"
  exchangeWithConn :: "'c \<Rightarrow> 'w \<Rightarrow> ('e + 'm) \<times> 'w"
  closeConn :: "'c \<Rightarrow> 'w \<Rightarrow> 'w"

text \<open>Closing a list of connection variables; a nil among them is a nil dereference.\<close>

fun closeAll :: "('c, 'w, 'e, 'm) dot_env \<Rightarrow> 'c option list \<Rightarrow> 'w \<Rightarrow> 'w outcome" where
  "closeAll env [] w = Inr w"
| "closeAll env (None # cs) w = Inl (Panic ''nil pointer dereference'')"
| "closeAll env (Some c # cs) w = closeAll env cs (closeConn env c w)"

lemma take_count: "dot_take t = Inr (Some c, t') \<Longrightarrow>
    nat (deque.count (connections t')) < nat (deque.count (connections t))"
  by (auto simp: dot_take_def rbind_eq_Inr Len_def split: if_splits dest: pop_count)

text \<open>
  One pass: check the context, draw or dial, exchange.  A failed exchange on an old connection
  starts over; that on a fresh one is the answer.
\<close>

function exchangeLoop ::
  "('c, 'w, 'e, 'm) dot_env \<Rightarrow> 'c dot_client \<Rightarrow> 'w \<Rightarrow> (('e + 'm) \<times> 'c dot_client \<times> 'w) outcome" where
  "exchangeLoop env t w =
     (case ctxErr env w of
        (Some e, w) \<Rightarrow> Inr (Inl e, t, w)
      | (None, w) \<Rightarrow>
        (case dot_take t of
           Inl p \<Rightarrow> Inl p
         | Inr (Some c, t') \<Rightarrow>
             (case exchangeWithConn env c w of
                (Inl e, w) \<Rightarrow> exchangeLoop env t' (closeConn env c w)
              | (Inr m, w) \<Rightarrow>
                  if \<not> disableReuse t'
                  then rbind (dot_put (Some c) t') (\<lambda>(out, t).
                       rbind (closeAll env out w) (\<lambda>w. Inr (Inr m, t, w)))
                  else Inr (Inr m, t', closeConn env c w))
         | Inr (None, t') \<Rightarrow>
             (case dialContext env w of
                (Inl e, w) \<Rightarrow> Inr (Inl e, t', w)
              | (Inr c, w) \<Rightarrow>
                (case exchangeWithConn env c w of
                   (Inl e, w) \<Rightarrow> Inr (Inl e, t', closeConn env c w)
                 | (Inr m, w) \<Rightarrow>
                     if \<not> disableReuse t'
                     then rbind (dot_put (Some c) t') (\<lambda>(out, t).
                          rbind (closeAll env out w) (\<lambda>w. Inr (Inr m, t, w)))
                     else Inr (Inr m, t', closeConn env c w)))))"
  by pat_completeness auto
termination
  by (relation "measure (\<lambda>(env, t, w). nat (deque.count (connections t)))") (auto dest: take_count)

declare exchangeLoop.simps [simp del]


subsection \<open>The pool\<close>

definition pool :: "'c dot_client \<Rightarrow> 'c list \<Rightarrow> bool" where
  "pool t cs \<longleftrightarrow> rep None (connections t) (map Some cs)"

lemma dot_take_none: "disableReuse t \<or> pool t [] \<Longrightarrow> dot_take t = Inr (None, t)"
  by (auto simp: dot_take_def pool_def dest: ring.len)

lemma dot_take_last:
  assumes "pool t (cs @ [c])" "\<not> disableReuse t"
  shows "\<exists>q. dot_take t = Inr (Some c, t\<lparr>connections := q\<rparr>) \<and> pool (t\<lparr>connections := q\<rparr>) cs"
proof -
  from assms have r: "rep None (connections t) (map Some cs @ [Some c])" by (simp add: pool_def)
  from ring.pop_back [OF r] ring.len [OF r] assms(2) show ?thesis
    by (auto simp: dot_take_def pool_def)
qed

lemma dot_put_bounded:
  assumes "pool t cs"
  shows "\<exists>q. dot_put (Some c) t =
             Inr (map Some (if length cs < 8 then [] else [hd cs]), t\<lparr>connections := q\<rparr>) \<and>
             pool (t\<lparr>connections := q\<rparr>) ((if length cs < 8 then cs else tl cs) @ [c])"
proof -
  from assms have r: "rep None (connections t) (map Some cs)" by (simp add: pool_def)
  from ring.put_bounded [OF r, of 8 "Some c"] obtain out q where
    "rbind (if Len (connections t) \<ge> 8
            then rbind (PopFront None (connections t)) (\<lambda>(old, q). Inr ([old], q))
            else Inr ([], connections t))
       (\<lambda>(out, q). rbind (PushBack None (Some c) q) (\<lambda>q. Inr (out, q))) = Inr (out, q)"
    and q: "rep None q (drop (length out) (map Some cs) @ [Some c])"
    and out: "out = (if length (map Some cs) < 8 then [] else [hd (map Some cs)])"
    by auto
  then have "dot_put (Some c) t = Inr (out, t\<lparr>connections := q\<rparr>)"
    by (simp add: dot_put_def maxOldDotConns_def)
  with q out show ?thesis
    by (cases cs) (auto simp: pool_def drop_Suc)
qed

lemma popAllFront_rep:
  "rep None q (map Some cs) \<Longrightarrow> \<exists>q'. popAllFront q = Inr (map Some cs, q') \<and> rep None q' []"
proof (induction cs arbitrary: q)
  case Nil
  then show ?case by (auto simp: popAllFront.simps [of q] dest: ring.len)
next
  case (Cons c cs)
  then have r: "rep None q (Some c # map Some cs)" by simp
  from ring.pop_front [OF r] obtain q1 where q1: "PopFront None q = Inr (Some c, q1)"
    "rep None q1 (map Some cs)" by blast
  with Cons.IH [OF q1(2)] ring.len [OF r] show ?case
    by (auto simp: popAllFront.simps [of q])
qed

lemma ResetConnection_pool:
  assumes "pool t cs" "\<not> disableReuse t"
  shows "\<exists>q. ResetConnection t = Inr (map Some cs, t\<lparr>connections := q\<rparr>) \<and>
             pool (t\<lparr>connections := q\<rparr>) []"
  using popAllFront_rep [of "connections t" cs] assms by (auto simp: pool_def ResetConnection_def)

lemma closeAll_some: "\<exists>w'. closeAll env (map Some cs) w = Inr w'"
  by (induction cs arbitrary: w) auto

subsection \<open>Properties of the exchange loop\<close>

text \<open>A fresh connection, when there is nothing to draw.\<close>

lemma exchange_fresh:
  assumes p: "pool t cs" and l: "length cs \<le> 8" and none: "dot_take t = Inr (None, t)"
  shows "\<exists>r t' w' cs'. exchangeLoop env t w = Inr (r, t', w') \<and> pool t' cs' \<and> length cs' \<le> 8"
proof -
  obtain o1 w1 where c: "ctxErr env w = (o1, w1)" by fastforce
  obtain d w2 where d: "dialContext env w1 = (d, w2)" by fastforce
  show ?thesis
  proof (cases o1)
    case (Some e)
    with c p l show ?thesis by (auto simp: exchangeLoop.simps [of env t])
  next
    case None
    show ?thesis
    proof (cases d)
      case (Inl e)
      with None c d none p l show ?thesis by (auto simp: exchangeLoop.simps [of env t])
    next
      case (Inr x)
      obtain m w3 where x: "exchangeWithConn env x w2 = (m, w3)" by fastforce
      from dot_put_bounded [OF p, of x] obtain q where
        "dot_put (Some x) t = Inr (map Some (if length cs < 8 then [] else [hd cs]), t\<lparr>connections := q\<rparr>)"
        "pool (t\<lparr>connections := q\<rparr>) ((if length cs < 8 then cs else tl cs) @ [x])" by blast
      moreover obtain w4 where "closeAll env (map Some (if length cs < 8 then [] else [hd cs])) w3 = Inr w4"
        by (metis closeAll_some)
      ultimately show ?thesis using None Inr c d none p l x
        by (cases m; cases "disableReuse t") (auto simp: exchangeLoop.simps [of env t] simp del: map_append)
    qed
  qed
qed

text \<open>
  C20.  Whatever the network answers, an exchange of the DNS-over-TLS client returns (its retry loop
  ends, because every retry consumes an idle connection), does not panic, and leaves at most eight
  idle connections in the pool.
\<close>

theorem dot_exchange_returns:
  assumes "pool t cs" and "length cs \<le> 8"
  shows "\<exists>r t' w' cs'. exchangeLoop env t w = Inr (r, t', w') \<and> pool t' cs' \<and> length cs' \<le> 8"
  using assms
proof (induction cs arbitrary: t w rule: rev_induct)
  case Nil
  show ?case
    by (rule exchange_fresh [OF Nil.prems(1)]) (use Nil.prems in \<open>simp_all add: dot_take_none\<close>)
next
  case (snoc c cs)
  show ?case
  proof (cases "disableReuse t")
    case True
    show ?thesis
      by (rule exchange_fresh [OF snoc.prems]) (simp add: dot_take_none True)
  next
    case False
    from dot_take_last [OF snoc.prems(1) False] obtain q where
      q: "dot_take t = Inr (Some c, t\<lparr>connections := q\<rparr>)" "pool (t\<lparr>connections := q\<rparr>) cs" by blast
    have l: "length cs \<le> 8" "length cs < 8" using snoc.prems(2) by simp_all
    obtain o1 w1 where cx: "ctxErr env w = (o1, w1)" by fastforce
    obtain m w2 where x: "exchangeWithConn env c w1 = (m, w2)" by fastforce
    from dot_put_bounded [OF q(2), of c] l obtain q' where
      q': "dot_put (Some c) (t\<lparr>connections := q\<rparr>) = Inr ([], t\<lparr>connections := q'\<rparr>)"
      "pool (t\<lparr>connections := q'\<rparr>) (cs @ [c])" by auto
    show ?thesis
    proof (cases o1)
      case (Some e)
      with cx snoc.prems show ?thesis by (auto simp: exchangeLoop.simps [of env t])
    next
      case None
      show ?thesis
      proof (cases m)
        case (Inl e)
        with snoc.IH [OF q(2) l(1), of "closeConn env c w2"] None cx q x show ?thesis
          by (simp add: exchangeLoop.simps [of env t])
      next
        case (Inr v)
        with None cx q q' x False snoc.prems(2) show ?thesis
          by (auto simp: exchangeLoop.simps [of env t])
      qed
    qed
  qed
qed

definition demo_env :: "(nat, nat list, string, nat) dot_env" where
  "demo_env = \<lparr>ctxErr = (\<lambda>w. (None, w)), dialContext = (\<lambda>w. (Inr 99, w)),
     exchangeWithConn = (\<lambda>c w. (if c < 10 then Inl ''broken'' else Inr c, w)),
     closeConn = (\<lambda>c w. w @ [c])\<rparr>"

definition demo_client :: "nat dot_client" where
  "demo_client = \<lparr>port = ''853'', host = ''dns'', skipCertVerify = False, nameCertVerify = [],
     disableReuse = False,
     connections = \<lparr>buf = [Some 3, Some 4, None, None, None, None, None, None], head = 0, tail = 2,
                    count = 2, minCap = 8\<rparr>\<rparr>"

lemma demo_pool: "pool demo_client [3, 4]"
  unfolding pool_def
  by (rule rep_front [where k = 6]) (simp_all add: demo_client_def Cap_def numeral_eq_Suc)

theorem dot_exchange_returns_witness:
  "pool demo_client [3, 4] \<and>
   (\<exists>r t' w' cs'. exchangeLoop demo_env demo_client [] = Inr (r, t', w') \<and> pool t' cs' \<and> length cs' \<le> 8)"
  using demo_pool dot_exchange_returns [OF demo_pool, of demo_env "[]"] by simp

text \<open>
  Dead idle connections are not reported to the caller: if the context lives and every idle
  connection fails, the loop closes them all, newest first, and goes on as it would have with an
  empty pool.
\<close>

theorem dot_exchange_skips_dead_connections:
  assumes "pool t cs" and "\<not> disableReuse t"
    and "\<And>w. fst (ctxErr env w) = None"
    and "\<And>c w. c \<in> set cs \<Longrightarrow> \<exists>e. fst (exchangeWithConn env c w) = Inl e"
  shows "\<exists>t'. pool t' [] \<and> exchangeLoop env t w = exchangeLoop env t'
     (fold (\<lambda>c w. closeConn env c (snd (exchangeWithConn env c (snd (ctxErr env w))))) (rev cs) w)"
  using assms(1,2,4)
proof (induction cs arbitrary: t w rule: rev_induct)
  case Nil
  then show ?case by auto
next
  case (snoc c cs)
  from dot_take_last [OF snoc.prems(1,2)] obtain q where
    q: "dot_take t = Inr (Some c, t\<lparr>connections := q\<rparr>)" "pool (t\<lparr>connections := q\<rparr>) cs" by blast
  obtain w1 where cx: "ctxErr env w = (None, w1)" using assms(3) by (metis prod.collapse)
  obtain e w2 where x: "exchangeWithConn env c w1 = (Inl e, w2)"
    using snoc.prems(3) [of c w1] by (cases "exchangeWithConn env c w1") auto
  have "exchangeLoop env t w = exchangeLoop env (t\<lparr>connections := q\<rparr>) (closeConn env c w2)"
    using cx q x by (simp add: exchangeLoop.simps [of env t])
  with snoc.IH [OF q(2), of "closeConn env c w2"] snoc.prems cx x show ?case by simp
qed

theorem dot_exchange_skips_dead_connections_witness:
  "\<exists>t'. pool t' [] \<and> exchangeLoop demo_env demo_client [] = exchangeLoop demo_env t' [4, 3]"
proof -
  have "\<not> disableReuse demo_client" by (simp add: demo_client_def)
  moreover have "fst (ctxErr demo_env w) = None" for w by (simp add: demo_env_def)
  moreover have "\<exists>e. fst (exchangeWithConn demo_env c w) = Inl e" if "c \<in> set [3, 4]" for c w
    using that by (auto simp: demo_env_def)
  ultimately show ?thesis
    using dot_exchange_skips_dead_connections [OF demo_pool, of demo_env "[]"]
    by (simp add: demo_env_def)
qed

subsection \<open>Exchanges side by side\<close>

text \<open>
  Any number of exchanges and resets on one client: each critical section is one step, and between
  the sections an exchange owns the connection it drew or dialled.  A dialled connection is a new
  object.
\<close>

record 'c dot_sys =
  client :: "'c dot_client"
  inUse :: "'c multiset"
  closed :: "'c multiset"

definition idle :: "'c dot_client \<Rightarrow> 'c multiset" where
  "idle t = mset (List.map_filter id (contents (connections t)))"

inductive dot_step :: "'c dot_sys \<Rightarrow> 'c dot_sys \<Rightarrow> bool" where
  draw: "dot_take (client s) = Inr (Some c, t) \<Longrightarrow>
     dot_step s (s\<lparr>client := t, inUse := add_mset c (inUse s)\<rparr>)"
| dial: "c \<notin># idle (client s) + inUse s + closed s \<Longrightarrow>
     dot_step s (s\<lparr>inUse := add_mset c (inUse s)\<rparr>)"
| giveBack: "c \<in># inUse s \<Longrightarrow> \<not> disableReuse (client s) \<Longrightarrow>
     dot_put (Some c) (client s) = Inr (out, t) \<Longrightarrow>
     dot_step s (s\<lparr>client := t, inUse := inUse s - {#c#},
                   closed := closed s + mset (List.map_filter id out)\<rparr>)"
| drop: "c \<in># inUse s \<Longrightarrow>
     dot_step s (s\<lparr>inUse := inUse s - {#c#}, closed := add_mset c (closed s)\<rparr>)"
| reset: "ResetConnection (client s) = Inr (out, t) \<Longrightarrow>
     dot_step s (s\<lparr>client := t, closed := closed s + mset (List.map_filter id out)\<rparr>)"

inductive dot_reachable :: "'c dot_sys \<Rightarrow> bool" where
  start: "newDoTClient split addr params = Inr t \<Longrightarrow>
     dot_reachable \<lparr>client = t, inUse = {#}, closed = {#}\<rparr>"
| step: "dot_reachable s \<Longrightarrow> dot_step s s' \<Longrightarrow> dot_reachable s'"

definition dot_inv :: "'c dot_sys \<Rightarrow> bool" where
  "dot_inv s \<longleftrightarrow> (\<exists>cs. pool (client s) cs \<and> length cs \<le> 8 \<and>
     (disableReuse (client s) \<longrightarrow> cs = []) \<and>
     (\<forall>c. multiset.count (mset cs + inUse s + closed s) c \<le> 1))"

lemma map_filter_some [simp]: "List.map_filter id (map Some cs) = cs"
  by (induction cs) (simp_all add: map_filter_simps)

lemma idle_pool: "pool t cs \<Longrightarrow> idle t = mset cs"
  by (simp add: idle_def pool_def rep_contents)

lemma pool_unique: "pool t cs \<Longrightarrow> pool t ds \<Longrightarrow> cs = ds"
  unfolding pool_def by (metis rep_contents inj_map_eq_map inj_Some)

lemma mset_hd_tl: "cs \<noteq> [] \<Longrightarrow> mset cs = add_mset (hd cs) (mset (tl cs))"
  by (cases cs) simp_all

lemma dot_inv_start:
  fixes t :: "'c dot_client"
  assumes "newDoTClient split addr params = Inr t"
  shows "dot_inv \<lparr>client = t, inUse = {#}, closed = {#}\<rparr>"
proof -
  obtain q :: "'c option deque" where "SetBaseCap maxOldDotConns emptyDeque = Inr q" "rep None q []"
    using SetBaseCap_rep [OF rep_empty, of maxOldDotConns None] by blast
  with assms have "pool t []" by (auto simp: newDoTClient_def Let_def pool_def split: prod.splits)
  then show ?thesis by (auto simp: dot_inv_def)
qed

lemma dot_step_inv: "dot_step s s' \<Longrightarrow> dot_inv s \<Longrightarrow> dot_inv s'"
proof (induction rule: dot_step.induct)
  case (draw s c t)
  from draw.prems obtain cs where cs: "pool (client s) cs" "length cs \<le> 8"
    "disableReuse (client s) \<longrightarrow> cs = []"
    "\<forall>d. multiset.count (mset cs + inUse s + closed s) d \<le> 1" by (auto simp: dot_inv_def)
  have reuse: "\<not> disableReuse (client s)" using draw.hyps by (auto simp: dot_take_def)
  with draw.hyps cs have "cs \<noteq> []" by (auto simp: dot_take_none)
  then obtain ds d where ds: "cs = ds @ [d]" by (cases cs rule: rev_cases) auto
  with dot_take_last [of "client s" ds d] cs reuse draw.hyps obtain q where
    "t = (client s)\<lparr>connections := q\<rparr>" "pool t ds" "c = d" by auto
  with cs ds reuse show ?case
    unfolding dot_inv_def by (intro exI [of _ ds]) (simp add: ac_simps)
next
  case (dial c s)
  from dial.prems obtain cs where cs: "pool (client s) cs" "length cs \<le> 8"
    "disableReuse (client s) \<longrightarrow> cs = []"
    "\<forall>d. multiset.count (mset cs + inUse s + closed s) d \<le> 1" by (auto simp: dot_inv_def)
  with dial.hyps have "multiset.count (mset cs + inUse s + closed s) c = 0"
    by (simp only: idle_pool not_in_iff)
  with cs show ?case unfolding dot_inv_def by (intro exI [of _ cs]) auto
next
  case (giveBack c s out t)
  from giveBack.prems obtain cs where cs: "pool (client s) cs" "length cs \<le> 8"
    "\<forall>d. multiset.count (mset cs + inUse s + closed s) d \<le> 1" by (auto simp: dot_inv_def)
  let ?ev = "if length cs < 8 then [] else [hd cs]" and ?kp = "if length cs < 8 then cs else tl cs"
  from dot_put_bounded [OF cs(1), of c] giveBack.hyps obtain q where
    t: "t = (client s)\<lparr>connections := q\<rparr>" "pool t (?kp @ [c])" and out: "out = map Some ?ev" by auto
  have "mset cs = mset ?kp + mset ?ev" using mset_hd_tl [of cs] by (cases "cs = []") auto
  moreover obtain M where M: "inUse s = add_mset c M" using giveBack.hyps by (meson multi_member_split)
  ultimately have "mset cs + inUse s + closed s =
      mset (?kp @ [c]) + (inUse s - {#c#}) + (closed s + mset (List.map_filter id out))"
    unfolding out map_filter_some by simp
  with cs t giveBack.hyps show ?case
    unfolding dot_inv_def by (intro exI [of _ "?kp @ [c]"]) auto
next
  case (drop c s)
  then obtain M where "inUse s = add_mset c M" by (meson multi_member_split)
  with drop.prems show ?case by (auto simp: dot_inv_def)
next
  case (reset s out t)
  from reset.prems obtain cs where cs: "pool (client s) cs" "length cs \<le> 8"
    "disableReuse (client s) \<longrightarrow> cs = []"
    "\<forall>d. multiset.count (mset cs + inUse s + closed s) d \<le> 1" by (auto simp: dot_inv_def)
  show ?case
  proof (cases "disableReuse (client s)")
    case True
    with reset.hyps cs show ?thesis by (auto simp: dot_inv_def ResetConnection_def)
  next
    case False
    from ResetConnection_pool [OF cs(1) False] reset.hyps obtain q where
      "t = (client s)\<lparr>connections := q\<rparr>" "pool t []" "out = map Some cs" by auto
    with cs show ?thesis unfolding dot_inv_def
      by (intro exI [of _ "[]"]) (simp add: ac_simps)
  qed
qed

lemma dot_reachable_inv: "dot_reachable s \<Longrightarrow> dot_inv s"
  by (induction rule: dot_reachable.induct) (auto intro: dot_inv_start dot_step_inv)

text \<open>
  C19.  However the exchanges and resets of a client interleave: a connection that one exchange holds
  is held by no other, is not idle and has not been closed; at most eight connections are idle; and
  giving a connection back never panics.
\<close>

theorem dot_connection_exclusive:
  assumes "dot_reachable s" and "c \<in># inUse s"
  shows "multiset.count (inUse s) c = 1 \<and> c \<notin># idle (client s) \<and> c \<notin># closed s \<and>
     size (idle (client s)) \<le> 8 \<and> (\<exists>r. dot_put (Some c) (client s) = Inr r)"
proof -
  from dot_reachable_inv [OF assms(1)] obtain cs where cs: "pool (client s) cs" "length cs \<le> 8"
    "multiset.count (mset cs + inUse s + closed s) c \<le> 1" by (auto simp: dot_inv_def)
  moreover have "1 \<le> multiset.count (inUse s) c" using assms(2) by simp
  ultimately have "multiset.count (inUse s) c = 1" "multiset.count (mset cs) c = 0"
    "multiset.count (closed s) c = 0" unfolding count_union by linarith+
  with cs dot_put_bounded [OF cs(1), of c] show ?thesis
    by (auto simp: idle_pool not_in_iff)
qed

theorem dot_connection_exclusive_witness:
  "\<exists>s. dot_reachable s \<and> (5 :: nat) \<in># inUse s \<and> multiset.count (inUse s) 5 = 1"
proof -
  obtain q :: "nat option deque" where q: "SetBaseCap maxOldDotConns emptyDeque = Inr q"
    using SetBaseCap_rep [OF rep_empty, of maxOldDotConns None] by blast
  define t where "t = \<lparr>port = [], host = [], skipCertVerify = False, nameCertVerify = [],
     disableReuse = False, connections = q\<rparr>"
  have "newDoTClient (\<lambda>_. ([], [])) [] Map.empty = Inr t"
    using q by (simp add: newDoTClient_def t_def)
  then have r0: "dot_reachable \<lparr>client = t, inUse = {#}, closed = {#}\<rparr>" by (rule dot_reachable.start)
  have "rep (None :: nat option) q []"
    using SetBaseCap_rep [OF rep_empty [of "None :: nat option"], of maxOldDotConns] q by simp
  then have "pool t []" by (simp add: t_def pool_def)
  then have "idle t = {#}" by (simp add: idle_pool)
  then have "dot_step \<lparr>client = t, inUse = {#}, closed = {#}\<rparr>
      (\<lparr>client = t, inUse = {#}, closed = {#}\<rparr>\<lparr>inUse := add_mset 5 {#}\<rparr>)"
    using dot_step.dial [of 5 "\<lparr>client = t, inUse = {#}, closed = {#}\<rparr>"] by simp
  with r0 have "dot_reachable \<lparr>client = t, inUse = {#5#}, closed = {#}\<rparr>"
    by (auto intro: dot_reachable.step)
  from dot_connection_exclusive [OF this, of 5] this show ?thesis by fastforce
qed

end
