(* ===== verification/DomainTrie.thy ===== *)
theory DomainTrie
  imports Prelude "HOL-Library.AList"
begin

text \<open>
  The domain trie of \<^verbatim>\<open>mihomo/component/trie\<close> (\<^verbatim>\<open>domain.go\<close>, \<^verbatim>\<open>node.go\<close>): patterns such as
  \<^verbatim>\<open>www.example.com\<close>, \<^verbatim>\<open>*.example.com\<close>, \<^verbatim>\<open>.example.com\<close> and \<^verbatim>\<open>+.example.com\<close> are stored label by
  label from the last one, and a domain is looked up with static labels before wildcards.  Strings
  are lists of bytes; \<^verbatim>\<open>strings.ToLower\<close>, which rests on the tables of Unicode, is the argument
  \<open>lower\<close>.  A Go map is an association list whose order is the order in which a range visits it.
\<close>

subsection \<open>Nodes\<close>

datatype (plugins only: code size) 'd node = Node
  (childMap: "(string \<times> 'd node) list option")
  (childNode: "'d node option")
  (childStr: string)
  (inited: bool)
  (node_data: 'd)

definition newNode :: "'d \<Rightarrow> 'd node" where
  "newNode z = Node None None [] False z"

definition getChild :: "'d node \<Rightarrow> string \<Rightarrow> 'd node option" where
  "getChild n s =
     (case childMap n of
        None \<Rightarrow> (case childNode n of
                   Some c \<Rightarrow> if childStr n = s then Some c else None
                 | None \<Rightarrow> None)
      | Some m \<Rightarrow> map_of m s)"

definition hasChild :: "'d node \<Rightarrow> string \<Rightarrow> bool" where
  "hasChild n s = (getChild n s \<noteq> None)"

definition addChild :: "string \<Rightarrow> 'd node \<Rightarrow> 'd node \<Rightarrow> 'd node" where
  "addChild s child n =
     (case childMap n of
        None \<Rightarrow>
          (case childNode n of
             None \<Rightarrow> Node None (Some child) s (inited n) (node_data n)
           | Some c \<Rightarrow> Node (Some (AList.update s child [(childStr n, c)])) None [] (inited n) (node_data n))
      | Some m \<Rightarrow> Node (Some (AList.update s child m)) (childNode n) (childStr n) (inited n) (node_data n))"

definition getOrNewChild :: "'d \<Rightarrow> string \<Rightarrow> 'd node \<Rightarrow> 'd node \<times> 'd node" where
  "getOrNewChild z s n =
     (case getChild n s of
        Some c \<Rightarrow> (c, n)
      | None \<Rightarrow> (newNode z, addChild s (newNode z) n))"

text \<open>A write through the pointer to the child \<open>s\<close>, seen from its parent.\<close>

definition putChild :: "string \<Rightarrow> 'd node \<Rightarrow> 'd node \<Rightarrow> 'd node" where
  "putChild s child n =
     (case childMap n of
        None \<Rightarrow> Node None (Some child) (childStr n) (inited n) (node_data n)
      | Some m \<Rightarrow> Node (Some (AList.update s child m)) (childNode n) (childStr n) (inited n) (node_data n))"

definition setData :: "'d \<Rightarrow> 'd node \<Rightarrow> 'd node" where
  "setData d n = Node (childMap n) (childNode n) (childStr n) True d"

definition isEmpty :: "'d node option \<Rightarrow> bool" where
  "isEmpty n = (case n of None \<Rightarrow> True | Some n \<Rightarrow> \<not> inited n)"

definition getChildren :: "'d node \<Rightarrow> (string \<times> 'd node) list" where
  "getChildren n =
     (case childMap n of
        None \<Rightarrow> (case childNode n of Some c \<Rightarrow> [(childStr n, c)] | None \<Rightarrow> [])
      | Some m \<Rightarrow> m)"

text \<open>
  Compacting a node: a map with one entry becomes the single child, which is then compacted.
  Cloning a string does not change it.
\<close>

fun optimize :: "'d node \<Rightarrow> 'd node" where
  "optimize (Node None c s i d) = Node None (map_option optimize c) s i d"
| "optimize (Node (Some []) c s i d) = Node None (map_option optimize c) s i d"
| "optimize (Node (Some [(k, c)]) _ s i d) = Node None (Some (optimize c)) k i d"
| "optimize (Node (Some (kc # kc' # m)) c s i d) =
     Node (Some (map (\<lambda>(k, c). (k, optimize c)) (kc # kc' # m))) (map_option optimize c) s i d"

subsection \<open>Patterns\<close>

definition wildcard :: string where "wildcard = ''*''"
definition dotWildcard :: string where "dotWildcard = []"
definition complexWildcard :: string where "complexWildcard = ''+''"

text \<open>\<^verbatim>\<open>strings.Split(s, ".")\<close> and \<^verbatim>\<open>strings.Join(parts, ".")\<close>.\<close>

fun splitDots :: "string \<Rightarrow> string list" where
  "splitDots [] = [[]]"
| "splitDots (c # s) =
     (if c = CHR ''.'' then [] # splitDots s
      else case splitDots s of [] \<Rightarrow> [[c]] | p # ps \<Rightarrow> (c # p) # ps)"

fun joinDomain :: "string list \<Rightarrow> string" where
  "joinDomain [] = []"
| "joinDomain [p] = p"
| "joinDomain (p # q # ps) = p @ CHR ''.'' # joinDomain (q # ps)"

text \<open>
  \<^verbatim>\<open>unicode.IsSpace\<close> of the first or the last rune: the string starts or ends with the UTF-8
  encoding of one of Unicode's white space characters.
\<close>

definition spaceRunes :: "string list" where
  "spaceRunes =
     [[CHR 0x09], [CHR 0x0A], [CHR 0x0B], [CHR 0x0C], [CHR 0x0D], [CHR 0x20],
      [CHR 0xC2, CHR 0x85], [CHR 0xC2, CHR 0xA0], [CHR 0xE1, CHR 0x9A, CHR 0x80],
      [CHR 0xE2, CHR 0x80, CHR 0x80], [CHR 0xE2, CHR 0x80, CHR 0x81], [CHR 0xE2, CHR 0x80, CHR 0x82],
      [CHR 0xE2, CHR 0x80, CHR 0x83], [CHR 0xE2, CHR 0x80, CHR 0x84], [CHR 0xE2, CHR 0x80, CHR 0x85],
      [CHR 0xE2, CHR 0x80, CHR 0x86], [CHR 0xE2, CHR 0x80, CHR 0x87], [CHR 0xE2, CHR 0x80, CHR 0x88],
      [CHR 0xE2, CHR 0x80, CHR 0x89], [CHR 0xE2, CHR 0x80, CHR 0x8A], [CHR 0xE2, CHR 0x80, CHR 0xA8],
      [CHR 0xE2, CHR 0x80, CHR 0xA9], [CHR 0xE2, CHR 0x80, CHR 0xAF], [CHR 0xE2, CHR 0x81, CHR 0x9F],
      [CHR 0xE3, CHR 0x80, CHR 0x80]]"

definition leadingSpace :: "string \<Rightarrow> bool" where
  "leadingSpace s = list_ex (\<lambda>r. take (length r) s = r) spaceRunes"

definition trailingSpace :: "string \<Rightarrow> bool" where
  "trailingSpace s = list_ex (\<lambda>r. drop (length s - length r) s = r) spaceRunes"

text \<open>Why a pattern is rejected; labels are counted from one.\<close>

datatype (plugins only: code size) bad_domain = DomainEmpty | TrailingDot | LeadingWhitespace | TrailingWhitespace
  | LabelEmpty nat | PlusNotWhole nat | PlusNotFirst | PlusAlone | StarNotWhole nat

fun emptyLabel :: "nat \<Rightarrow> string list \<Rightarrow> bad_domain option" where
  "emptyLabel i [] = None"
| "emptyLabel i (p # ps) = (if p = [] then Some (LabelEmpty i) else emptyLabel (Suc i) ps)"

fun badWildcard :: "nat \<Rightarrow> nat \<Rightarrow> string list \<Rightarrow> bad_domain option" where
  "badWildcard n i [] = None"
| "badWildcard n i (p # ps) =
     (if CHR ''+'' \<in> set p \<and> p \<noteq> complexWildcard then Some (PlusNotWhole (Suc i))
      else if CHR ''+'' \<in> set p \<and> i \<noteq> 0 then Some PlusNotFirst
      else if CHR ''+'' \<in> set p \<and> n = 1 then Some PlusAlone
      else if CHR ''*'' \<in> set p \<and> p \<noteq> wildcard then Some (StarNotWhole (Suc i))
      else badWildcard n (Suc i) ps)"

definition ValidAndSplitDomain ::
  "(string \<Rightarrow> string) \<Rightarrow> string \<Rightarrow> (string \<times> bad_domain) + string list" where
  "ValidAndSplitDomain lower domain =
     (if domain = [] then Inl (domain, DomainEmpty)
      else if last domain = CHR ''.'' then Inl (domain, TrailingDot)
      else if leadingSpace domain then Inl (domain, LeadingWhitespace)
      else if trailingSpace domain then Inl (domain, TrailingWhitespace)
      else let parts = splitDots (lower domain) in
        case (if length parts = 1
              then (if hd parts = [] then Some DomainEmpty else None)
              else emptyLabel 2 (tl parts)) of
          Some e \<Rightarrow> Inl (domain, e)
        | None \<Rightarrow> (case badWildcard (length parts) 0 parts of
                     Some e \<Rightarrow> Inl (domain, e)
                   | None \<Rightarrow> Inr parts))"

subsection \<open>The trie\<close>

record 'd domain_trie =
  root :: "'d node"

definition newTrie :: "'d \<Rightarrow> 'd domain_trie" where
  "newTrie z = \<lparr>root = newNode z\<rparr>"

text \<open>The loop of \<^verbatim>\<open>insert\<close>, which descends from the last label to the first.\<close>

function insertPath :: "'d \<Rightarrow> string list \<Rightarrow> 'd \<Rightarrow> 'd node \<Rightarrow> 'd node" where
  "insertPath z parts d n =
     (if parts = [] then setData d n
      else let s = last parts in
        case getOrNewChild z s n of (c, n') \<Rightarrow> putChild s (insertPath z (butlast parts) d c) n')"
  by pat_completeness auto
termination
  by (relation "measure (\<lambda>(z, parts, d, n). length parts)") auto

declare insertPath.simps [simp del]

definition trieInsert ::
  "(string \<Rightarrow> string) \<Rightarrow> 'd \<Rightarrow> string \<Rightarrow> 'd \<Rightarrow> 'd domain_trie \<Rightarrow> (string \<times> bad_domain) option \<times> 'd domain_trie" where
  "trieInsert lower z domain d t =
     (case ValidAndSplitDomain lower domain of
        Inl e \<Rightarrow> (Some e, t)
      | Inr parts \<Rightarrow>
          if hd parts = complexWildcard then
            let t = t\<lparr>root := insertPath z (tl parts) d (root t)\<rparr> in
            (None, t\<lparr>root := insertPath z (dotWildcard # tl parts) d (root t)\<rparr>)
          else (None, t\<lparr>root := insertPath z parts d (root t)\<rparr>))"

function searchPath :: "'d node \<Rightarrow> string list \<Rightarrow> 'd node option" where
  "searchPath n parts =
     (if parts = [] then Some n
      else
        let try = (\<lambda>s. case getChild n s of None \<Rightarrow> None | Some c \<Rightarrow> searchPath c (butlast parts)) in
        if \<not> isEmpty (try (last parts)) then try (last parts)
        else if \<not> isEmpty (try wildcard) then try wildcard
        else getChild n dotWildcard)"
  by pat_completeness auto
termination
  by (relation "measure (\<lambda>(n, parts). length parts)") auto

declare searchPath.simps [simp del]

definition Search :: "(string \<Rightarrow> string) \<Rightarrow> 'd domain_trie \<Rightarrow> string \<Rightarrow> 'd node option" where
  "Search lower t domain =
     (case ValidAndSplitDomain lower domain of
        Inl e \<Rightarrow> None
      | Inr parts \<Rightarrow>
          if hd parts = [] then None
          else let n = searchPath (root t) parts in if isEmpty n then None else n)"

definition Optimize :: "'d domain_trie \<Rightarrow> 'd domain_trie" where
  "Optimize t = t\<lparr>root := optimize (root t)\<rparr>"

definition trieIsEmpty :: "'d domain_trie option \<Rightarrow> bool" where
  "trieIsEmpty t = (case t of None \<Rightarrow> True | Some t \<Rightarrow> getChildren (root t) = [])"

lemma children_size: "size_list (size_prod (\<lambda>_. 0) size) (getChildren n) \<le> size n"
  by (cases n) (auto simp: getChildren_def split: option.splits)

text \<open>The walk of \<^verbatim>\<open>Foreach\<close>; the callback answers whether to go on and threads a state.\<close>

definition emitDomain :: "string list \<Rightarrow> string" where
  "emitDomain items =
     (let domain = joinDomain items in
      if hd domain = CHR ''.'' then complexWildcard @ domain else domain)"

function recursion :: "string list \<Rightarrow> 'd node \<Rightarrow> (string \<Rightarrow> 'd \<Rightarrow> 's \<Rightarrow> bool \<times> 's) \<Rightarrow> 's \<Rightarrow> bool \<times> 's"
  and recursionOver :: "string list \<Rightarrow> (string \<times> 'd node) list \<Rightarrow> (string \<Rightarrow> 'd \<Rightarrow> 's \<Rightarrow> bool \<times> 's) \<Rightarrow> 's \<Rightarrow> bool \<times> 's" where
  "recursion items n f s = recursionOver items (getChildren n) f s"
| "recursionOver items [] f s = (True, s)"
| "recursionOver items ((key, n) # rest) f s =
     (case (if \<not> inited n then (True, s) else f (emitDomain (key # items)) (node_data n) s) of
        (False, s) \<Rightarrow> (False, s)
      | (True, s) \<Rightarrow>
          (case recursion (key # items) n f s of
             (False, s) \<Rightarrow> (False, s)
           | (True, s) \<Rightarrow> recursionOver items rest f s))"
  by pat_completeness auto
termination
  by (relation "measure (\<lambda>x. case x of Inl (items, n, f, s) \<Rightarrow> 2 * size n + 1
                             | Inr (items, l, f, s) \<Rightarrow> 2 * size_list (size_prod (\<lambda>_. 0) size) l)")
     (auto simp: less_Suc_eq_le children_size)

declare recursion.simps [simp del]

fun foreachRoot :: "(string \<times> 'd node) list \<Rightarrow> (string \<Rightarrow> 'd \<Rightarrow> 's \<Rightarrow> bool \<times> 's) \<Rightarrow> 's \<Rightarrow> 's" where
  "foreachRoot [] f s = s"
| "foreachRoot ((key, n) # rest) f s =
     (case recursion [key] n f s of (_, s) \<Rightarrow>
        if \<not> inited n then foreachRoot rest f s
        else case f (joinDomain [key]) (node_data n) s of
               (True, s) \<Rightarrow> foreachRoot rest f s
             | (False, s) \<Rightarrow> s)"

definition Foreach :: "'d domain_trie \<Rightarrow> (string \<Rightarrow> 'd \<Rightarrow> 's \<Rightarrow> bool \<times> 's) \<Rightarrow> 's \<Rightarrow> 's" where
  "Foreach t f s = foreachRoot (getChildren (root t)) f s"

end
