(* ===== verification/DomainTrieSpec.thy ===== *)
theory DomainTrieSpec
  imports DomainTrie
begin

text \<open>
  What the domain trie promises.  A trie is the finite map from reversed label lists to data
  (\<open>entries\<close>); inserting is an update of the map, compacting leaves it alone, and a lookup is the
  search \<open>best\<close> over the map, which finds something exactly when a stored pattern covers the domain.
\<close>

subsection \<open>The map a node stands for\<close>

fun entries :: "'d node \<Rightarrow> string list \<Rightarrow> 'd option" where
  "entries n [] = (if inited n then Some (node_data n) else None)"
| "entries n (s # ss) = (case getChild n s of None \<Rightarrow> None | Some c \<Rightarrow> entries c ss)"

lemma entries_new [simp]: "entries (newNode z) = (\<lambda>_. None)"
proof
  show "entries (newNode z) p = None" for p
    by (cases p) (auto simp: newNode_def getChild_def)
qed

lemma getChild_addChild:
  "getChild n s = None \<Longrightarrow> getChild (addChild s c n) t = (if t = s then Some c else getChild n t)"
  by (auto simp: addChild_def getChild_def update_conv' split: option.splits if_splits)

lemma getChild_putChild:
  "getChild n s = Some c' \<Longrightarrow> getChild (putChild s c n) t = (if t = s then Some c else getChild n t)"
  by (auto simp: putChild_def getChild_def update_conv' split: option.splits if_splits)

lemma getChild_setData [simp]: "getChild (setData d n) s = getChild n s"
  by (auto simp: setData_def getChild_def split: option.splits)

lemma inited_add_put [simp]:
  "inited (addChild s c n) = inited n" "inited (putChild s c n) = inited n"
  "node_data (addChild s c n) = node_data n" "node_data (putChild s c n) = node_data n"
  by (auto simp: addChild_def putChild_def split: option.splits)

lemma child_or_new:
  assumes "getOrNewChild z s n = (c, n')"
  shows "getChild n' s = Some c" "inited n' = inited n" "node_data n' = node_data n"
    "t \<noteq> s \<Longrightarrow> getChild n' t = getChild n t"
    "entries c ss = (case getChild n s of None \<Rightarrow> None | Some c \<Rightarrow> entries c ss)"
  using assms
  by (auto simp: getOrNewChild_def getChild_addChild split: option.splits)

lemma entries_insertPath:
  "entries (insertPath z parts d n) = (entries n)(rev parts \<mapsto> d)"
proof (induction parts arbitrary: n rule: rev_induct)
  case Nil
  show ?case
  proof
    show "entries (insertPath z [] d n) p = ((entries n)(rev [] \<mapsto> d)) p" for p
      by (cases p) (simp_all add: insertPath.simps, simp_all add: setData_def)
  qed
next
  case (snoc s parts)
  obtain c n' where g: "getOrNewChild z s n = (c, n')" by fastforce
  show ?case
  proof
    show "entries (insertPath z (parts @ [s]) d n) p = ((entries n)(rev (parts @ [s]) \<mapsto> d)) p" for p
      by (cases p)
        (auto simp: insertPath.simps [of z "parts @ [s]"] g snoc.IH
          getChild_putChild [OF child_or_new(1) [OF g]] child_or_new [OF g] split: option.splits)
  qed
qed

subsection \<open>Searching the map\<close>

text \<open>
  Static label first, then \<^verbatim>\<open>*\<close>, then the dot wildcard, at every level; labels from the last one.
\<close>

fun best :: "(string list \<rightharpoonup> 'd) \<Rightarrow> string list \<Rightarrow> 'd option" where
  "best m [] = m []"
| "best m (d # ds) =
     (case best (\<lambda>p. m (d # p)) ds of
        Some x \<Rightarrow> Some x
      | None \<Rightarrow> (case best (\<lambda>p. m (wildcard # p)) ds of
                   Some x \<Rightarrow> Some x
                 | None \<Rightarrow> m [dotWildcard]))"

text \<open>When a reversed pattern covers a reversed domain.\<close>

fun covers :: "string list \<Rightarrow> string list \<Rightarrow> bool" where
  "covers [] ds = (ds = [])"
| "covers (p # ps) [] = False"
| "covers (p # ps) (d # ds) =
     (p = dotWildcard \<and> ps = [] \<or> (p = d \<or> p = wildcard) \<and> covers ps ds)"

lemma best_None [simp]: "best (\<lambda>_. None) ds = None"
  by (induction ds) auto

lemma best_finds: "best m ds \<noteq> None \<longleftrightarrow> (\<exists>p. m p \<noteq> None \<and> covers p ds)"
proof (induction ds arbitrary: m)
  case Nil
  show ?case
  proof
    show "\<exists>p. m p \<noteq> None \<and> covers p []" if "best m [] \<noteq> None"
      using that by (intro exI [of _ "[]"]) simp
    show "best m [] \<noteq> None" if "\<exists>p. m p \<noteq> None \<and> covers p []"
      using that by (metis best.simps(1) covers.simps(2) list.exhaust)
  qed
next
  case (Cons d ds)
  have "best m (d # ds) \<noteq> None \<longleftrightarrow>
      best (\<lambda>p. m (d # p)) ds \<noteq> None \<or> best (\<lambda>p. m (wildcard # p)) ds \<noteq> None \<or> m [dotWildcard] \<noteq> None"
    by (auto split: option.splits)
  also have "\<dots> \<longleftrightarrow> (\<exists>p ps. m (p # ps) \<noteq> None \<and> covers (p # ps) (d # ds))"
    unfolding Cons.IH by (auto; blast)
  also have "\<dots> \<longleftrightarrow> (\<exists>p. m p \<noteq> None \<and> covers p (d # ds))"
    by (metis covers.simps(1) list.distinct(1) list.exhaust)
  finally show ?case .
qed

definition found :: "'d node option \<Rightarrow> 'd option" where
  "found n = (case n of Some n \<Rightarrow> (if inited n then Some (node_data n) else None) | None \<Rightarrow> None)"

lemma found_None [simp]: "found None = None"
  by (simp add: found_def)

lemma found_isEmpty: "isEmpty n \<longleftrightarrow> found n = None"
  by (auto simp: isEmpty_def found_def split: option.splits)

lemma found_child: "found (getChild n s) = entries n [s]"
  by (simp add: found_def split: option.splits)

lemma found_searchPath: "found (searchPath n parts) = best (entries n) (rev parts)"
proof (induction parts arbitrary: n rule: rev_induct)
  case Nil
  show ?case by (simp add: searchPath.simps found_def)
next
  case (snoc s parts)
  define tr where "tr = (\<lambda>t. case getChild n t of None \<Rightarrow> None | Some c \<Rightarrow> searchPath c parts)"
  have step: "found (tr t) = best (\<lambda>p. entries n (t # p)) (rev parts)" for t
    unfolding tr_def by (cases "getChild n t") (simp_all add: snoc.IH [symmetric])
  have "searchPath n (parts @ [s]) =
      (if \<not> isEmpty (tr s) then tr s else if \<not> isEmpty (tr wildcard) then tr wildcard
       else getChild n dotWildcard)"
    unfolding searchPath.simps [of n "parts @ [s]"] butlast_snoc last_snoc Let_def tr_def by simp
  then show ?case
    using step [of s] step [of wildcard] found_child [of n dotWildcard]
    by (simp add: found_isEmpty split: option.split)
qed


subsection \<open>Compacting\<close>

text \<open>A node keeps its children either in the map, with each label once, or in the single slot.\<close>

fun wf_node :: "'d node \<Rightarrow> bool" where
  "wf_node (Node None c s i d) = (case c of None \<Rightarrow> True | Some c \<Rightarrow> wf_node c)"
| "wf_node (Node (Some m) c s i d) =
     (c = None \<and> distinct (map fst m) \<and> (\<forall>(k, c) \<in> set m. wf_node c))"

lemma wf_new [simp]: "wf_node (newNode z)"
  by (simp add: newNode_def)

lemma wf_setData [simp]: "wf_node (setData d n) = wf_node n"
  by (cases n rule: wf_node.cases) (auto simp: setData_def)

lemma wf_child: "wf_node n \<Longrightarrow> getChild n s = Some c \<Longrightarrow> wf_node c"
  by (cases n rule: wf_node.cases)
    (auto simp: getChild_def split: option.splits if_splits dest!: map_of_SomeD)

lemma wf_update:
  assumes "wf_node (Node (Some m) None t i d)" "wf_node c"
  shows "wf_node (Node (Some (AList.update s c m)) None t i d)"
proof -
  have "\<forall>(k, c) \<in> set (AList.update s c m). wf_node c" if "\<forall>(k, c) \<in> set m. wf_node c"
    using that assms(2) by (induction m) (auto split: if_splits)
  then show ?thesis using assms(1) by (simp add: distinct_update)
qed

lemma wf_addChild: "wf_node n \<Longrightarrow> wf_node c \<Longrightarrow> wf_node (addChild s c n)"
  by (cases n rule: wf_node.cases)
    (simp_all add: addChild_def wf_update [simplified] split: option.splits)

lemma wf_putChild: "wf_node n \<Longrightarrow> wf_node c \<Longrightarrow> wf_node (putChild s c n)"
  by (cases n rule: wf_node.cases)
    (simp_all add: putChild_def wf_update [simplified] split: option.splits)

lemma wf_insertPath: "wf_node n \<Longrightarrow> wf_node (insertPath z parts d n)"
proof (induction parts arbitrary: n rule: rev_induct)
  case Nil
  then show ?case by (simp add: insertPath.simps)
next
  case (snoc s parts)
  obtain c n' where g: "getOrNewChild z s n = (c, n')" by fastforce
  then have "wf_node c" "wf_node n'"
    using snoc.prems by (auto simp: getOrNewChild_def wf_child wf_addChild split: option.splits)
  then show ?case
    by (simp add: insertPath.simps [of z "parts @ [s]"] g snoc.IH wf_putChild)
qed

lemma optimize_keeps:
  "inited (optimize n) = inited n" "node_data (optimize n) = node_data n"
  by (induction n rule: optimize.induct) auto

lemma getChild_optimize:
  "wf_node n \<Longrightarrow> getChild (optimize n) s = map_option optimize (getChild n s)"
  by (induction n rule: optimize.induct)
    (auto simp: getChild_def map_of_map [of optimize, unfolded id_def] split: option.splits)

lemma wf_optimize: "wf_node n \<Longrightarrow> wf_node (optimize n)"
proof (induction n rule: optimize.induct)
  case (4 kc kc' m c s i d)
  have "wf_node (optimize (snd x))" if "x \<in> set (kc # kc' # m)" for x
    using 4 that by (cases x) fastforce
  then show ?case
    using 4(3) by (auto simp: o_def split_beta)
qed (auto split: option.splits)

lemma entries_optimize: "wf_node n \<Longrightarrow> entries (optimize n) = entries n"
proof
  show "wf_node n \<Longrightarrow> entries (optimize n) p = entries n p" for p
    by (induction p arbitrary: n)
      (auto simp: optimize_keeps getChild_optimize wf_child split: option.splits)
qed


subsection \<open>Building and using a trie\<close>

text \<open>What a user does with a trie before looking domains up: adding patterns and compacting.\<close>

datatype (plugins only: code size) 'd trie_op = AddPattern string 'd | Compact

fun trie_build :: "(string \<Rightarrow> string) \<Rightarrow> 'd \<Rightarrow> 'd trie_op list \<Rightarrow> 'd domain_trie \<Rightarrow> 'd domain_trie" where
  "trie_build lower z [] t = t"
| "trie_build lower z (AddPattern p d # ops) t = trie_build lower z ops (snd (trieInsert lower z p d t))"
| "trie_build lower z (Compact # ops) t = trie_build lower z ops (Optimize t)"

text \<open>The same on the map: the paths a pattern stands for, each mapped to the datum.\<close>

definition pattern_paths :: "string list \<Rightarrow> string list list" where
  "pattern_paths parts =
     (if hd parts = complexWildcard then [rev (tl parts), rev (dotWildcard # tl parts)] else [rev parts])"

fun map_build :: "(string \<Rightarrow> string) \<Rightarrow> 'd trie_op list \<Rightarrow> (string list \<rightharpoonup> 'd) \<Rightarrow> string list \<rightharpoonup> 'd" where
  "map_build lower [] m = m"
| "map_build lower (AddPattern p d # ops) m =
     map_build lower ops
       (case ValidAndSplitDomain lower p of
          Inl _ \<Rightarrow> m
        | Inr parts \<Rightarrow> foldl (\<lambda>m q. m(q \<mapsto> d)) m (pattern_paths parts))"
| "map_build lower (Compact # ops) m = map_build lower ops m"

definition add_paths :: "'d \<Rightarrow> (string \<times> bad_domain) + string list \<Rightarrow> (string list \<rightharpoonup> 'd) \<Rightarrow> string list \<rightharpoonup> 'd" where
  "add_paths d r m =
     (case r of Inl _ \<Rightarrow> m | Inr parts \<Rightarrow> foldl (\<lambda>m q. m(q \<mapsto> d)) m (pattern_paths parts))"

lemma map_build_add:
  "map_build lower (AddPattern p d # ops) m = map_build lower ops (add_paths d (ValidAndSplitDomain lower p) m)"
  by (simp add: add_paths_def)

lemma insert_inv:
  assumes "wf_node (root t)"
  shows "wf_node (root (snd (trieInsert lower z p d t)))"
    "entries (root (snd (trieInsert lower z p d t))) = add_paths d (ValidAndSplitDomain lower p) (entries (root t))"
  using assms
  by (simp_all add: trieInsert_def add_paths_def pattern_paths_def Let_def wf_insertPath entries_insertPath
      split: sum.split)

lemma trie_build_inv:
  assumes "wf_node (root t)"
  shows "wf_node (root (trie_build lower z ops t)) \<and>
    entries (root (trie_build lower z ops t)) = map_build lower ops (entries (root t))"
  using assms
proof (induction lower z ops t rule: trie_build.induct)
  case (2 lower z p d ops t)
  then show ?case
    by (simp only: trie_build.simps map_build_add insert_inv)
next
  case (3 lower z ops t)
  then show ?case
    by (simp add: Optimize_def wf_optimize entries_optimize)
qed simp

lemma built:
  "entries (root (trie_build lower z ops (newTrie z))) = map_build lower ops (\<lambda>_. None)"
  using trie_build_inv [of "newTrie z" lower z ops] by (simp add: newTrie_def)

lemma add_paths_dom:
  "add_paths d r m q \<noteq> None \<longleftrightarrow> m q \<noteq> None \<or> (\<exists>parts. r = Inr parts \<and> q \<in> set (pattern_paths parts))"
  by (cases r) (auto simp: add_paths_def pattern_paths_def)

lemma map_build_dom:
  "map_build lower ops m q \<noteq> None \<longleftrightarrow>
    m q \<noteq> None \<or> (\<exists>p d parts. AddPattern p d \<in> set ops \<and> ValidAndSplitDomain lower p = Inr parts \<and>
      q \<in> set (pattern_paths parts))"
proof (induction lower ops m rule: map_build.induct)
  case (2 lower p d ops m)
  show ?case
    unfolding map_build_add 2 [folded add_paths_def] add_paths_dom by auto
qed auto

lemma search_built:
  "found (Search lower (trie_build lower z ops (newTrie z)) domain) =
     (case ValidAndSplitDomain lower domain of
        Inl _ \<Rightarrow> None
      | Inr parts \<Rightarrow> if hd parts = [] then None
                    else best (map_build lower ops (\<lambda>_. None)) (rev parts))"
  by (simp add: Search_def Let_def found_isEmpty found_searchPath built split: sum.split)

lemma search_found: "Search lower t domain \<noteq> None \<longleftrightarrow> found (Search lower t domain) \<noteq> None"
proof -
  have "(if isEmpty n then None else n) \<noteq> None \<longleftrightarrow> found (if isEmpty n then None else n) \<noteq> None"
    for n :: "'a node option"
    by (cases n) (simp_all add: found_isEmpty)
  then show ?thesis
    by (simp add: Search_def Let_def split: sum.split)
qed

text \<open>
  C15.  However patterns are added to a trie and the trie is compacted in between, a lookup returns
  what a search of the plain map from paths to data returns: the datum of the pattern that prefers,
  label by label from the last, the static label to the wildcard and the wildcard to the dot wildcard.
\<close>

theorem search_refines_map:
  "found (Search lower (trie_build lower z ops (newTrie z)) domain) =
     (case ValidAndSplitDomain lower domain of
        Inl _ \<Rightarrow> None
      | Inr parts \<Rightarrow> if hd parts = [] then None
                    else best (map_build lower ops (\<lambda>_. None)) (rev parts))"
  by (rule search_built)

text \<open>Whether a pattern, as it was written, covers a domain.\<close>

definition pattern_covers :: "string list \<Rightarrow> string list \<Rightarrow> bool" where
  "pattern_covers pat parts = list_ex (\<lambda>q. covers q (rev parts)) (pattern_paths pat)"

text \<open>
  A lookup finds something exactly when the domain is well-formed, does not start with a dot,
  and some well-formed pattern that was added covers it.
\<close>

theorem search_finds_iff_covered:
  "Search lower (trie_build lower z ops (newTrie z)) domain \<noteq> None \<longleftrightarrow>
    (\<exists>parts p d pat. ValidAndSplitDomain lower domain = Inr parts \<and> hd parts \<noteq> [] \<and>
       AddPattern p d \<in> set ops \<and> ValidAndSplitDomain lower p = Inr pat \<and> pattern_covers pat parts)"
  unfolding search_found search_built
  by (cases "ValidAndSplitDomain lower domain")
    (simp_all add: best_finds [unfolded not_None_eq] map_build_dom [unfolded not_None_eq]
      pattern_covers_def list_ex_iff, blast)


subsection \<open>Listing the trie\<close>

lemma wf_children:
  assumes "wf_node n"
  shows "(k, c) \<in> set (getChildren n) \<longleftrightarrow> getChild n k = Some c"
  using assms
  by (cases n rule: wf_node.cases) (auto simp: getChildren_def getChild_def split: option.splits)

definition below :: "string list \<Rightarrow> 'd node \<Rightarrow> (string \<times> 'd) set" where
  "below items n = {(emitDomain (rev p @ items), d) | p d. p \<noteq> [] \<and> entries n p = Some d}"

definition child_entries :: "string list \<Rightarrow> string \<times> 'd node \<Rightarrow> (string \<times> 'd) set" where
  "child_entries items kc =
     (if inited (snd kc) then {(emitDomain (fst kc # items), node_data (snd kc))} else {}) \<union>
     below (fst kc # items) (snd kc)"

lemma entries_ne:
  "p \<noteq> [] \<and> entries n p = Some d \<longleftrightarrow>
    (\<exists>k c q. p = k # q \<and> getChild n k = Some c \<and> entries c q = Some d)"
  by (cases p) (auto split: option.splits)

lemma paths_children:
  "{(g p, d) | p d. p \<noteq> [] \<and> entries n p = Some d} =
    (\<Union>(k, c) \<in> {(k, c). getChild n k = Some c}. {(g (k # q), d) | q d. entries c q = Some d})"
  unfolding entries_ne by blast

lemma paths_root:
  "{(g q, d) | q d. entries c q = Some d} =
    (if inited c then {(g [], node_data c)} else {}) \<union> {(g q, d) | q d. q \<noteq> [] \<and> entries c q = Some d}"
proof -
  have "{(g q, d) | q d. entries c q = Some d} =
      {(g [], d) | d. entries c [] = Some d} \<union> {(g q, d) | q d. q \<noteq> [] \<and> entries c q = Some d}"
    by blast
  then show ?thesis by simp
qed

lemma children_set:
  assumes "wf_node n"
  shows "{(k, c). getChild n k = Some c} = set (getChildren n)"
  using wf_children [OF assms] by auto

lemma below_children:
  assumes "wf_node n"
  shows "below items n = \<Union> (child_entries items ` set (getChildren n))"
proof -
  have "child_entries items x =
      {(emitDomain (rev (fst x # q) @ items), d) | q d. entries (snd x) q = Some d}" for x :: "string \<times> 'a node"
    using paths_root [of "\<lambda>q. emitDomain (rev q @ fst x # items)" "snd x"]
    by (simp add: child_entries_def below_def)
  moreover have "below items n =
      (\<Union>(k, c) \<in> set (getChildren n). {(emitDomain (rev (k # q) @ items), d) | q d. entries c q = Some d})"
    unfolding below_def paths_children children_set [OF assms] ..
  ultimately show ?thesis by (simp add: split_beta)
qed

definition keep :: "string \<Rightarrow> 'd \<Rightarrow> (string \<times> 'd) list \<Rightarrow> bool \<times> (string \<times> 'd) list" where
  "keep domain d acc = (True, acc @ [(domain, d)])"

lemma keep_app: "keep domain d acc = (True, acc @ [(domain, d)])"
  by (simp add: keep_def)

lemma recursion_keeps:
  "f = keep \<Longrightarrow> wf_node n \<Longrightarrow>
    fst (recursion items n f s) \<and> set (snd (recursion items n f s)) = set s \<union> below items n"
  "f = keep \<Longrightarrow> \<forall>(k, c) \<in> set l. wf_node c \<Longrightarrow>
    fst (recursionOver items l f s) \<and>
    set (snd (recursionOver items l f s)) = set s \<union> \<Union> (child_entries items ` set l)"
proof (induction items n f s and items l f s rule: recursion_recursionOver.induct)
  case (1 items n f s)
  have "\<forall>(k, c) \<in> set (getChildren n). wf_node c"
    using wf_children [OF 1(3)] wf_child [OF 1(3)] by fastforce
  then show ?case
    using 1 by (simp add: recursion.simps [of items n] below_children)
next
  case (3 items key n rest f s)
  define s1 where "s1 = (if inited n then s @ [(emitDomain (key # items), node_data n)] else s)"
  have start: "(if \<not> inited n then (True, s) else f (emitDomain (key # items)) (node_data n) s) = (True, s1)"
    using 3(3) by (simp add: s1_def keep_app)
  obtain b s2 where r: "recursion (key # items) n f s1 = (b, s2)" by fastforce
  have b: "b" "set s2 = set s1 \<union> below (key # items) n"
    using 3(1) [OF start [symmetric] refl] 3(3,4) r by simp_all
  moreover have "fst (recursionOver items rest f s2) \<and>
      set (snd (recursionOver items rest f s2)) = set s2 \<union> \<Union> (child_entries items ` set rest)"
    using 3(2) [OF start [symmetric] _ r [symmetric]] b(1) 3(3,4) by simp
  moreover have "recursionOver items ((key, n) # rest) f s = recursionOver items rest f s2"
    using b(1) by (simp add: start r)
  ultimately show ?case
    by (auto simp: s1_def child_entries_def)
qed simp

lemma foreachRoot_keeps:
  assumes "\<forall>(k, c) \<in> set l. wf_node c"
  shows "set (foreachRoot l keep s) = set s \<union>
    (\<Union>(k, c) \<in> set l. (if inited c then {(k, node_data c)} else {}) \<union> below [k] c)"
  using assms
proof (induction l arbitrary: s)
  case (Cons kc l)
  obtain k c where kc: "kc = (k, c)" by (cases kc)
  obtain b s1 where r: "recursion [k] c keep s = (b, s1)" by fastforce
  then have "set s1 = set s \<union> below [k] c"
    using recursion_keeps(1) [OF refl, of c "[k]" s] Cons.prems kc by simp
  moreover have "foreachRoot ((k, c) # l) keep s =
      foreachRoot l keep (if inited c then s1 @ [(k, node_data c)] else s1)"
    by (simp add: r keep_app)
  moreover have "\<forall>(k, c) \<in> set l. wf_node c" using Cons.prems by simp
  ultimately show ?case
    unfolding kc by (simp add: Cons.IH) blast
qed simp


text \<open>How the walk writes the pattern at a path: the dot wildcard is written with a plus.\<close>

definition written :: "string list \<Rightarrow> string" where
  "written q = (case q of [k] \<Rightarrow> k | _ \<Rightarrow> emitDomain (rev q))"

lemma Foreach_keeps:
  assumes "wf_node (root t)" "entries (root t) [] = None"
  shows "set (Foreach t keep []) = {(written q, d) | q d. entries (root t) q = Some d}"
proof -
  have one: "(if inited c then {(k, node_data c)} else {}) \<union> below [k] c =
      {(written (k # q), d) | q d. entries c q = Some d}" for k c
  proof -
    have "written (k # q) = emitDomain (rev q @ [k])" if "q \<noteq> []" for q
      using that by (cases q) (auto simp: written_def)
    then have "below [k] c = {(written (k # q), d) | q d. q \<noteq> [] \<and> entries c q = Some d}"
      unfolding below_def by (metis (no_types, lifting))
    then show ?thesis
      using paths_root [of "\<lambda>q. written (k # q)" c] by (simp add: written_def)
  qed
  have two: "set (Foreach t keep []) =
      (\<Union>(k, c) \<in> set (getChildren (root t)). (if inited c then {(k, node_data c)} else {}) \<union> below [k] c)"
  proof -
    have "\<forall>(k, c) \<in> set (getChildren (root t)). wf_node c"
      using wf_children [OF assms(1)] wf_child [OF assms(1)] by fastforce
    then show ?thesis
      using foreachRoot_keeps [of "getChildren (root t)" "[]"] by (simp add: Foreach_def)
  qed
  have three: "{(written q, d) | q d. entries (root t) q = Some d} =
      {(written q, d) | q d. q \<noteq> [] \<and> entries (root t) q = Some d}"
    using paths_root [of written "root t"] assms(2) by (auto split: if_splits)
  show ?thesis
    unfolding two three paths_children children_set [OF assms(1)] one ..
qed


lemma emptyLabel_None: "emptyLabel i ps = None \<longleftrightarrow> [] \<notin> set ps"
  by (induction i ps rule: emptyLabel.induct) auto

lemma split_not_Nil [simp]: "splitDots s \<noteq> []"
  by (cases s) (auto split: list.splits)

lemma valid_parts:
  assumes "ValidAndSplitDomain lower p = Inr parts"
  shows "parts \<noteq> []" "hd parts = complexWildcard \<Longrightarrow> tl parts \<noteq> []"
proof -
  from assms have p: "parts = splitDots (lower p)" "badWildcard (length parts) 0 parts = None"
    by (auto simp: ValidAndSplitDomain_def Let_def split: if_splits option.splits)
  then show "parts \<noteq> []" by simp
  then show "hd parts = complexWildcard \<Longrightarrow> tl parts \<noteq> []"
    using p(2) by (cases parts) (auto simp: complexWildcard_def split: if_splits)
qed

lemma root_not_stored: "map_build lower ops (\<lambda>_. None) [] = None"
proof (rule ccontr)
  assume "map_build lower ops (\<lambda>_. None) [] \<noteq> None"
  then obtain p parts where "ValidAndSplitDomain lower p = Inr parts" "[] \<in> set (pattern_paths parts)"
    unfolding map_build_dom by auto
  then show False
    using valid_parts [of lower p parts] by (auto simp: pattern_paths_def split: if_splits)
qed

text \<open>
  Walking a trie visits every pattern that was added, with its datum and nothing else,
  whether or not the trie was compacted.
\<close>

theorem foreach_lists_patterns:
  "set (Foreach (trie_build lower z ops (newTrie z)) keep []) =
    {(written q, d) | q d. map_build lower ops (\<lambda>_. None) q = Some d}"
proof -
  have "wf_node (root (trie_build lower z ops (newTrie z)))"
    using trie_build_inv [of "newTrie z" lower z ops] by (simp add: newTrie_def)
  then show ?thesis
    using Foreach_keeps [of "trie_build lower z ops (newTrie z)"] built [of lower z ops]
      root_not_stored [of lower ops] by simp
qed

end
