(* ===== verification/IpCidrTrie.thy ===== *)
theory IpCidrTrie
  imports Prelude "HOL-Library.AList" "HOL-Library.Word"
begin

text \<open>
  The trie of IP networks of \<^verbatim>\<open>mihomo/component/trie\<close> (\<^verbatim>\<open>ipcidr_trie.go\<close>, \<^verbatim>\<open>ipcidr_node.go\<close>).  An
  address is a list of bytes, split into groups of one byte (IPv4) or two (IPv6); a network is stored
  as the path of its groups, with a mark where it ends.  A network whose mask ends inside a group is
  stored as all the groups it stands for.  \<^verbatim>\<open>net.IPNet.Mask.Size\<close>, \<^verbatim>\<open>net.CIDRMask\<close> and \<^verbatim>\<open>net.IP.To4\<close> of the
  standard library are written out; its parsers of addresses are arguments.
\<close>

unbundle bit_operations_syntax

type_synonym ip = "8 word list"

subsection \<open>Nodes\<close>

datatype (plugins only: code size) ip_node = IpNode
  (Mark: bool)
  (ip_child: "(32 word \<times> ip_node) list")
  (maxValue: "32 word")

definition NewIpCidrNode :: "bool \<Rightarrow> 32 word \<Rightarrow> ip_node" where
  "NewIpCidrNode mark maxv = IpNode mark [] maxv"

definition ipGetChild :: "32 word \<Rightarrow> ip_node \<Rightarrow> ip_node option" where
  "ipGetChild v n = (if v \<le> maxValue n then map_of (ip_child n) v else None)"

definition ipHasChild :: "32 word \<Rightarrow> ip_node \<Rightarrow> bool" where
  "ipHasChild v n = (ipGetChild v n \<noteq> None)"

text \<open>The only error of a node: \<^verbatim>\<open>ErrorOverMaxValue\<close>.\<close>

definition ipAddChild :: "32 word \<Rightarrow> ip_node \<Rightarrow> unit + ip_node" where
  "ipAddChild v n =
     (if v > maxValue n then Inl ()
      else Inr (IpNode (Mark n) (AList.update v (NewIpCidrNode False (maxValue n)) (ip_child n)) (maxValue n)))"

text \<open>A write through the pointer to the child \<open>v\<close>, seen from its parent.\<close>

definition ipPutChild :: "32 word \<Rightarrow> ip_node \<Rightarrow> ip_node \<Rightarrow> ip_node" where
  "ipPutChild v c n = IpNode (Mark n) (AList.update v c (ip_child n)) (maxValue n)"

text \<open>
  \<^verbatim>\<open>cleanChild\<close> deletes the keys below the number of children, which is read anew in every round.
\<close>

function cleanFrom :: "nat \<Rightarrow> (32 word \<times> ip_node) list \<Rightarrow> (32 word \<times> ip_node) list" where
  "cleanFrom i m = (if i < length m then cleanFrom (Suc i) (AList.delete (word_of_nat i) m) else m)"
  by pat_completeness auto
termination
  by (relation "measure (\<lambda>(i, m). length m - i)")
    (auto intro: diff_less_mono2 le_less_trans [OF diff_le_mono [OF length_delete_le]])

declare cleanFrom.simps [simp del]

definition cleanChild :: "ip_node \<Rightarrow> ip_node" where
  "cleanChild n = IpNode (Mark n) (cleanFrom 0 (ip_child n)) (maxValue n)"

definition setMark :: "ip_node \<Rightarrow> ip_node" where
  "setMark n = IpNode True (ip_child n) (maxValue n)"

subsection \<open>Networks\<close>

record ip_net =
  net_ip :: ip
  net_mask :: ip

text \<open>\<^verbatim>\<open>net.CIDRMask(ones, 8 * len)\<close> and \<^verbatim>\<open>IPMask.Size\<close>: the number of leading ones, 0 if it is no prefix.\<close>

definition CIDRMask :: "nat \<Rightarrow> nat \<Rightarrow> ip" where
  "CIDRMask ones len =
     map (\<lambda>j. if 8 * j + 8 \<le> ones then 0xFF else NOT (drop_bit (ones - 8 * j) 0xFF)) [0..<len]"

fun leadingOnes :: "ip \<Rightarrow> nat" where
  "leadingOnes [] = 0"
| "leadingOnes (b # bs) = (if b = 0xFF then 8 + leadingOnes bs
     else length (takeWhile (\<lambda>j. bit b (7 - j)) [0..<8]))"

definition maskSize :: "ip \<Rightarrow> nat" where
  "maskSize m = (let n = leadingOnes m in if m = CIDRMask n (length m) then n else 0)"

text \<open>
  The addresses that stand for a network when its mask is extended to the end of a group, and the
  extended mask size.  The byte addition wraps.
\<close>

definition subIpCidr :: "ip \<Rightarrow> nat \<Rightarrow> bool \<Rightarrow> (ip list \<times> nat) outcome" where
  "subIpCidr a ones isIpv4 =
     (if ones mod (if isIpv4 then 8 else 16) = 0 then Inr ([a], ones)
      else
        let lastSize = ones mod 8; idx = ones div 8; num = 255 div 2 ^ lastSize in
        rbind (go_get a (int idx)) (\<lambda>b.
        Inr (map (\<lambda>i. a[idx := b + word_of_nat i]) [0..<Suc num],
             if isIpv4 then (idx + 1) * 8 else (idx div 2 + 1) * 16)))"

definition ipCidrToSubIpCidr :: "ip_net \<Rightarrow> (ip list \<times> nat \<times> bool) outcome" where
  "ipCidrToSubIpCidr n =
     (let ones = maskSize (net_mask n); isIpv4 = (length (net_ip n) = 4) in
      rbind (subIpCidr (net_ip n) ones isIpv4) (\<lambda>(ips, newSize). Inr (ips, newSize, isIpv4)))"

subsection \<open>Adding a network\<close>

record ip_cidr_trie =
  ipv4Trie :: ip_node
  ipv6Trie :: ip_node

definition NewIpCidrTrie :: ip_cidr_trie where
  "NewIpCidrTrie = \<lparr>ipv4Trie = NewIpCidrNode False 0xFF, ipv6Trie = NewIpCidrNode False 0xFFFF\<rparr>"

definition getIpv6GroupValue :: "8 word \<Rightarrow> 8 word \<Rightarrow> 32 word" where
  "getIpv6GroupValue high low = (push_bit 8 (ucast high)) OR ucast low"

text \<open>Adding the child unless it is there; the error is only logged.\<close>

definition ensureChild :: "32 word \<Rightarrow> ip_node \<Rightarrow> ip_node" where
  "ensureChild v n = (if ipHasChild v n then n else case ipAddChild v n of Inl _ \<Rightarrow> n | Inr n \<Rightarrow> n)"

text \<open>
  The loops after the first group.  When the child is missing after it was added (the value exceeds
  the maximum, which is only logged), the previous group's value is added in its place.
\<close>

function addIpv4Loop :: "ip \<Rightarrow> nat \<Rightarrow> nat \<Rightarrow> ip_node \<Rightarrow> ip_node outcome" where
  "addIpv4Loop a groupSize i n =
     (if i < groupSize then
        if Mark n then Inr n
        else
          rbind (go_get a (int i)) (\<lambda>b.
          let v = ucast b; n = ensureChild v n in
          case ipGetChild v n of
            Some c \<Rightarrow> rbind (addIpv4Loop a groupSize (i + 1) c) (\<lambda>c. Inr (ipPutChild v c n))
          | None \<Rightarrow>
              rbind (go_get a (int i - 1)) (\<lambda>b'.
              case ipAddChild (ucast b') n of
                Inl _ \<Rightarrow> Inr n
              | Inr n \<Rightarrow>
                  (case ipGetChild (ucast b') n of
                     None \<Rightarrow> Inl (Panic ''nil pointer dereference'')
                   | Some c \<Rightarrow> rbind (addIpv4Loop a groupSize (i + 1) c) (\<lambda>c. Inr (ipPutChild (ucast b') c n)))))
      else Inr (cleanChild (setMark n)))"
  by pat_completeness auto
termination
  by (relation "measure (\<lambda>(a, g, i, n). g - i)") auto

declare addIpv4Loop.simps [simp del]

definition addFirst :: "32 word \<Rightarrow> (ip_node \<Rightarrow> ip_node outcome) \<Rightarrow> ip_node \<Rightarrow> ip_node outcome" where
  "addFirst v rest n =
     (case ipGetChild v n of
        Some c \<Rightarrow> rbind (rest c) (\<lambda>c. Inr (ipPutChild v c n))
      | None \<Rightarrow>
          (case ipAddChild v n of
             Inl _ \<Rightarrow> Inr n
           | Inr n \<Rightarrow>
               (case ipGetChild v n of
                  None \<Rightarrow> Inl (Panic ''nil pointer dereference'')
                | Some c \<Rightarrow> rbind (rest c) (\<lambda>c. Inr (ipPutChild v c n)))))"

definition addIpv4Cidr :: "ip \<Rightarrow> nat \<Rightarrow> ip_node \<Rightarrow> ip_node outcome" where
  "addIpv4Cidr a groupSize n =
     rbind (go_get a 0) (\<lambda>b. addFirst (ucast b) (addIpv4Loop a groupSize 1) n)"

definition getGroup :: "ip \<Rightarrow> nat \<Rightarrow> 32 word outcome" where
  "getGroup a i = rbind (go_get a (int i)) (\<lambda>hi. rbind (go_get a (int i + 1)) (\<lambda>lo. Inr (getIpv6GroupValue hi lo)))"

text \<open>A group of two zero bytes marks the node reached so far.\<close>

function addIpv6Loop :: "ip \<Rightarrow> nat \<Rightarrow> nat \<Rightarrow> ip_node \<Rightarrow> ip_node outcome" where
  "addIpv6Loop a groupSize i n =
     (if i < groupSize then
        rbind (go_get a (int i)) (\<lambda>hi.
        rbind (if hi = 0 then rbind (go_get a (int i + 1)) (\<lambda>lo. Inr (lo = 0)) else Inr False) (\<lambda>zero.
        let n = (if zero then setMark n else n) in
        if Mark n then Inr n
        else
          rbind (getGroup a i) (\<lambda>v.
          let n = ensureChild v n in
          case ipGetChild v n of
            Some c \<Rightarrow> rbind (addIpv6Loop a groupSize (i + 2) c) (\<lambda>c. Inr (ipPutChild v c n))
          | None \<Rightarrow>
              rbind (getGroup a (i - 2)) (\<lambda>v'.
              case ipAddChild v' n of
                Inl _ \<Rightarrow> Inr n
              | Inr n \<Rightarrow>
                  (case ipGetChild v' n of
                     None \<Rightarrow> Inl (Panic ''nil pointer dereference'')
                   | Some c \<Rightarrow> rbind (addIpv6Loop a groupSize (i + 2) c) (\<lambda>c. Inr (ipPutChild v' c n)))))))
      else Inr (cleanChild (setMark n)))"
  by pat_completeness auto
termination
  by (relation "measure (\<lambda>(a, g, i, n). g - i)") auto

declare addIpv6Loop.simps [simp del]

definition addIpv6Cidr :: "ip \<Rightarrow> nat \<Rightarrow> ip_node \<Rightarrow> ip_node outcome" where
  "addIpv6Cidr a groupSize n = rbind (getGroup a 0) (\<lambda>v. addFirst v (addIpv6Loop a groupSize 2) n)"

definition addIpCidr :: "bool \<Rightarrow> ip \<Rightarrow> nat \<Rightarrow> ip_cidr_trie \<Rightarrow> ip_cidr_trie outcome" where
  "addIpCidr isIpv4 a groupSize t =
     (if isIpv4
      then rbind (addIpv4Cidr a groupSize (ipv4Trie t)) (\<lambda>n. Inr (t\<lparr>ipv4Trie := n\<rparr>))
      else rbind (addIpv6Cidr a groupSize (ipv6Trie t)) (\<lambda>n. Inr (t\<lparr>ipv6Trie := n\<rparr>)))"

fun addSubs :: "bool \<Rightarrow> ip list \<Rightarrow> nat \<Rightarrow> ip_cidr_trie \<Rightarrow> ip_cidr_trie outcome" where
  "addSubs isIpv4 [] groupSize t = Inr t"
| "addSubs isIpv4 (a # as) groupSize t = rbind (addIpCidr isIpv4 a groupSize t) (addSubs isIpv4 as groupSize)"

definition AddIpCidr :: "ip_net \<Rightarrow> ip_cidr_trie \<Rightarrow> ip_cidr_trie outcome" where
  "AddIpCidr n t = rbind (ipCidrToSubIpCidr n) (\<lambda>(subs, size, isIpv4). addSubs isIpv4 subs (size div 8) t)"

definition AddIpCidrForString ::
  "(string \<Rightarrow> 'e + ip_net) \<Rightarrow> string \<Rightarrow> ip_cidr_trie \<Rightarrow> ('e option \<times> ip_cidr_trie) outcome" where
  "AddIpCidrForString parseCIDR s t =
     (case parseCIDR s of Inl e \<Rightarrow> Inr (Some e, t) | Inr n \<Rightarrow> rbind (AddIpCidr n t) (\<lambda>t. Inr (None, t)))"

subsection \<open>Looking an address up\<close>

fun searchLoop :: "ip_node \<Rightarrow> 32 word list \<Rightarrow> ip_node option" where
  "searchLoop n [] = None"
| "searchLoop n (v # vs) =
     (if \<not> ipHasChild v n then None
      else case ipGetChild v n of
             None \<Rightarrow> None
           | Some c \<Rightarrow> if Mark c then Some c else searchLoop c vs)"

definition ipSearch :: "ip_node \<Rightarrow> 32 word list \<Rightarrow> ip_node option outcome" where
  "ipSearch n vs =
     rbind (go_get vs 0) (\<lambda>v.
     case ipGetChild v n of
       None \<Rightarrow> Inr None
     | Some c \<Rightarrow> if Mark c then Inr (Some c) else Inr (searchLoop c (tl vs)))"

fun groups6 :: "ip \<Rightarrow> 32 word list outcome" where
  "groups6 [] = Inr []"
| "groups6 [b] = Inl (Panic ''index out of range'')"
| "groups6 (hi # lo # bs) = rbind (groups6 bs) (\<lambda>vs. Inr (getIpv6GroupValue hi lo # vs))"

text \<open>\<open>None\<close> is a nil address.\<close>

definition IsContain :: "ip option \<Rightarrow> ip_cidr_trie \<Rightarrow> bool outcome" where
  "IsContain a t =
     (case a of
        None \<Rightarrow> Inr False
      | Some a \<Rightarrow>
          rbind (if length a = 4 then rbind (Inr (map ucast a)) (ipSearch (ipv4Trie t))
                 else rbind (groups6 a) (ipSearch (ipv6Trie t))) (\<lambda>r. Inr (r \<noteq> None)))"

definition To4 :: "ip option \<Rightarrow> ip option" where
  "To4 a =
     (case a of
        None \<Rightarrow> None
      | Some a \<Rightarrow>
          if length a = 4 then Some a
          else if length a = 16 \<and> take 12 a = replicate 10 0 @ [0xFF, 0xFF] then Some (drop 12 a)
          else None)"

definition IsContainForString :: "(string \<Rightarrow> ip option) \<Rightarrow> string \<Rightarrow> ip_cidr_trie \<Rightarrow> bool outcome" where
  "IsContainForString parseIP s t =
     (let a = parseIP s in IsContain (case To4 a of None \<Rightarrow> a | Some b \<Rightarrow> Some b) t)"

end
