(* ===== verification/IpCidrSpec.thy ===== *)
theory IpCidrSpec
  imports IpCidrTrie "HOL-Library.Sublist"
begin

text \<open>
  What the trie of IP networks stores.  A node hits the group lists that have a marked node on their
  path; adding a network adds the group lists that start with the network's groups.
\<close>

unbundle bit_operations_syntax

subsection \<open>Nodes\<close>

fun hit :: "ip_node \<Rightarrow> 32 word list \<Rightarrow> bool" where
  "hit n [] = Mark n"
| "hit n (v # vs) = (Mark n \<or> (case ipGetChild v n of None \<Rightarrow> False | Some c \<Rightarrow> hit c vs))"

fun wf_ip :: "32 word \<Rightarrow> ip_node \<Rightarrow> bool" where
  "wf_ip M (IpNode m cs x) = (x = M \<and> (\<forall>(k, c) \<in> set cs. wf_ip M c))"

lemma hit_marked: "Mark n \<Longrightarrow> hit n vs"
  by (cases vs) auto

lemma wf_maxValue: "wf_ip M n \<Longrightarrow> maxValue n = M"
  by (cases n) auto

lemma wf_NewIp [simp]: "wf_ip M (NewIpCidrNode m M)"
  by (simp add: NewIpCidrNode_def)

lemma Mark_NewIp [simp]: "Mark (NewIpCidrNode m M) = m"
  by (simp add: NewIpCidrNode_def)

lemma hit_NewIp [simp]: "hit (NewIpCidrNode False M) vs = False"
  by (cases vs) (auto simp: NewIpCidrNode_def ipGetChild_def)

lemma wf_setMark: "wf_ip M n \<Longrightarrow> wf_ip M (setMark n)"
  by (cases n) (simp add: setMark_def)

lemma Mark_setMark [simp]: "Mark (setMark n)" "Mark (cleanChild n) = Mark n"
  by (simp_all add: setMark_def cleanChild_def)

lemma cleanFrom_subset: "set (cleanFrom i m) \<subseteq> set m"
proof (induction i m rule: cleanFrom.induct)
  case (1 i m)
  have "set (AList.delete k m) \<subseteq> set m" for k
    by (auto simp: AList.delete_eq)
  then show ?case
    using 1 by (subst cleanFrom.simps) auto
qed

lemma wf_cleanChild: "wf_ip M n \<Longrightarrow> wf_ip M (cleanChild n)"
  using cleanFrom_subset [of 0 "ip_child n"] by (cases n) (auto simp: cleanChild_def)

lemma wf_ipGetChild: "wf_ip M n \<Longrightarrow> ipGetChild v n = Some c \<Longrightarrow> wf_ip M c"
  by (cases n) (auto simp: ipGetChild_def split: if_splits dest!: map_of_SomeD)

lemma wf_ipPutChild: "wf_ip M n \<Longrightarrow> wf_ip M c \<Longrightarrow> wf_ip M (ipPutChild v c n)"
proof (cases n)
  case (IpNode m cs x)
  have "\<forall>(k, c) \<in> set cs. wf_ip M c \<Longrightarrow> wf_ip M c \<Longrightarrow> \<forall>(k, c) \<in> set (AList.update v c cs). wf_ip M c"
    by (induction cs) (auto split: if_splits)
  then show "wf_ip M n \<Longrightarrow> wf_ip M c \<Longrightarrow> wf_ip M (ipPutChild v c n)"
    by (simp add: IpNode ipPutChild_def)
qed

text \<open>The child of a value, a fresh one if there is none, and the node that has it.\<close>

definition childOf :: "32 word \<Rightarrow> ip_node \<Rightarrow> ip_node" where
  "childOf v n = (case ipGetChild v n of Some c \<Rightarrow> c | None \<Rightarrow> NewIpCidrNode False (maxValue n))"

lemma wf_childOf: "wf_ip M n \<Longrightarrow> wf_ip M (childOf v n)"
  by (auto simp: childOf_def wf_maxValue dest: wf_ipGetChild split: option.splits)

lemma put_put: "ipPutChild v c (ipPutChild v c' n) = ipPutChild v c n"
  by (simp add: ipPutChild_def update_Some_unfold)

lemma hit_ipPutChild:
  "v \<le> maxValue n \<Longrightarrow> \<not> Mark n \<Longrightarrow>
    hit (ipPutChild v c n) vs = (case vs of [] \<Rightarrow> False | u # us \<Rightarrow> if u = v then hit c us else hit n vs)"
  by (cases vs) (auto simp: ipPutChild_def ipGetChild_def update_conv')

lemma hit_childOf:
  "\<not> Mark n \<Longrightarrow> hit n (v # vs) = hit (childOf v n) vs"
  by (auto simp: childOf_def split: option.splits)


text \<open>Adding the missing child is putting the fresh child in its place.\<close>

lemma ensureChild:
  assumes "wf_ip M n" "v \<le> M"
  shows "ipGetChild v (ensureChild v n) = Some (childOf v n)"
    "ipPutChild v c (ensureChild v n) = ipPutChild v c n"
  using assms
  by (auto simp: ensureChild_def ipHasChild_def ipAddChild_def childOf_def ipGetChild_def ipPutChild_def
      wf_maxValue update_Some_unfold not_less split: option.splits)

lemma addFirst_ensure:
  assumes "wf_ip M n" "v \<le> M"
  shows "addFirst v rest n = rbind (rest (childOf v n)) (\<lambda>c. Inr (ipPutChild v c n))"
proof (cases "ipGetChild v n")
  case None
  then have "ipAddChild v n = Inr (ensureChild v n)"
    using assms wf_maxValue [of M n]
    by (auto simp: ensureChild_def ipHasChild_def ipAddChild_def)
  then show ?thesis
    using None ensureChild [OF assms] by (simp add: addFirst_def)
qed (simp add: addFirst_def childOf_def)

lemma add_under:
  assumes "wf_ip M n" "v \<le> M" "\<not> Mark n"
    and "wf_ip M c" "\<And>vs. hit c vs \<longleftrightarrow> hit (childOf v n) vs \<or> prefix p vs"
  shows "wf_ip M (ipPutChild v c n)" "Mark (ipPutChild v c n) = Mark n"
    "hit (ipPutChild v c n) vs \<longleftrightarrow> hit n vs \<or> prefix (v # p) vs"
proof -
  show "wf_ip M (ipPutChild v c n)"
    using assms by (simp add: wf_ipPutChild)
  show "Mark (ipPutChild v c n) = Mark n"
    by (simp add: ipPutChild_def)
  show "hit (ipPutChild v c n) vs \<longleftrightarrow> hit n vs \<or> prefix (v # p) vs"
    using assms hit_childOf [OF assms(3)]
    by (cases vs) (simp add: ipPutChild_def, auto simp: hit_ipPutChild wf_maxValue simp del: hit.simps)
qed

subsection \<open>IPv4\<close>

lemma byte_bound: "unat (b :: 8 word) < 256"
  using unsigned_less [of b, where 'a = nat] by simp

lemma unat_byte: "unat (ucast (b :: 8 word) :: 32 word) = unat b"
  using byte_bound [of b] by (simp add: unsigned_ucast_eq take_bit_nat_eq_self_iff)

lemma byte_le: "(ucast (b :: 8 word) :: 32 word) \<le> 0xFF"
  using byte_bound [of b] by (simp add: word_le_nat_alt unat_byte)

lemma addIpv4Loop_ok:
  assumes "wf_ip 0xFF n" "1 \<le> i" "g \<le> length a"
  shows "\<exists>n'. addIpv4Loop a g i n = Inr n' \<and> wf_ip 0xFF n' \<and>
    (\<forall>vs. hit n' vs \<longleftrightarrow> hit n vs \<or> prefix (map ucast (drop i (take g a))) vs)"
  using assms
proof (induction "g - i" arbitrary: i n)
  case 0
  then show ?case
    by (auto simp: addIpv4Loop.simps [of a g i n] hit_marked wf_setMark wf_cleanChild)
next
  case (Suc d)
  show ?case
  proof (cases "Mark n")
    case True
    then show ?thesis
      using Suc.prems Suc.hyps(2) by (auto simp: addIpv4Loop.simps [of a g i n] hit_marked)
  next
    case False
    let ?v = "ucast (a ! i) :: 32 word"
    have i: "i < g" using Suc.hyps(2) by simp
    have step: "addIpv4Loop a g i n =
        rbind (addIpv4Loop a g (i + 1) (childOf ?v n)) (\<lambda>c. Inr (ipPutChild ?v c n))"
      using False i Suc.prems(3) ensureChild [OF Suc.prems(1) byte_le]
      by (simp add: addIpv4Loop.simps [of a g i n] Let_def)
    have d: "d = g - (i + 1)" using Suc.hyps(2) by simp
    obtain c where c: "addIpv4Loop a g (i + 1) (childOf ?v n) = Inr c" "wf_ip 0xFF c"
      "\<And>vs. hit c vs \<longleftrightarrow> hit (childOf ?v n) vs \<or> prefix (map ucast (drop (i + 1) (take g a))) vs"
      using Suc.hyps(1) [OF d wf_childOf [OF Suc.prems(1), of ?v]] Suc.prems(3)
      by auto
    have "drop i (take g a) = a ! i # drop (i + 1) (take g a)"
      using i Suc.prems(3) by (simp add: Cons_nth_drop_Suc [symmetric])
    then show ?thesis
      using add_under [OF Suc.prems(1) byte_le False c(2,3)] c(1) by (simp add: step)
  qed
qed

lemma addIpv4Cidr_ok:
  assumes "wf_ip 0xFF n" "\<not> Mark n" "g \<le> length a" "a \<noteq> []"
  shows "\<exists>n'. addIpv4Cidr a g n = Inr n' \<and> wf_ip 0xFF n' \<and> \<not> Mark n' \<and>
    (\<forall>vs. hit n' vs \<longleftrightarrow> hit n vs \<or> prefix (map ucast (take (max 1 g) a)) vs)"
proof -
  let ?v = "ucast (a ! 0) :: 32 word"
  obtain c where c: "addIpv4Loop a g 1 (childOf ?v n) = Inr c" "wf_ip 0xFF c"
    "\<And>vs. hit c vs \<longleftrightarrow> hit (childOf ?v n) vs \<or> prefix (map ucast (drop 1 (take g a))) vs"
    using addIpv4Loop_ok [OF wf_childOf [OF assms(1)], of 1 g a ?v] assms(3) by auto
  have "take (max 1 g) a = a ! 0 # drop 1 (take g a)"
    using assms(3,4) by (cases a; cases g) (auto simp: max_def)
  then show ?thesis
    using add_under [OF assms(1) byte_le assms(2) c(2,3)] c(1) assms(2,4)
    by (simp add: addIpv4Cidr_def addFirst_ensure [OF assms(1) byte_le])
qed

subsection \<open>Looking up\<close>

lemma searchLoop_hit: "\<not> Mark n \<Longrightarrow> searchLoop n vs \<noteq> None \<longleftrightarrow> hit n vs"
  by (induction n vs rule: searchLoop.induct)
    (auto simp: ipHasChild_def hit_marked split: option.splits)

lemma ipSearch_hit:
  assumes "\<not> Mark n" "vs \<noteq> []"
  shows "\<exists>r. ipSearch n vs = Inr r \<and> (r \<noteq> None \<longleftrightarrow> hit n vs)"
  using assms searchLoop_hit
  by (cases vs) (auto simp: ipSearch_def hit_marked split: option.splits)

subsection \<open>Masks\<close>

lemma drop_FF: "r < 8 \<Longrightarrow> drop_bit r (0xFF :: 8 word) = mask (8 - r)"
proof -
  assume "r < 8"
  then have "r \<in> {0,1,2,3,4,5,6,7}" by auto
  then show ?thesis by (auto simp: mask_eq_exp_minus_1 drop_bit_word_numeral)
qed

lemma div_FF: "0 < r \<Longrightarrow> r < 8 \<Longrightarrow> Suc ((255::nat) div 2 ^ r) = 2 ^ (8 - r)"
proof -
  assume "0 < r" "r < 8"
  then have "r \<in> {1,2,3,4,5,6,7}" by auto
  then show ?thesis by auto
qed

text \<open>The bytes that agree with \<open>a\<close> on the bits of a mask are those between the masked \<open>a\<close> and its last.\<close>

definition high_bits :: "nat \<Rightarrow> 8 word" where
  "high_bits r = NOT (drop_bit r 0xFF)"

lemma sub_bytes:
  assumes "0 < r" "r < 8"
  shows "(\<exists>i < Suc (255 div 2 ^ r). b = (a AND high_bits r) + word_of_nat i) \<longleftrightarrow>
    b AND high_bits r = a AND high_bits r"
proof -
  define m :: "8 word" where "m = mask (8 - r)"
  have h: "high_bits r = NOT m"
    using assms by (simp add: high_bits_def m_def drop_FF)
  have p: "(2::nat) ^ (8 - r) < 256"
    using power_strict_increasing [of "8 - r" 8 "2::nat"] assms by simp
  have small: "x AND m = x \<longleftrightarrow> unat x < 2 ^ (8 - r)" for x
    by (simp add: m_def take_bit_eq_mask [symmetric] word_unat_eq_iff unsigned_take_bit_eq take_bit_nat_eq_self_iff)
  have disj: "(y AND NOT m) + (x AND m) = (y AND NOT m) OR (x AND m)" for x y
    by (rule disjunctive_add_eq_or) (auto intro!: bit_word_eqI simp: bit_simps)
  show ?thesis
    unfolding h
  proof
    assume "\<exists>i < Suc (255 div 2 ^ r). b = (a AND NOT m) + word_of_nat i"
    then obtain i where i: "i < 2 ^ (8 - r)" "b = (a AND NOT m) + word_of_nat i"
      using div_FF [OF assms] by auto
    then have "unat (word_of_nat i :: 8 word) = i"
      using p by (simp add: unsigned_of_nat take_bit_nat_eq_self_iff)
    then have x: "word_of_nat i AND m = word_of_nat i" using i small by simp
    have "b = (a AND NOT m) OR (word_of_nat i AND m)"
      using disj [of a "word_of_nat i"] i(2) x by simp
    then show "b AND NOT m = a AND NOT m"
      by (auto intro!: bit_word_eqI simp: bit_simps)
  next
    assume b: "b AND NOT m = a AND NOT m"
    have "b = (b AND NOT m) OR (b AND m)"
      by (auto intro!: bit_word_eqI simp: bit_simps)
    then have "b = (a AND NOT m) + word_of_nat (unat (b AND m))"
      using disj [of b b] b by simp
    moreover have "unat (b AND m) < Suc (255 div 2 ^ r)"
      using small [of "b AND m"] div_FF [OF assms] by simp
    ultimately show "\<exists>i < Suc (255 div 2 ^ r). b = (a AND NOT m) + word_of_nat i" by blast
  qed
qed

lemma CIDRMask_Suc:
  "CIDRMask p (Suc n) = (if 8 \<le> p then 0xFF else high_bits p) # CIDRMask (p - 8) n"
  by (rule nth_equalityI) (auto simp: CIDRMask_def high_bits_def nth_Cons simp del: upt_Suc split: nat.split)

lemma bit_high_bits: "j < 8 \<Longrightarrow> r < 8 \<Longrightarrow> bit (high_bits r) (7 - j) \<longleftrightarrow> j < r"
  by (auto simp: high_bits_def drop_FF bit_simps)

lemma leadingOnes_high:
  assumes "r < 8"
  shows "leadingOnes (high_bits r # bs) = r"
proof -
  have "takeWhile (\<lambda>j. bit (high_bits r) (7 - j)) [0..<8] = takeWhile (\<lambda>j. j < r) [0..<8]"
    by (rule takeWhile_cong) (use assms in \<open>auto simp: bit_high_bits\<close>)
  moreover have "length (takeWhile (\<lambda>j. j < r) [0..<8]) = r"
  proof -
    have "r \<in> {0,1,2,3,4,5,6,7}" using assms by auto
    then show ?thesis by (auto simp: upt_rec)
  qed
  moreover have "high_bits r \<noteq> 0xFF"
    using bit_high_bits [of 7 r] assms by auto
  ultimately show ?thesis by simp
qed

lemma leadingOnes_CIDRMask: "p \<le> 8 * n \<Longrightarrow> leadingOnes (CIDRMask p n) = p"
proof (induction n arbitrary: p)
  case 0
  then show ?case by (simp add: CIDRMask_def)
next
  case (Suc n)
  then show ?case
    using Suc.IH [of "p - 8"] by (auto simp: CIDRMask_Suc leadingOnes_high simp del: leadingOnes.simps(2)) simp
qed

lemma maskSize_CIDRMask: "p \<le> 8 * n \<Longrightarrow> maskSize (CIDRMask p n) = p"
  using leadingOnes_CIDRMask [of p n] by (simp add: maskSize_def) (simp add: CIDRMask_def)

definition masked :: "nat \<Rightarrow> ip \<Rightarrow> ip" where
  "masked p a = map2 (AND) a (CIDRMask p (length a))"

lemma length_masked [simp]: "length (masked p a) = length a"
  by (simp add: masked_def CIDRMask_def)

lemma and_FF [simp]: "(b :: 8 word) AND 0xFF = b"
proof -
  have "(0xFF :: 8 word) = - 1" by simp
  then show ?thesis by (metis and.right_neutral)
qed

lemma masked_Cons:
  "masked p (b # bs) = (if 8 \<le> p then b else b AND high_bits p) # masked (p - 8) bs"
  by (simp add: masked_def CIDRMask_Suc)

lemma high_bits_0 [simp]: "high_bits 0 = 0"
  by (simp add: high_bits_def)

lemma masked_0 [simp]: "masked 0 a = replicate (length a) 0"
proof (induction a)
  case (Cons b a)
  then show ?case by (simp add: masked_Cons)
qed (simp add: masked_def)

lemma masked_parts:
  "p \<le> 8 * length a \<Longrightarrow> masked p a =
    take (p div 8) a @ (if p mod 8 = 0 then [] else [a ! (p div 8) AND high_bits (p mod 8)]) @
    replicate (length a - (p + 7) div 8) 0"
proof (induction a arbitrary: p)
  case (Cons b a)
  show ?case
  proof (cases "8 \<le> p")
    case True
    then obtain q where q: "p = q + 8" by (metis le_add_diff_inverse2)
    moreover have "(15 + q) div 8 = Suc ((q + 7) div 8)" "(q + 8) div 8 = Suc (q div 8)" by presburger+
    ultimately show ?thesis using Cons.IH [of q] Cons.prems by (simp add: masked_Cons)
  next
    case False
    then show ?thesis by (cases "p = 0") (auto simp: masked_Cons)
  qed
qed (simp add: masked_def)

text \<open>Whether a network, given by an address and a prefix length, contains an address.\<close>

definition in_net :: "nat \<Rightarrow> ip \<Rightarrow> ip \<Rightarrow> bool" where
  "in_net p a b = (masked p a = masked p b)"

lemma in_net_parts:
  assumes "p \<le> 8 * length a" "length a = length b"
  shows "in_net p a b \<longleftrightarrow> take (p div 8) a = take (p div 8) b \<and>
    (p mod 8 = 0 \<or> a ! (p div 8) AND high_bits (p mod 8) = b ! (p div 8) AND high_bits (p mod 8))"
  using assms by (simp add: in_net_def masked_parts)

lemma prefix_take: "prefix xs ys \<longleftrightarrow> take (length xs) ys = xs"
  by (metis append_eq_conv_conj prefix_def take_is_prefix)

lemma prefix_bytes:
  "prefix (map ucast a) (map (ucast :: 8 word \<Rightarrow> 32 word) b) \<longleftrightarrow> take (length a) b = a"
proof -
  have "inj (ucast :: 8 word \<Rightarrow> 32 word)"
    by (rule injI) (metis unat_byte unsigned_word_eqI)
  then show ?thesis
    by (simp add: prefix_take take_map inj_map_eq_map)
qed

text \<open>What \<^verbatim>\<open>net.ParseCIDR\<close> returns for an address and a prefix length.\<close>

definition cidr :: "ip \<Rightarrow> nat \<Rightarrow> ip_net" where
  "cidr a p = \<lparr>net_ip = masked p a, net_mask = CIDRMask p (length a)\<rparr>"

lemma addSubs4:
  assumes "wf_ip 0xFF (ipv4Trie t)" "\<not> Mark (ipv4Trie t)" "g \<le> 4" "\<forall>a \<in> set as. length a = 4"
  shows "\<exists>t'. addSubs True as g t = Inr t' \<and> wf_ip 0xFF (ipv4Trie t') \<and> \<not> Mark (ipv4Trie t') \<and>
    (\<forall>vs. hit (ipv4Trie t') vs \<longleftrightarrow>
       hit (ipv4Trie t) vs \<or> (\<exists>a \<in> set as. prefix (map ucast (take (max 1 g) a)) vs))"
  using assms
proof (induction as arbitrary: t)
  case (Cons a as)
  have a: "g \<le> length a" "a \<noteq> []"
    using Cons.prems by auto
  obtain n where n: "addIpv4Cidr a g (ipv4Trie t) = Inr n" "wf_ip 0xFF n" "\<not> Mark n"
    "\<And>vs. hit n vs \<longleftrightarrow> hit (ipv4Trie t) vs \<or> prefix (map ucast (take (max 1 g) a)) vs"
    using addIpv4Cidr_ok [OF Cons.prems(1,2) a] by blast
  then show ?case
    using Cons.IH [of "t\<lparr>ipv4Trie := n\<rparr>"] Cons.prems by (auto simp: addIpCidr_def)
qed simp

lemma AddIpCidr4:
  assumes "wf_ip 0xFF (ipv4Trie t)" "\<not> Mark (ipv4Trie t)" "length a = 4" "1 \<le> p" "p \<le> 32"
  shows "\<exists>t'. AddIpCidr (cidr a p) t = Inr t' \<and> wf_ip 0xFF (ipv4Trie t') \<and> \<not> Mark (ipv4Trie t') \<and>
    (\<forall>b. length b = 4 \<longrightarrow>
       (hit (ipv4Trie t') (map ucast b) \<longleftrightarrow> hit (ipv4Trie t) (map ucast b) \<or> in_net p a b))"
proof -
  define k where "k = p div 8"
  have size: "maskSize (CIDRMask p 4) = p" using maskSize_CIDRMask [of p 4] assms by simp
  note parts = in_net_parts [of p a] masked_parts [of p a]
  show ?thesis
  proof (cases "p mod 8 = 0")
    case True
    then have k: "1 \<le> k" "k \<le> 4" using assms(4,5) by (auto simp: k_def)
    have "ipCidrToSubIpCidr (cidr a p) = Inr ([masked p a], p, True)"
      using True assms(3) size by (simp add: ipCidrToSubIpCidr_def cidr_def subIpCidr_def)
    moreover obtain t' where "addSubs True [masked p a] k t = Inr t'" "wf_ip 0xFF (ipv4Trie t')"
      "\<not> Mark (ipv4Trie t')"
      "\<And>vs. hit (ipv4Trie t') vs \<longleftrightarrow> hit (ipv4Trie t) vs \<or> prefix (map ucast (take (max 1 k) (masked p a))) vs"
      using addSubs4 [OF assms(1,2) k(2), of "[masked p a]"] assms(3) by auto
    moreover have "take k b = take k (masked p a) \<longleftrightarrow> in_net p a b" if "length b = 4" for b
      using that assms True parts by (auto simp: k_def)
    ultimately show ?thesis
      using k assms(3) by (auto simp: AddIpCidr_def k_def [symmetric] prefix_bytes max_absorb2)
  next
    case False
    define r where "r = p mod 8"
    have r: "0 < r" "r < 8" using False by (auto simp: r_def)
    have k: "k < 4" using False assms(5) unfolding k_def by presburger
    define subs where "subs = map (\<lambda>i. (masked p a)[k := masked p a ! k + word_of_nat i]) [0..<Suc (255 div 2 ^ r)]"
    have mk: "masked p a ! k = a ! k AND high_bits r" "take k (masked p a) = take k a"
      using parts(2) assms(3,5) False k by (auto simp: k_def r_def nth_append)
    have "ipCidrToSubIpCidr (cidr a p) = Inr (subs, (k + 1) * 8, True)"
      using False assms(3) size k unfolding subs_def
      by (simp add: ipCidrToSubIpCidr_def cidr_def subIpCidr_def Let_def k_def r_def)
    moreover obtain t' where "addSubs True subs (k + 1) t = Inr t'" "wf_ip 0xFF (ipv4Trie t')"
      "\<not> Mark (ipv4Trie t')"
      "\<And>vs. hit (ipv4Trie t') vs \<longleftrightarrow> hit (ipv4Trie t) vs \<or>
         (\<exists>a \<in> set subs. prefix (map ucast (take (max 1 (k + 1)) a)) vs)"
      using addSubs4 [OF assms(1,2), of "k + 1" subs] assms(3) k by (auto simp: subs_def)
    moreover have "(\<exists>a \<in> set subs. prefix (map ucast (take (max 1 (k + 1)) a)) (map (ucast :: 8 word \<Rightarrow> 32 word) b)) \<longleftrightarrow> in_net p a b"
      if b: "length b = 4" for b
    proof -
      have "take (k + 1) ((masked p a)[k := x]) = take k a @ [x]" for x
        using mk k assms(3) by (simp add: take_Suc_conv_app_nth)
      moreover have "take (length (take k a @ [x])) b = take k a @ [x] \<longleftrightarrow> take k a = take k b \<and> b ! k = x" for x
        using k b assms(3) by (auto simp: take_Suc_conv_app_nth)
      ultimately have "prefix (map ucast (take (max 1 (k + 1)) ((masked p a)[k := x]))) (map (ucast :: 8 word \<Rightarrow> 32 word) b)
          \<longleftrightarrow> take k a = take k b \<and> b ! k = x" for x
        unfolding prefix_bytes by simp
      then have "(\<exists>a \<in> set subs. prefix (map ucast (take (max 1 (k + 1)) a)) (map (ucast :: 8 word \<Rightarrow> 32 word) b)) \<longleftrightarrow>
          take k a = take k b \<and> (\<exists>i < Suc (255 div 2 ^ r). b ! k = (a ! k AND high_bits r) + word_of_nat i)"
        unfolding subs_def mk(1) set_map set_upt by (simp add: Bex_def)
      also have "\<dots> \<longleftrightarrow> take k a = take k b \<and> a ! k AND high_bits r = b ! k AND high_bits r"
        unfolding sub_bytes [OF r] by auto
      also have "\<dots> \<longleftrightarrow> in_net p a b"
        using parts(1) [of b] assms(3,5) b False by (simp add: k_def r_def)
      finally show ?thesis .
    qed
    ultimately show ?thesis
      by (auto simp: AddIpCidr_def)
  qed
qed

text \<open>Adding the networks that the parser reads, one after the other.\<close>

fun addCidrs :: "(ip \<times> nat) list \<Rightarrow> ip_cidr_trie \<Rightarrow> ip_cidr_trie outcome" where
  "addCidrs [] t = Inr t"
| "addCidrs ((a, p) # ns) t = rbind (AddIpCidr (cidr a p) t) (addCidrs ns)"

lemma addCidrs4:
  assumes "wf_ip 0xFF (ipv4Trie t)" "\<not> Mark (ipv4Trie t)"
    and "\<forall>(a, p) \<in> set ns. length a = 4 \<and> 1 \<le> p \<and> p \<le> 32"
  shows "\<exists>t'. addCidrs ns t = Inr t' \<and> wf_ip 0xFF (ipv4Trie t') \<and> \<not> Mark (ipv4Trie t') \<and>
    (\<forall>b. length b = 4 \<longrightarrow> (hit (ipv4Trie t') (map ucast b) \<longleftrightarrow>
       hit (ipv4Trie t) (map ucast b) \<or> (\<exists>(a, p) \<in> set ns. in_net p a b)))"
  using assms
proof (induction ns arbitrary: t)
  case (Cons n ns)
  obtain a p where n: "n = (a, p)" by (cases n)
  obtain t1 where t1: "AddIpCidr (cidr a p) t = Inr t1" "wf_ip 0xFF (ipv4Trie t1)" "\<not> Mark (ipv4Trie t1)"
    "\<And>b. length b = 4 \<Longrightarrow> hit (ipv4Trie t1) (map ucast b) \<longleftrightarrow> hit (ipv4Trie t) (map ucast b) \<or> in_net p a b"
    using AddIpCidr4 [OF Cons.prems(1,2), of a p] Cons.prems(3) n by auto
  show ?case
    using Cons.IH [OF t1(2,3)] Cons.prems(3) t1 n by (auto 0 3)
qed simp

lemma IsContain4:
  assumes "\<not> Mark (ipv4Trie t)" "length b = 4"
  shows "IsContain (Some b) t = Inr (hit (ipv4Trie t) (map ucast b))"
  using ipSearch_hit [OF assms(1), of "map ucast b"] assms(2) by (force simp: IsContain_def)

lemma new_trie:
  "wf_ip 0xFF (ipv4Trie NewIpCidrTrie)" "\<not> Mark (ipv4Trie NewIpCidrTrie)" "\<not> hit (ipv4Trie NewIpCidrTrie) vs"
  "wf_ip 0xFFFF (ipv6Trie NewIpCidrTrie)" "\<not> Mark (ipv6Trie NewIpCidrTrie)" "\<not> hit (ipv6Trie NewIpCidrTrie) vs"
  by (simp_all add: NewIpCidrTrie_def)

text \<open>
  C23.  The trie answers exactly for IPv4: after any networks with prefix lengths from 1 to 32 were
  added, an address is contained if and only if one of the networks contains it.
\<close>

theorem ipv4_trie_exact:
  assumes "\<forall>(a, p) \<in> set ns. length a = 4 \<and> 1 \<le> p \<and> p \<le> 32" "length b = 4"
  shows "\<exists>t. addCidrs ns NewIpCidrTrie = Inr t \<and>
    IsContain (Some b) t = Inr (\<exists>(a, p) \<in> set ns. in_net p a b)"
proof -
  obtain t where t: "addCidrs ns NewIpCidrTrie = Inr t" "\<not> Mark (ipv4Trie t)"
    "\<forall>b. length b = 4 \<longrightarrow> (hit (ipv4Trie t) (map ucast b) \<longleftrightarrow>
       hit (ipv4Trie NewIpCidrTrie) (map ucast b) \<or> (\<exists>(a, p) \<in> set ns. in_net p a b))"
    using addCidrs4 [OF new_trie(1,2) assms(1)] by blast
  then show ?thesis
    using IsContain4 [OF t(2) assms(2)] assms(2) new_trie(3) by simp
qed

lemma ipv4_trie_exact_witness:
  "\<exists>t. addCidrs [([149, 154, 160, 0], 20), ([66, 23, 25, 4], 6)] NewIpCidrTrie = Inr t \<and>
    IsContain (Some [149, 154, 175, 255]) t = Inr True"
  using ipv4_trie_exact [of "[([149, 154, 160, 0], 20), ([66, 23, 25, 4], 6)]" "[149, 154, 175, 255]"]
  by (simp add: in_net_def masked_def CIDRMask_def upt_rec)

text \<open>
  The network 0.0.0.0/0 is stored as if it were 0.0.0.0/8: addresses outside of it are not
  contained.
\<close>

theorem ipv4_default_route_lost:
  assumes "length b = 4"
  shows "\<exists>t. AddIpCidr (cidr [0, 0, 0, 0] 0) NewIpCidrTrie = Inr t \<and>
    IsContain (Some b) t = Inr (hd b = 0)"
proof -
  have "ipCidrToSubIpCidr (cidr [0, 0, 0, 0] 0) = Inr ([[0, 0, 0, 0]], 0, True)"
    using maskSize_CIDRMask [of 0 "Suc (Suc (Suc (Suc 0)))"]
    by (simp add: ipCidrToSubIpCidr_def cidr_def subIpCidr_def)
  moreover obtain t where "addSubs True [[0, 0, 0, 0]] 0 NewIpCidrTrie = Inr t" "\<not> Mark (ipv4Trie t)"
    "\<And>vs. hit (ipv4Trie t) vs \<longleftrightarrow> prefix [ucast (0 :: 8 word)] vs"
    using addSubs4 [OF new_trie(1,2), of 0 "[[0, 0, 0, 0]]"] new_trie(3) by auto
  moreover have "prefix [ucast (0 :: 8 word)] (map (ucast :: 8 word \<Rightarrow> 32 word) b) \<longleftrightarrow> hd b = 0"
    using assms prefix_bytes [of "[0]" b] by (cases b) auto
  ultimately show ?thesis
    using IsContain4 [OF _ assms] by (auto simp: AddIpCidr_def)
qed

lemma ipv4_default_route_lost_witness:
  "\<exists>t. AddIpCidr (cidr [0, 0, 0, 0] 0) NewIpCidrTrie = Inr t \<and> IsContain (Some [1, 2, 3, 4]) t = Inr False"
  using ipv4_default_route_lost [of "[1, 2, 3, 4]"] by simp

subsection \<open>IPv6\<close>

fun grp :: "ip \<Rightarrow> 32 word list" where
  "grp (hi # lo # bs) = getIpv6GroupValue hi lo # grp bs"
| "grp _ = []"

lemma groups6_grp: "even (length a) \<Longrightarrow> groups6 a = Inr (grp a)"
  by (induction a rule: groups6.induct) auto

lemma group_value:
  "getIpv6GroupValue hi lo = ucast hi * 256 + ucast lo"
proof -
  have "push_bit 8 (ucast hi :: 32 word) AND ucast lo = 0"
    using bit_imp_le_length [of lo] by (auto intro!: bit_word_eqI simp: bit_simps) force
  then show ?thesis
    by (simp add: getIpv6GroupValue_def disjunctive_add_eq_or [symmetric] push_bit_eq_mult)
qed

lemma unat_group: "unat (getIpv6GroupValue hi lo) = 256 * unat hi + unat lo"
proof -
  have "256 * unat hi + unat lo < 4294967296"
    using byte_bound [of hi] byte_bound [of lo] by linarith
  moreover have "getIpv6GroupValue hi lo = word_of_nat (256 * unat hi + unat lo)"
    by (simp add: group_value)
  ultimately show ?thesis
    by (simp only: unsigned_of_nat) (simp add: take_bit_nat_eq_self)
qed

lemma group_le: "getIpv6GroupValue hi lo \<le> 0xFFFF"
  using byte_bound [of hi] byte_bound [of lo] by (simp add: word_le_nat_alt unat_group)

lemma group_eq: "getIpv6GroupValue hi lo = getIpv6GroupValue hi' lo' \<longleftrightarrow> hi = hi' \<and> lo = lo'"
proof
  assume "getIpv6GroupValue hi lo = getIpv6GroupValue hi' lo'"
  then have "256 * unat hi + unat lo = 256 * unat hi' + unat lo'"
    by (metis unat_group)
  moreover have "(256 * x + y) div 256 = x" "(256 * x + y) mod 256 = y" if "y < 256" for x y :: nat
    using that by simp_all
  ultimately have "unat hi = unat hi'" "unat lo = unat lo'"
    using byte_bound [of lo] byte_bound [of lo'] by metis+
  then show "hi = hi' \<and> lo = lo'" by (simp add: unsigned_word_eqI)
qed simp

lemma group_zero: "getIpv6GroupValue hi lo = 0 \<longleftrightarrow> hi = 0 \<and> lo = 0"
  using group_eq [of hi lo 0 0] by (simp add: getIpv6GroupValue_def)

lemma two_bytes:
  assumes "even g" "even i" "i < g" "g \<le> length a"
  shows "i + 1 < g" "drop i (take g a) = a ! i # a ! (i + 1) # drop (i + 2) (take g a)"
proof -
  show i: "i + 1 < g" using assms by presburger
  then show "drop i (take g a) = a ! i # a ! (i + 1) # drop (i + 2) (take g a)"
    using assms by (simp add: Cons_nth_drop_Suc [symmetric])
qed

lemma addIpv6Loop_ok:
  assumes "wf_ip 0xFFFF n" "even g" "even i" "g \<le> length a"
  shows "\<exists>n'. addIpv6Loop a g i n = Inr n' \<and> wf_ip 0xFFFF n' \<and>
    (\<forall>vs. hit n' vs \<longleftrightarrow> hit n vs \<or> prefix (takeWhile (\<lambda>v. v \<noteq> 0) (grp (drop i (take g a)))) vs)"
  using assms
proof (induction "g - i" arbitrary: i n rule: less_induct)
  case less
  show ?case
  proof (cases "i < g")
    case False
    then show ?thesis
      using less.prems by (auto simp: addIpv6Loop.simps [of a g i n] hit_marked wf_setMark wf_cleanChild)
  next
    case True
    note b = two_bytes [OF less.prems(2,3) True less.prems(4)]
    let ?v = "getIpv6GroupValue (a ! i) (a ! (i + 1))"
    have zero: "(if a ! i = 0 then rbind (go_get a (int i + 1)) (\<lambda>lo. Inr (lo = 0)) else Inr False) =
        Inr (?v = 0)"
      using b(1) less.prems(4) by (simp add: group_zero nat_add_distrib)
    have get: "go_get a (int i) = Inr (a ! i)" "getGroup a i = Inr ?v"
      using b(1) less.prems(4) by (simp_all add: getGroup_def nat_add_distrib)
    show ?thesis
    proof (cases "Mark n \<or> ?v = 0")
      case True
      then show ?thesis
        using \<open>i < g\<close> less.prems(1) zero get(1) b(2)
        by (auto simp: addIpv6Loop.simps [of a g i n] hit_marked wf_setMark)
    next
      case False
      then have m: "\<not> Mark n" by simp
      have step: "addIpv6Loop a g i n =
          rbind (addIpv6Loop a g (i + 2) (childOf ?v n)) (\<lambda>c. Inr (ipPutChild ?v c n))"
        using False \<open>i < g\<close> zero get ensureChild [OF less.prems(1) group_le]
        by (simp add: addIpv6Loop.simps [of a g i n] Let_def)
      have d: "g - (i + 2) < g - i" "even (i + 2)" using \<open>i < g\<close> less.prems(3) by auto
      obtain c where c: "addIpv6Loop a g (i + 2) (childOf ?v n) = Inr c" "wf_ip 0xFFFF c"
        "\<And>vs. hit c vs \<longleftrightarrow> hit (childOf ?v n) vs \<or>
          prefix (takeWhile (\<lambda>v. v \<noteq> 0) (grp (drop (i + 2) (take g a)))) vs"
        using less.hyps [OF d(1) wf_childOf [OF less.prems(1)] less.prems(2) d(2) less.prems(4)] by blast
      then show ?thesis
        using add_under [OF less.prems(1) group_le m c(2,3)] False b(2) by (simp add: step)
    qed
  qed
qed

text \<open>The path that is stored for a list of groups: it ends before the first zero after the first group.\<close>

fun stored :: "32 word list \<Rightarrow> 32 word list" where
  "stored [] = []"
| "stored (v # vs) = v # takeWhile (\<lambda>v. v \<noteq> 0) vs"

lemma addIpv6Cidr_ok:
  assumes "wf_ip 0xFFFF n" "\<not> Mark n" "even g" "2 \<le> g" "g \<le> length a"
  shows "\<exists>n'. addIpv6Cidr a g n = Inr n' \<and> wf_ip 0xFFFF n' \<and> \<not> Mark n' \<and>
    (\<forall>vs. hit n' vs \<longleftrightarrow> hit n vs \<or> prefix (stored (grp (take g a))) vs)"
proof -
  have b: "take g a = a ! 0 # a ! 1 # drop 2 (take g a)"
    using two_bytes [of g 0 a] assms(3-5) by (simp add: numeral_2_eq_2)
  let ?v = "getIpv6GroupValue (a ! 0) (a ! 1)"
  obtain c where c: "addIpv6Loop a g 2 (childOf ?v n) = Inr c" "wf_ip 0xFFFF c"
    "\<And>vs. hit c vs \<longleftrightarrow> hit (childOf ?v n) vs \<or>
      prefix (takeWhile (\<lambda>v. v \<noteq> 0) (grp (drop 2 (take g a)))) vs"
    using addIpv6Loop_ok [OF wf_childOf [OF assms(1)] assms(3) _ assms(5), of 2 ?v] by auto
  have "getGroup a 0 = Inr ?v"
    using assms(4,5) by (cases a) (auto simp: getGroup_def go_get_def)
  moreover have "stored (grp (take g a)) = ?v # takeWhile (\<lambda>v. v \<noteq> 0) (grp (drop 2 (take g a)))"
    by (subst b) simp
  ultimately show ?thesis
    using add_under [OF assms(1) group_le assms(2) c(2,3)] c(1) assms(2)
    by (simp add: addIpv6Cidr_def addFirst_ensure [OF assms(1) group_le])
qed

lemma addSubs6:
  assumes "wf_ip 0xFFFF (ipv6Trie t)" "\<not> Mark (ipv6Trie t)" "even g" "2 \<le> g" "g \<le> 16"
    "\<forall>a \<in> set as. length a = 16"
  shows "\<exists>t'. addSubs False as g t = Inr t' \<and> wf_ip 0xFFFF (ipv6Trie t') \<and> \<not> Mark (ipv6Trie t') \<and>
    (\<forall>vs. hit (ipv6Trie t') vs \<longleftrightarrow>
       hit (ipv6Trie t) vs \<or> (\<exists>a \<in> set as. prefix (stored (grp (take g a))) vs))"
  using assms
proof (induction as arbitrary: t)
  case (Cons a as)
  have a: "g \<le> length a"
    using Cons.prems by auto
  obtain n where n: "addIpv6Cidr a g (ipv6Trie t) = Inr n" "wf_ip 0xFFFF n" "\<not> Mark n"
    "\<And>vs. hit n vs \<longleftrightarrow> hit (ipv6Trie t) vs \<or> prefix (stored (grp (take g a))) vs"
    using addIpv6Cidr_ok [OF Cons.prems(1-4) a] by blast
  then show ?case
    using Cons.IH [of "t\<lparr>ipv6Trie := n\<rparr>"] Cons.prems by (auto simp: addIpCidr_def)
qed simp

lemma IsContain6:
  assumes "\<not> Mark (ipv6Trie t)" "length b = 16"
  shows "IsContain (Some b) t = Inr (hit (ipv6Trie t) (grp b))"
proof -
  have "grp b \<noteq> []" using assms(2) by (cases b rule: grp.cases) auto
  then obtain r where "ipSearch (ipv6Trie t) (grp b) = Inr r" "r \<noteq> None \<longleftrightarrow> hit (ipv6Trie t) (grp b)"
    using ipSearch_hit [OF assms(1)] by blast
  then show ?thesis using assms(2) by (simp add: IsContain_def groups6_grp)
qed


lemma grp_take: "grp (take (2 * k) a) = take k (grp a)"
proof (induction a arbitrary: k rule: grp.induct)
  case (1 hi lo bs)
  then show ?case by (cases k) simp_all
qed (auto simp: take_Cons split: nat.split)

lemma grp_eq:
  "even (length a) \<Longrightarrow> length a = length b \<Longrightarrow> grp a = grp b \<longleftrightarrow> a = b"
proof (induction a arbitrary: b rule: grp.induct)
  case (1 hi lo bs)
  then show ?case
    by (cases b rule: grp.cases) (auto simp: group_eq)
qed auto

lemma length_grp: "length (grp a) = length a div 2"
  by (induction a rule: grp.induct) auto


text \<open>A network whose prefix ends at a group is stored by its groups.\<close>

lemma AddIpCidr6:
  assumes "wf_ip 0xFFFF (ipv6Trie t)" "\<not> Mark (ipv6Trie t)" "length a = 16" "1 \<le> k" "k \<le> 8"
  shows "\<exists>t'. AddIpCidr (cidr a (16 * k)) t = Inr t' \<and> wf_ip 0xFFFF (ipv6Trie t') \<and> \<not> Mark (ipv6Trie t') \<and>
    (\<forall>vs. hit (ipv6Trie t') vs \<longleftrightarrow> hit (ipv6Trie t) vs \<or> prefix (stored (take k (grp a))) vs)"
proof -
  have "maskSize (CIDRMask (16 * k) 16) = 16 * k"
    using maskSize_CIDRMask [of "16 * k" 16] assms(5) by simp
  then have "ipCidrToSubIpCidr (cidr a (16 * k)) = Inr ([masked (16 * k) a], 16 * k, False)"
    using assms(3) by (simp add: ipCidrToSubIpCidr_def cidr_def subIpCidr_def Let_def)
  moreover have "take (2 * k) (masked (16 * k) a) = take (2 * k) a"
    using masked_parts [of "16 * k" a] assms(3,5) by simp
  then have "grp (take (2 * k) (masked (16 * k) a)) = take k (grp a)"
    by (metis grp_take)
  moreover have "16 * k div 8 = 2 * k" by simp
  ultimately show ?thesis
    using addSubs6 [OF assms(1,2), of "2 * k" "[masked (16 * k) a]"] assms(3-5)
    by (auto simp: AddIpCidr_def)
qed

lemma addCidrs6:
  assumes "wf_ip 0xFFFF (ipv6Trie t)" "\<not> Mark (ipv6Trie t)"
    and "\<forall>(a, k) \<in> set ns. length a = 16 \<and> 1 \<le> k \<and> k \<le> 8"
  shows "\<exists>t'. addCidrs (map (\<lambda>(a, k). (a, 16 * k)) ns) t = Inr t' \<and>
    wf_ip 0xFFFF (ipv6Trie t') \<and> \<not> Mark (ipv6Trie t') \<and>
    (\<forall>vs. hit (ipv6Trie t') vs \<longleftrightarrow>
       hit (ipv6Trie t) vs \<or> (\<exists>(a, k) \<in> set ns. prefix (stored (take k (grp a))) vs))"
  using assms
proof (induction ns arbitrary: t)
  case (Cons n ns)
  obtain a k where n: "n = (a, k)" by (cases n)
  obtain t1 where t1: "AddIpCidr (cidr a (16 * k)) t = Inr t1" "wf_ip 0xFFFF (ipv6Trie t1)"
    "\<not> Mark (ipv6Trie t1)"
    "\<And>vs. hit (ipv6Trie t1) vs \<longleftrightarrow> hit (ipv6Trie t) vs \<or> prefix (stored (take k (grp a))) vs"
    using AddIpCidr6 [OF Cons.prems(1,2), of a k] Cons.prems(3) n by auto
  show ?case
    using Cons.IH [OF t1(2,3)] Cons.prems(3) t1 n by (auto 0 3)
qed simp

lemma stored_no_zero: "0 \<notin> set (tl vs) \<Longrightarrow> stored vs = vs"
  by (cases vs) (auto simp: takeWhile_eq_all_conv)

lemma prefix_groups:
  assumes "length a = 16" "length b = 16" "k \<le> 8"
  shows "prefix (take k (grp a)) (grp b) \<longleftrightarrow> in_net (16 * k) a b"
proof -
  have "prefix (take k (grp a)) (grp b) \<longleftrightarrow> grp (take (2 * k) a) = grp (take (2 * k) b)"
    using assms by (auto simp: prefix_take grp_take length_grp)
  also have "\<dots> \<longleftrightarrow> take (2 * k) a = take (2 * k) b"
    using assms by (intro grp_eq) auto
  also have "\<dots> \<longleftrightarrow> in_net (16 * k) a b"
    using in_net_parts [of "16 * k" a b] assms by simp
  finally show ?thesis .
qed

text \<open>
  For IPv6 networks whose prefix ends at a group the trie answers exactly, provided that no group
  of a network after its first is zero.
\<close>

theorem ipv6_trie_exact:
  assumes "\<forall>(a, k) \<in> set ns. length a = 16 \<and> 1 \<le> k \<and> k \<le> 8 \<and> 0 \<notin> set (tl (take k (grp a)))"
    and "length b = 16"
  shows "\<exists>t. addCidrs (map (\<lambda>(a, k). (a, 16 * k)) ns) NewIpCidrTrie = Inr t \<and>
    IsContain (Some b) t = Inr (\<exists>(a, k) \<in> set ns. in_net (16 * k) a b)"
proof -
  have "\<forall>(a, k) \<in> set ns. length a = 16 \<and> 1 \<le> k \<and> k \<le> 8" using assms(1) by auto
  then obtain t where t: "addCidrs (map (\<lambda>(a, k). (a, 16 * k)) ns) NewIpCidrTrie = Inr t"
    "\<not> Mark (ipv6Trie t)"
    "hit (ipv6Trie t) (grp b) \<longleftrightarrow> (\<exists>(a, k) \<in> set ns. prefix (stored (take k (grp a))) (grp b))"
    using addCidrs6 [OF new_trie(4,5), of ns] new_trie(6) by blast
  moreover have "(\<exists>(a, k) \<in> set ns. prefix (stored (take k (grp a))) (grp b)) \<longleftrightarrow>
      (\<exists>(a, k) \<in> set ns. in_net (16 * k) a b)"
    using assms by (intro bex_cong refl) (auto simp: stored_no_zero prefix_groups)
  ultimately show ?thesis using IsContain6 [OF t(2) assms(2)] by simp
qed

lemma ipv6_trie_exact_witness:
  "\<exists>t. addCidrs (map (\<lambda>(a, k). (a, 16 * k)) [([42, 10, 242, 128, 0, 0, 0, 0, 0, 0, 0, 0, 0, 0, 0, 0], 2)])
         NewIpCidrTrie = Inr t \<and>
    IsContain (Some [42, 10, 242, 128, 255, 255, 0, 0, 0, 0, 0, 0, 0, 0, 0, 1]) t = Inr True"
proof -
  have "0 \<notin> set (tl (take 2 (grp [42, 10, 242, 128, 0, 0, 0, 0, 0, 0, 0, 0, 0, 0, 0, 0])))"
    by (simp add: group_zero eq_commute [of 0])
  then show ?thesis
    using ipv6_trie_exact [of "[([42, 10, 242, 128, 0, 0, 0, 0, 0, 0, 0, 0, 0, 0, 0, 0], 2)]"
        "[42, 10, 242, 128, 255, 255, 0, 0, 0, 0, 0, 0, 0, 0, 0, 1]"]
    by (simp add: in_net_def masked_def CIDRMask_def upt_rec)
qed

text \<open>
  A zero second group widens an IPv6 network to its first group: after 2001::/32 was added, every
  address in 2001::/16 is contained.
\<close>

theorem ipv6_zero_group_widens:
  assumes "length a = 16" "2 \<le> k" "k \<le> 8" "a ! 2 = 0" "a ! 3 = 0"
    and "length b = 16" "take 2 b = take 2 a"
  shows "\<exists>t. AddIpCidr (cidr a (16 * k)) NewIpCidrTrie = Inr t \<and> IsContain (Some b) t = Inr True"
proof -
  obtain t where t: "AddIpCidr (cidr a (16 * k)) NewIpCidrTrie = Inr t" "\<not> Mark (ipv6Trie t)"
    "hit (ipv6Trie t) (grp b) \<longleftrightarrow> prefix (stored (take k (grp a))) (grp b)"
    using AddIpCidr6 [OF new_trie(4,5) assms(1), of k] assms(2,3) new_trie(6) by force
  have "a = a ! 0 # a ! 1 # 0 # 0 # drop 4 a"
    using assms(1,4,5) by (intro nth_equalityI) (auto simp: nth_Cons' numeral_eq_Suc less_Suc_eq)
  then have "grp a = getIpv6GroupValue (a ! 0) (a ! 1) # 0 # grp (drop 4 a)"
    by (metis grp.simps(1) group_zero)
  then have "stored (take k (grp a)) = [getIpv6GroupValue (a ! 0) (a ! 1)]"
    using assms(2) by (cases k; cases "k - 1") auto
  moreover have "b ! 0 = a ! 0" "b ! 1 = a ! 1"
    using nth_take [of 0 2 a] nth_take [of 0 2 b] nth_take [of 1 2 a] nth_take [of 1 2 b] assms(7) by simp_all
  then have "b = a ! 0 # a ! 1 # drop 2 b"
    using assms(6) Cons_nth_drop_Suc [of 0 b] Cons_nth_drop_Suc [of 1 b] by (simp add: numeral_2_eq_2)
  ultimately show ?thesis
    using IsContain6 [OF t(2) assms(6)] t by (metis grp.simps(1) Cons_prefix_Cons prefix_bot.bot_least)
qed


lemma ipv6_zero_group_widens_witness:
  "\<exists>t. AddIpCidr (cidr [32, 1, 0, 0, 0, 0, 0, 0, 0, 0, 0, 0, 0, 0, 0, 0] (16 * 2)) NewIpCidrTrie = Inr t \<and>
    IsContain (Some [32, 1, 13, 184, 0, 0, 0, 0, 0, 0, 0, 0, 0, 0, 0, 1]) t = Inr True"
  using ipv6_zero_group_widens [of "[32, 1, 0, 0, 0, 0, 0, 0, 0, 0, 0, 0, 0, 0, 0, 0]" 2
      "[32, 1, 13, 184, 0, 0, 0, 0, 0, 0, 0, 0, 0, 0, 0, 1]"]
  by simp

text \<open>
  An IPv6 network whose prefix ends in the first byte of its second group (/17 to /23) loses most
  of its addresses: those whose second byte of that group is not zero are not contained, unless the
  network starts with a zero group.
\<close>

theorem ipv6_unaligned_misses:
  assumes "length a = 16" "0 < r" "r < 8" "a ! 2 AND high_bits r \<noteq> 0"
    and "length b = 16" "b ! 3 \<noteq> 0"
  shows "\<exists>t. AddIpCidr (cidr a (16 + r)) NewIpCidrTrie = Inr t \<and> IsContain (Some b) t = Inr False"
proof -
  have size: "maskSize (CIDRMask (16 + r) 16) = 16 + r"
    using maskSize_CIDRMask [of "16 + r" 16] assms(3) by simp
  define m where "m = masked (16 + r) a"
  have "(16 + r) div 8 = 2" "(16 + r) mod 8 = r" using assms(3) by presburger+
  then have m: "length m = 16" "m ! 2 = a ! 2 AND high_bits r" "m ! 3 = 0"
    using masked_parts [of "16 + r" a] assms(1-3) by (auto simp: m_def nth_append)
  define subs where "subs = map (\<lambda>i. m[2 := m ! 2 + word_of_nat i]) [0..<Suc (255 div 2 ^ r)]"
  have "ipCidrToSubIpCidr (cidr a (16 + r)) = Inr (subs, 32, False)"
    using assms(1-3) size \<open>(16 + r) div 8 = 2\<close> \<open>(16 + r) mod 8 = r\<close> m(1)
    by (simp add: ipCidrToSubIpCidr_def cidr_def subIpCidr_def Let_def subs_def m_def)
  moreover obtain t where t: "addSubs False subs 4 NewIpCidrTrie = Inr t" "\<not> Mark (ipv6Trie t)"
    "hit (ipv6Trie t) (grp b) \<longleftrightarrow> (\<exists>s \<in> set subs. prefix (stored (grp (take 4 s))) (grp b))"
    using addSubs6 [OF new_trie(4,5), of 4 subs] new_trie(6) m(1) by (auto simp: subs_def)
  moreover have "\<not> prefix (stored (grp (take 4 s))) (grp b)" if "s \<in> set subs" for s
  proof -
    have "s \<in> (\<lambda>i. m[2 := m ! 2 + word_of_nat i]) ` {0..<Suc (255 div 2 ^ r)}"
      using that unfolding subs_def set_map set_upt .
    then obtain i where i: "i < Suc (255 div 2 ^ r)" "s = m[2 := m ! 2 + word_of_nat i]"
      by (metis (no_types, lifting) imageE atLeastLessThan_iff)
    let ?x = "m ! 2 + word_of_nat i"
    have "?x AND high_bits r = a ! 2 AND high_bits r"
      using sub_bytes [OF assms(2,3), of ?x "a ! 2"] i(1) m(2) by auto
    then have "?x \<noteq> 0" using assms(4) by auto
    have "take 4 s = [m ! 0, m ! 1, ?x, 0]"
      using m(1,3) i(2) by (intro nth_equalityI) (auto simp: nth_Cons' numeral_eq_Suc less_Suc_eq)
    then have "stored (grp (take 4 s)) = [getIpv6GroupValue (m ! 0) (m ! 1), getIpv6GroupValue ?x 0]"
      using \<open>?x \<noteq> 0\<close> by (simp add: group_zero)
    moreover have "b = b ! 0 # b ! 1 # b ! 2 # b ! 3 # drop 4 b"
      using assms(5) by (intro nth_equalityI) (auto simp: nth_Cons' numeral_eq_Suc less_Suc_eq)
    then have "grp b = getIpv6GroupValue (b ! 0) (b ! 1) # getIpv6GroupValue (b ! 2) (b ! 3) # grp (drop 4 b)"
      by (metis grp.simps(1))
    ultimately show ?thesis
      using assms(6) by (auto simp: group_eq)
  qed
  ultimately show ?thesis
    using IsContain6 [OF t(2) assms(5)] by (auto simp: AddIpCidr_def)
qed

lemma ipv6_unaligned_misses_witness:
  "\<exists>t. AddIpCidr (cidr [36, 14, 64, 0, 0, 0, 0, 0, 0, 0, 0, 0, 0, 0, 0, 0] (16 + 2)) NewIpCidrTrie = Inr t \<and>
    IsContain (Some [36, 14, 64, 1, 0, 0, 0, 0, 0, 0, 0, 0, 0, 0, 0, 1]) t = Inr False"
  using ipv6_unaligned_misses [of "[36, 14, 64, 0, 0, 0, 0, 0, 0, 0, 0, 0, 0, 0, 0, 0]" 2
      "[36, 14, 64, 1, 0, 0, 0, 0, 0, 0, 0, 0, 0, 0, 0, 1]"]
  by (simp add: high_bits_def)

end
