(* ===== verification/Lru.thy ===== *)
theory Lru
  imports Prelude "HOL-Library.AList"
begin

text \<open>
  The least-recently-used cache of \<^verbatim>\<open>mihomo/common/lru/lrucache.go\<close>.  The doubly linked list is the
  list of its elements from the front (least recent) to the back, each with the identity that the
  map \<^verbatim>\<open>cache\<close> points to; identities are never reused.  Time is the argument \<open>now\<close>, in seconds, read
  once per call.  What a call evicts, for which the evict callback runs, is returned in order.
\<close>

subsection \<open>The cache\<close>

record ('k, 'v) entry =
  ekey :: 'k
  evalue :: 'v
  expires :: int

record ('k, 'v) lru_cache =
  maxAge :: int
  maxSize :: int
  cache :: "'k \<rightharpoonup> nat"
  lru :: "(nat \<times> ('k, 'v) entry) list"
  freshElement :: nat
  updateAgeOnGet :: bool
  staleReturn :: bool

definition lruClear :: "('k, 'v) lru_cache \<Rightarrow> ('k, 'v) lru_cache" where
  "lruClear c = c\<lparr>cache := Map.empty, lru := []\<rparr>"

text \<open>The functional options.\<close>

datatype (plugins only: code size) lru_option = WithUpdateAgeOnGet | WithAge int | WithSize int | WithStale bool

fun applyOption :: "lru_option \<Rightarrow> ('k, 'v) lru_cache \<Rightarrow> ('k, 'v) lru_cache" where
  "applyOption WithUpdateAgeOnGet c = c\<lparr>updateAgeOnGet := True\<rparr>"
| "applyOption (WithAge n) c = c\<lparr>maxAge := n\<rparr>"
| "applyOption (WithSize n) c = c\<lparr>maxSize := n\<rparr>"
| "applyOption (WithStale b) c = c\<lparr>staleReturn := b\<rparr>"

definition newLru :: "lru_option list \<Rightarrow> ('k, 'v) lru_cache" where
  "newLru opts =
     foldl (\<lambda>c opt. applyOption opt c)
       (lruClear \<lparr>maxAge = 0, maxSize = 0, cache = Map.empty, lru = [], freshElement = 0,
                  updateAgeOnGet = False, staleReturn = False\<rparr>) opts"

subsection \<open>Elements\<close>

text \<open>\<^verbatim>\<open>MoveToBack(le)\<close> and a write to the entry of an element.\<close>

definition moveToBack :: "nat \<Rightarrow> (nat \<times> 'e) list \<Rightarrow> (nat \<times> 'e) list" where
  "moveToBack le l = (case map_of l le of None \<Rightarrow> l | Some e \<Rightarrow> AList.delete le l @ [(le, e)])"

definition writeElement :: "nat \<Rightarrow> ('e \<Rightarrow> 'e) \<Rightarrow> (nat \<times> 'e) list \<Rightarrow> (nat \<times> 'e) list" where
  "writeElement le f l = map (\<lambda>(h, e). (h, if h = le then f e else e)) l"

text \<open>An element is removed from the list and its key from the map; its key and value are evicted.\<close>

definition deleteElement :: "nat \<Rightarrow> ('k, 'v) lru_cache \<Rightarrow> ('k \<times> 'v) list \<times> ('k, 'v) lru_cache" where
  "deleteElement le c =
     (case map_of (lru c) le of
        None \<Rightarrow> ([], c)
      | Some e \<Rightarrow> ([(ekey e, evalue e)],
                   c\<lparr>lru := AList.delete le (lru c), cache := (cache c)(ekey e := None)\<rparr>))"

function deleteExpired :: "int \<Rightarrow> ('k, 'v) lru_cache \<Rightarrow> ('k \<times> 'v) list \<times> ('k, 'v) lru_cache" where
  "deleteExpired now c =
     (case lru c of
        [] \<Rightarrow> ([], c)
      | (le, e) # _ \<Rightarrow>
          if expires e \<le> now then
            case deleteElement le c of (out, c) \<Rightarrow>
              case deleteExpired now c of (out', c) \<Rightarrow> (out @ out', c)
          else ([], c))"
  by pat_completeness auto
termination
  by (relation "measure (\<lambda>(now, c). length (lru c))")
    (auto simp: deleteElement_def less_Suc_eq_le intro: length_delete_le)

declare deleteExpired.simps [simp del]

definition maybeDeleteOldest :: "int \<Rightarrow> ('k, 'v) lru_cache \<Rightarrow> ('k \<times> 'v) list \<times> ('k, 'v) lru_cache" where
  "maybeDeleteOldest now c =
     (if \<not> staleReturn c \<and> maxAge c > 0 then deleteExpired now c else ([], c))"

subsection \<open>Reading and writing\<close>

definition lru_get :: "int \<Rightarrow> 'k \<Rightarrow> ('k, 'v) lru_cache \<Rightarrow>
    ('k, 'v) entry option \<times> ('k \<times> 'v) list \<times> ('k, 'v) lru_cache" where
  "lru_get now key c =
     (case cache c key of
        None \<Rightarrow> (None, [], c)
      | Some le \<Rightarrow>
          (case map_of (lru c) le of
             None \<Rightarrow> (None, [], c)
           | Some e \<Rightarrow>
               if \<not> staleReturn c \<and> maxAge c > 0 \<and> expires e \<le> now then
                 case deleteElement le c of (out, c) \<Rightarrow>
                   case maybeDeleteOldest now c of (out', c) \<Rightarrow> (None, out @ out', c)
               else
                 let c = c\<lparr>lru := moveToBack le (lru c)\<rparr>;
                     f = (if maxAge c > 0 \<and> updateAgeOnGet c
                          then (\<lambda>e. e\<lparr>expires := now + maxAge c\<rparr>) else id) in
                 (Some (f e), [], c\<lparr>lru := writeElement le f (lru c)\<rparr>)))"

definition setWithExpire :: "int \<Rightarrow> 'k \<Rightarrow> 'v \<Rightarrow> int \<Rightarrow> ('k, 'v) lru_cache \<Rightarrow>
    ('k \<times> 'v) list \<times> ('k, 'v) lru_cache" where
  "setWithExpire now key value exp c =
     (case (case cache c key of
              Some le \<Rightarrow>
                ([], c\<lparr>lru := writeElement le (\<lambda>e. e\<lparr>evalue := value, expires := exp\<rparr>)
                               (moveToBack le (lru c))\<rparr>)
            | None \<Rightarrow>
                let le = freshElement c;
                    c = c\<lparr>lru := lru c @ [(le, \<lparr>ekey = key, evalue = value, expires = exp\<rparr>)],
                          cache := (cache c)(key \<mapsto> le), freshElement := Suc le\<rparr> in
                if maxSize c > 0 \<and> int (length (lru c)) > maxSize c
                then deleteElement (fst (hd (lru c))) c
                else ([], c)) of
        (out, c) \<Rightarrow> (case maybeDeleteOldest now c of (out', c) \<Rightarrow> (out @ out', c)))"

definition lru_set :: "int \<Rightarrow> 'k \<Rightarrow> 'v \<Rightarrow> ('k, 'v) lru_cache \<Rightarrow> ('k \<times> 'v) list \<times> ('k, 'v) lru_cache" where
  "lru_set now key value c =
     setWithExpire now key value (if maxAge c > 0 then now + maxAge c else 0) c"

definition lruGet :: "int \<Rightarrow> 'k \<Rightarrow> ('k, 'v) lru_cache \<Rightarrow> 'v option \<times> ('k \<times> 'v) list \<times> ('k, 'v) lru_cache" where
  "lruGet now key c = (case lru_get now key c of (el, out, c) \<Rightarrow> (map_option evalue el, out, c))"

text \<open>The value and whether it was there.\<close>

definition GetOrStore :: "int \<Rightarrow> 'k \<Rightarrow> (unit \<Rightarrow> 'v) \<Rightarrow> ('k, 'v) lru_cache \<Rightarrow>
    ('v \<times> bool) \<times> ('k \<times> 'v) list \<times> ('k, 'v) lru_cache" where
  "GetOrStore now key constructor c =
     (case lru_get now key c of
        (None, out, c) \<Rightarrow>
          let value = constructor () in
          (case lru_set now key value c of (out', c) \<Rightarrow> ((value, False), out @ out', c))
      | (Some el, out, c) \<Rightarrow> ((evalue el, True), out, c))"

definition GetWithExpire :: "int \<Rightarrow> 'k \<Rightarrow> ('k, 'v) lru_cache \<Rightarrow>
    ('v \<times> int) option \<times> ('k \<times> 'v) list \<times> ('k, 'v) lru_cache" where
  "GetWithExpire now key c =
     (case lru_get now key c of (el, out, c) \<Rightarrow> (map_option (\<lambda>e. (evalue e, expires e)) el, out, c))"

definition lruExist :: "'k \<Rightarrow> ('k, 'v) lru_cache \<Rightarrow> bool" where
  "lruExist key c = (cache c key \<noteq> None)"

definition lruSet :: "int \<Rightarrow> 'k \<Rightarrow> 'v \<Rightarrow> ('k, 'v) lru_cache \<Rightarrow> ('k \<times> 'v) list \<times> ('k, 'v) lru_cache" where
  "lruSet now key value c = lru_set now key value c"

definition SetWithExpire :: "int \<Rightarrow> 'k \<Rightarrow> 'v \<Rightarrow> int \<Rightarrow> ('k, 'v) lru_cache \<Rightarrow>
    ('k \<times> 'v) list \<times> ('k, 'v) lru_cache" where
  "SetWithExpire now key value exp c = setWithExpire now key value exp c"

definition lruDelete :: "'k \<Rightarrow> ('k, 'v) lru_cache \<Rightarrow> ('k \<times> 'v) list \<times> ('k, 'v) lru_cache" where
  "lruDelete key c = (case cache c key of Some le \<Rightarrow> deleteElement le c | None \<Rightarrow> ([], c))"

text \<open>\<open>z\<close> is the zero value that the function is given for a missing key.\<close>

definition Compute :: "'v \<Rightarrow> int \<Rightarrow> 'k \<Rightarrow> ('v \<Rightarrow> bool \<Rightarrow> 'v \<times> bool) \<Rightarrow> ('k, 'v) lru_cache \<Rightarrow>
    'v option \<times> ('k \<times> 'v) list \<times> ('k, 'v) lru_cache" where
  "Compute z now key valueFn c =
     (case lru_get now key c of (el, out, c) \<Rightarrow>
        let actual = (case el of Some e \<Rightarrow> evalue e | None \<Rightarrow> z); ok = (el \<noteq> None) in
        (case valueFn actual ok of
           (newValue, True) \<Rightarrow>
             (case (if ok then lruDelete key c else ([], c)) of (out', c) \<Rightarrow> (None, out @ out', c))
         | (newValue, False) \<Rightarrow>
             (case lru_set now key newValue c of (out', c) \<Rightarrow> (Some newValue, out @ out', c))))"

end
