(* ===== verification/LruSpec.thy ===== *)
theory LruSpec
  imports Lru
begin

text \<open>
  What the cache promises: it is the list of its keys, values and expiry times in the order of their
  last use.  The map and the linked list always agree.
\<close>

definition contents :: "('k, 'v) lru_cache \<Rightarrow> ('k \<times> 'v \<times> int) list" where
  "contents c = map (\<lambda>(h, e). (ekey e, evalue e, expires e)) (lru c)"

definition lru_inv :: "('k, 'v) lru_cache \<Rightarrow> bool" where
  "lru_inv c \<longleftrightarrow>
     distinct (map fst (lru c)) \<and> distinct (map (ekey \<circ> snd) (lru c)) \<and>
     (\<forall>h \<in> fst ` set (lru c). h < freshElement c) \<and>
     cache c = map_of (map (\<lambda>(h, e). (ekey e, h)) (lru c)) \<and>
     (maxSize c > 0 \<longrightarrow> int (length (lru c)) \<le> maxSize c)"

text \<open>What no operation changes.\<close>

definition same_config :: "('k, 'v) lru_cache \<Rightarrow> ('k, 'v) lru_cache \<Rightarrow> bool" where
  "same_config c c' \<longleftrightarrow> maxAge c' = maxAge c \<and> maxSize c' = maxSize c \<and>
     updateAgeOnGet c' = updateAgeOnGet c \<and> staleReturn c' = staleReturn c"

subsection \<open>The reference cache\<close>

definition ages :: "('k, 'v) lru_cache \<Rightarrow> bool" where
  "ages c \<longleftrightarrow> \<not> staleReturn c \<and> maxAge c > 0"

definition ref_expire :: "bool \<Rightarrow> int \<Rightarrow> ('k \<times> 'v \<times> int) list \<Rightarrow> ('k \<times> 'v) list \<times> ('k \<times> 'v \<times> int) list" where
  "ref_expire aging now E =
     (let old = (\<lambda>(k, v, e). aging \<and> e \<le> now) in
      (map (\<lambda>(k, v, e). (k, v)) (takeWhile old E), dropWhile old E))"

definition touch :: "'k \<Rightarrow> 'v \<times> int \<Rightarrow> ('k \<times> 'v \<times> int) list \<Rightarrow> ('k \<times> 'v \<times> int) list" where
  "touch k x E = AList.delete k E @ [(k, x)]"

definition ref_get :: "('k, 'v) lru_cache \<Rightarrow> int \<Rightarrow> 'k \<Rightarrow> ('k \<times> 'v \<times> int) list \<Rightarrow>
    ('v \<times> int) option \<times> ('k \<times> 'v) list \<times> ('k \<times> 'v \<times> int) list" where
  "ref_get cfg now k E =
     (case map_of E k of
        None \<Rightarrow> (None, [], E)
      | Some (v, e) \<Rightarrow>
          if ages cfg \<and> e \<le> now
          then case ref_expire True now (AList.delete k E) of (out, E) \<Rightarrow> (None, (k, v) # out, E)
          else let x = (v, if maxAge cfg > 0 \<and> updateAgeOnGet cfg then now + maxAge cfg else e) in
            (Some x, [], touch k x E))"

definition ref_set :: "('k, 'v) lru_cache \<Rightarrow> int \<Rightarrow> 'k \<Rightarrow> 'v \<times> int \<Rightarrow> ('k \<times> 'v \<times> int) list \<Rightarrow>
    ('k \<times> 'v) list \<times> ('k \<times> 'v \<times> int) list" where
  "ref_set cfg now k x E =
     (let E' = touch k x E; full = map_of E k = None \<and> maxSize cfg > 0 \<and> int (length E') > maxSize cfg in
      case ref_expire (ages cfg) now (if full then tl E' else E') of
        (out, E'') \<Rightarrow> ((if full then [(fst (hd E'), fst (snd (hd E')))] else []) @ out, E''))"

definition ref_delete :: "'k \<Rightarrow> ('k \<times> 'v \<times> int) list \<Rightarrow> ('k \<times> 'v) list \<times> ('k \<times> 'v \<times> int) list" where
  "ref_delete k E = (case map_of E k of None \<Rightarrow> [] | Some (v, e) \<Rightarrow> [(k, v)], AList.delete k E)"

subsection \<open>The invariant\<close>

lemma map_of_contents:
  assumes "lru_inv c"
  shows "map_of (contents c) k =
    (case cache c k of None \<Rightarrow> None
     | Some le \<Rightarrow> map_option (\<lambda>e. (evalue e, expires e)) (map_of (lru c) le))"
proof -
  have "map_of (map (\<lambda>(h, e). (ekey e, evalue e, expires e)) l) k =
      (case map_of (map (\<lambda>(h, e). (ekey e, h)) l) k of None \<Rightarrow> None
       | Some le \<Rightarrow> map_option (\<lambda>e. (evalue e, expires e)) (map_of l le))"
    if "distinct (map fst l)" for l :: "(nat \<times> ('a, 'b) entry) list"
    using that
  proof (induction l)
    case (Cons x l)
    then show ?case
      by (cases x) (auto split: option.splits dest!: map_of_SomeD simp: image_iff, force)
  qed simp
  then show ?thesis
    using assms by (simp add: lru_inv_def contents_def)
qed

lemma cache_Some:
  assumes "lru_inv c" "cache c k = Some le"
  obtains e where "map_of (lru c) le = Some e" "ekey e = k" "(le, e) \<in> set (lru c)"
proof -
  from assms obtain e where "(le, e) \<in> set (lru c)" "ekey e = k"
    by (auto simp: lru_inv_def dest!: map_of_SomeD)
  then show thesis using that assms by (simp add: lru_inv_def)
qed

lemma cache_iff:
  assumes "lru_inv c" "cache c k = Some le" "(h, e) \<in> set (lru c)"
  shows "h = le \<longleftrightarrow> ekey e = k"
proof -
  obtain e' where e': "map_of (lru c) le = Some e'" "ekey e' = k"
    using cache_Some [OF assms(1,2)] .
  have "cache c (ekey e) = Some h"
    using assms(1,3) by (force simp: lru_inv_def o_def split_beta intro!: map_of_is_SomeI)
  moreover have "map_of (lru c) h = Some e"
    using assms(1,3) by (simp add: lru_inv_def)
  ultimately show ?thesis using assms(2) e' by auto
qed


lemma not_cached:
  assumes "lru_inv c" "cache c k = None"
  shows "k \<notin> fst ` set (contents c)" "k \<notin> (\<lambda>(h, e). ekey e) ` set (lru c)"
  using assms by (auto simp: lru_inv_def contents_def map_of_eq_None_iff image_iff)

lemma delete_filter: "AList.delete k l = filter (\<lambda>x. k \<noteq> fst x) l"
  unfolding AList.delete_eq by (rule filter_cong) auto

lemma inv_delete:
  assumes "lru_inv c" "cache c k = Some le"
  shows "lru_inv (c\<lparr>lru := AList.delete le (lru c), cache := (cache c)(k := None)\<rparr>)"
    "map (\<lambda>(h, e). (ekey e, evalue e, expires e)) (AList.delete le (lru c)) = AList.delete k (contents c)"
proof -
  have "(le \<noteq> fst x) = (k \<noteq> ekey (snd x))" if "x \<in> set (lru c)" for x
    using cache_iff [OF assms, of "fst x" "snd x"] that by auto
  then have "filter (\<lambda>x. le \<noteq> fst x) (lru c) = filter (\<lambda>x. k \<noteq> ekey (snd x)) (lru c)"
    by (rule filter_cong [OF refl])
  then have flt: "map (\<lambda>(h, e). (ekey e, x h e)) (AList.delete le (lru c)) =
      AList.delete k (map (\<lambda>(h, e). (ekey e, x h e)) (lru c))" for x :: "nat \<Rightarrow> ('a, 'b) entry \<Rightarrow> 'c"
    by (simp add: delete_filter filter_map o_def split_beta)
  show "map (\<lambda>(h, e). (ekey e, evalue e, expires e)) (AList.delete le (lru c)) = AList.delete k (contents c)"
    using flt [of "\<lambda>h e. (evalue e, expires e)"] by (simp add: contents_def)
  have "map_of (map (\<lambda>(h, e). (ekey e, h)) (AList.delete le (lru c))) = (cache c)(k := None)"
    using flt [of "\<lambda>h e. h"] assms(1) by (simp add: lru_inv_def delete_conv')
  moreover have "length (AList.delete le (lru c)) \<le> length (lru c)"
    by (rule length_delete_le)
  moreover have "distinct (map (ekey \<circ> snd) (AList.delete le (lru c)))"
    using assms(1) by (simp add: lru_inv_def AList.delete_eq distinct_map_filter)
  moreover have "distinct (map fst (AList.delete le (lru c)))"
    using assms(1) by (simp add: lru_inv_def distinct_delete)
  moreover have "set (AList.delete le (lru c)) \<subseteq> set (lru c)"
    by (simp add: delete_filter)
  ultimately show "lru_inv (c\<lparr>lru := AList.delete le (lru c), cache := (cache c)(k := None)\<rparr>)"
    using assms(1) by (auto simp: lru_inv_def)
qed

lemma deleteElement_ok:
  assumes "lru_inv c" "cache c k = Some le"
  obtains v e c' where "map_of (contents c) k = Some (v, e)" "deleteElement le c = ([(k, v)], c')"
    "lru_inv c'" "same_config c c'" "contents c' = AList.delete k (contents c)"
proof -
  obtain e where e: "map_of (lru c) le = Some e" "ekey e = k"
    using cache_Some [OF assms] .
  have "deleteElement le c =
      ([(k, evalue e)], c\<lparr>lru := AList.delete le (lru c), cache := (cache c)(k := None)\<rparr>)"
    using e by (simp add: deleteElement_def)
  moreover have "map_of (contents c) k = Some (evalue e, expires e)"
    using e assms by (simp add: map_of_contents)
  ultimately show thesis
    using that inv_delete [OF assms] by (simp add: same_config_def contents_def)
qed

lemma first_cached: "lru_inv c \<Longrightarrow> lru c = (le, e) # l \<Longrightarrow> cache c (ekey e) = Some le"
  by (simp add: lru_inv_def)

lemma delete_first: "distinct (map fst ((k, x) # E)) \<Longrightarrow> AList.delete k ((k, x) # E) = E"
  by (auto simp: AList.delete_eq image_iff intro!: filter_True)

lemma distinct_contents: "lru_inv c \<Longrightarrow> distinct (map fst (contents c))"
  by (simp add: lru_inv_def contents_def o_def split_beta)

lemma same_config_trans: "same_config a b \<Longrightarrow> same_config b c \<Longrightarrow> same_config a c"
  by (simp add: same_config_def)

lemma same_config_refl [simp]: "same_config c c"
  by (simp add: same_config_def)

lemma deleteFirst_ok:
  assumes "lru_inv c" "lru c = (le, x) # l"
  obtains k v e E c' where "contents c = (k, v, e) # E" "k = ekey x" "e = expires x"
    "deleteElement le c = ([(k, v)], c')" "lru_inv c'" "same_config c c'" "contents c' = E"
proof -
  obtain v e c' where d: "map_of (contents c) (ekey x) = Some (v, e)"
    "deleteElement le c = ([(ekey x, v)], c')" "lru_inv c'" "same_config c c'"
    "contents c' = AList.delete (ekey x) (contents c)"
    using deleteElement_ok [OF assms(1) first_cached [OF assms]] .
  define E where "E = map (\<lambda>(h, e). (ekey e, evalue e, expires e)) l"
  have c: "contents c = (ekey x, evalue x, expires x) # E"
    using assms(2) by (simp add: contents_def E_def)
  have "AList.delete (ekey x) (contents c) = E"
    using distinct_contents [OF assms(1)] unfolding c by (rule delete_first)
  moreover have "v = evalue x" using d(1) unfolding c by simp
  ultimately show thesis
    using that [OF c refl refl] d by simp
qed

lemma length_contents: "length (lru c) = length (contents c)"
  by (simp add: contents_def)

lemma deleteExpired_ok:
  assumes "lru_inv c"
  shows "\<exists>c'. deleteExpired now c = (fst (ref_expire True now (contents c)), c') \<and> lru_inv c' \<and>
    same_config c c' \<and> contents c' = snd (ref_expire True now (contents c))"
  using assms
proof (induction "length (lru c)" arbitrary: c rule: less_induct)
  case less
  show ?case
  proof (cases "lru c")
    case Nil
    then show ?thesis
      using less.prems by (simp add: deleteExpired.simps [of now c] ref_expire_def contents_def)
  next
    case (Cons y l)
    obtain le x where y: "y = (le, x)" by (cases y)
    obtain k v e E c1 where d: "contents c = (k, v, e) # E" "e = expires x"
      "deleteElement le c = ([(k, v)], c1)" "lru_inv c1" "same_config c c1" "contents c1 = E"
      using deleteFirst_ok [OF less.prems] Cons y by metis
    show ?thesis
    proof (cases "e \<le> now")
      case False
      then show ?thesis
        using less.prems d Cons y by (simp add: deleteExpired.simps [of now c] ref_expire_def)
    next
      case True
      have "length (lru c1) < length (lru c)"
        using d(1,6) length_contents [of c] length_contents [of c1] by simp
      then obtain c2 where c2: "deleteExpired now c1 = (fst (ref_expire True now E), c2)" "lru_inv c2"
        "same_config c1 c2" "contents c2 = snd (ref_expire True now E)"
        using less.hyps [OF \<open>length (lru c1) < length (lru c)\<close> d(4)] unfolding d(6) by blast
      have "deleteExpired now c = ((k, v) # fst (ref_expire True now E), c2)"
        using True d(2) unfolding deleteExpired.simps [of now c] Cons y list.case prod.case d(3) c2(1)
        by simp
      moreover have "ref_expire True now (contents c) =
          ((k, v) # fst (ref_expire True now E), snd (ref_expire True now E))"
        using True d(1) by (simp add: ref_expire_def Let_def)
      ultimately show ?thesis
        using same_config_trans [OF d(5) c2(3)] c2(2,4) by simp
    qed
  qed
qed

lemma maybeDeleteOldest_ok:
  assumes "lru_inv c"
  shows "\<exists>c'. maybeDeleteOldest now c = (fst (ref_expire (ages c) now (contents c)), c') \<and> lru_inv c' \<and>
    same_config c c' \<and> contents c' = snd (ref_expire (ages c) now (contents c))"
proof -
  have m: "maybeDeleteOldest now c = (if ages c then deleteExpired now c else ([], c))"
    by (simp add: maybeDeleteOldest_def ages_def)
  have "ref_expire False now E = ([], E)" for E :: "('a \<times> 'b \<times> int) list"
    by (cases E) (auto simp: ref_expire_def)
  then show ?thesis
    using deleteExpired_ok [OF assms, of now] assms unfolding m by (cases "ages c") simp_all
qed

text \<open>An element is moved to the back and its entry is rewritten.\<close>

lemma touch_ok:
  assumes "lru_inv c" "cache c k = Some le" "map_of (lru c) le = Some e" "ekey (f e) = k"
  shows "lru_inv (c\<lparr>lru := writeElement le f (moveToBack le (lru c))\<rparr>)"
    "contents (c\<lparr>lru := writeElement le f (moveToBack le (lru c))\<rparr>) =
      touch k (evalue (f e), expires (f e)) (contents c)"
proof -
  have le: "le \<notin> fst ` set (AList.delete le (lru c))"
    by (auto simp: AList.delete_eq)
  then have w: "writeElement le f (moveToBack le (lru c)) = AList.delete le (lru c) @ [(le, f e)]"
    using assms(3) by (auto simp: writeElement_def moveToBack_def image_iff intro!: map_idI)
  show "contents (c\<lparr>lru := writeElement le f (moveToBack le (lru c))\<rparr>) =
      touch k (evalue (f e), expires (f e)) (contents c)"
    using inv_delete(2) [OF assms(1,2)] assms(4) by (simp add: w contents_def touch_def)
  define c' where "c' = c\<lparr>lru := AList.delete le (lru c), cache := (cache c)(k := None)\<rparr>"
  have inv': "lru_inv c'" using inv_delete(1) [OF assms(1,2)] by (simp add: c'_def)
  have k: "k \<notin> (\<lambda>(h, e). ekey e) ` set (AList.delete le (lru c))"
    using not_cached(2) [OF inv', of k] by (simp add: c'_def)
  have c: "cache c = (map_of (map (\<lambda>(h, e). (ekey e, h)) (AList.delete le (lru c))))(k \<mapsto> le)"
  proof -
    have "(cache c)(k := None) = map_of (map (\<lambda>(h, e). (ekey e, h)) (AList.delete le (lru c)))"
      using inv' by (simp add: c'_def lru_inv_def)
    then show ?thesis using assms(2) by (metis fun_upd_triv fun_upd_upd)
  qed
  have "length (filter (\<lambda>x. le \<noteq> fst x) (lru c)) < length (lru c)"
    using assms(3) by (intro length_filter_less [of "(le, e)"]) (auto dest: map_of_SomeD)
  then have "int (length (AList.delete le (lru c) @ [(le, f e)])) \<le> int (length (lru c))"
    by (simp add: delete_filter)
  then have size: "maxSize c > 0 \<longrightarrow> int (length (AList.delete le (lru c) @ [(le, f e)])) \<le> maxSize c"
    using assms(1) by (auto simp: lru_inv_def)
  have "le < freshElement c"
    using assms(1,3) by (force simp: lru_inv_def dest: map_of_SomeD)
  moreover have "map_of (map (\<lambda>(h, e). (ekey e, h)) (AList.delete le (lru c)) @ [(k, le)]) = cache c"
    unfolding c using k by (auto simp: map_add_def fun_eq_iff split: option.splits dest!: map_of_SomeD)
  ultimately show "lru_inv (c\<lparr>lru := writeElement le f (moveToBack le (lru c))\<rparr>)"
    using inv' le k size assms(4) unfolding w lru_inv_def c'_def by (auto simp: o_def split_beta)
qed


subsection \<open>The operations\<close>

definition simulates :: "('k, 'v) lru_cache \<Rightarrow> ('r \<times> ('k \<times> 'v) list \<times> ('k, 'v) lru_cache) \<Rightarrow>
    ('r \<times> ('k \<times> 'v) list \<times> ('k \<times> 'v \<times> int) list) \<Rightarrow> bool" where
  "simulates c res ref =
     (case (res, ref) of ((r, out, c'), (r', out', E')) \<Rightarrow>
        r = r' \<and> out = out' \<and> lru_inv c' \<and> same_config c c' \<and> contents c' = E')"

lemma lru_get_ok:
  assumes "lru_inv c"
  shows "simulates c (case lru_get now k c of (el, out, c') \<Rightarrow> (map_option (\<lambda>e. (evalue e, expires e)) el, out, c'))
    (ref_get c now k (contents c))"
proof (cases "cache c k")
  case None
  then show ?thesis
    using assms by (simp add: simulates_def lru_get_def ref_get_def map_of_contents)
next
  case (Some le)
  obtain e where e: "map_of (lru c) le = Some e" "ekey e = k"
    using cache_Some [OF assms Some] .
  have m: "map_of (contents c) k = Some (evalue e, expires e)"
    using assms Some e by (simp add: map_of_contents)
  show ?thesis
  proof (cases "ages c \<and> expires e \<le> now")
    case True
    obtain v x c1 where d: "map_of (contents c) k = Some (v, x)" "deleteElement le c = ([(k, v)], c1)"
      "lru_inv c1" "same_config c c1" "contents c1 = AList.delete k (contents c)"
      using deleteElement_ok [OF assms Some] .
    have a: "ages c1" using True d(4) by (simp add: ages_def same_config_def)
    obtain c2 where c2: "maybeDeleteOldest now c1 = (fst (ref_expire True now (contents c1)), c2)"
      "lru_inv c2" "same_config c1 c2" "contents c2 = snd (ref_expire True now (contents c1))"
      using maybeDeleteOldest_ok [OF d(3), of now] a by auto
    have "lru_get now k c = (None, (k, v) # fst (ref_expire True now (contents c1)), c2)"
      using True Some e c2(1) d(2) by (simp add: lru_get_def ages_def)
    then show ?thesis
      using True m d c2 same_config_trans [OF d(4) c2(3)]
      by (simp add: simulates_def ref_get_def split_beta)
  next
    case False
    define f :: "('a, 'b) entry \<Rightarrow> ('a, 'b) entry" where
      "f = (if maxAge c > 0 \<and> updateAgeOnGet c then (\<lambda>e. e\<lparr>expires := now + maxAge c\<rparr>) else id)"
    have "ekey (f e) = k" using e(2) by (simp add: f_def)
    note t = touch_ok [OF assms Some e(1), of f, OF this]
    have "lru_get now k c = (Some (f e), [], c\<lparr>lru := writeElement le f (moveToBack le (lru c))\<rparr>)"
    proof -
      have n: "\<not> (\<not> staleReturn c \<and> maxAge c > 0 \<and> expires e \<le> now)"
        using False by (auto simp: ages_def)
      show ?thesis
        unfolding lru_get_def Some option.case e(1) if_not_P [OF n] by (simp add: f_def Let_def)
    qed
    moreover have "ref_get c now k (contents c) =
        (Some (evalue (f e), expires (f e)), [], touch k (evalue (f e), expires (f e)) (contents c))"
      unfolding ref_get_def m option.case prod.case if_not_P [OF False] by (simp add: f_def Let_def)
    ultimately show ?thesis
      using t by (simp add: simulates_def same_config_def)
  qed
qed

lemma deleteElement_maxSize:
  "deleteElement le (c\<lparr>maxSize := n\<rparr>) = (case deleteElement le c of (out, c) \<Rightarrow> (out, c\<lparr>maxSize := n\<rparr>))"
  by (simp add: deleteElement_def split: option.split)

text \<open>A new element, and the one that has to make room for it.\<close>

lemma insert_ok:
  fixes c :: "('k, 'v) lru_cache" and v :: 'v and x :: int
  assumes "lru_inv c" "cache c k = None"
  defines "E \<equiv> contents c @ [(k, v, x)]"
    and "c1 \<equiv> c\<lparr>lru := lru c @ [(freshElement c, \<lparr>ekey = k, evalue = v, expires = x\<rparr>)],
               cache := (cache c)(k \<mapsto> freshElement c), freshElement := Suc (freshElement c)\<rparr>"
  shows "contents c1 = E" "same_config c c1"
    "\<not> (maxSize c > 0 \<and> int (length (lru c1)) > maxSize c) \<Longrightarrow> lru_inv c1"
    "maxSize c > 0 \<Longrightarrow> int (length (lru c1)) > maxSize c \<Longrightarrow>
      \<exists>c2. deleteElement (fst (hd (lru c1))) c1 = ([(fst (hd E), fst (snd (hd E)))], c2) \<and>
        lru_inv c2 \<and> same_config c c2 \<and> contents c2 = tl E"
proof -
  show E: "contents c1 = E" and sc: "same_config c c1"
    by (simp_all add: contents_def E_def c1_def same_config_def)
  have k: "k \<notin> (\<lambda>(h, e). ekey e) ` set (lru c)" using not_cached(2) [OF assms(1,2)] .
  then have m: "map_of (map (\<lambda>(h, e). (ekey e, h)) (lru c1)) = (cache c)(k \<mapsto> freshElement c)"
    using assms(1) by (auto simp: c1_def lru_inv_def map_add_def fun_eq_iff dest!: map_of_SomeD split: option.splits)
  have "freshElement c \<notin> fst ` set (lru c)" using assms(1) by (auto simp: lru_inv_def)
  then have inv: "lru_inv (c1\<lparr>maxSize := n\<rparr>)" if "n > 0 \<longrightarrow> int (length (lru c1)) \<le> n" for n
    using assms(1) k m that by (auto simp: lru_inv_def c1_def o_def split_beta)
  show "\<not> (maxSize c > 0 \<and> int (length (lru c1)) > maxSize c) \<Longrightarrow> lru_inv c1"
    using inv [of "maxSize c"] by (auto simp: c1_def)
  assume full: "maxSize c > 0" "int (length (lru c1)) > maxSize c"
  obtain le y l where l: "lru c1 = (le, y) # l"
    by (cases "lru c1") (auto simp: c1_def)
  have i0: "lru_inv (c1\<lparr>maxSize := 0\<rparr>)" by (rule inv) simp
  have l0: "lru (c1\<lparr>maxSize := 0\<rparr>) = (le, y) # l" using l by simp
  obtain k' v' x' E' c2 where d: "contents (c1\<lparr>maxSize := 0\<rparr>) = (k', v', x') # E'"
    "deleteElement le (c1\<lparr>maxSize := 0\<rparr>) = ([(k', v')], c2)" "lru_inv c2"
    "same_config (c1\<lparr>maxSize := 0\<rparr>) c2" "contents c2 = E'"
    using deleteFirst_ok [OF i0 l0] by metis
  have E': "E = (k', v', x') # E'" using d(1) E by (simp add: contents_def)
  have "deleteElement le c1 = ([(k', v')], c2\<lparr>maxSize := maxSize c\<rparr>)"
    using d(2) deleteElement_maxSize [of le "maxSize c" "c1\<lparr>maxSize := 0\<rparr>"] by (simp add: c1_def)
  moreover have "length (contents c) = length E'"
    using arg_cong [OF E' [unfolded E_def], of length] by simp
  then have "int (length (lru c2)) \<le> maxSize c"
    using assms(1) full(1) d(5) by (simp add: lru_inv_def length_contents)
  then have "lru_inv (c2\<lparr>maxSize := maxSize c\<rparr>)"
    using d(3) by (simp add: lru_inv_def)
  moreover have "same_config c (c2\<lparr>maxSize := maxSize c\<rparr>)"
    using d(4) sc by (simp add: same_config_def)
  moreover have "contents (c2\<lparr>maxSize := maxSize c\<rparr>) = E'"
    using d(5) by (simp add: contents_def)
  ultimately show "\<exists>c2. deleteElement (fst (hd (lru c1))) c1 = ([(fst (hd E), fst (snd (hd E)))], c2) \<and>
        lru_inv c2 \<and> same_config c c2 \<and> contents c2 = tl E"
    using l E' by simp
qed

lemma setWithExpire_ok:
  assumes "lru_inv c"
  shows "simulates c ((), setWithExpire now k v x c) ((), ref_set c now k (v, x) (contents c))"
proof -
  let ?full = "map_of (contents c) k = None \<and> maxSize c > 0 \<and> int (length (touch k (v, x) (contents c))) > maxSize c"
  obtain out c1 where c1: "lru_inv c1" "same_config c c1"
    "contents c1 = (if ?full then tl (touch k (v, x) (contents c)) else touch k (v, x) (contents c))"
    "out = (if ?full then [(fst (hd (touch k (v, x) (contents c))), fst (snd (hd (touch k (v, x) (contents c)))))] else [])"
    and s: "setWithExpire now k v x c = (case maybeDeleteOldest now c1 of (out', c) \<Rightarrow> (out @ out', c))"
  proof (cases "cache c k")
    case (Some le)
    obtain e where e: "map_of (lru c) le = Some e" "ekey e = k"
      using cache_Some [OF assms Some] .
    define f where "f = (\<lambda>e :: ('a, 'b) entry. e\<lparr>evalue := v, expires := x\<rparr>)"
    have "ekey (f e) = k" using e(2) by (simp add: f_def)
    note t = touch_ok [OF assms Some e(1), of f, OF this]
    have "map_of (contents c) k \<noteq> None" using assms Some e by (simp add: map_of_contents)
    then show thesis
      using t Some by (intro that [of "c\<lparr>lru := writeElement le f (moveToBack le (lru c))\<rparr>" "[]"])
        (auto simp: setWithExpire_def f_def same_config_def)
  next
    case None
    define c1 where "c1 = c\<lparr>lru := lru c @ [(freshElement c, \<lparr>ekey = k, evalue = v, expires = x\<rparr>)],
      cache := (cache c)(k \<mapsto> freshElement c), freshElement := Suc (freshElement c)\<rparr>"
    note i = insert_ok [OF assms None, of v x, folded c1_def]
    have t: "touch k (v, x) (contents c) = contents c @ [(k, v, x)]"
      using not_cached(1) [OF assms None] by (simp add: touch_def)
    have n: "map_of (contents c) k = None" using assms None by (simp add: map_of_contents)
    have len: "length (lru c1) = length (contents c @ [(k, v, x)])"
      using i(1) length_contents [of c1] by simp
    have s1: "setWithExpire now k v x c =
        (case (if maxSize c1 > 0 \<and> int (length (lru c1)) > maxSize c1
               then deleteElement (fst (hd (lru c1))) c1 else ([], c1)) of
         (out, c) \<Rightarrow> (case maybeDeleteOldest now c of (out', c) \<Rightarrow> (out @ out', c)))"
      unfolding setWithExpire_def None option.case Let_def c1_def ..
    have mc: "maxSize c1 = maxSize c" by (simp add: c1_def)
    show thesis
    proof (cases "maxSize c > 0 \<and> int (length (lru c1)) > maxSize c")
      case True
      then obtain c2 where c2: "deleteElement (fst (hd (lru c1))) c1 =
          ([(fst (hd (contents c @ [(k, v, x)])), fst (snd (hd (contents c @ [(k, v, x)]))))], c2)"
        "lru_inv c2" "same_config c c2" "contents c2 = tl (contents c @ [(k, v, x)])"
        using i(4) by blast
      show thesis
        by (rule that [OF c2(2,3)]) (use True c2 t n len s1 mc in auto)
    next
      case False
      show thesis
        by (rule that [OF i(3) [OF False] i(2)]) (use False i(1) t n len s1 mc in auto)
    qed
  qed
  have "ages c1 = ages c" using c1(2) by (simp add: ages_def same_config_def)
  then obtain c2 where "maybeDeleteOldest now c1 = (fst (ref_expire (ages c) now (contents c1)), c2)"
    "lru_inv c2" "same_config c1 c2" "contents c2 = snd (ref_expire (ages c) now (contents c1))"
    using maybeDeleteOldest_ok [OF c1(1), of now] by auto
  then show ?thesis
    using same_config_trans [OF c1(2)] c1(3,4) s
    by (simp add: simulates_def ref_set_def Let_def split_beta del: if_split)
qed


lemma lruDelete_ok:
  assumes "lru_inv c"
  shows "simulates c ((), lruDelete k c) ((), ref_delete k (contents c))"
proof (cases "cache c k")
  case None
  then show ?thesis
    using assms not_cached(1) [OF assms None] map_of_contents [OF assms, of k]
    by (simp add: simulates_def lruDelete_def ref_delete_def)
next
  case (Some le)
  obtain v e c' where "map_of (contents c) k = Some (v, e)" "deleteElement le c = ([(k, v)], c')"
    "lru_inv c'" "same_config c c'" "contents c' = AList.delete k (contents c)"
    using deleteElement_ok [OF assms Some] .
  then show ?thesis
    using Some by (simp add: simulates_def lruDelete_def ref_delete_def)
qed

lemma lru_set_ok:
  assumes "lru_inv c"
  shows "simulates c ((), lru_set now k v c)
    ((), ref_set c now k (v, if maxAge c > 0 then now + maxAge c else 0) (contents c))"
  unfolding lru_set_def by (rule setWithExpire_ok [OF assms])

lemma lruExist_ok:
  assumes "lru_inv c"
  shows "lruExist k c \<longleftrightarrow> k \<in> fst ` set (contents c)"
proof (cases "cache c k")
  case None
  then show ?thesis using not_cached(1) [OF assms None] by (simp add: lruExist_def)
next
  case (Some le)
  obtain e where "map_of (lru c) le = Some e"
    using cache_Some [OF assms Some] by metis
  then have "map_of (contents c) k \<noteq> None"
    using Some assms by (simp add: map_of_contents)
  then show ?thesis using Some by (simp add: lruExist_def map_of_eq_None_iff)
qed

lemma clear_ok:
  assumes "lru_inv c"
  shows "lru_inv (lruClear c)" "same_config c (lruClear c)" "contents (lruClear c) = []"
  using assms by (auto simp: lru_inv_def lruClear_def same_config_def contents_def)

text \<open>Every call of the cache keeps what holds of all values, when it holds of the values that are written.\<close>

definition valuesOk :: "('v \<Rightarrow> bool) \<Rightarrow> ('k, 'v) lru_cache \<Rightarrow> bool" where
  "valuesOk P l \<longleftrightarrow> (\<forall>e\<in>snd ` set (lru l). P (evalue e))"

lemma values_delete: "valuesOk P l \<Longrightarrow> valuesOk P (snd (deleteElement le l))"
  by (auto simp: valuesOk_def deleteElement_def AList.delete_eq split: option.splits)

lemma values_deleteExpired: "valuesOk P l \<Longrightarrow> valuesOk P (snd (deleteExpired now l))"
proof (induction now l rule: deleteExpired.induct)
  case (1 now l)
  show ?case
  proof (cases "lru l")
    case (Cons x xs)
    obtain le e where x: "x = (le, e)" by (cases x)
    obtain out l' where d: "(out, l') = deleteElement le l" by (metis surj_pair)
    have "valuesOk P l'" using values_delete [OF "1.prems", of le] d [symmetric] by simp
    then show ?thesis
      using "1.IH" [OF Cons x [symmetric] _ d] "1.prems" Cons x d [symmetric] by (subst deleteExpired.simps) (auto split: prod.splits)
  qed (use "1.prems" in \<open>simp add: deleteExpired.simps\<close>)
qed

lemma values_maybeDeleteOldest: "valuesOk P l \<Longrightarrow> valuesOk P (snd (maybeDeleteOldest now l))"
  using values_deleteExpired [of P l now] by (simp add: maybeDeleteOldest_def)

lemma values_touch:
  assumes "valuesOk P l" "\<And>e. P (evalue e) \<Longrightarrow> P (evalue (f e))"
  shows "valuesOk P (l\<lparr>lru := writeElement le f (moveToBack le (lru l))\<rparr>)"
  using assms by (fastforce simp: valuesOk_def writeElement_def moveToBack_def AList.delete_eq dest: map_of_SomeD split: option.splits)

lemma values_deleteD: "deleteElement le l = (out, l') \<Longrightarrow> valuesOk P l \<Longrightarrow> valuesOk P l'"
  using values_delete [of P l le] by simp

lemma values_maybeD: "maybeDeleteOldest now l = (out, l') \<Longrightarrow> valuesOk P l \<Longrightarrow> valuesOk P l'"
  using values_maybeDeleteOldest [of P l now] by simp

lemma values_found: "valuesOk P l \<Longrightarrow> map_of (lru l) le = Some e \<Longrightarrow> P (evalue e)"
  by (force simp: valuesOk_def dest: map_of_SomeD)

lemma values_get:
  "valuesOk P l \<Longrightarrow> lru_get now k l = (el, out, l') \<Longrightarrow> valuesOk P l' \<and> (\<forall>e. el = Some e \<longrightarrow> P (evalue e))"
  by (auto simp: lru_get_def Let_def split: option.splits if_splits prod.splits
      intro!: values_touch dest: values_found values_deleteD values_maybeD)

lemma values_set:
  assumes "valuesOk P l" "P v" "lru_set now k v l = (out, l')"
  shows "valuesOk P l'"
proof -
  have touched: "valuesOk P (l\<lparr>lru := writeElement le (\<lambda>e. e\<lparr>evalue := v, expires := x\<rparr>) (moveToBack le (lru l))\<rparr>)" for le x
    by (rule values_touch) (use assms in simp_all)
  have added: "valuesOk P (l\<lparr>lru := lru l @ [(le, \<lparr>ekey = k, evalue = v, expires = x\<rparr>)], cache := c, freshElement := n\<rparr>)" for le x c n
    using assms by (auto simp: valuesOk_def)
  show ?thesis
    using assms(3) touched added
    by (auto simp: lru_set_def setWithExpire_def Let_def split: option.splits prod.splits if_splits
        dest!: values_maybeD dest: values_deleteD [OF _ added])
qed

lemma values_lruDelete: "lruDelete k l = (out, l') \<Longrightarrow> valuesOk P l \<Longrightarrow> valuesOk P l'"
  by (auto simp: lruDelete_def split: option.splits dest: values_deleteD)

text \<open>The calls a user makes, each at its own time, and what they do on the reference cache.\<close>

datatype (plugins only: code size) ('k, 'v) lru_call = CallGet 'k | CallSet 'k 'v | CallSetWithExpire 'k 'v int
  | CallDelete 'k | CallExist 'k | CallClear
  | CallGetOrStore 'k 'v | CallCompute 'k "'v \<Rightarrow> bool \<Rightarrow> 'v \<times> bool"

type_synonym ('k, 'v) lru_result = "(bool \<times> ('v \<times> int) option) \<times> ('k \<times> 'v) list"

definition ref_set_now :: "('k, 'v) lru_cache \<Rightarrow> int \<Rightarrow> 'k \<Rightarrow> 'v \<Rightarrow> ('k \<times> 'v \<times> int) list \<Rightarrow>
    ('k \<times> 'v) list \<times> ('k \<times> 'v \<times> int) list" where
  "ref_set_now cfg now k v E = ref_set cfg now k (v, if maxAge cfg > 0 then now + maxAge cfg else 0) E"

fun run_call :: "'v \<Rightarrow> int \<times> ('k, 'v) lru_call \<Rightarrow> ('k, 'v) lru_cache \<Rightarrow>
    (bool \<times> ('v \<times> int) option) \<times> ('k \<times> 'v) list \<times> ('k, 'v) lru_cache" where
  "run_call z (now, CallGet k) c = (case GetWithExpire now k c of (r, out, c) \<Rightarrow> ((r \<noteq> None, r), out, c))"
| "run_call z (now, CallSet k v) c = ((True, None), lruSet now k v c)"
| "run_call z (now, CallSetWithExpire k v e) c = ((True, None), SetWithExpire now k v e c)"
| "run_call z (now, CallDelete k) c = ((True, None), lruDelete k c)"
| "run_call z (now, CallExist k) c = ((lruExist k c, None), [], c)"
| "run_call z (now, CallClear) c = ((True, None), [], lruClear c)"
| "run_call z (now, CallGetOrStore k v) c =
     (case GetOrStore now k (\<lambda>_. v) c of ((v, b), out, c) \<Rightarrow> ((b, Some (v, 0)), out, c))"
| "run_call z (now, CallCompute k f) c =
     (case Compute z now k f c of (r, out, c) \<Rightarrow> ((r \<noteq> None, map_option (\<lambda>v. (v, 0)) r), out, c))"

fun ref_call :: "('k, 'v) lru_cache \<Rightarrow> 'v \<Rightarrow> int \<times> ('k, 'v) lru_call \<Rightarrow> ('k \<times> 'v \<times> int) list \<Rightarrow>
    (bool \<times> ('v \<times> int) option) \<times> ('k \<times> 'v) list \<times> ('k \<times> 'v \<times> int) list" where
  "ref_call cfg z (now, CallGet k) E = (case ref_get cfg now k E of (r, out, E) \<Rightarrow> ((r \<noteq> None, r), out, E))"
| "ref_call cfg z (now, CallSet k v) E = ((True, None), ref_set_now cfg now k v E)"
| "ref_call cfg z (now, CallSetWithExpire k v e) E = ((True, None), ref_set cfg now k (v, e) E)"
| "ref_call cfg z (now, CallDelete k) E = ((True, None), ref_delete k E)"
| "ref_call cfg z (now, CallExist k) E = ((k \<in> fst ` set E, None), [], E)"
| "ref_call cfg z (now, CallClear) E = ((True, None), [], [])"
| "ref_call cfg z (now, CallGetOrStore k v) E =
     (case ref_get cfg now k E of
        (Some (v, _), out, E) \<Rightarrow> ((True, Some (v, 0)), out, E)
      | (None, out, E) \<Rightarrow> (case ref_set_now cfg now k v E of (out', E) \<Rightarrow> ((False, Some (v, 0)), out @ out', E)))"
| "ref_call cfg z (now, CallCompute k f) E =
     (case ref_get cfg now k E of
        (r, out, E) \<Rightarrow>
          (case f (case r of None \<Rightarrow> z | Some (v, _) \<Rightarrow> v) (r \<noteq> None) of
             (v, True) \<Rightarrow> (case (if r \<noteq> None then ref_delete k E else ([], E)) of
                            (out', E) \<Rightarrow> ((False, None), out @ out', E))
           | (v, False) \<Rightarrow> (case ref_set_now cfg now k v E of
                            (out', E) \<Rightarrow> ((True, Some (v, 0)), out @ out', E))))"

lemma ref_config:
  assumes "same_config c c'"
  shows "ref_get c' = ref_get c" "ref_set c' = ref_set c"
proof -
  have e: "ages c' = ages c" "maxAge c' = maxAge c" "maxSize c' = maxSize c" "updateAgeOnGet c' = updateAgeOnGet c"
    using assms by (auto simp: same_config_def ages_def)
  show "ref_get c' = ref_get c" "ref_set c' = ref_set c"
    unfolding fun_eq_iff ref_get_def ref_set_def e by simp_all
qed

lemma ref_set_now_config: "same_config c c' \<Longrightarrow> ref_set_now c' = ref_set_now c"
  unfolding fun_eq_iff ref_set_now_def by (simp add: ref_config) (simp add: same_config_def)

lemma simulates_then:
  assumes "simulates c (r, out, c1) (r', out', E1)"
    and "\<And>c1'. lru_inv c1 \<Longrightarrow> same_config c c1 \<Longrightarrow> contents c1 = E1 \<Longrightarrow> simulates c1 (s, out2, c2) (s', out2', E2)"
  shows "simulates c (s, out @ out2, c2) (s', out' @ out2', E2)"
  using assms same_config_trans by (fastforce simp: simulates_def)

lemma get_cases:
  assumes "lru_inv c"
  obtains el out c1 where "lru_get now k c = (el, out, c1)" "lru_inv c1" "same_config c c1"
    "ref_get c now k (contents c) = (map_option (\<lambda>e. (evalue e, expires e)) el, out, contents c1)"
  using lru_get_ok [OF assms, of now k]
  by (cases "lru_get now k c"; cases "ref_get c now k (contents c)") (auto simp: simulates_def)

lemma set_cases:
  assumes "lru_inv c"
  obtains out c1 where "lru_set now k v c = (out, c1)" "lru_inv c1" "same_config c c1"
    "ref_set_now c now k v (contents c) = (out, contents c1)"
  using lru_set_ok [OF assms, of now k v]
  by (cases "lru_set now k v c"; cases "ref_set_now c now k v (contents c)")
    (auto simp: simulates_def ref_set_now_def)

lemma delete_cases:
  assumes "lru_inv c"
  obtains out c1 where "lruDelete k c = (out, c1)" "lru_inv c1" "same_config c c1"
    "ref_delete k (contents c) = (out, contents c1)"
  using lruDelete_ok [OF assms, of k]
  by (cases "lruDelete k c"; cases "ref_delete k (contents c)") (auto simp: simulates_def)

lemma call_ok:
  assumes "lru_inv c"
  shows "simulates c (run_call z call c) (ref_call c z call (contents c))"
proof (cases call)
  case (Pair now op)
  show ?thesis
  proof (cases op)
    case (CallGet k)
    then show ?thesis
      using Pair by (cases rule: get_cases [OF assms, of now k]) (simp add: simulates_def GetWithExpire_def)
  next
    case (CallSet k v)
    then show ?thesis
      using Pair by (cases rule: set_cases [OF assms, of now k v]) (simp add: simulates_def lruSet_def)
  next
    case (CallSetWithExpire k v e)
    then show ?thesis
      using Pair setWithExpire_ok [OF assms, of now k v e]
      by (simp add: SetWithExpire_def simulates_def split_beta)
  next
    case (CallDelete k)
    then show ?thesis
      using Pair by (cases rule: delete_cases [OF assms, of k]) (simp add: simulates_def)
  next
    case (CallExist k)
    then show ?thesis
      using Pair assms by (simp add: simulates_def lruExist_ok)
  next
    case CallClear
    then show ?thesis
      using Pair clear_ok [OF assms] by (simp add: simulates_def)
  next
    case (CallGetOrStore k v)
    obtain el out c1 where g: "lru_get now k c = (el, out, c1)" "lru_inv c1" "same_config c c1"
      "ref_get c now k (contents c) = (map_option (\<lambda>e. (evalue e, expires e)) el, out, contents c1)"
      using get_cases [OF assms] .
    obtain out2 c2 where s: "lru_set now k v c1 = (out2, c2)" "lru_inv c2" "same_config c1 c2"
      "ref_set_now c now k v (contents c1) = (out2, contents c2)"
      using set_cases [OF g(2)] ref_set_now_config [OF g(3)] by metis
    show ?thesis
      using Pair CallGetOrStore g s same_config_trans [OF g(3) s(3)]
      by (cases el) (simp_all add: simulates_def GetOrStore_def)
  next
    case (CallCompute k f)
    obtain el out c1 where g: "lru_get now k c = (el, out, c1)" "lru_inv c1" "same_config c c1"
      "ref_get c now k (contents c) = (map_option (\<lambda>e. (evalue e, expires e)) el, out, contents c1)"
      using get_cases [OF assms] .
    obtain v b where f: "f (case el of Some e \<Rightarrow> evalue e | None \<Rightarrow> z) (el \<noteq> None) = (v, b)"
      by fastforce
    then have f': "f (case map_option (\<lambda>e. (evalue e, expires e)) el of None \<Rightarrow> z | Some (v, _) \<Rightarrow> v)
        (map_option (\<lambda>e. (evalue e, expires e)) el \<noteq> None) = (v, b)"
      by (cases el) simp_all
    obtain out2 c2 where s: "lru_set now k v c1 = (out2, c2)" "lru_inv c2" "same_config c1 c2"
      "ref_set_now c now k v (contents c1) = (out2, contents c2)"
      using set_cases [OF g(2)] ref_set_now_config [OF g(3)] by metis
    obtain out3 c3 where d: "lruDelete k c1 = (out3, c3)" "lru_inv c3" "same_config c1 c3"
      "ref_delete k (contents c1) = (out3, contents c3)"
      using delete_cases [OF g(2)] .
    have r: "run_call z call c =
        (if b then if el \<noteq> None then ((False, None), out @ out3, c3) else ((False, None), out, c1)
         else ((True, Some (v, 0)), out @ out2, c2))"
      using Pair CallCompute g(1) f s(1) d(1) by (simp add: Compute_def Let_def)
    have a: "ref_call c z call (contents c) =
        (if b then if el \<noteq> None then ((False, None), out @ out3, contents c3) else ((False, None), out, contents c1)
         else ((True, Some (v, 0)), out @ out2, contents c2))"
      unfolding Pair CallCompute ref_call.simps g(4) prod.case f' using s(4) d(4) by simp
    show ?thesis
      unfolding r a using g(2,3) s(2) d(2) same_config_trans [OF g(3) s(3)] same_config_trans [OF g(3) d(3)]
      by (simp add: simulates_def)
  qed
qed


fun run_calls :: "'v \<Rightarrow> (int \<times> ('k, 'v) lru_call) list \<Rightarrow> ('k, 'v) lru_cache \<Rightarrow>
    ('k, 'v) lru_result list \<times> ('k, 'v) lru_cache" where
  "run_calls z [] c = ([], c)"
| "run_calls z (call # calls) c =
     (case run_call z call c of (r, out, c) \<Rightarrow>
        case run_calls z calls c of (rs, c) \<Rightarrow> ((r, out) # rs, c))"

fun ref_calls :: "('k, 'v) lru_cache \<Rightarrow> 'v \<Rightarrow> (int \<times> ('k, 'v) lru_call) list \<Rightarrow> ('k \<times> 'v \<times> int) list \<Rightarrow>
    ('k, 'v) lru_result list \<times> ('k \<times> 'v \<times> int) list" where
  "ref_calls cfg z [] E = ([], E)"
| "ref_calls cfg z (call # calls) E =
     (case ref_call cfg z call E of (r, out, E) \<Rightarrow>
        case ref_calls cfg z calls E of (rs, E) \<Rightarrow> ((r, out) # rs, E))"

lemma ref_call_config:
  assumes "same_config c c'"
  shows "ref_call c' z call E = ref_call c z call E"
proof (cases call)
  case (Pair now op)
  show ?thesis
    unfolding Pair
    by (cases op; simp only: ref_call.simps;
        unfold ref_config [OF assms] ref_set_now_config [OF assms]; rule refl)
qed

lemma ref_calls_config:
  assumes "same_config c c'"
  shows "ref_calls c' z calls E = ref_calls c z calls E"
  by (induction calls arbitrary: E) (simp_all add: ref_call_config [OF assms])

lemma calls_ok:
  assumes "lru_inv c"
  shows "\<exists>c'. run_calls z calls c = (fst (ref_calls c z calls (contents c)), c') \<and> lru_inv c' \<and>
    same_config c c' \<and> contents c' = snd (ref_calls c z calls (contents c))"
  using assms
proof (induction calls arbitrary: c)
  case (Cons call calls)
  obtain r out c1 where c1: "run_call z call c = (r, out, c1)" "lru_inv c1" "same_config c c1"
    "ref_call c z call (contents c) = (r, out, contents c1)"
    using call_ok [OF Cons.prems, of z call]
    by (cases "run_call z call c"; cases "ref_call c z call (contents c)") (auto simp: simulates_def)
  obtain c2 where "run_calls z calls c1 = (fst (ref_calls c1 z calls (contents c1)), c2)" "lru_inv c2"
    "same_config c1 c2" "contents c2 = snd (ref_calls c1 z calls (contents c1))"
    using Cons.IH [OF c1(2)] by blast
  then show ?case
    using c1 same_config_trans [OF c1(3)]
    by (simp add: ref_calls_config [OF c1(3)] split_beta)
qed simp

lemma newLru_ok:
  "lru_inv (newLru opts :: ('a, 'b) lru_cache)" "contents (newLru opts :: ('a, 'b) lru_cache) = []"
proof -
  have "lru_inv (foldl (\<lambda>c opt. applyOption opt c) c opts) \<and> lru (foldl (\<lambda>c opt. applyOption opt c) c opts) = []"
    if "lru_inv c" "lru c = []" for c :: "('a, 'b) lru_cache"
    using that
  proof (induction opts arbitrary: c)
    case (Cons opt opts)
    have "lru_inv (applyOption opt c) \<and> lru (applyOption opt c) = []"
      using Cons.prems by (cases opt) (auto simp: lru_inv_def)
    then show ?case using Cons.IH by simp
  qed simp
  note fold_ok = this
  define c0 :: "('a, 'b) lru_cache" where
    "c0 = lruClear \<lparr>maxAge = 0, maxSize = 0, cache = Map.empty, lru = [], freshElement = 0,
                   updateAgeOnGet = False, staleReturn = False\<rparr>"
  have "lru_inv c0" "lru c0 = []" by (simp_all add: c0_def lruClear_def lru_inv_def)
  then have "lru_inv (newLru opts :: ('a, 'b) lru_cache) \<and> lru (newLru opts :: ('a, 'b) lru_cache) = []"
    unfolding newLru_def c0_def [symmetric] by (rule fold_ok)
  then show "lru_inv (newLru opts :: ('a, 'b) lru_cache)" "contents (newLru opts :: ('a, 'b) lru_cache) = []"
    by (simp_all add: contents_def)
qed

text \<open>
  C7.  Whatever calls are made on a fresh cache, at whatever times, their results and what they evict
  are those of the reference cache, which is a list of the keys in the order of their last use; and
  the map and the linked list of the cache agree afterwards.
\<close>

theorem lru_refines_reference:
  "case run_calls z calls (newLru opts) of (rs, c) \<Rightarrow>
     (rs, contents c) = ref_calls (newLru opts) z calls [] \<and> lru_inv c"
  using calls_ok [OF newLru_ok(1), of z calls opts] by (auto simp: newLru_ok(2) split: prod.splits)

end
