(* ===== verification/FakeIp.thy ===== *)
theory FakeIp
  imports LruSpec "HOL-Library.Word"
begin

text \<open>
  The fake-IP pool of \<^verbatim>\<open>mihomo/component/fakeip\<close> (\<^verbatim>\<open>pool.go\<close>, \<^verbatim>\<open>memory.go\<close>): every host name that is
  looked up is given an address of a network, in rotation, and the address is looked back to the name.
  The pool works on any store; the one in memory is a pair of LRU caches.  \<^verbatim>\<open>strings.ToLower\<close> is the
  argument \<open>lower\<close>, and \<^verbatim>\<open>netipx.PrefixLastIP\<close> the argument \<open>lastIP\<close>.
\<close>

unbundle bit_operations_syntax

subsection \<open>Addresses\<close>

text \<open>\<^verbatim>\<open>netip.Addr\<close> without zones; \<open>NoAddr\<close> is the invalid address.\<close>

datatype (plugins only: code size) addr = NoAddr | Addr4 "32 word" | Addr6 "128 word"

fun addrNext :: "addr \<Rightarrow> addr" where
  "addrNext NoAddr = NoAddr"
| "addrNext (Addr4 a) = (if a + 1 = 0 then NoAddr else Addr4 (a + 1))"
| "addrNext (Addr6 a) = (if a + 1 = 0 then NoAddr else Addr6 (a + 1))"

fun addrPrev :: "addr \<Rightarrow> addr" where
  "addrPrev NoAddr = NoAddr"
| "addrPrev (Addr4 a) = (if a = 0 then NoAddr else Addr4 (a - 1))"
| "addrPrev (Addr6 a) = (if a = 0 then NoAddr else Addr6 (a - 1))"

fun bitLen :: "addr \<Rightarrow> nat" where
  "bitLen NoAddr = 0"
| "bitLen (Addr4 a) = 32"
| "bitLen (Addr6 a) = 128"

fun addrVal :: "addr \<Rightarrow> nat" where
  "addrVal NoAddr = 0"
| "addrVal (Addr4 a) = unat a"
| "addrVal (Addr6 a) = unat a"

definition addrLess :: "addr \<Rightarrow> addr \<Rightarrow> bool" where
  "addrLess a b = (bitLen a < bitLen b \<or> bitLen a = bitLen b \<and> addrVal a < addrVal b)"

definition addrValid :: "addr \<Rightarrow> bool" where
  "addrValid a = (a \<noteq> NoAddr)"

text \<open>A prefix is an address and a number of bits.\<close>

type_synonym prefix = "addr \<times> nat"

definition prefixValid :: "prefix \<Rightarrow> bool" where
  "prefixValid p = (addrValid (fst p) \<and> snd p \<le> bitLen (fst p))"

fun maskBits :: "nat \<Rightarrow> addr \<Rightarrow> addr" where
  "maskBits n NoAddr = NoAddr"
| "maskBits n (Addr4 a) = Addr4 (a AND NOT (mask (32 - n)))"
| "maskBits n (Addr6 a) = Addr6 (a AND NOT (mask (128 - n)))"

definition maskedAddr :: "prefix \<Rightarrow> addr" where
  "maskedAddr p = (if prefixValid p then maskBits (snd p) (fst p) else NoAddr)"

definition prefixContains :: "prefix \<Rightarrow> addr \<Rightarrow> bool" where
  "prefixContains p a = (prefixValid p \<and> bitLen a = bitLen (fst p) \<and> maskBits (snd p) a = maskedAddr p)"

subsection \<open>Stores\<close>

text \<open>The interface \<^verbatim>\<open>store\<close>; \<open>persistent\<close> tells whether it is a \<^verbatim>\<open>cachefileStore\<close>.\<close>

record 's store_ops =
  GetByHost :: "string \<Rightarrow> 's \<Rightarrow> addr option \<times> 's"
  PutByHost :: "string \<Rightarrow> addr \<Rightarrow> 's \<Rightarrow> 's"
  GetByIP :: "addr \<Rightarrow> 's \<Rightarrow> string option \<times> 's"
  PutByIP :: "addr \<Rightarrow> string \<Rightarrow> 's \<Rightarrow> 's"
  DelByIP :: "addr \<Rightarrow> 's \<Rightarrow> 's"
  storeExist :: "addr \<Rightarrow> 's \<Rightarrow> bool"
  storeFlush :: "'s \<Rightarrow> string option \<times> 's"
  persistent :: bool

record memory_store =
  cacheIP :: "(string, addr) lru_cache"
  cacheHost :: "(addr, string) lru_cache"

definition newMemoryStore :: "int \<Rightarrow> memory_store" where
  "newMemoryStore n = \<lparr>cacheIP = newLru [WithSize n], cacheHost = newLru [WithSize n]\<rparr>"

text \<open>No age is set on these caches, so that the time of a call does not matter; it is 0 here.\<close>

definition memGetByHost :: "string \<Rightarrow> memory_store \<Rightarrow> addr option \<times> memory_store" where
  "memGetByHost host m =
     (case lruGet 0 host (cacheIP m) of
        (Some ip, _, c) \<Rightarrow>
          (case lruGet 0 ip (cacheHost m) of (_, _, d) \<Rightarrow> (Some ip, m\<lparr>cacheIP := c, cacheHost := d\<rparr>))
      | (None, _, c) \<Rightarrow> (None, m\<lparr>cacheIP := c\<rparr>))"

definition memPutByHost :: "string \<Rightarrow> addr \<Rightarrow> memory_store \<Rightarrow> memory_store" where
  "memPutByHost host ip m = m\<lparr>cacheIP := snd (lruSet 0 host ip (cacheIP m))\<rparr>"

definition memGetByIP :: "addr \<Rightarrow> memory_store \<Rightarrow> string option \<times> memory_store" where
  "memGetByIP ip m =
     (case lruGet 0 ip (cacheHost m) of
        (Some host, _, d) \<Rightarrow>
          (case lruGet 0 host (cacheIP m) of (_, _, c) \<Rightarrow> (Some host, m\<lparr>cacheIP := c, cacheHost := d\<rparr>))
      | (None, _, d) \<Rightarrow> (None, m\<lparr>cacheHost := d\<rparr>))"

definition memPutByIP :: "addr \<Rightarrow> string \<Rightarrow> memory_store \<Rightarrow> memory_store" where
  "memPutByIP ip host m = m\<lparr>cacheHost := snd (lruSet 0 ip host (cacheHost m))\<rparr>"

definition memDelByIP :: "addr \<Rightarrow> memory_store \<Rightarrow> memory_store" where
  "memDelByIP ip m =
     (let m = (case lruGet 0 ip (cacheHost m) of
                 (Some host, _, d) \<Rightarrow> m\<lparr>cacheHost := d, cacheIP := snd (lruDelete host (cacheIP m))\<rparr>
               | (None, _, d) \<Rightarrow> m\<lparr>cacheHost := d\<rparr>) in
      m\<lparr>cacheHost := snd (lruDelete ip (cacheHost m))\<rparr>)"

definition memExist :: "addr \<Rightarrow> memory_store \<Rightarrow> bool" where
  "memExist ip m = lruExist ip (cacheHost m)"

definition memFlush :: "memory_store \<Rightarrow> string option \<times> memory_store" where
  "memFlush m = (None, m\<lparr>cacheIP := lruClear (cacheIP m), cacheHost := lruClear (cacheHost m)\<rparr>)"

definition memory_ops :: "memory_store store_ops" where
  "memory_ops = \<lparr>GetByHost = memGetByHost, PutByHost = memPutByHost, GetByIP = memGetByIP,
     PutByIP = memPutByIP, DelByIP = memDelByIP, storeExist = memExist, storeFlush = memFlush,
     persistent = False\<rparr>"

subsection \<open>The pool\<close>

definition offsetKey :: string where "offsetKey = ''key-offset-fake-ip''"
definition cycleKey :: string where "cycleKey = ''key-cycle-fake-ip''"

record 's pool =
  gateway :: addr
  firstIP :: addr
  lastIP :: addr
  offset :: addr
  cycle :: bool
  ipnet :: prefix
  pstore :: 's

definition poolGet :: "'s store_ops \<Rightarrow> string \<Rightarrow> 's pool \<Rightarrow> addr \<times> 's pool" where
  "poolGet ops host p =
     (let p = p\<lparr>offset := addrNext (offset p)\<rparr>;
          p = (if \<not> addrLess (offset p) (lastIP p) then p\<lparr>cycle := True, offset := firstIP p\<rparr> else p);
          p = (if cycle p \<or> storeExist ops (offset p) (pstore p)
               then p\<lparr>pstore := DelByIP ops (offset p) (pstore p)\<rparr> else p);
          p = p\<lparr>pstore := PutByIP ops (offset p) host (pstore p)\<rparr> in
      (offset p, p))"

definition poolLookup :: "(string \<Rightarrow> string) \<Rightarrow> 's store_ops \<Rightarrow> string \<Rightarrow> 's pool \<Rightarrow> addr \<times> 's pool" where
  "poolLookup lower ops host p =
     (let host = lower host in
      case GetByHost ops host (pstore p) of
        (Some ip, s) \<Rightarrow> (ip, p\<lparr>pstore := s\<rparr>)
      | (None, s) \<Rightarrow>
          (case poolGet ops host (p\<lparr>pstore := s\<rparr>) of
             (ip, p) \<Rightarrow> (ip, p\<lparr>pstore := PutByHost ops host ip (pstore p)\<rparr>)))"

definition poolLookBack :: "'s store_ops \<Rightarrow> addr \<Rightarrow> 's pool \<Rightarrow> string option \<times> 's pool" where
  "poolLookBack ops ip p = (case GetByIP ops ip (pstore p) of (h, s) \<Rightarrow> (h, p\<lparr>pstore := s\<rparr>))"

definition poolExist :: "'s store_ops \<Rightarrow> addr \<Rightarrow> 's pool \<Rightarrow> bool" where
  "poolExist ops ip p = storeExist ops ip (pstore p)"

definition FlushFakeIP :: "'s store_ops \<Rightarrow> 's pool \<Rightarrow> string option \<times> 's pool" where
  "FlushFakeIP ops p =
     (case storeFlush ops (pstore p) of
        (err, s) \<Rightarrow>
          (err, if err = None then p\<lparr>pstore := s, cycle := False, offset := addrPrev (firstIP p)\<rparr>
                else p\<lparr>pstore := s\<rparr>))"

definition StoreState :: "'s store_ops \<Rightarrow> 's pool \<Rightarrow> 's pool" where
  "StoreState ops p =
     (if persistent ops then
        let s = PutByHost ops offsetKey (offset p) (pstore p);
            s = (if cycle p then PutByHost ops cycleKey (offset p) s else s) in
        p\<lparr>pstore := s\<rparr>
      else p)"

definition restoreState :: "'s store_ops \<Rightarrow> 's pool \<Rightarrow> 's pool" where
  "restoreState ops p =
     (if persistent ops then
        case GetByHost ops cycleKey (pstore p) of
          (c, s) \<Rightarrow>
            let p = p\<lparr>pstore := s, cycle := (cycle p \<or> c \<noteq> None)\<rparr> in
            (case GetByHost ops offsetKey (pstore p) of
               (Some off, s) \<Rightarrow>
                 let p = p\<lparr>pstore := s\<rparr> in
                 if prefixContains (ipnet p) off then p\<lparr>offset := off\<rparr> else snd (FlushFakeIP ops p)
             | (None, s) \<Rightarrow>
                 let p = p\<lparr>pstore := s\<rparr> in
                 if storeExist ops (firstIP p) (pstore p) then snd (FlushFakeIP ops p) else p)
      else p)"

text \<open>\<open>s\<close> is the store that the options select.\<close>

definition newPool :: "(prefix \<Rightarrow> addr) \<Rightarrow> 's store_ops \<Rightarrow> prefix \<Rightarrow> 's \<Rightarrow> string + 's pool" where
  "newPool prefixLastIP ops net s =
     (let hostAddr = maskedAddr net;
          gw = addrNext hostAddr;
          first = addrNext (addrNext (addrNext gw));
          last = prefixLastIP net in
      if \<not> prefixValid net \<or> \<not> addrValid first \<or> \<not> addrLess first last
      then Inl ''ipnet don't have valid ip''
      else Inr (restoreState ops
        \<lparr>gateway = gw, firstIP = first, lastIP = last, offset = addrPrev first, cycle = False,
         ipnet = net, pstore = s\<rparr>))"

end
