(* ===== verification/FakeIpSpec.thy ===== *)
theory FakeIpSpec
  imports FakeIp
begin

text \<open>
  What the fake-IP pool promises.  The contract of a store is a locale: two maps, from hosts to
  addresses and back, that are inverse to each other between the calls of the pool.  The store in
  memory keeps the contract, although its two caches evict on their own: they evict in step.
\<close>

subsection \<open>Calls and ranges\<close>

datatype (plugins only: code size) pool_call = LookupHost string | LookBackIP addr | FlushAll

fun pool_call_step :: "(string \<Rightarrow> string) \<Rightarrow> 's store_ops \<Rightarrow> pool_call \<Rightarrow> 's pool \<Rightarrow> 's pool" where
  "pool_call_step lower ops (LookupHost h) p = snd (poolLookup lower ops h p)"
| "pool_call_step lower ops (LookBackIP a) p = snd (poolLookBack ops a p)"
| "pool_call_step lower ops FlushAll p = snd (FlushFakeIP ops p)"

fun pool_calls :: "(string \<Rightarrow> string) \<Rightarrow> 's store_ops \<Rightarrow> pool_call list \<Rightarrow> 's pool \<Rightarrow> 's pool" where
  "pool_calls lower ops [] p = p"
| "pool_calls lower ops (c # cs) p = pool_calls lower ops cs (pool_call_step lower ops c p)"

text \<open>Addresses that a pool hands out: from the first to the one before the last.\<close>

definition in_pool :: "'s pool \<Rightarrow> addr \<Rightarrow> bool" where
  "in_pool p a \<longleftrightarrow> bitLen a = bitLen (firstIP p) \<and> addrVal (firstIP p) \<le> addrVal a \<and> addrVal a < addrVal (lastIP p)"

text \<open>The rotation: the offset is one of these addresses or the one before the first.\<close>

definition rotation_ok :: "'s pool \<Rightarrow> bool" where
  "rotation_ok p \<longleftrightarrow> firstIP p \<noteq> NoAddr \<and> bitLen (lastIP p) = bitLen (firstIP p) \<and>
     0 < addrVal (firstIP p) \<and> addrVal (firstIP p) < addrVal (lastIP p) \<and>
     bitLen (offset p) = bitLen (firstIP p) \<and> addrVal (firstIP p) \<le> Suc (addrVal (offset p)) \<and>
     addrVal (offset p) < addrVal (lastIP p)"

lemma addr_bounds: "addrVal (Addr4 a) < 2 ^ 32" "addrVal (Addr6 b) < 2 ^ 128"
  using unsigned_less [of a, where 'a = nat] unsigned_less [of b, where 'a = nat] by simp_all

lemma addrNext_val:
  assumes "addrVal a < addrVal b" "bitLen a = bitLen b"
  shows "bitLen (addrNext a) = bitLen a" "addrVal (addrNext a) = Suc (addrVal a)"
proof -
  have "bitLen (addrNext a) = bitLen a \<and> addrVal (addrNext a) = Suc (addrVal a)"
  proof (cases a)
    case (Addr4 x)
    then obtain y where "b = Addr4 y" using assms(2) by (cases b) auto
    then have "unat x + 1 < 2 ^ 32" using assms(1) Addr4 addr_bounds(1) [of y] by simp
    then have "unat (x + 1) = unat x + 1" "x + 1 \<noteq> 0"
      using unat_add_lem [of x 1] by (auto dest: arg_cong [where f = unat])
    then show ?thesis using Addr4 by simp
  next
    case (Addr6 x)
    then obtain y where "b = Addr6 y" using assms(2) by (cases b) auto
    then have "unat x + 1 < 2 ^ 128" using assms(1) Addr6 addr_bounds(2) [of y] by simp
    then have "unat (x + 1) = unat x + 1" "x + 1 \<noteq> 0"
      using unat_add_lem [of x 1] by (auto dest: arg_cong [where f = unat])
    then show ?thesis using Addr6 by simp
  next
    case NoAddr
    then show ?thesis using assms by (cases b) auto
  qed
  then show "bitLen (addrNext a) = bitLen a" "addrVal (addrNext a) = Suc (addrVal a)" by auto
qed

lemma addrPrev_val:
  assumes "0 < addrVal a"
  shows "bitLen (addrPrev a) = bitLen a" "Suc (addrVal (addrPrev a)) = addrVal a"
proof -
  have "Suc (unat (x - 1)) = unat x" if "x \<noteq> 0" for x :: "'n :: len word"
    using that by (metis Suc_pred' unat_gt_0 unat_minus_one)
  then show "bitLen (addrPrev a) = bitLen a" "Suc (addrVal (addrPrev a)) = addrVal a"
    using assms by (cases a; auto)+
qed

text \<open>The next offset is in the pool.\<close>

definition advance :: "'s pool \<Rightarrow> 's pool" where
  "advance p = (let p = p\<lparr>offset := addrNext (offset p)\<rparr> in
     if \<not> addrLess (offset p) (lastIP p) then p\<lparr>cycle := True, offset := firstIP p\<rparr> else p)"

lemma advance_ok:
  assumes "rotation_ok p"
  shows "rotation_ok (advance p)" "in_pool p (offset (advance p))"
    "firstIP (advance p) = firstIP p" "lastIP (advance p) = lastIP p" "pstore (advance p) = pstore p"
proof -
  have "bitLen (addrNext (offset p)) = bitLen (firstIP p)"
    "addrVal (addrNext (offset p)) = Suc (addrVal (offset p))"
    using assms addrNext_val [of "offset p" "lastIP p"] by (simp_all add: rotation_ok_def)
  then show "rotation_ok (advance p)" "in_pool p (offset (advance p))"
    using assms by (auto simp: advance_def Let_def rotation_ok_def in_pool_def addrLess_def)
qed (simp_all add: advance_def Let_def)

lemma poolGet_advance:
  "poolGet ops host p =
     (let p = advance p;
          p = (if cycle p \<or> storeExist ops (offset p) (pstore p)
               then p\<lparr>pstore := DelByIP ops (offset p) (pstore p)\<rparr> else p);
          p = p\<lparr>pstore := PutByIP ops (offset p) host (pstore p)\<rparr> in
      (offset p, p))"
  unfolding poolGet_def advance_def Let_def ..

text \<open>The addresses of a sequence of lookups.\<close>

fun lookups :: "(string \<Rightarrow> string) \<Rightarrow> 's store_ops \<Rightarrow> string list \<Rightarrow> 's pool \<Rightarrow> addr list" where
  "lookups lower ops [] p = []"
| "lookups lower ops (h # hs) p = (case poolLookup lower ops h p of (a, p) \<Rightarrow> a # lookups lower ops hs p)"

subsection \<open>The contract of a store\<close>

locale fake_store =
  fixes ops :: "'s store_ops"
    and sinv :: "'s \<Rightarrow> bool"
    and by_host :: "'s \<Rightarrow> string \<rightharpoonup> addr"
    and by_ip :: "'s \<Rightarrow> addr \<rightharpoonup> string"
  assumes inverse: "sinv s \<Longrightarrow> by_host s h = Some a \<longleftrightarrow> by_ip s a = Some h"
    and get_host: "sinv s \<Longrightarrow> GetByHost ops h s = (r, s') \<Longrightarrow>
      r = by_host s h \<and> sinv s' \<and> by_host s' = by_host s \<and> by_ip s' = by_ip s"
    and get_ip: "sinv s \<Longrightarrow> GetByIP ops a s = (x, s') \<Longrightarrow>
      x = by_ip s a \<and> sinv s' \<and> by_host s' = by_host s \<and> by_ip s' = by_ip s"
    and exist: "sinv s \<Longrightarrow> storeExist ops a s \<longleftrightarrow> by_ip s a \<noteq> None"
    and del_ip: "sinv s \<Longrightarrow> sinv (DelByIP ops a s) \<and>
      by_ip (DelByIP ops a s) = (by_ip s)(a := None) \<and>
      by_host (DelByIP ops a s) = (\<lambda>h. if by_host s h = Some a then None else by_host s h)"
    and put_both: "sinv s \<Longrightarrow> by_host s h = None \<Longrightarrow> by_ip s a = None \<Longrightarrow>
      s' = PutByHost ops h a (PutByIP ops a h s) \<Longrightarrow>
      sinv s' \<and> by_host s' h = Some a \<and> by_ip s' \<subseteq>\<^sub>m (by_ip s)(a \<mapsto> h)"
    and flush: "sinv s \<Longrightarrow> storeFlush ops s = (e, s') \<Longrightarrow>
      sinv s' \<and> (e = None \<longrightarrow> by_ip s' = Map.empty) \<and> (e \<noteq> None \<longrightarrow> by_ip s' = by_ip s)"
    and in_memory: "\<not> persistent ops"
begin

definition pool_inv :: "'s pool \<Rightarrow> bool" where
  "pool_inv p \<longleftrightarrow> rotation_ok p \<and> sinv (pstore p) \<and>
     (\<forall>a \<in> dom (by_ip (pstore p)). in_pool p a)"

lemma poolGet_ok:
  assumes "pool_inv p" "by_host (pstore p) h = None"
    and get: "poolGet ops h p = (a, p')"
    and p1: "p1 = p'\<lparr>pstore := PutByHost ops h a (pstore p')\<rparr>"
  shows "pool_inv p1" "in_pool p a" "by_host (pstore p1) h = Some a"
    "firstIP p1 = firstIP p" "lastIP p1 = lastIP p"
    "a = offset (advance p)" "offset p1 = offset (advance p)" "cycle p1 = cycle (advance p)"
    "by_ip (pstore p1) \<subseteq>\<^sub>m (by_ip (pstore p))(a \<mapsto> h)"
proof -
  have rot: "rotation_ok p" and inv: "sinv (pstore p)"
    and dom: "\<forall>a \<in> dom (by_ip (pstore p)). in_pool p a"
    using assms(1) by (auto simp: pool_inv_def)
  note adv = advance_ok [OF rot]
  let ?a = "offset (advance p)"
  define s where "s = (if cycle (advance p) \<or> storeExist ops ?a (pstore p) then DelByIP ops ?a (pstore p) else pstore p)"
  have s: "sinv s" "by_ip s ?a = None" "by_ip s \<subseteq>\<^sub>m by_ip (pstore p)" "by_host s h = None"
    using del_ip [OF inv, of ?a] exist [OF inv, of ?a] inv assms(2)
    by (auto simp: s_def map_le_def)
  have g: "a = ?a" "p' = advance p\<lparr>pstore := PutByIP ops ?a h s\<rparr>"
    using get adv(5) by (auto simp: poolGet_advance s_def Let_def)
  then have st: "pstore p1 = PutByHost ops h ?a (PutByIP ops ?a h s)"
    using p1 by simp
  have put: "sinv (pstore p1)" "by_host (pstore p1) h = Some ?a" "by_ip (pstore p1) \<subseteq>\<^sub>m (by_ip s)(?a \<mapsto> h)"
    using put_both [OF s(1,4,2) st] by auto
  show "in_pool p a" using adv(2) g(1) by simp
  show "by_host (pstore p1) h = Some a" using put(2) g(1) by simp
  show "a = offset (advance p)" "offset p1 = offset (advance p)" "cycle p1 = cycle (advance p)"
    using p1 g by simp_all
  show "by_ip (pstore p1) \<subseteq>\<^sub>m (by_ip (pstore p))(a \<mapsto> h)"
    using put(3) s(3) g(1) by (fastforce simp: map_le_def dom_def split: if_splits)
  show f: "firstIP p1 = firstIP p" and l: "lastIP p1 = lastIP p"
    using p1 g adv(3,4) by simp_all
  have "rotation_ok p1"
    using adv(1) p1 g by (simp add: rotation_ok_def)
  moreover have "in_pool p1 b" if "b \<in> dom (by_ip (pstore p1))" for b
  proof -
    have "dom (by_ip (pstore p1)) \<subseteq> insert ?a (dom (by_ip (pstore p)))"
      using map_le_implies_dom_le [OF put(3)] map_le_implies_dom_le [OF s(3)] by auto
    then have "in_pool p b" using that dom adv(2) by auto
    then show ?thesis using f l by (simp add: in_pool_def)
  qed
  ultimately show "pool_inv p1" using put(1) by (simp add: pool_inv_def)
qed

lemma poolLookup_ok:
  assumes "pool_inv p" "poolLookup lower ops h p = (a, p')"
  shows "pool_inv p'" "in_pool p' a" "by_host (pstore p') (lower h) = Some a"
    "firstIP p' = firstIP p" "lastIP p' = lastIP p"
proof -
  have inv: "sinv (pstore p)" using assms(1) by (simp add: pool_inv_def)
  obtain r s where g: "GetByHost ops (lower h) (pstore p) = (r, s)" by fastforce
  note gh = get_host [OF inv g]
  have inv': "pool_inv (p\<lparr>pstore := s\<rparr>)"
    using assms(1) gh by (simp add: pool_inv_def rotation_ok_def in_pool_def)
  have "pool_inv p' \<and> in_pool p' a \<and> by_host (pstore p') (lower h) = Some a \<and>
      firstIP p' = firstIP p \<and> lastIP p' = lastIP p"
  proof (cases r)
    case (Some ip)
    then have "a = ip" "p' = p\<lparr>pstore := s\<rparr>"
      using assms(2) g by (auto simp: poolLookup_def Let_def)
    moreover have "by_ip s ip = Some (lower h)"
      using gh Some inverse [of s "lower h" ip] by auto
    then have "in_pool (p\<lparr>pstore := s\<rparr>) ip"
      using inv' by (auto simp: pool_inv_def)
    ultimately show ?thesis using inv' gh Some by simp
  next
    case None
    obtain ip q where q: "poolGet ops (lower h) (p\<lparr>pstore := s\<rparr>) = (ip, q)" by fastforce
    then have r: "a = ip" "p' = q\<lparr>pstore := PutByHost ops (lower h) ip (pstore q)\<rparr>"
      using assms(2) g None by (auto simp: poolLookup_def Let_def)
    have "by_host (pstore (p\<lparr>pstore := s\<rparr>)) (lower h) = None" using gh None by simp
    note ok = poolGet_ok [OF inv' this q r(2)]
    show ?thesis using ok r(1) by (simp add: in_pool_def)
  qed
  then show "pool_inv p'" "in_pool p' a" "by_host (pstore p') (lower h) = Some a"
    "firstIP p' = firstIP p" "lastIP p' = lastIP p" by auto
qed

text \<open>A name that is not alive is given the next address.\<close>

lemma poolLookup_fresh:
  assumes "pool_inv p" "by_host (pstore p) (lower h) = None" "poolLookup lower ops h p = (a, p')"
  shows "a = offset (advance p)" "offset p' = offset (advance p)" "cycle p' = cycle (advance p)"
    "g \<noteq> lower h \<Longrightarrow> by_host (pstore p) g = None \<Longrightarrow> by_host (pstore p') g = None"
proof -
  have inv: "sinv (pstore p)" using assms(1) by (simp add: pool_inv_def)
  obtain s where g: "GetByHost ops (lower h) (pstore p) = (None, s)"
    using get_host [OF inv] assms(2) by (metis surj_pair)
  note gh = get_host [OF inv g]
  have inv': "pool_inv (p\<lparr>pstore := s\<rparr>)"
    using assms(1) gh by (simp add: pool_inv_def rotation_ok_def in_pool_def)
  obtain ip q where q: "poolGet ops (lower h) (p\<lparr>pstore := s\<rparr>) = (ip, q)" by fastforce
  then have r: "a = ip" "p' = q\<lparr>pstore := PutByHost ops (lower h) ip (pstore q)\<rparr>"
    using assms(3) g by (auto simp: poolLookup_def Let_def)
  have "by_host (pstore (p\<lparr>pstore := s\<rparr>)) (lower h) = None" using gh by simp
  note ok = poolGet_ok [OF inv' this q r(2)]
  have "offset (advance (p\<lparr>pstore := s\<rparr>)) = offset (advance p)" "cycle (advance (p\<lparr>pstore := s\<rparr>)) = cycle (advance p)"
    by (simp_all add: advance_def Let_def)
  then show "a = offset (advance p)" "offset p' = offset (advance p)" "cycle p' = cycle (advance p)"
    using ok(6-8) r(1) by simp_all
  assume f: "g \<noteq> lower h" "by_host (pstore p) g = None"
  show "by_host (pstore p') g = None"
  proof (rule ccontr)
    assume "by_host (pstore p') g \<noteq> None"
    then obtain b where "by_host (pstore p') g = Some b" by blast
    moreover have i: "sinv (pstore p')" using ok(1) by (simp add: pool_inv_def)
    ultimately have "by_ip (pstore p') b = Some g" using inverse [OF i] by simp
    then have "((by_ip s)(ip \<mapsto> lower h)) b = Some g"
      using ok(9) by (auto simp: map_le_def dom_def)
    then have "by_ip (pstore p) b = Some g" using f(1) gh by (auto split: if_splits)
    then show False using f(2) inverse [OF inv] by (metis option.distinct(1))
  qed
qed

lemma lookups_fresh:
  assumes "pool_inv p" "\<not> cycle p" "distinct (map lower hs)"
    and "\<forall>h \<in> set hs. by_host (pstore p) (lower h) = None"
    and "addrVal (offset p) + length hs < addrVal (lastIP p)"
  shows "map addrVal (lookups lower ops hs p) = [Suc (addrVal (offset p))..<Suc (addrVal (offset p) + length hs)]"
  using assms
proof (induction hs arbitrary: p)
  case (Cons h hs)
  obtain a p' where l: "poolLookup lower ops h p = (a, p')" by fastforce
  have h: "by_host (pstore p) (lower h) = None" using Cons.prems(4) by simp
  note ok = poolLookup_ok [OF Cons.prems(1) l] and fr = poolLookup_fresh [OF Cons.prems(1) h l]
  have rot: "bitLen (offset p) = bitLen (lastIP p)" "addrVal (offset p) < addrVal (lastIP p)"
    using Cons.prems(1) by (auto simp: pool_inv_def rotation_ok_def)
  note nx = addrNext_val [OF rot(2,1)]
  have adv: "advance p = p\<lparr>offset := addrNext (offset p)\<rparr>"
    using nx rot Cons.prems(5) by (simp add: advance_def Let_def addrLess_def)
  have v: "addrVal (offset p') = Suc (addrVal (offset p))" "addrVal a = Suc (addrVal (offset p))" "\<not> cycle p'"
    using fr(1-3) adv nx(2) Cons.prems(2) by simp_all
  have "map addrVal (lookups lower ops hs p') =
      [Suc (addrVal (offset p'))..<Suc (addrVal (offset p') + length hs)]"
  proof (rule Cons.IH [OF ok(1) v(3)])
    show "distinct (map lower hs)" using Cons.prems(3) by simp
    show "\<forall>h \<in> set hs. by_host (pstore p') (lower h) = None"
    proof
      fix g assume g: "g \<in> set hs"
      then have "lower g \<in> lower ` set hs" by simp
      then have "lower g \<noteq> lower h" using Cons.prems(3) by auto
      then show "by_host (pstore p') (lower g) = None"
        using Cons.prems(4) g by (intro fr(4)) auto
    qed
    show "addrVal (offset p') + length hs < addrVal (lastIP p')"
      using Cons.prems(5) v(1) ok(5) by simp
  qed
  then show ?case
    using l v by (simp add: upt_rec)
qed simp

lemma poolLookBack_ok:
  assumes "pool_inv p" "poolLookBack ops a p = (x, p')"
  shows "pool_inv p'" "x = by_ip (pstore p) a" "by_host (pstore p') = by_host (pstore p)"
    "firstIP p' = firstIP p" "lastIP p' = lastIP p"
proof -
  have inv: "sinv (pstore p)" using assms(1) by (simp add: pool_inv_def)
  obtain s where g: "GetByIP ops a (pstore p) = (x, s)" "p' = p\<lparr>pstore := s\<rparr>"
    using assms(2) by (auto simp: poolLookBack_def split: prod.splits)
  note gi = get_ip [OF inv g(1)]
  then show "pool_inv p'" "x = by_ip (pstore p) a" "by_host (pstore p') = by_host (pstore p)"
    "firstIP p' = firstIP p" "lastIP p' = lastIP p"
    using assms(1) g(2) by (simp_all add: pool_inv_def rotation_ok_def in_pool_def)
qed

lemma FlushFakeIP_ok:
  assumes "pool_inv p" "FlushFakeIP ops p = (e, p')"
  shows "pool_inv p'" "firstIP p' = firstIP p" "lastIP p' = lastIP p"
proof -
  have inv: "sinv (pstore p)" using assms(1) by (simp add: pool_inv_def)
  obtain s where g: "storeFlush ops (pstore p) = (e, s)"
    "p' = (if e = None then p\<lparr>pstore := s, cycle := False, offset := addrPrev (firstIP p)\<rparr> else p\<lparr>pstore := s\<rparr>)"
    using assms(2) by (auto simp: FlushFakeIP_def split: prod.splits)
  note fl = flush [OF inv g(1)]
  have "rotation_ok p" using assms(1) by (simp add: pool_inv_def)
  then have "rotation_ok p'"
    using addrPrev_val [of "firstIP p"] g(2) by (auto simp: rotation_ok_def)
  then show "pool_inv p'" "firstIP p' = firstIP p" "lastIP p' = lastIP p"
    using assms(1) g(2) fl by (auto simp: pool_inv_def in_pool_def)
qed

lemma pool_calls_ok:
  "pool_inv p \<Longrightarrow> pool_inv (pool_calls lower ops cs p) \<and>
    firstIP (pool_calls lower ops cs p) = firstIP p \<and> lastIP (pool_calls lower ops cs p) = lastIP p"
proof (induction cs arbitrary: p)
  case (Cons c cs)
  have "pool_inv (pool_call_step lower ops c p) \<and>
      firstIP (pool_call_step lower ops c p) = firstIP p \<and> lastIP (pool_call_step lower ops c p) = lastIP p"
    using Cons.prems poolLookup_ok [of p lower] poolLookBack_ok [of p] FlushFakeIP_ok [of p]
    by (cases c) (metis pool_call_step.simps prod.collapse)+
  then show ?case using Cons.IH by simp
qed simp

lemma newPool_ok:
  assumes "newPool prefixLastIP ops net s = Inr p" "bitLen (prefixLastIP net) = bitLen (fst net)"
    and "sinv s" "by_ip s = Map.empty"
  shows "pool_inv p"
proof -
  define hostAddr where "hostAddr = maskedAddr net"
  define first where "first = addrNext (addrNext (addrNext (addrNext hostAddr)))"
  have v: "prefixValid net" "first \<noteq> NoAddr" "addrLess first (prefixLastIP net)"
    using assms(1) by (auto simp: newPool_def Let_def hostAddr_def first_def addrValid_def split: if_splits)
  have p: "firstIP p = first" "lastIP p = prefixLastIP net" "offset p = addrPrev first" "pstore p = s"
    using assms(1) in_memory
    by (auto simp: newPool_def Let_def hostAddr_def first_def restoreState_def split: if_splits)
  have "addrNext a \<noteq> NoAddr \<Longrightarrow> bitLen (addrNext a) = bitLen a \<and> 0 < addrVal (addrNext a)" for a
    by (cases a) (auto simp: unat_gt_0 split: if_splits)
  then have f: "bitLen first = bitLen hostAddr" "0 < addrVal first"
    using v(2) unfolding first_def by (metis addrNext.simps(1))+
  have "bitLen hostAddr = bitLen (fst net)"
    using v(1) by (cases "fst net") (auto simp: hostAddr_def maskedAddr_def)
  then have "rotation_ok p"
    using p v f assms(2) addrPrev_val [OF f(2)] by (auto simp: rotation_ok_def addrLess_def)
  then show ?thesis using assms(3,4) p(4) by (simp add: pool_inv_def)
qed

end


subsection \<open>The store in memory\<close>

lemma lruGet_no_age:
  assumes "lru_inv c" "maxAge c = 0"
  obtains out c1 where
    "lruGet now k c = (map_option fst (map_of (contents c) k), out, c1)" "lru_inv c1" "same_config c c1"
    "contents c1 = (case map_of (contents c) k of None \<Rightarrow> contents c | Some x \<Rightarrow> touch k x (contents c))"
proof -
  obtain el out c1 where g: "lru_get now k c = (el, out, c1)" "lru_inv c1" "same_config c c1"
    "ref_get c now k (contents c) = (map_option (\<lambda>e. (evalue e, expires e)) el, out, contents c1)"
    using get_cases [OF assms(1)] .
  have "ref_get c now k (contents c) = (case map_of (contents c) k of None \<Rightarrow> (None, [], contents c)
      | Some x \<Rightarrow> (Some x, [], touch k x (contents c)))"
    using assms(2) by (auto simp: ref_get_def ages_def Let_def split: option.split)
  then have r: "map_of (contents c) k = map_option (\<lambda>e. (evalue e, expires e)) el"
    "contents c1 = (case map_of (contents c) k of None \<Rightarrow> contents c | Some x \<Rightarrow> touch k x (contents c))"
    using g(4) by (auto split: option.splits)
  have "map_option evalue el = map_option fst (map_of (contents c) k)"
    unfolding r(1) by (cases el) simp_all
  then show thesis
    using that g(1-3) r(2) by (simp add: lruGet_def)
qed

lemma lruSet_no_age:
  assumes "lru_inv c" "maxAge c = 0" "map_of (contents c) k = None"
  obtains out c1 where "lruSet now k v c = (out, c1)" "lru_inv c1" "same_config c c1"
    "contents c1 = (let E = contents c @ [(k, v, 0)] in
       if maxSize c > 0 \<and> int (length E) > maxSize c then tl E else E)"
proof -
  have "ref_expire False now E = ([], E)" for E :: "('a \<times> 'b \<times> int) list"
    by (cases E) (auto simp: ref_expire_def)
  moreover have "touch k (v, 0) (contents c) = contents c @ [(k, v, 0)]"
    using assms(3) by (simp add: touch_def map_of_eq_None_iff)
  ultimately have "snd (ref_set_now c now k v (contents c)) = (let E = contents c @ [(k, v, 0)] in
       if maxSize c > 0 \<and> int (length E) > maxSize c then tl E else E)"
    using assms(2,3) by (simp add: ref_set_now_def ref_set_def ages_def Let_def)
  then show thesis
    using that set_cases [OF assms(1), of now k v] by (metis lruSet_def snd_conv)
qed

text \<open>The two caches hold the same pairs in the same order.\<close>

definition swapped :: "('a \<times> 'b \<times> int) list \<Rightarrow> ('b \<times> 'a \<times> int) list" where
  "swapped E = map (\<lambda>(x, y, e). (y, x, e)) E"

definition mem_inv :: "memory_store \<Rightarrow> bool" where
  "mem_inv m \<longleftrightarrow> lru_inv (cacheIP m) \<and> lru_inv (cacheHost m) \<and> maxAge (cacheIP m) = 0 \<and>
     maxAge (cacheHost m) = 0 \<and> maxSize (cacheHost m) = maxSize (cacheIP m) \<and>
     contents (cacheHost m) = swapped (contents (cacheIP m))"

definition mem_by_host :: "memory_store \<Rightarrow> string \<rightharpoonup> addr" where
  "mem_by_host m h = map_option fst (map_of (contents (cacheIP m)) h)"

definition mem_by_ip :: "memory_store \<Rightarrow> addr \<rightharpoonup> string" where
  "mem_by_ip m a = map_option fst (map_of (contents (cacheHost m)) a)"

lemma length_swapped: "length (swapped E) = length E"
  by (simp add: swapped_def)

lemma swapped_swapped [simp]: "swapped (swapped E) = E"
  by (induction E) (auto simp: swapped_def)

lemma map_of_swapped:
  assumes "distinct (map fst E)" "distinct (map fst (swapped E))"
  shows "map_of E x = Some (y, e) \<longleftrightarrow> map_of (swapped E) y = Some (x, e)"
proof -
  have "map_of E x = Some (y, e) \<longleftrightarrow> (x, y, e) \<in> set E"
    using assms(1) by simp
  also have "\<dots> \<longleftrightarrow> (y, x, e) \<in> set (swapped E)"
    by (force simp: swapped_def)
  also have "\<dots> \<longleftrightarrow> map_of (swapped E) y = Some (x, e)"
    using assms(2) by simp
  finally show ?thesis .
qed

lemma delete_swapped:
  assumes "distinct (map fst E)" "distinct (map fst (swapped E))" "map_of E x = Some (y, e)"
  shows "AList.delete y (swapped E) = swapped (AList.delete x E)"
proof -
  have "(y \<noteq> fst (snd t)) = (x \<noteq> fst t)" if "t \<in> set E" for t
  proof -
    obtain x' y' e' where t: "t = (x', y', e')" by (cases t)
    have "map_of E x' = Some (y', e')" using assms(1) that t by simp
    then have "map_of (swapped E) y' = Some (x', e')" "map_of (swapped E) y = Some (x, e)"
      using map_of_swapped [OF assms(1,2)] assms(3) by auto
    then show ?thesis using t \<open>map_of E x' = _\<close> assms(3) by auto
  qed
  then have "filter (\<lambda>t. y \<noteq> fst (snd t)) E = filter (\<lambda>t. x \<noteq> fst t) E"
    by (rule filter_cong [OF refl])
  then show ?thesis
    by (simp add: delete_filter swapped_def filter_map o_def split_beta)
qed

lemma touch_swapped:
  assumes "distinct (map fst E)" "distinct (map fst (swapped E))" "map_of E x = Some (y, e)"
  shows "touch y (x, e) (swapped E) = swapped (touch x (y, e) E)"
  unfolding touch_def delete_swapped [OF assms] by (simp add: swapped_def)

lemma map_of_touch: "map_of E k = Some x \<Longrightarrow> map_of (touch k x E) = map_of E"
  by (auto simp: touch_def map_add_def delete_conv' fun_eq_iff split: option.splits)

lemma mem_facts:
  assumes "mem_inv m"
  shows "distinct (map fst (contents (cacheIP m)))" "distinct (map fst (swapped (contents (cacheIP m))))"
  using assms distinct_contents [of "cacheIP m"] distinct_contents [of "cacheHost m"]
  by (simp_all add: mem_inv_def)

lemma mem_inverse: "mem_inv m \<Longrightarrow> mem_by_host m h = Some a \<longleftrightarrow> mem_by_ip m a = Some h"
  using map_of_swapped [OF mem_facts, of m h a]
  by (auto simp: mem_by_host_def mem_by_ip_def mem_inv_def)

text \<open>Both caches are touched together.\<close>

lemma mem_touch:
  assumes "mem_inv m" "map_of (contents (cacheIP m)) h = Some (a, e)"
    and "lru_inv c" "same_config (cacheIP m) c" "contents c = touch h (a, e) (contents (cacheIP m))"
    and "lru_inv d" "same_config (cacheHost m) d" "contents d = touch a (h, e) (contents (cacheHost m))"
  shows "mem_inv (m\<lparr>cacheIP := c, cacheHost := d\<rparr>)"
    "mem_by_host (m\<lparr>cacheIP := c, cacheHost := d\<rparr>) = mem_by_host m"
    "mem_by_ip (m\<lparr>cacheIP := c, cacheHost := d\<rparr>) = mem_by_ip m"
proof -
  have "map_of (contents (cacheHost m)) a = Some (h, e)"
    using assms(1,2) map_of_swapped [OF mem_facts [OF assms(1)]] by (simp add: mem_inv_def)
  then show "mem_by_ip (m\<lparr>cacheIP := c, cacheHost := d\<rparr>) = mem_by_ip m"
    using assms(8) by (simp add: mem_by_ip_def fun_eq_iff map_of_touch)
  show "mem_by_host (m\<lparr>cacheIP := c, cacheHost := d\<rparr>) = mem_by_host m"
    using assms(2,5) by (simp add: mem_by_host_def fun_eq_iff map_of_touch)
  show "mem_inv (m\<lparr>cacheIP := c, cacheHost := d\<rparr>)"
    using assms touch_swapped [OF mem_facts [OF assms(1)] assms(2)]
    by (simp add: mem_inv_def same_config_def)
qed

lemma memGetByHost_ok:
  assumes "mem_inv m" "memGetByHost h m = (r, m')"
  shows "r = mem_by_host m h \<and> mem_inv m' \<and> mem_by_host m' = mem_by_host m \<and> mem_by_ip m' = mem_by_ip m"
proof -
  have i: "lru_inv (cacheIP m)" "maxAge (cacheIP m) = 0" "lru_inv (cacheHost m)" "maxAge (cacheHost m) = 0"
    "contents (cacheHost m) = swapped (contents (cacheIP m))"
    using assms(1) by (simp_all add: mem_inv_def)
  obtain out c where c: "lruGet 0 h (cacheIP m) = (mem_by_host m h, out, c)" "lru_inv c"
    "same_config (cacheIP m) c" "contents c = (case map_of (contents (cacheIP m)) h of
       None \<Rightarrow> contents (cacheIP m) | Some x \<Rightarrow> touch h x (contents (cacheIP m)))"
    using lruGet_no_age [OF i(1,2), of 0 h] unfolding mem_by_host_def by metis
  show ?thesis
  proof (cases "map_of (contents (cacheIP m)) h")
    case None
    then have "mem_by_host m h = None" by (simp add: mem_by_host_def)
    then have "r = None" "m' = m\<lparr>cacheIP := c\<rparr>"
      using assms(2) c(1) by (auto simp: memGetByHost_def)
    then show ?thesis
      using assms(1) c None by (simp add: mem_inv_def mem_by_host_def mem_by_ip_def same_config_def fun_eq_iff)
  next
    case (Some x)
    obtain a e where x: "x = (a, e)" by (cases x)
    have "map_of (contents (cacheHost m)) a = Some (h, e)"
      using Some x i(5) map_of_swapped [OF mem_facts [OF assms(1)]] by simp
    then obtain r2 out2 d where d: "lruGet 0 a (cacheHost m) = (r2, out2, d)" "lru_inv d"
      "same_config (cacheHost m) d" "contents d = touch a (h, e) (contents (cacheHost m))"
      using lruGet_no_age [OF i(3,4), of 0 a] by (metis option.simps(5))
    have "mem_by_host m h = Some a" using Some x by (simp add: mem_by_host_def)
    then have "r = Some a" "m' = m\<lparr>cacheIP := c, cacheHost := d\<rparr>"
      using assms(2) c(1) d(1) by (auto simp: memGetByHost_def)
    moreover have "contents c = touch h (a, e) (contents (cacheIP m))" using c(4) Some x by simp
    ultimately show ?thesis
      using mem_touch [OF assms(1) Some [unfolded x] c(2,3) _ d(2,3,4)] \<open>mem_by_host m h = Some a\<close> by simp
  qed
qed

lemma memGetByIP_ok:
  assumes "mem_inv m" "memGetByIP a m = (r, m')"
  shows "r = mem_by_ip m a \<and> mem_inv m' \<and> mem_by_host m' = mem_by_host m \<and> mem_by_ip m' = mem_by_ip m"
proof -
  have i: "lru_inv (cacheIP m)" "maxAge (cacheIP m) = 0" "lru_inv (cacheHost m)" "maxAge (cacheHost m) = 0"
    "contents (cacheHost m) = swapped (contents (cacheIP m))"
    using assms(1) by (simp_all add: mem_inv_def)
  obtain out d where d: "lruGet 0 a (cacheHost m) = (mem_by_ip m a, out, d)" "lru_inv d"
    "same_config (cacheHost m) d" "contents d = (case map_of (contents (cacheHost m)) a of
       None \<Rightarrow> contents (cacheHost m) | Some x \<Rightarrow> touch a x (contents (cacheHost m)))"
    using lruGet_no_age [OF i(3,4), of 0 a] unfolding mem_by_ip_def by metis
  show ?thesis
  proof (cases "map_of (contents (cacheHost m)) a")
    case None
    then have "mem_by_ip m a = None" by (simp add: mem_by_ip_def)
    then have "r = None" "m' = m\<lparr>cacheHost := d\<rparr>"
      using assms(2) d(1) by (auto simp: memGetByIP_def)
    then show ?thesis
      using assms(1) d None by (simp add: mem_inv_def mem_by_host_def mem_by_ip_def same_config_def fun_eq_iff)
  next
    case (Some x)
    obtain h e where x: "x = (h, e)" by (cases x)
    have h: "map_of (contents (cacheIP m)) h = Some (a, e)"
      using Some x i(5) map_of_swapped [OF mem_facts [OF assms(1)]] by simp
    then obtain r2 out2 c where c: "lruGet 0 h (cacheIP m) = (r2, out2, c)" "lru_inv c"
      "same_config (cacheIP m) c" "contents c = touch h (a, e) (contents (cacheIP m))"
      using lruGet_no_age [OF i(1,2), of 0 h] by (metis option.simps(5))
    have "mem_by_ip m a = Some h" using Some x by (simp add: mem_by_ip_def)
    then have "r = Some h" "m' = m\<lparr>cacheIP := c, cacheHost := d\<rparr>"
      using assms(2) c(1) d(1) by (auto simp: memGetByIP_def)
    moreover have "contents d = touch a (h, e) (contents (cacheHost m))" using d(4) Some x by simp
    ultimately show ?thesis
      using mem_touch [OF assms(1) h c(2,3,4) d(2,3)] \<open>mem_by_ip m a = Some h\<close> by simp
  qed
qed


lemma lruDelete_contents:
  assumes "lru_inv c"
  obtains out c1 where "lruDelete k c = (out, c1)" "lru_inv c1" "same_config c c1"
    "contents c1 = AList.delete k (contents c)"
  using delete_cases [OF assms, of k] by (metis ref_delete_def snd_conv)

lemma delete_touch: "AList.delete k (touch k x E) = AList.delete k E"
  by (simp add: touch_def delete_filter)

lemma memDelByIP_ok:
  assumes "mem_inv m"
  shows "mem_inv (memDelByIP a m) \<and> mem_by_ip (memDelByIP a m) = (mem_by_ip m)(a := None) \<and>
    mem_by_host (memDelByIP a m) = (\<lambda>h. if mem_by_host m h = Some a then None else mem_by_host m h)"
proof -
  have i: "lru_inv (cacheIP m)" "lru_inv (cacheHost m)" "maxAge (cacheHost m) = 0"
    "contents (cacheHost m) = swapped (contents (cacheIP m))"
    using assms by (simp_all add: mem_inv_def)
  obtain out d where d: "lruGet 0 a (cacheHost m) = (mem_by_ip m a, out, d)" "lru_inv d"
    "same_config (cacheHost m) d" "contents d = (case map_of (contents (cacheHost m)) a of
       None \<Rightarrow> contents (cacheHost m) | Some x \<Rightarrow> touch a x (contents (cacheHost m)))"
    using lruGet_no_age [OF i(2,3), of 0 a] unfolding mem_by_ip_def by metis
  obtain out2 d2 where d2: "lruDelete a d = (out2, d2)" "lru_inv d2" "same_config d d2"
    "contents d2 = AList.delete a (contents d)"
    using lruDelete_contents [OF d(2)] .
  have c2: "contents d2 = AList.delete a (contents (cacheHost m))"
    using d(4) d2(4) by (simp add: delete_touch split: option.splits)
  have ip: "map_option fst (map_of (contents d2) b) = ((mem_by_ip m)(a := None)) b" for b
    by (simp add: c2 mem_by_ip_def delete_conv')
  show ?thesis
  proof (cases "map_of (contents (cacheHost m)) a")
    case None
    then have n: "mem_by_ip m a = None" by (simp add: mem_by_ip_def)
    then have m': "memDelByIP a m = m\<lparr>cacheHost := d2\<rparr>"
      using d(1) d2(1) by (simp add: memDelByIP_def)
    have "contents d2 = contents (cacheHost m)"
      using None c2 by (simp add: map_of_eq_None_iff)
    then have "mem_inv (memDelByIP a m)"
      using assms m' d(3) d2(2,3) by (simp add: mem_inv_def same_config_def)
    moreover have "mem_by_ip (memDelByIP a m) = (mem_by_ip m)(a := None)"
      using ip m' by (simp add: mem_by_ip_def fun_eq_iff)
    moreover have "mem_by_host m h \<noteq> Some a" for h
      using mem_inverse [OF assms] n by simp
    moreover have "mem_by_host (m\<lparr>cacheHost := d2\<rparr>) = mem_by_host m"
      by (simp add: mem_by_host_def fun_eq_iff)
    ultimately have "mem_by_host (memDelByIP a m) = (\<lambda>h. if mem_by_host m h = Some a then None else mem_by_host m h)"
      using m' by (simp add: fun_eq_iff)
    with \<open>mem_inv (memDelByIP a m)\<close> \<open>mem_by_ip (memDelByIP a m) = _\<close> show ?thesis by blast
  next
    case (Some x)
    obtain h e where x: "x = (h, e)" by (cases x)
    have h: "map_of (contents (cacheIP m)) h = Some (a, e)"
      using Some x i(4) map_of_swapped [OF mem_facts [OF assms]] by simp
    have n: "mem_by_ip m a = Some h" using Some x by (simp add: mem_by_ip_def)
    obtain out3 c where c: "lruDelete h (cacheIP m) = (out3, c)" "lru_inv c" "same_config (cacheIP m) c"
      "contents c = AList.delete h (contents (cacheIP m))"
      using lruDelete_contents [OF i(1)] .
    have m': "memDelByIP a m = m\<lparr>cacheIP := c, cacheHost := d2\<rparr>"
      using n d(1) d2(1) c(1) by (simp add: memDelByIP_def)
    have "contents d2 = swapped (contents c)"
      unfolding c2 c(4) i(4) by (rule delete_swapped [OF mem_facts [OF assms] h])
    then have "mem_inv (memDelByIP a m)"
      using assms m' c(2,3) d(3) d2(2,3) by (simp add: mem_inv_def same_config_def)
    moreover have "mem_by_ip (memDelByIP a m) = (mem_by_ip m)(a := None)"
      using ip m' by (simp add: mem_by_ip_def fun_eq_iff)
    moreover have "mem_by_host m g = Some a \<longleftrightarrow> g = h" for g
      using mem_inverse [OF assms, of g a] n by auto
    then have "mem_by_host (memDelByIP a m) = (\<lambda>h. if mem_by_host m h = Some a then None else mem_by_host m h)"
      using m' c(4) by (auto simp: mem_by_host_def delete_conv' fun_eq_iff)
    ultimately show ?thesis by blast
  qed
qed

lemma mem_put_both:
  assumes "mem_inv m" "mem_by_host m h = None" "mem_by_ip m a = None"
    and m': "m' = memPutByHost h a (memPutByIP a h m)"
  shows "mem_inv m' \<and> mem_by_host m' h = Some a \<and> mem_by_ip m' \<subseteq>\<^sub>m (mem_by_ip m)(a \<mapsto> h)"
proof -
  have i: "lru_inv (cacheIP m)" "lru_inv (cacheHost m)" "maxAge (cacheIP m) = 0" "maxAge (cacheHost m) = 0"
    "contents (cacheHost m) = swapped (contents (cacheIP m))" "maxSize (cacheHost m) = maxSize (cacheIP m)"
    using assms(1) by (simp_all add: mem_inv_def)
  have n: "map_of (contents (cacheIP m)) h = None" "map_of (contents (cacheHost m)) a = None"
    using assms(2,3) by (simp_all add: mem_by_host_def mem_by_ip_def)
  let ?E = "contents (cacheIP m)"
  define full where "full \<longleftrightarrow> maxSize (cacheIP m) > 0 \<and> int (Suc (length ?E)) > maxSize (cacheIP m)"
  obtain out d where d: "lruSet 0 a h (cacheHost m) = (out, d)" "lru_inv d" "same_config (cacheHost m) d"
    "contents d = (let E = contents (cacheHost m) @ [(a, h, 0)] in
       if maxSize (cacheHost m) > 0 \<and> int (length E) > maxSize (cacheHost m) then tl E else E)"
    using lruSet_no_age [OF i(2,4) n(2)] by metis
  obtain out2 c where c: "lruSet 0 h a (cacheIP m) = (out2, c)" "lru_inv c" "same_config (cacheIP m) c"
    "contents c = (let E = ?E @ [(h, a, 0)] in
       if maxSize (cacheIP m) > 0 \<and> int (length E) > maxSize (cacheIP m) then tl E else E)"
    using lruSet_no_age [OF i(1,3) n(1)] by metis
  have d4: "contents d = (if full then tl (swapped ?E @ [(a, h, 0)]) else swapped ?E @ [(a, h, 0)])"
    using d(4) i(5,6) by (simp add: full_def Let_def length_swapped)
  have c4: "contents c = (if full then tl (?E @ [(h, a, 0)]) else ?E @ [(h, a, 0)])"
    using c(4) by (simp add: full_def Let_def)
  have m2: "m' = m\<lparr>cacheIP := c, cacheHost := d\<rparr>"
    using m' c(1) d(1) by (simp add: memPutByHost_def memPutByIP_def)
  have "swapped (tl E) = tl (swapped E)" for E :: "(string \<times> addr \<times> int) list"
    by (simp add: swapped_def map_tl)
  moreover have "swapped (?E @ [(h, a, 0)]) = swapped ?E @ [(a, h, 0)]"
    by (simp add: swapped_def)
  ultimately have "contents d = swapped (contents c)"
    using c4 d4 by metis
  then have inv: "mem_inv m'"
    using assms(1) m2 c(2,3) d(2,3) by (simp add: mem_inv_def same_config_def)
  have ne: "?E \<noteq> []" if full
    using that by (auto simp: full_def)
  have "map_of (tl ?E) h = None"
    using n(1) by (cases ?E) (auto split: if_splits)
  then have "mem_by_host m' h = Some a"
    using c4 m2 n(1) ne by (auto simp: mem_by_host_def map_add_def)
  moreover have "((mem_by_ip m)(a \<mapsto> h)) b = Some x" if x: "mem_by_ip m' b = Some x" for b x
  proof -
    obtain e where e: "map_of (contents d) b = Some (x, e)"
      using x m2 by (auto simp: mem_by_ip_def)
    have "distinct (map fst (contents (cacheHost m) @ [(a, h, 0)]))"
      using distinct_contents [OF i(2)] n(2) by (simp add: map_of_eq_None_iff)
    moreover have "set (contents d) \<subseteq> set (contents (cacheHost m) @ [(a, h, 0)])"
      using d4 i(5) by (auto dest: list.set_sel(2) [rotated])
    ultimately have "map_of (contents (cacheHost m) @ [(a, h, 0)]) b = Some (x, e)"
      using map_of_SomeD [OF e] by (intro map_of_is_SomeI) auto
    then show ?thesis
      using n(2) by (auto simp: map_add_def mem_by_ip_def split: option.splits if_splits)
  qed
  then have "mem_by_ip m' \<subseteq>\<^sub>m (mem_by_ip m)(a \<mapsto> h)"
    unfolding map_le_def by (metis domD)
  ultimately show ?thesis using inv by blast
qed

lemma memFlush_ok:
  assumes "mem_inv m" "memFlush m = (e, m')"
  shows "mem_inv m' \<and> e = None \<and> mem_by_ip m' = Map.empty"
  using assms clear_ok [of "cacheIP m"] clear_ok [of "cacheHost m"]
  by (auto simp: memFlush_def mem_inv_def same_config_def mem_by_ip_def swapped_def)

lemma memExist_ok: "mem_inv m \<Longrightarrow> memExist a m \<longleftrightarrow> mem_by_ip m a \<noteq> None"
  using lruExist_ok [of "cacheHost m" a]
  by (simp add: memExist_def mem_inv_def mem_by_ip_def map_of_eq_None_iff)

interpretation mem: fake_store memory_ops mem_inv mem_by_host mem_by_ip
proof (unfold_locales, goal_cases)
  case (1 s h a)
  then show ?case by (rule mem_inverse)
next
  case (2 s h r s')
  then show ?case using memGetByHost_ok [of s h r s'] by (simp add: memory_ops_def)
next
  case (3 s a x s')
  then show ?case using memGetByIP_ok [of s a x s'] by (simp add: memory_ops_def)
next
  case (4 s a)
  then show ?case using memExist_ok by (simp add: memory_ops_def)
next
  case (5 s a)
  then show ?case using memDelByIP_ok [of s a] by (simp add: memory_ops_def)
next
  case (6 s h a s')
  then show ?case using mem_put_both [of s h a s'] by (simp add: memory_ops_def)
next
  case (7 s e s')
  then show ?case using memFlush_ok [of s e s'] by (simp add: memory_ops_def)
next
  case 8
  then show ?case by (simp add: memory_ops_def)
qed

lemma newMemoryStore_ok: "mem_inv (newMemoryStore n)" "mem_by_ip (newMemoryStore n) = Map.empty"
proof -
  have "maxAge (newLru [WithSize n] :: (string, addr) lru_cache) = 0"
    "maxAge (newLru [WithSize n] :: (addr, string) lru_cache) = 0"
    "maxSize (newLru [WithSize n] :: (string, addr) lru_cache) = n"
    "maxSize (newLru [WithSize n] :: (addr, string) lru_cache) = n"
    by (simp_all add: newLru_def lruClear_def)
  then show "mem_inv (newMemoryStore n)" "mem_by_ip (newMemoryStore n) = Map.empty"
    by (simp_all add: newMemoryStore_def mem_inv_def mem_by_ip_def fun_eq_iff swapped_def newLru_ok)
qed


subsection \<open>What the pool promises\<close>

lemma reachable_pool:
  assumes "newPool prefixLastIP memory_ops net (newMemoryStore n) = Inr p"
    and "bitLen (prefixLastIP net) = bitLen (fst net)"
  shows "mem.pool_inv (pool_calls lower memory_ops cs p)"
    "firstIP (pool_calls lower memory_ops cs p) = firstIP p"
    "lastIP (pool_calls lower memory_ops cs p) = lastIP p"
  using mem.pool_calls_ok [OF mem.newPool_ok [OF assms newMemoryStore_ok], of lower cs] by auto

text \<open>
  C27.  After any calls on a pool in memory, a name that is looked up is given an address of the pool,
  never the gateway or the last address, and that address is looked back to the name in lower case,
  however small the caches are.
\<close>

theorem fake_ip_lookup_round_trip:
  assumes "newPool prefixLastIP memory_ops net (newMemoryStore n) = Inr p"
    and "bitLen (prefixLastIP net) = bitLen (fst net)"
  shows "case poolLookup lower memory_ops h (pool_calls lower memory_ops cs p) of
      (a, p') \<Rightarrow> in_pool p a \<and> fst (poolLookBack memory_ops a p') = Some (lower h)"
proof -
  let ?p = "pool_calls lower memory_ops cs p"
  note r = reachable_pool [OF assms, of lower cs]
  obtain a p' where l: "poolLookup lower memory_ops h ?p = (a, p')" by fastforce
  note ok = mem.poolLookup_ok [OF r(1) l]
  obtain x p'' where b: "poolLookBack memory_ops a p' = (x, p'')" by fastforce
  have "sinv (pstore p')" if "sinv = mem_inv" for sinv using ok(1) that by (simp add: mem.pool_inv_def)
  then have "mem_by_ip (pstore p') a = Some (lower h)"
    using ok(3) mem_inverse [of "pstore p'" "lower h" a] by simp
  then have "x = Some (lower h)" using mem.poolLookBack_ok(2) [OF ok(1) b] by simp
  moreover have "in_pool p a" using ok(2,4,5) r(2,3) by (simp add: in_pool_def)
  ultimately show ?thesis using l b by simp
qed

lemma fake_ip_lookup_round_trip_witness:
  "\<exists>p. newPool (\<lambda>_. Addr4 0xC612FFFF) memory_ops (Addr4 0xC6120001, 16) (newMemoryStore 1) = Inr p \<and>
    (case poolLookup id memory_ops ''b.com'' (pool_calls id memory_ops [LookupHost ''a.com''] p) of
       (a, p') \<Rightarrow> in_pool p a \<and> fst (poolLookBack memory_ops a p') = Some ''b.com'')"
proof -
  have "maskedAddr (Addr4 0xC6120001, 16) = Addr4 0xC6120000"
    by (simp add: maskedAddr_def prefixValid_def addrValid_def mask_eq_exp_minus_1)
  then obtain p where p: "newPool (\<lambda>_. Addr4 0xC612FFFF) memory_ops (Addr4 0xC6120001, 16) (newMemoryStore 1) = Inr p"
    by (simp add: newPool_def Let_def prefixValid_def addrValid_def addrLess_def)
  then show ?thesis
    using fake_ip_lookup_round_trip [OF p, of id "''b.com''" "[LookupHost ''a.com'']"] by simp
qed

text \<open>
  C9.  Live addresses are not shared: if an address is looked back to a name, then looking that name
  up returns this very address, so that no two names that are alive have the same one.
\<close>

theorem fake_ip_not_shared:
  assumes "newPool prefixLastIP memory_ops net (newMemoryStore n) = Inr p"
    and "bitLen (prefixLastIP net) = bitLen (fst net)"
    and "poolLookBack memory_ops a (pool_calls lower memory_ops cs p) = (Some (lower h), p')"
  shows "fst (poolLookup lower memory_ops h p') = a"
proof -
  let ?p = "pool_calls lower memory_ops cs p"
  note r = reachable_pool(1) [OF assms(1,2), of lower cs]
  note b = mem.poolLookBack_ok [OF r assms(3)]
  have inv: "mem_inv (pstore ?p)" "mem_inv (pstore p')"
    using r b(1) by (simp_all add: mem.pool_inv_def)
  then have "mem_by_host (pstore p') (lower h) = Some a"
    using b(2,3) mem_inverse [OF inv(1), of "lower h" a] by simp
  moreover obtain x s where g: "GetByHost memory_ops (lower h) (pstore p') = (x, s)" by fastforce
  ultimately have "x = Some a" using mem.get_host [OF inv(2) g] by simp
  then show ?thesis using g by (simp add: poolLookup_def Let_def)
qed


lemma fake_ip_not_shared_witness:
  "\<exists>p a p'. newPool (\<lambda>_. Addr4 0xC612FFFF) memory_ops (Addr4 0xC6120001, 16) (newMemoryStore 1) = Inr p \<and>
    poolLookBack memory_ops a (pool_calls id memory_ops [LookupHost ''a.com''] p) = (Some ''a.com'', p') \<and>
    fst (poolLookup id memory_ops ''a.com'' p') = a"
proof -
  have "maskedAddr (Addr4 0xC6120001, 16) = Addr4 0xC6120000"
    by (simp add: maskedAddr_def prefixValid_def addrValid_def mask_eq_exp_minus_1)
  then obtain p where p: "newPool (\<lambda>_. Addr4 0xC612FFFF) memory_ops (Addr4 0xC6120001, 16) (newMemoryStore 1) = Inr p"
    by (simp add: newPool_def Let_def prefixValid_def addrValid_def addrLess_def)
  have fam: "bitLen ((\<lambda>_. Addr4 0xC612FFFF) (Addr4 0xC6120001, 16 :: nat)) = bitLen (fst (Addr4 0xC6120001, 16 :: nat))"
    by simp
  note r = reachable_pool(1) [OF p fam, of id "[]"]
  obtain a p1 where l: "poolLookup id memory_ops ''a.com'' p = (a, p1)" by fastforce
  note ok = mem.poolLookup_ok [OF r [unfolded pool_calls.simps] l]
  obtain x p' where b: "poolLookBack memory_ops a p1 = (x, p')" by fastforce
  have "mem_inv (pstore p1)" using ok(1) by (simp add: mem.pool_inv_def)
  then have "mem_by_ip (pstore p1) a = Some ''a.com''"
    using ok(3) mem_inverse [of "pstore p1" "''a.com''" a] by simp
  then have x: "x = Some (id ''a.com'')" using mem.poolLookBack_ok(2) [OF ok(1) b] by simp
  have "poolLookBack memory_ops a (pool_calls id memory_ops [LookupHost ''a.com''] p) = (Some (id ''a.com''), p')"
    using b l x by simp
  then show ?thesis
    using p fake_ip_not_shared [OF p fam, of a id "[LookupHost ''a.com'']" "''a.com''" p'] by auto
qed

text \<open>
  A fresh pool gives distinct names the addresses of the network in order, starting with the
  fourth after the network address, until all of them have been given out.
\<close>

theorem fake_ip_in_order:
  assumes "newPool prefixLastIP memory_ops net (newMemoryStore n) = Inr p"
    and "bitLen (prefixLastIP net) = bitLen (fst net)"
    and "distinct (map lower hs)" "addrVal (firstIP p) + length hs \<le> addrVal (lastIP p)"
  shows "map addrVal (lookups lower memory_ops hs p) =
      [addrVal (firstIP p)..<addrVal (firstIP p) + length hs]"
proof -
  note inv = mem.newPool_ok [OF assms(1,2) newMemoryStore_ok]
  have p: "offset p = addrPrev (firstIP p)" "\<not> cycle p" "pstore p = newMemoryStore n"
    using assms(1) by (auto simp: newPool_def Let_def restoreState_def memory_ops_def split: if_splits)
  have "0 < addrVal (firstIP p)" using inv by (simp add: mem.pool_inv_def rotation_ok_def)
  then have v: "Suc (addrVal (offset p)) = addrVal (firstIP p)" using addrPrev_val(2) p(1) by simp
  have "mem_by_host (newMemoryStore n) g = None" for g
    using mem_inverse [OF newMemoryStore_ok(1), of n g] newMemoryStore_ok(2) [of n]
    by (metis not_None_eq option.distinct(1))
  then have "map addrVal (lookups lower memory_ops hs p) =
      [Suc (addrVal (offset p))..<Suc (addrVal (offset p) + length hs)]"
    using assms(4) v p(3) by (intro mem.lookups_fresh [OF inv p(2) assms(3)]) auto
  then show ?thesis unfolding v [symmetric] by simp
qed

lemma fake_ip_in_order_witness:
  "\<exists>p. newPool (\<lambda>_. Addr4 0xC612FFFF) memory_ops (Addr4 0xC6120001, 16) (newMemoryStore 1) = Inr p \<and>
    map addrVal (lookups id memory_ops [''a.com'', ''b.com''] p) = [0xC6120004, 0xC6120005]"
proof -
  have "maskedAddr (Addr4 0xC6120001, 16) = Addr4 0xC6120000"
    by (simp add: maskedAddr_def prefixValid_def addrValid_def mask_eq_exp_minus_1)
  then obtain p where p: "newPool (\<lambda>_. Addr4 0xC612FFFF) memory_ops (Addr4 0xC6120001, 16) (newMemoryStore 1) = Inr p"
    "addrVal (firstIP p) = 0xC6120004" "addrVal (lastIP p) = 0xC612FFFF"
    by (simp add: newPool_def Let_def prefixValid_def addrValid_def addrLess_def restoreState_def memory_ops_def)
  then show ?thesis
    using fake_ip_in_order [OF p(1), of id "[''a.com'', ''b.com'']"] by (simp add: upt_rec)
qed

end
