(* ===== verification/StunCodec.thy ===== *)
theory StunCodec
  imports Prelude "HOL-Library.Word"
begin

text \<open>
  STUN packets of \<^verbatim>\<open>NekoBox/libcore/stun\<close> (\<^verbatim>\<open>attribute.go\<close>, \<^verbatim>\<open>packet.go\<close>, \<^verbatim>\<open>utils.go\<close>, \<^verbatim>\<open>host.go\<close>).
  Lengths and positions are 16-bit words and wrap as in Go; a slice or index out of range is a panic.
  \<^verbatim>\<open>net.IP.String\<close> is the argument \<open>ipString\<close>.
\<close>

unbundle bit_operations_syntax

type_synonym bytes = "8 word list"

subsection \<open>Numbers in big-endian order\<close>

definition putUint16 :: "16 word \<Rightarrow> bytes" where
  "putUint16 n = [ucast (drop_bit 8 n), ucast n]"

definition putUint32 :: "32 word \<Rightarrow> bytes" where
  "putUint32 n = [ucast (drop_bit 24 n), ucast (drop_bit 16 n), ucast (drop_bit 8 n), ucast n]"

fun uint16Of :: "bytes \<Rightarrow> 16 word outcome" where
  "uint16Of (hi # lo # _) = Inr (push_bit 8 (ucast hi) OR ucast lo)"
| "uint16Of _ = Inl (Panic ''index out of range'')"

text \<open>\<^verbatim>\<open>crc32.ChecksumIEEE\<close>, bit by bit.\<close>

definition crcBit :: "32 word \<Rightarrow> 32 word" where
  "crcBit c = (if bit c 0 then drop_bit 1 c XOR 0xEDB88320 else drop_bit 1 c)"

definition checksumIEEE :: "bytes \<Rightarrow> 32 word" where
  "checksumIEEE bs = NOT (foldl (\<lambda>c b. (crcBit ^^ 8) (c XOR ucast b)) 0xFFFFFFFF bs)"

subsection \<open>Constants\<close>

definition magicCookie :: "32 word" where "magicCookie = 0x2112A442"
definition fingerprint :: "32 word" where "fingerprint = 0x5354554e"
definition attributeFamilyIPv4 :: "16 word" where "attributeFamilyIPv4 = 1"
definition attributeFamilyIPV6 :: "16 word" where "attributeFamilyIPV6 = 2"
definition attributeMappedAddress :: "16 word" where "attributeMappedAddress = 0x0001"
definition attributeChangeRequest :: "16 word" where "attributeChangeRequest = 0x0003"
definition attributeSourceAddress :: "16 word" where "attributeSourceAddress = 0x0004"
definition attributeChangedAddress :: "16 word" where "attributeChangedAddress = 0x0005"
definition attributeXorMappedAddress :: "16 word" where "attributeXorMappedAddress = 0x0020"
definition attributeXorMappedAddressExp :: "16 word" where "attributeXorMappedAddressExp = 0x8020"
definition attributeSoftware :: "16 word" where "attributeSoftware = 0x8022"
definition attributeFingerprint :: "16 word" where "attributeFingerprint = 0x8028"
definition attributeOtherAddress :: "16 word" where "attributeOtherAddress = 0x802c"
definition typeBindingRequest :: "16 word" where "typeBindingRequest = 0x0001"

subsection \<open>Attributes\<close>

record attribute =
  atypes :: "16 word"
  alength :: "16 word"
  avalue :: bytes

record host =
  family :: "16 word"
  hostIP :: string
  hostPort :: "16 word"

definition align :: "16 word \<Rightarrow> 16 word" where
  "align n = (n + 3) AND 0xfffc"

definition padding :: "bytes \<Rightarrow> bytes" where
  "padding bs =
     (let len = word_of_nat (length bs) in bs @ replicate (unat (align len - len)) 0)"

definition newAttribute :: "16 word \<Rightarrow> bytes \<Rightarrow> attribute" where
  "newAttribute t value =
     (let v = padding value in \<lparr>atypes = t, alength = word_of_nat (length v), avalue = v\<rparr>)"

definition newSoftwareAttribute :: "bytes \<Rightarrow> attribute" where
  "newSoftwareAttribute name = newAttribute attributeSoftware name"

definition newChangeReqAttribute :: "bool \<Rightarrow> bool \<Rightarrow> attribute" where
  "newChangeReqAttribute changeIP changePort =
     newAttribute attributeChangeRequest
       [0, 0, 0, (if changeIP then 4 else 0) OR (if changePort then 2 else 0)]"

text \<open>The XOR of the address with the transaction id; both buffers have 16 bytes.\<close>

fun xorLoop :: "bytes \<Rightarrow> bytes \<Rightarrow> nat \<Rightarrow> nat \<Rightarrow> bytes \<Rightarrow> bytes outcome" where
  "xorLoop v tid 0 i buf = Inr buf"
| "xorLoop v tid (Suc n) i buf =
     rbind (go_get v (int i + 4)) (\<lambda>x.
     rbind (go_get tid (int i)) (\<lambda>y.
     rbind (go_set buf (int i) (x XOR y)) (\<lambda>buf. xorLoop v tid n (Suc i) buf)))"

definition xorAddr :: "(bytes \<Rightarrow> string) \<Rightarrow> bytes \<Rightarrow> attribute \<Rightarrow> host outcome" where
  "xorAddr ipString tid a =
     rbind (xorLoop (avalue a) tid (length (avalue a) - 4) 0 (replicate 16 0)) (\<lambda>xorIP.
     rbind (go_get (avalue a) 1) (\<lambda>f.
     let fam = ucast f in
     rbind (rbind (go_slice (avalue a) 2 4) uint16Of) (\<lambda>port.
     rbind (if fam = attributeFamilyIPv4 then go_slice xorIP 0 4 else Inr xorIP) (\<lambda>xorIP.
     rbind (rbind (go_slice tid 0 2) uint16Of) (\<lambda>x.
     Inr \<lparr>family = fam, hostIP = ipString xorIP, hostPort = port XOR x\<rparr>)))))"

text \<open>
  \<open>spare\<close> holds the bytes of the underlying array behind the value: \<^verbatim>\<open>v.value[:8]\<close> may reach into them.
\<close>

definition rawAddr :: "(bytes \<Rightarrow> string) \<Rightarrow> bytes \<Rightarrow> attribute \<Rightarrow> host outcome" where
  "rawAddr ipString spare a =
     rbind (go_get (avalue a) 1) (\<lambda>f.
     let fam = ucast f in
     rbind (rbind (go_slice (avalue a) 2 4) uint16Of) (\<lambda>port.
     rbind (if fam = attributeFamilyIPv4 then go_slice (avalue a @ spare) 0 8 else Inr (avalue a)) (\<lambda>v.
     rbind (go_slice v 4 (int (length v))) (\<lambda>ip.
     Inr \<lparr>family = fam, hostIP = ipString ip, hostPort = port\<rparr>))))"

subsection \<open>Packets\<close>

record packet =
  ptypes :: "16 word"
  plength :: "16 word"
  transID :: bytes
  attributes :: "attribute list"

text \<open>\<open>rand\<close> is what \<^verbatim>\<open>rand.Read\<close> delivers: an error, or the twelve random bytes.\<close>

definition newPacket :: "string + bytes \<Rightarrow> string + packet" where
  "newPacket rand =
     (case rand of
        Inl e \<Rightarrow> Inl e
      | Inr r \<Rightarrow> Inr \<lparr>ptypes = 0, plength = 0, transID = putUint32 magicCookie @ take 12 r, attributes = []\<rparr>)"

definition addAttribute :: "attribute \<Rightarrow> packet \<Rightarrow> packet" where
  "addAttribute a p =
     p\<lparr>attributes := attributes p @ [a], plength := plength p + (align (alength a) + 4)\<rparr>"

definition attributeBytes :: "attribute \<Rightarrow> bytes" where
  "attributeBytes a = putUint16 (atypes a) @ putUint16 (alength a) @ avalue a"

definition packetBytes :: "packet \<Rightarrow> bytes" where
  "packetBytes p =
     putUint16 (ptypes p) @ putUint16 (plength p) @ transID p @ concat (map attributeBytes (attributes p))"

definition newFingerprintAttribute :: "packet \<Rightarrow> attribute" where
  "newFingerprintAttribute p =
     newAttribute attributeFingerprint (putUint32 (checksumIEEE (packetBytes p) XOR fingerprint))"

text \<open>
  The loop over the attributes; \<open>None\<close> is a loop that never ends.  Its results are a panic, an
  error, or the packet.
\<close>

partial_function (option) parseLoop :: "bytes \<Rightarrow> 16 word \<Rightarrow> packet \<Rightarrow> (string + packet) outcome option" where
  "parseLoop bs pos p =
     (if pos + 4 < word_of_nat (length bs) then
        (case rbind (go_slice bs (uint pos) (uint (pos + 2))) uint16Of of
           Inl e \<Rightarrow> Some (Inl e)
         | Inr t \<Rightarrow>
        (case rbind (go_slice bs (uint (pos + 2)) (uint (pos + 4))) uint16Of of
           Inl e \<Rightarrow> Some (Inl e)
         | Inr len \<Rightarrow>
             let end = pos + 4 + len in
             if end < pos + 4 \<or> end > word_of_nat (length bs)
             then Some (Inr (Inl ''Received data format mismatch.''))
             else
               (case go_slice bs (uint (pos + 4)) (uint end) of
                  Inl e \<Rightarrow> Some (Inl e)
                | Inr value \<Rightarrow>
                    parseLoop bs (pos + (align len + 4)) (addAttribute (newAttribute t value) p))))
      else Some (Inr (Inr p)))"

definition newPacketFromBytes :: "bytes \<Rightarrow> (string + packet) outcome" where
  "newPacketFromBytes bs =
     (if length bs < 20 then Inr (Inl ''Received data length too short.'')
      else if length bs > 65535 + 20 then Inr (Inl ''Received data length too long.'')
      else
        rbind (uint16Of (take 2 bs)) (\<lambda>t.
        rbind (uint16Of (take 2 (drop 2 bs))) (\<lambda>len.
        let p = \<lparr>ptypes = t, plength = len, transID = take 16 (drop 4 bs), attributes = []\<rparr> in
        rbind (of_option Diverges (parseLoop (drop 20 bs) 0 p)) (\<lambda>r. r))))"

text \<open>The getters look for the first attribute of a type.\<close>

fun findAttribute :: "16 word \<Rightarrow> attribute list \<Rightarrow> attribute option" where
  "findAttribute t [] = None"
| "findAttribute t (a # as) = (if atypes a = t then Some a else findAttribute t as)"

definition getRawAddr :: "(bytes \<Rightarrow> string) \<Rightarrow> (attribute \<Rightarrow> bytes) \<Rightarrow> 16 word \<Rightarrow> packet \<Rightarrow> host option outcome" where
  "getRawAddr ipString spare t p =
     (case findAttribute t (attributes p) of
        None \<Rightarrow> Inr None
      | Some a \<Rightarrow> rbind (rawAddr ipString (spare a) a) (\<lambda>h. Inr (Some h)))"

definition getXorAddr :: "(bytes \<Rightarrow> string) \<Rightarrow> 16 word \<Rightarrow> packet \<Rightarrow> host option outcome" where
  "getXorAddr ipString t p =
     (case findAttribute t (attributes p) of
        None \<Rightarrow> Inr None
      | Some a \<Rightarrow> rbind (xorAddr ipString (transID p) a) (\<lambda>h. Inr (Some h)))"

definition getSourceAddr :: "(bytes \<Rightarrow> string) \<Rightarrow> (attribute \<Rightarrow> bytes) \<Rightarrow> packet \<Rightarrow> host option outcome" where
  "getSourceAddr ipString spare p = getRawAddr ipString spare attributeSourceAddress p"

definition getMappedAddr :: "(bytes \<Rightarrow> string) \<Rightarrow> (attribute \<Rightarrow> bytes) \<Rightarrow> packet \<Rightarrow> host option outcome" where
  "getMappedAddr ipString spare p = getRawAddr ipString spare attributeMappedAddress p"

definition getChangedAddr :: "(bytes \<Rightarrow> string) \<Rightarrow> (attribute \<Rightarrow> bytes) \<Rightarrow> packet \<Rightarrow> host option outcome" where
  "getChangedAddr ipString spare p = getRawAddr ipString spare attributeChangedAddress p"

definition getOtherAddr :: "(bytes \<Rightarrow> string) \<Rightarrow> (attribute \<Rightarrow> bytes) \<Rightarrow> packet \<Rightarrow> host option outcome" where
  "getOtherAddr ipString spare p = getRawAddr ipString spare attributeOtherAddress p"

definition getXorMappedAddr :: "(bytes \<Rightarrow> string) \<Rightarrow> packet \<Rightarrow> host option outcome" where
  "getXorMappedAddr ipString p =
     rbind (getXorAddr ipString attributeXorMappedAddress p) (\<lambda>r.
     if r = None then getXorAddr ipString attributeXorMappedAddressExp p else Inr r)"

text \<open>A binding request: the length of the fingerprint counts in its own checksum.\<close>

definition bindingRequest :: "bytes \<Rightarrow> packet \<Rightarrow> bool \<Rightarrow> bool \<Rightarrow> packet" where
  "bindingRequest software p changeIP changePort =
     (let p = p\<lparr>ptypes := typeBindingRequest\<rparr>;
          p = addAttribute (newSoftwareAttribute software) p;
          p = (if changeIP \<or> changePort then addAttribute (newChangeReqAttribute changeIP changePort) p else p);
          p = p\<lparr>plength := plength p + 8\<rparr>;
          a = newFingerprintAttribute p;
          p = p\<lparr>plength := plength p - 8\<rparr> in
      addAttribute a p)"

end
