(* ===== verification/StunSpec.thy ===== *)
theory StunSpec
  imports StunCodec
begin

text \<open>
  What the STUN codec promises.  A packet that fits the read buffer is always parsed in finitely many
  steps and without a panic, and the result is the one of a reference parser on lists (\<open>attrsOf\<close>);
  a built request is parsed back; the fingerprint covers the message before it; and the address
  getters panic exactly on attributes of certain lengths.
\<close>

subsection \<open>Alignment\<close>

definition pad4 :: "nat \<Rightarrow> nat" where
  "pad4 n = (n + 3) div 4 * 4"

lemma pad4_bounds: "n \<le> pad4 n" "pad4 n \<le> n + 3" "4 dvd pad4 n"
proof -
  have "pad4 n + (n + 3) mod 4 = n + 3" unfolding pad4_def by (metis div_mult_mod_eq)
  moreover have "(n + 3) mod 4 < 4" by simp
  ultimately show "n \<le> pad4 n" "pad4 n \<le> n + 3" by linarith+
  show "4 dvd pad4 n" by (simp add: pad4_def)
qed

lemma pad4_dvd [simp]: "4 dvd n \<Longrightarrow> pad4 n = n"
  by (auto simp: pad4_def dvd_def)

lemma pad4_4 [simp]: "pad4 4 = 4" "pad4 (Suc (Suc (Suc (Suc 0)))) = 4"
  by (simp_all add: pad4_def)

lemma align_div: "align n = (n + 3) div 4 * 4"
proof -
  have mask: "(0xfffc :: 16 word) = NOT (mask 2)" by (simp add: mask_eq_exp_minus_1)
  have shift: "2 \<le> i \<Longrightarrow> Suc (Suc (i - 2)) = i" "\<not> i < 2 \<Longrightarrow> Suc (Suc (i - 2)) = i" for i by simp_all
  have "(m :: 16 word) AND NOT (mask 2) = push_bit 2 (drop_bit 2 m)" for m
    by (rule bit_word_eqI) (auto simp: bit_simps shift)
  from this [of "n + 3", folded mask] show ?thesis
    by (simp add: align_def push_bit_eq_mult drop_bit_eq_div)
qed

lemma unat_align:
  assumes "unat n \<le> 65532"
  shows "unat (align n) = pad4 (unat n)"
proof -
  have 1: "unat (n + 3) = unat n + 3"
    using assms by (simp add: unat_word_ariths)
  have 2: "(unat n + 3) div 4 * 4 < 65536"
    using assms by linarith
  show ?thesis
    using 2 unfolding align_div pad4_def unat_word_ariths(2) unat_div 1 by simp
qed

lemma padding_length: "length bs \<le> 65532 \<Longrightarrow> length (padding bs) = pad4 (length bs)"
proof -
  assume b: "length bs \<le> 65532"
  have n: "unat (word_of_nat (length bs) :: 16 word) = length bs"
    using b by (simp add: unsigned_of_nat take_bit_nat_eq_self)
  have al: "unat (align (word_of_nat (length bs))) = pad4 (length bs)"
    using unat_align [of "word_of_nat (length bs)"] n b by simp
  have le: "word_of_nat (length bs) \<le> align (word_of_nat (length bs))"
    using n al pad4_bounds(1) [of "length bs"] by (simp add: word_le_nat_alt)
  have "unat (align (word_of_nat (length bs)) - word_of_nat (length bs)) = pad4 (length bs) - length bs"
    using unat_sub [OF le] n al by simp
  then show ?thesis
    using pad4_bounds(1) [of "length bs"] by (simp add: padding_def Let_def)
qed

lemma padding_aligned: "length bs \<le> 65532 \<Longrightarrow> 4 dvd length bs \<Longrightarrow> padding bs = bs"
  using padding_length [of bs] by (simp add: padding_def Let_def)

subsection \<open>The reference parser\<close>

definition be16 :: "8 word \<Rightarrow> 8 word \<Rightarrow> 16 word" where
  "be16 hi lo = push_bit 8 (ucast hi) OR ucast lo"

lemma be16_putUint16: "be16 (ucast (drop_bit 8 n)) (ucast n) = n"
  unfolding be16_def by (rule bit_word_eqI) (auto simp: bit_simps)

fun attrsOf :: "bytes \<Rightarrow> attribute list option" where
  "attrsOf (t1 # t0 # l1 # l0 # b # rest) =
     (let n = unat (be16 l1 l0) in
      if length (b # rest) < n then None
      else map_option ((#) (newAttribute (be16 t1 t0) (take n (b # rest))))
             (attrsOf (drop (pad4 n) (b # rest))))"
| "attrsOf bs = Some []"

declare attrsOf.simps(1) [simp del]

lemma attrsOf_step:
  "rest \<noteq> [] \<Longrightarrow> attrsOf (t1 # t0 # l1 # l0 # rest) =
     (let n = unat (be16 l1 l0) in
      if length rest < n then None
      else map_option ((#) (newAttribute (be16 t1 t0) (take n rest))) (attrsOf (drop (pad4 n) rest)))"
  by (cases rest) (simp_all only: attrsOf.simps(1) refl not_True_eq_False simp_thms)

lemma attrsOf_short: "length bs \<le> 4 \<Longrightarrow> attrsOf bs = Some []"
  by (induction bs rule: attrsOf.induct) simp_all

definition parsed :: "packet \<Rightarrow> attribute list \<Rightarrow> packet" where
  "parsed p as = foldl (\<lambda>p a. addAttribute a p) p as"

definition parse_result :: "packet \<Rightarrow> attribute list option \<Rightarrow> string + packet" where
  "parse_result p r = (case r of None \<Rightarrow> Inl ''Received data format mismatch.'' | Some as \<Rightarrow> Inr (parsed p as))"

lemma parsed_Cons: "parsed p (a # as) = parsed (addAttribute a p) as"
  by (simp add: parsed_def)

lemma parse_result_Cons:
  "parse_result p (map_option ((#) a) r) = parse_result (addAttribute a p) r"
  by (cases r) (simp_all add: parse_result_def parsed_Cons)

lemma drop4:
  assumes "i + 3 < length bs"
  shows "drop i bs = bs ! i # bs ! (i + 1) # bs ! (i + 2) # bs ! (i + 3) # drop (i + 4) bs"
proof -
  have "drop i bs = bs ! i # drop (Suc i) bs" if "i < length bs" for i
    using that by (simp add: Cons_nth_drop_Suc)
  from this [of i] this [of "i + 1"] this [of "i + 2"] this [of "i + 3"]
  show ?thesis using assms by (simp add: eval_nat_numeral)
qed

lemma slice2:
  assumes i: "j = i + 1" "j < length bs" "k = i + 2"
  shows "go_slice bs (int i) (int k) = Inr [bs ! i, bs ! j]"
proof -
  have "take 2 (drop i bs) = [bs ! i, bs ! j]"
    using i by (subst Cons_nth_drop_Suc [symmetric], simp)
      (subst Cons_nth_drop_Suc [symmetric], simp_all add: eval_nat_numeral)
  then show ?thesis using i by (simp add: nat_add_distrib)
qed

subsection \<open>The loop is the reference parser\<close>

lemma parseLoop_stop: "\<not> pos + 4 < word_of_nat (length bs) \<Longrightarrow> parseLoop bs pos p = Some (Inr (Inr p))"
  by (simp add: parseLoop.simps [of bs pos])

lemma parseLoop_step:
  assumes len: "length bs \<le> 65528" and pos: "unat pos + 4 < length bs"
  defines "i \<equiv> unat pos" and "n \<equiv> unat (be16 (bs ! (unat pos + 2)) (bs ! (unat pos + 3)))"
  defines "a \<equiv> newAttribute (be16 (bs ! i) (bs ! (i + 1))) (take n (drop (i + 4) bs))"
  shows "length bs < i + 4 + n \<Longrightarrow> parseLoop bs pos p = Some (Inr (Inl ''Received data format mismatch.''))"
    and "i + 4 + n \<le> length bs \<Longrightarrow>
           \<exists>pos'. unat pos' = i + 4 + pad4 n \<and> parseLoop bs pos p = parseLoop bs pos' (addAttribute a p)"
proof -
  let ?l = "be16 (bs ! (i + 2)) (bs ! (i + 3))"
  have n: "n = unat ?l" by (simp add: n_def i_def)
  have i: "i + 4 < length bs" using pos by (simp add: i_def)
  have L: "unat (word_of_nat (length bs) :: 16 word) = length bs"
    using len by (simp add: unsigned_of_nat take_bit_nat_eq_self)
  have p2: "unat (pos + 2) = i + 2" and p4: "unat (pos + 4) = i + 4"
    using len pos by (simp_all add: unat_word_ariths i_def)
  have go: "pos + 4 < word_of_nat (length bs)"
    using i by (simp add: word_less_nat_alt p4 L)
  have u: "uint pos = int i" "uint (pos + 2) = int (i + 2)" "uint (pos + 4) = int (i + 4)"
    unfolding uint_nat p2 p4 by (simp_all add: i_def)
  have t: "rbind (go_slice bs (uint pos) (uint (pos + 2))) uint16Of = Inr (be16 (bs ! i) (bs ! (i + 1)))"
  proof -
    have "go_slice bs (int i) (int (i + 2)) = Inr [bs ! i, bs ! (i + 1)]"
      using i by (intro slice2) simp_all
    then show ?thesis unfolding u by (simp only: rbind_simps uint16Of.simps be16_def)
  qed
  have l: "rbind (go_slice bs (uint (pos + 2)) (uint (pos + 4))) uint16Of = Inr ?l"
  proof -
    have "go_slice bs (int (i + 2)) (int (i + 4)) = Inr [bs ! (i + 2), bs ! (i + 3)]"
      using i by (intro slice2) simp_all
    then show ?thesis unfolding u by (simp only: rbind_simps uint16Of.simps be16_def)
  qed
  have ends: "unat (pos + 4 + ?l) = (i + 4 + n) mod 65536"
    by (simp add: unat_word_ariths(1) [of "pos + 4"] p4 n)
  have n16: "n < 65536" using unsigned_less [of ?l, where 'a = nat] by (simp add: n)
  show "parseLoop bs pos p = Some (Inr (Inl ''Received data format mismatch.''))" if big: "length bs < i + 4 + n"
  proof -
    have "pos + 4 + ?l < pos + 4 \<or> word_of_nat (length bs) < pos + 4 + ?l"
    proof (cases "i + 4 + n < 65536")
      case True
      then show ?thesis using big unfolding word_less_nat_alt ends L by simp
    next
      case False
      then have "(i + 4 + n) mod 65536 = i + 4 + n - 65536"
        using n16 i len by (simp add: le_mod_geq)
      then show ?thesis using False n16 unfolding word_less_nat_alt ends p4 by (intro disjI1) linarith
    qed
    then show ?thesis
      using go t l by (subst parseLoop.simps) (simp only: Let_def if_True sum.case)
  qed
  show "\<exists>pos'. unat pos' = i + 4 + pad4 n \<and> parseLoop bs pos p = parseLoop bs pos' (addAttribute a p)"
    if fits: "i + 4 + n \<le> length bs"
  proof (intro exI conjI)
    have e: "unat (pos + 4 + ?l) = i + 4 + n" using ends fits len by simp
    then have ue: "uint (pos + 4 + ?l) = int (i + 4 + n)" by (simp only: uint_nat)
    have al: "unat (align ?l) = pad4 n" using unat_align [of ?l] fits len n by simp
    have "unat (align ?l + 4) = pad4 n + 4"
      using pad4_bounds(2) [of n] fits len unfolding unat_word_ariths(1) al by simp
    then show "unat (pos + (align ?l + 4)) = i + 4 + pad4 n"
      using pad4_bounds(2) [of n] fits len unfolding unat_word_ariths(1) [of pos] i_def by simp
    have v: "go_slice bs (uint (pos + 4)) (uint (pos + 4 + ?l)) = Inr (take n (drop (i + 4) bs))"
      unfolding u ue using fits by (simp add: nat_add_distrib)
    have "\<not> (pos + 4 + ?l < pos + 4 \<or> word_of_nat (length bs) < pos + 4 + ?l)"
      using fits unfolding word_less_nat_alt e p4 L by simp
    then show "parseLoop bs pos p = parseLoop bs (pos + (align ?l + 4)) (addAttribute a p)"
      using go t l v by (subst parseLoop.simps) (simp only: Let_def if_True if_False sum.case a_def)
  qed
qed

lemma parseLoop_attrsOf:
  assumes "length bs \<le> 65528" "unat pos \<le> length bs + 3"
  shows "parseLoop bs pos p = Some (Inr (parse_result p (attrsOf (drop (unat pos) bs))))"
  using assms
proof (induction "length bs + 4 - unat pos" arbitrary: pos p rule: less_induct)
  case less
  let ?i = "unat pos"
  show ?case
  proof (cases "?i + 4 < length bs")
    case False
    have "unat (pos + 4) = ?i + 4" "unat (word_of_nat (length bs) :: 16 word) = length bs"
      using less.prems by (simp_all add: unat_word_ariths unsigned_of_nat take_bit_nat_eq_self)
    then have "\<not> pos + 4 < word_of_nat (length bs)"
      using False by (simp add: word_less_nat_alt)
    then show ?thesis using False
      by (simp add: parseLoop_stop attrsOf_short parse_result_def parsed_def)
  next
    case True
    let ?n = "unat (be16 (bs ! (?i + 2)) (bs ! (?i + 3)))"
    let ?a = "newAttribute (be16 (bs ! ?i) (bs ! (?i + 1))) (take ?n (drop (?i + 4) bs))"
    have ref: "attrsOf (drop ?i bs) = (if length bs < ?i + 4 + ?n then None
        else map_option ((#) ?a) (attrsOf (drop (?i + 4 + pad4 ?n) bs)))"
    proof -
      have "?i + 3 < length bs" "drop (?i + 4) bs \<noteq> []" using True by simp_all
      note eq = attrsOf_step [OF this(2)] drop4 [OF this(1)]
      have c: "length (drop (?i + 4) bs) < ?n \<longleftrightarrow> length bs < ?i + 4 + ?n" using True by auto
      show ?thesis unfolding eq Let_def c drop_drop by (simp only: add.commute)
    qed
    show ?thesis
    proof (cases "length bs < ?i + 4 + ?n")
      case big: True
      show ?thesis
        using parseLoop_step(1) [OF less.prems(1) True big] big by (simp add: ref parse_result_def)
    next
      case False
      then obtain pos' where pos': "unat pos' = ?i + 4 + pad4 ?n"
        and eq: "parseLoop bs pos p = parseLoop bs pos' (addAttribute ?a p)"
        using parseLoop_step(2) [OF less.prems(1) True] by (auto simp: not_less)
      have le: "unat pos' \<le> length bs + 3" using False pos' pad4_bounds(2) [of ?n] by linarith
      then have "parseLoop bs pos' (addAttribute ?a p)
          = Some (Inr (parse_result (addAttribute ?a p) (attrsOf (drop (unat pos') bs))))"
        using True pos' less.prems by (intro less.hyps) auto
      then show ?thesis
        unfolding eq ref pos' parse_result_Cons [symmetric] using False by simp
    qed
  qed
qed

definition header :: "bytes \<Rightarrow> packet" where
  "header bs = \<lparr>ptypes = be16 (bs ! 0) (bs ! 1), plength = be16 (bs ! 2) (bs ! 3),
                transID = take 16 (drop 4 bs), attributes = []\<rparr>"

text \<open>
  C10: parsing any packet of at most 65548 bytes ends without a panic, in an error or in the packet
  whose attributes the reference parser reads.  (Packets are read into a buffer of 1024 bytes.)
\<close>

theorem parse_total_and_exact:
  "length bs \<le> 65548 \<Longrightarrow>
   newPacketFromBytes bs =
     Inr (if length bs < 20 then Inl ''Received data length too short.''
          else parse_result (header bs) (attrsOf (drop 20 bs)))"
proof (cases "length bs < 20")
  case True
  then show ?thesis by (simp add: newPacketFromBytes_def)
next
  case False
  assume le: "length bs \<le> 65548"
  from False have "0 + 3 < length bs" by simp
  from drop4 [OF this] obtain b0 b1 b2 b3 rest where bs: "bs = b0 # b1 # b2 # b3 # rest"
    by (metis drop0)
  show ?thesis
    using le False parseLoop_attrsOf [of "drop 20 bs" 0 "header bs"]
    by (simp add: newPacketFromBytes_def header_def bs be16_def)
qed

subsection \<open>What is built is parsed back\<close>

definition wf_attr :: "attribute \<Rightarrow> bool" where
  "wf_attr a \<longleftrightarrow> 4 dvd length (avalue a) \<and> length (avalue a) \<le> 65532
     \<and> alength a = word_of_nat (length (avalue a))"

lemma wf_newAttribute: "length v \<le> 65532 \<Longrightarrow> wf_attr (newAttribute t v)"
proof -
  assume v: "length v \<le> 65532"
  have "4 dvd pad4 (length v)" by (rule pad4_bounds)
  moreover have "pad4 (length v) \<le> 65532"
    using v unfolding pad4_def by presburger
  ultimately show ?thesis
    using v by (simp add: wf_attr_def newAttribute_def Let_def padding_length)
qed

lemma newAttribute_wf: "wf_attr a \<Longrightarrow> newAttribute (atypes a) (avalue a) = a"
  by (simp add: wf_attr_def newAttribute_def Let_def padding_aligned)

lemma length_attributeBytes: "length (attributeBytes a) = 4 + length (avalue a)"
  by (simp add: attributeBytes_def putUint16_def)

lemma attrsOf_attributeBytes:
  assumes "wf_attr a" and "avalue a @ rest \<noteq> []"
  shows "attrsOf (attributeBytes a @ rest) = map_option ((#) a) (attrsOf rest)"
proof -
  have n: "unat (alength a) = length (avalue a)"
    using assms(1) by (simp add: wf_attr_def unsigned_of_nat take_bit_nat_eq_self)
  have "attrsOf (attributeBytes a @ rest) =
      (if length (avalue a @ rest) < length (avalue a) then None
       else map_option ((#) (newAttribute (atypes a) (take (length (avalue a)) (avalue a @ rest))))
              (attrsOf (drop (pad4 (length (avalue a))) (avalue a @ rest))))"
    using attrsOf_step [OF assms(2)] by (simp add: attributeBytes_def putUint16_def be16_putUint16 n Let_def)
  also have "\<dots> = map_option ((#) a) (attrsOf rest)"
    using assms(1) newAttribute_wf [OF assms(1)] by (simp add: wf_attr_def)
  finally show ?thesis .
qed

lemma attrsOf_attributes:
  assumes "\<forall>a\<in>set as. wf_attr a" and "as \<noteq> [] \<Longrightarrow> avalue (last as) \<noteq> []"
  shows "attrsOf (concat (map attributeBytes as)) = Some as"
  using assms
proof (induction as)
  case (Cons a as)
  have "avalue a @ concat (map attributeBytes as) \<noteq> []"
    using Cons.prems(2) by (cases as) (auto simp: attributeBytes_def putUint16_def)
  then have "attrsOf (attributeBytes a @ concat (map attributeBytes as))
      = map_option ((#) a) (attrsOf (concat (map attributeBytes as)))"
    using Cons.prems(1) by (intro attrsOf_attributeBytes) simp_all
  moreover have "as \<noteq> [] \<Longrightarrow> avalue (last as) \<noteq> []" using Cons.prems(2) by simp
  ultimately show ?case using Cons.IH Cons.prems(1) by simp
qed simp

lemma parsed_simps [simp]:
  "ptypes (parsed p as) = ptypes p" "transID (parsed p as) = transID p"
  "attributes (parsed p as) = attributes p @ as"
  "plength (parsed p as) = plength p + sum_list (map (\<lambda>a. align (alength a) + 4) as)"
  by (induction as arbitrary: p) (simp_all add: parsed_def addAttribute_def algebra_simps)

lemma header_packetBytes:
  assumes "length (transID p) = 16"
  shows "header (packetBytes p) = p\<lparr>attributes := []\<rparr>"
    and "drop 20 (packetBytes p) = concat (map attributeBytes (attributes p))"
  using assms
  by (simp_all add: header_def packetBytes_def putUint16_def be16_putUint16)

lemma length_packetBytes:
  "length (transID p) = 16 \<Longrightarrow>
   length (packetBytes p) = 20 + sum_list (map (\<lambda>a. 4 + length (avalue a)) (attributes p))"
  by (simp add: packetBytes_def putUint16_def length_concat length_attributeBytes comp_def)

lemma parse_packetBytes:
  assumes "length (transID p) = 16" "length (packetBytes p) \<le> 65548"
    and "\<forall>a\<in>set (attributes p). wf_attr a" "attributes p \<noteq> [] \<Longrightarrow> avalue (last (attributes p)) \<noteq> []"
  shows "newPacketFromBytes (packetBytes p) = Inr (Inr (parsed (p\<lparr>attributes := []\<rparr>) (attributes p)))"
  using assms attrsOf_attributes [OF assms(3,4)]
  by (simp add: parse_total_and_exact header_packetBytes parse_result_def) (simp add: length_packetBytes)

lemma putUint32_nonempty: "length (putUint32 w) = 4"
  by (simp add: putUint32_def)

definition wf_packet :: "packet \<Rightarrow> bool" where
  "wf_packet p \<longleftrightarrow> length (transID p) = 16 \<and> (\<forall>a\<in>set (attributes p). wf_attr a)"

text \<open>The attributes of a request before the fingerprint.\<close>

definition requestAttrs :: "bytes \<Rightarrow> bool \<Rightarrow> bool \<Rightarrow> attribute list" where
  "requestAttrs software changeIP changePort =
     newSoftwareAttribute software # (if changeIP \<or> changePort then [newChangeReqAttribute changeIP changePort] else [])"

definition unsigned_request :: "bytes \<Rightarrow> packet \<Rightarrow> bool \<Rightarrow> bool \<Rightarrow> packet" where
  "unsigned_request software p changeIP changePort =
     \<lparr>ptypes = typeBindingRequest,
      plength = plength p + sum_list (map (\<lambda>a. align (alength a) + 4) (requestAttrs software changeIP changePort)) + 8,
      transID = transID p, attributes = attributes p @ requestAttrs software changeIP changePort\<rparr>"

lemma alength_fingerprint: "alength (newFingerprintAttribute q) = 4"
  and avalue_fingerprint: "avalue (newFingerprintAttribute q) = putUint32 (checksumIEEE (packetBytes q) XOR fingerprint)"
  by (simp_all add: newFingerprintAttribute_def newAttribute_def Let_def padding_aligned putUint32_nonempty)

lemma bindingRequest_alt:
  "bindingRequest software p changeIP changePort =
     (let q = unsigned_request software p changeIP changePort in
      q\<lparr>attributes := attributes q @ [newFingerprintAttribute q]\<rparr>)"
proof -
  have a: "align 4 = 4" by (simp add: align_def)
  show ?thesis
    by (cases p) (simp add: bindingRequest_def unsigned_request_def requestAttrs_def Let_def addAttribute_def
        alength_fingerprint a algebra_simps)
qed

lemma requestAttrs_wf: "length software \<le> 65000 \<Longrightarrow> \<forall>a\<in>set (requestAttrs software cI cP). wf_attr a"
  by (auto simp: requestAttrs_def newSoftwareAttribute_def newChangeReqAttribute_def intro!: wf_newAttribute)

lemma request_bytes:
  fixes cI cP p software
  defines "q \<equiv> unsigned_request software p cI cP"
  shows "packetBytes (bindingRequest software p cI cP) =
      packetBytes q @ putUint16 attributeFingerprint @ putUint16 4
        @ putUint32 (checksumIEEE (packetBytes q) XOR fingerprint)"
proof -
  have "atypes (newFingerprintAttribute q) = attributeFingerprint"
    by (simp add: newFingerprintAttribute_def newAttribute_def Let_def)
  moreover have "packetBytes (q\<lparr>attributes := attributes q @ [a]\<rparr>) = packetBytes q @ attributeBytes a" for a
    by (simp add: packetBytes_def)
  ultimately show ?thesis
    by (simp add: bindingRequest_alt Let_def q_def [symmetric] attributeBytes_def alength_fingerprint
        avalue_fingerprint)
qed

lemma newAttribute_length:
  "length v \<le> 65532 \<Longrightarrow> length (avalue (newAttribute t v)) = pad4 (length v)"
  by (simp add: newAttribute_def Let_def padding_length)

lemma length_request:
  assumes "length (transID p) = 16" "attributes p = []" "length software \<le> 65000"
  shows "length (packetBytes (bindingRequest software p cI cP))
           = 32 + pad4 (length software) + (if cI \<or> cP then 8 else 0)"
proof -
  have "length (avalue (newSoftwareAttribute software)) = pad4 (length software)"
    "length (avalue (newChangeReqAttribute cI cP)) = 4"
    using assms(3) by (simp_all add: newSoftwareAttribute_def newChangeReqAttribute_def newAttribute_length)
  then show ?thesis
    using assms unfolding request_bytes
    by (simp add: length_packetBytes unsigned_request_def requestAttrs_def putUint32_nonempty putUint16_def)
qed

lemma newPacket_simps:
  assumes "newPacket (Inr r) = Inr p" "length r = 12"
  shows "length (transID p) = 16" "attributes p = []" "plength p = 0"
  using assms by (auto simp: newPacket_def putUint32_nonempty)

lemma plength_request:
  assumes "attributes p = []" "plength p = 0" "length software \<le> 65000"
  shows "unat (plength (bindingRequest software p cI cP))
           = 12 + pad4 (length software) + (if cI \<or> cP then 8 else 0)"
proof -
  have wf: "wf_attr (newSoftwareAttribute software)" "wf_attr (newChangeReqAttribute cI cP)"
    using assms(3) by (auto simp: newSoftwareAttribute_def newChangeReqAttribute_def intro!: wf_newAttribute)
  have al: "align (alength a) = word_of_nat (length (avalue a))" if "wf_attr a" for a
    using that unat_align [of "alength a"] by (intro word_unat_eq_iff [THEN iffD2])
      (simp add: wf_attr_def unsigned_of_nat take_bit_nat_eq_self)
  have "length (avalue (newSoftwareAttribute software)) = pad4 (length software)"
    "length (avalue (newChangeReqAttribute cI cP)) = 4"
    using assms(3) by (simp_all add: newSoftwareAttribute_def newChangeReqAttribute_def newAttribute_length)
  then have "plength (bindingRequest software p cI cP)
      = word_of_nat (12 + pad4 (length software) + (if cI \<or> cP then 8 else 0))"
    using assms wf by (simp add: bindingRequest_alt Let_def unsigned_request_def requestAttrs_def al)
  moreover have "pad4 (length software) \<le> 65003"
    using assms(3) pad4_bounds(2) [of "length software"] by linarith
  moreover have "unat (word_of_nat n :: 16 word) = n" if "n < 65536" for n
    using that by (simp add: unsigned_of_nat take_bit_nat_eq_self)
  ultimately show ?thesis by (simp del: of_nat_add)
qed

text \<open>
  a request built on a fresh packet carries the number of bytes after its header as its length,
  and ends in a fingerprint over all the bytes before the fingerprint.
\<close>

theorem request_length_and_fingerprint:
  fixes p :: packet and cI cP :: bool
  assumes "newPacket (Inr r) = Inr p" "length r = 12" "length software \<le> 65000"
  defines "q \<equiv> bindingRequest software p cI cP"
  shows "unat (plength q) + 20 = length (packetBytes q)
    \<and> (\<exists>m. packetBytes q = m @ putUint16 attributeFingerprint @ putUint16 4
                              @ putUint32 (checksumIEEE m XOR fingerprint)
        \<and> take 2 (drop 2 m) = putUint16 (word_of_nat (length (packetBytes q) - 20)))"
proof -
  note p = newPacket_simps [OF assms(1,2)]
  let ?u = "unsigned_request software p cI cP"
  have len: "unat (plength q) + 20 = length (packetBytes q)"
    unfolding q_def using length_request [OF p(1,2) assms(3)] plength_request [OF p(2,3) assms(3)] by simp
  then have "plength q = word_of_nat (length (packetBytes q) - 20)"
    by (metis add_diff_cancel_right' of_nat_unat ucast_id)
  moreover have "plength q = plength ?u"
    by (simp add: q_def bindingRequest_alt Let_def)
  moreover have "take 2 (drop 2 (packetBytes ?u)) = putUint16 (plength ?u)"
    by (simp add: packetBytes_def putUint16_def)
  moreover have "packetBytes q = packetBytes ?u @ putUint16 attributeFingerprint @ putUint16 4
      @ putUint32 (checksumIEEE (packetBytes ?u) XOR fingerprint)"
    unfolding q_def by (rule request_bytes)
  ultimately show ?thesis using len by metis
qed

text \<open>
  the parser reads a built request back: same type, transaction id and attributes.  The length
  of the packet it returns is twice the length on the wire.
\<close>

theorem request_round_trip:
  assumes "newPacket (Inr r) = Inr p" "length r = 12" "length software \<le> 65000"
  shows "newPacketFromBytes (packetBytes (bindingRequest software p cI cP)) =
    Inr (Inr ((bindingRequest software p cI cP)
      \<lparr>plength := 2 * plength (bindingRequest software p cI cP)\<rparr>))"
proof -
  note p = newPacket_simps [OF assms(1,2)]
  let ?q = "bindingRequest software p cI cP" and ?u = "unsigned_request software p cI cP"
  have fp: "wf_attr (newFingerprintAttribute ?u)"
    by (simp add: newFingerprintAttribute_def wf_newAttribute putUint32_nonempty)
  have attrs: "attributes ?q = requestAttrs software cI cP @ [newFingerprintAttribute ?u]"
    using p by (simp add: bindingRequest_alt Let_def unsigned_request_def)
  have "pad4 (length software) \<le> 65003"
    using assms(3) pad4_bounds(2) [of "length software"] by linarith
  then have "length (packetBytes ?q) \<le> 65548"
    using length_request [OF p(1,2) assms(3)] by simp
  moreover have "length (transID ?q) = 16"
    using p by (simp add: bindingRequest_alt Let_def unsigned_request_def)
  moreover have "\<forall>a\<in>set (attributes ?q). wf_attr a"
    using requestAttrs_wf [OF assms(3)] fp by (auto simp: attrs)
  moreover have "avalue (last (attributes ?q)) \<noteq> []"
    by (simp add: attrs avalue_fingerprint putUint32_def)
  ultimately have "newPacketFromBytes (packetBytes ?q)
      = Inr (Inr (parsed (?q\<lparr>attributes := []\<rparr>) (attributes ?q)))"
    by (intro parse_packetBytes)
  moreover have "align 4 = 4" by (simp add: align_def)
  then have "plength ?q = sum_list (map (\<lambda>a. align (alength a) + 4) (attributes ?q))"
    using p by (simp add: attrs bindingRequest_alt Let_def unsigned_request_def alength_fingerprint)
  then have "parsed (?q\<lparr>attributes := []\<rparr>) (attributes ?q) = ?q\<lparr>plength := 2 * plength ?q\<rparr>"
    by (intro packet.equality) simp_all
  ultimately show ?thesis by simp
qed

theorem request_round_trip_witness:
  "newPacketFromBytes (packetBytes (bindingRequest [83] \<lparr>ptypes = 0, plength = 0,
      transID = putUint32 magicCookie @ replicate 12 7, attributes = []\<rparr> True False)) \<noteq> Inl Diverges"
  using request_round_trip [of "replicate 12 7"] by (simp add: newPacket_def)

theorem request_length_and_fingerprint_witness:
  "unat (plength (bindingRequest [83, 84] \<lparr>ptypes = 0, plength = 0,
      transID = putUint32 magicCookie @ replicate 12 7, attributes = []\<rparr> False False)) + 20 = 36"
proof -
  let ?p = "\<lparr>ptypes = 0, plength = 0, transID = putUint32 magicCookie @ replicate 12 7, attributes = []\<rparr>"
  have "length (packetBytes (bindingRequest [83, 84] ?p False False)) = 36"
    by (simp add: length_request putUint32_nonempty pad4_def)
  then show ?thesis
    using request_length_and_fingerprint [of "replicate 12 7" ?p "[83, 84]" False False]
    by (simp add: newPacket_def)
qed

theorem parse_total_and_exact_witness:
  "newPacketFromBytes (replicate 10 0) = Inr (Inl ''Received data length too short.'')"
  using parse_total_and_exact [of "replicate 10 0"] by simp

text \<open>The address getters: the value must hold 4 to 20 bytes.\<close>

lemma xorLoop_ok:
  "int n + int i + 4 \<le> int (length v) \<Longrightarrow> n + i \<le> length tid \<Longrightarrow> n + i \<le> length buf \<Longrightarrow>
   \<exists>r. xorLoop v tid n i buf = Inr r \<and> length r = length buf"
proof (induction n arbitrary: i buf)
  case (Suc n)
  let ?b = "buf[i := v ! nat (int i + 4) XOR tid ! i]"
  have "\<exists>r. xorLoop v tid n (Suc i) ?b = Inr r \<and> length r = length ?b"
    using Suc.prems by (intro Suc.IH) simp_all
  then show ?case using Suc.prems by simp
qed simp

lemma xorLoop_panics:
  "length buf = 16 \<Longrightarrow> length tid = 16 \<Longrightarrow> n + i > 16 \<Longrightarrow> i \<le> 16 \<Longrightarrow> n + i + 4 = length v \<Longrightarrow>
   \<exists>e. xorLoop v tid n i buf = Inl e"
proof (induction n arbitrary: i buf)
  case (Suc n)
  show ?case
  proof (cases "i = 16")
    case True
    then show ?thesis using Suc.prems by (simp add: go_get_def)
  next
    case False
    then show ?thesis using Suc.prems by (simp add: Suc.IH)
  qed
qed simp

lemma xorAddr_panics_iff:
  assumes tid: "length tid = 16"
  shows "(\<exists>e. xorAddr ipString tid a = Inl e) \<longleftrightarrow> length (avalue a) < 4 \<or> 20 < length (avalue a)"
proof -
  let ?v = "avalue a" and ?loop = "xorLoop (avalue a) tid (length (avalue a) - 4) 0 (replicate 16 0)"
  consider "length ?v < 4" | "4 \<le> length ?v" "length ?v \<le> 20" | "20 < length ?v" by linarith
  then show ?thesis
  proof cases
    case 1
    then have "\<not> int 4 \<le> int (length ?v)" by simp
    then show ?thesis using 1 by (simp add: xorAddr_def Let_def go_get_def go_slice_def)
  next
    case 2
    then obtain r where r: "?loop = Inr r" "length r = 16"
      using xorLoop_ok [of "length ?v - 4" 0 ?v tid "replicate 16 0"] tid by (auto simp: le_diff_conv)
    have "rbind (go_slice ?v 2 4) uint16Of = Inr (be16 (?v ! 2) (?v ! 3))"
      "rbind (go_slice tid 0 2) uint16Of = Inr (be16 (tid ! 0) (tid ! 1))"
      using slice2 [of 3 2 ?v 4] slice2 [of 1 0 tid 2] 2 tid by (simp_all add: be16_def)
    then show ?thesis using 2 r by (simp add: xorAddr_def Let_def)
  next
    case 3
    then obtain e where "?loop = Inl e"
      using xorLoop_panics [of "replicate 16 0" tid "length ?v - 4" 0 ?v] tid by auto
    then show ?thesis using 3 by (simp add: xorAddr_def)
  qed
qed

lemma attrsOf_dvd:
  "attrsOf bs = Some as \<Longrightarrow> length bs \<le> 65528 \<Longrightarrow> \<forall>a\<in>set as. 4 dvd length (avalue a)"
proof (induction bs arbitrary: as rule: attrsOf.induct)
  case (1 t1 t0 l1 l0 b rest)
  let ?n = "unat (be16 l1 l0)"
  from 1 obtain as' where n: "?n \<le> length (b # rest)"
    and rest: "attrsOf (drop (pad4 ?n) (b # rest)) = Some as'"
    and as: "as = newAttribute (be16 t1 t0) (take ?n (b # rest)) # as'"
    by (auto simp: attrsOf.simps(1) Let_def split: if_splits)
  have "\<forall>a\<in>set as'. 4 dvd length (avalue a)"
    using "1.IH" [OF refl] n rest "1.prems"(2) by simp
  moreover have "4 dvd length (avalue (newAttribute (be16 t1 t0) (take ?n (b # rest))))"
    using n "1.prems"(2) by (subst newAttribute_length) (simp_all add: pad4_bounds)
  ultimately show ?case by (simp add: as)
qed simp_all

lemma findAttribute_in: "findAttribute t as = Some a \<Longrightarrow> a \<in> set as"
  by (induction t as rule: findAttribute.induct) (auto split: if_splits)

lemma parsed_packet:
  assumes "newPacketFromBytes bs = Inr (Inr p)" "length bs \<le> 65548"
  shows "length (transID p) = 16" "\<forall>a\<in>set (attributes p). 4 dvd length (avalue a)"
proof -
  from assms obtain as where as: "attrsOf (drop 20 bs) = Some as" "p = parsed (header bs) as" "20 \<le> length bs"
    by (auto simp: parse_total_and_exact parse_result_def split: if_splits option.splits)
  then show "length (transID p) = 16" by (simp add: header_def)
  show "\<forall>a\<in>set (attributes p). 4 dvd length (avalue a)"
    using as attrsOf_dvd [OF as(1)] assms(2) by (simp add: header_def)
qed

text \<open>
  on a packet read from the network, decoding an XOR address attribute panics exactly when the
  attribute is empty or holds more than 20 bytes; nothing checks its length before.
\<close>

theorem xor_addr_panics_on_bad_length:
  assumes "newPacketFromBytes bs = Inr (Inr p)" "length bs \<le> 65548"
    and "findAttribute t (attributes p) = Some a"
  shows "(\<exists>e. getXorAddr ipString t p = Inl e) \<longleftrightarrow> avalue a = [] \<or> 20 < length (avalue a)"
proof -
  note p = parsed_packet [OF assms(1,2)]
  have "length (avalue a) < 4 \<longleftrightarrow> avalue a = []"
    using p(2) findAttribute_in [OF assms(3)] by (auto dest!: bspec elim!: dvdE)
  moreover have "(\<exists>e. getXorAddr ipString t p = Inl e) \<longleftrightarrow> (\<exists>e. xorAddr ipString (transID p) a = Inl e)"
    by (auto simp: getXorAddr_def assms(3) rbind_eq_Inl)
  ultimately show ?thesis using xorAddr_panics_iff [OF p(1)] by simp
qed

definition bad_response :: bytes where
  "bad_response = [1, 1, 0, 12] @ replicate 16 0 @ [0, 0x20, 0, 0, 0, 1, 0, 4, 0, 1, 2, 3]"

theorem xor_addr_panics_on_bad_length_witness:
  "\<exists>p e. newPacketFromBytes bad_response = Inr (Inr p)
     \<and> getXorAddr (\<lambda>_. []) attributeXorMappedAddress p = Inl e"
proof -
  let ?a = "newAttribute 0x20 []" and ?b = "newAttribute 1 [0, 1, 2, 3]"
  let ?p = "parsed (header bad_response) [?a, ?b]"
  have be: "be16 0 0 = 0" "be16 0 4 = 4" "be16 0 0x20 = 0x20" "be16 0 1 = 1"
    by (simp_all add: be16_def)
  have "attrsOf (drop 20 bad_response) = Some [?a, ?b]"
    by (simp add: bad_response_def attrsOf.simps(1) be pad4_def Let_def)
  then have p: "newPacketFromBytes bad_response = Inr (Inr ?p)"
    by (subst parse_total_and_exact) (simp_all add: parse_result_def, simp_all add: bad_response_def)
  have "length bad_response \<le> 65548" by (simp add: bad_response_def)
  moreover have "findAttribute attributeXorMappedAddress (attributes ?p) = Some ?a"
    by (simp add: header_def newAttribute_def Let_def attributeXorMappedAddress_def)
  moreover have "avalue ?a = []"
    by (simp add: newAttribute_def padding_aligned Let_def)
  ultimately show ?thesis
    using xor_addr_panics_on_bad_length [OF p] p by blast
qed

end
