(* ===== verification/StunNet.thy ===== *)
theory StunNet
  imports StunCodec
begin

text \<open>
  Hosts, responses and the exchange of one request (\<^verbatim>\<open>host.go\<close>, \<^verbatim>\<open>response.go\<close>, \<^verbatim>\<open>utils.go\<close>,
  \<^verbatim>\<open>net.go\<close>).  The network is a state \<open>'w\<close> on which the operations of the socket act; the
  resolver, the interface addresses and \<^verbatim>\<open>net.IP.String\<close> are arguments.  Logging is left out.
\<close>

subsection \<open>Addresses\<close>

record udp_addr =
  uIP :: bytes
  uPort :: int

text \<open>\<open>spare\<close> gives the bytes that lie behind an attribute's value in its array.\<close>

record net_env =
  resolveUDPAddr :: "string \<Rightarrow> string + udp_addr"
  ipStr :: "bytes \<Rightarrow> string"
  interfaceAddrs :: "string + string list"
  parseCIDR :: "string \<Rightarrow> string + bytes"
  spareOf :: "attribute \<Rightarrow> bytes"

definition v4InV6Prefix :: bytes where
  "v4InV6Prefix = replicate 10 0 @ [255, 255]"

definition ip4 :: "bytes \<Rightarrow> bytes option" where
  "ip4 ip = (if length ip = 4 then Some ip
             else if length ip = 16 \<and> take 12 ip = v4InV6Prefix then Some (drop 12 ip) else None)"

definition ipEqual :: "bytes \<Rightarrow> bytes \<Rightarrow> bool" where
  "ipEqual a b =
     (if length a = length b then a = b
      else if length a = 4 \<and> length b = 16 then b = v4InV6Prefix @ a
      else if length a = 16 \<and> length b = 4 then a = v4InV6Prefix @ b
      else False)"

definition isUnspecified :: "bytes \<Rightarrow> bool" where
  "isUnspecified ip \<longleftrightarrow> ipEqual ip [0, 0, 0, 0] \<or> ipEqual ip (replicate 16 0)"

text \<open>\<^verbatim>\<open>strconv.Itoa\<close> of a port, and \<^verbatim>\<open>net.JoinHostPort\<close>.\<close>

fun itoa :: "nat \<Rightarrow> string" where
  "itoa n = (if n < 10 then [char_of (48 + n)] else itoa (n div 10) @ [char_of (48 + n mod 10)])"

declare itoa.simps [simp del]

definition joinHostPort :: "string \<Rightarrow> string \<Rightarrow> string" where
  "joinHostPort h p =
     (if CHR '':'' \<in> set h \<or> CHR ''%'' \<in> set h then ''['' @ h @ '']:'' @ p else h @ '':'' @ p)"

subsection \<open>Hosts\<close>

definition newHostFromStr :: "net_env \<Rightarrow> string \<Rightarrow> host option" where
  "newHostFromStr env s =
     (case resolveUDPAddr env s of
        Inl e \<Rightarrow> None
      | Inr a \<Rightarrow> Some \<lparr>family = (if ip4 (uIP a) \<noteq> None then attributeFamilyIPv4 else attributeFamilyIPV6),
                       hostIP = ipStr env (uIP a), hostPort = word_of_int (uPort a)\<rparr>)"

text \<open>The methods dereference the host: on a nil pointer they panic.\<close>

definition nilDeref :: "'a outcome" where
  "nilDeref = Inl (Panic ''nil pointer dereference'')"

definition deref :: "'a option \<Rightarrow> 'a outcome" where
  "deref p = (case p of None \<Rightarrow> nilDeref | Some x \<Rightarrow> Inr x)"

definition hostFamilyOf :: "host option \<Rightarrow> 16 word outcome" where
  "hostFamilyOf h = rbind (deref h) (\<lambda>h. Inr (family h))"

definition hostIPOf :: "host option \<Rightarrow> string outcome" where
  "hostIPOf h = rbind (deref h) (\<lambda>h. Inr (hostIP h))"

definition hostPortOf :: "host option \<Rightarrow> 16 word outcome" where
  "hostPortOf h = rbind (deref h) (\<lambda>h. Inr (hostPort h))"

definition transportAddr :: "host \<Rightarrow> string" where
  "transportAddr h = joinHostPort (hostIP h) (itoa (unat (hostPort h)))"

definition hostString :: "host \<Rightarrow> string" where
  "hostString h = transportAddr h"

definition isInterfaceAddress :: "net_env \<Rightarrow> bytes \<Rightarrow> bool" where
  "isInterfaceAddress env remote =
     (case interfaceAddrs env of
        Inl e \<Rightarrow> False
      | Inr addrs \<Rightarrow>
          list_ex (\<lambda>s. case parseCIDR env s of Inl e \<Rightarrow> False | Inr ip \<Rightarrow> ipEqual ip remote) addrs)"

definition isLocalAddress :: "net_env \<Rightarrow> string \<Rightarrow> string \<Rightarrow> bool" where
  "isLocalAddress env loc localRemote =
     (case resolveUDPAddr env localRemote of
        Inl e \<Rightarrow> False
      | Inr remote \<Rightarrow>
          (case resolveUDPAddr env loc of
             Inr a \<Rightarrow>
               if uIP a \<noteq> [] \<and> \<not> isUnspecified (uIP a) then ipEqual (uIP a) (uIP remote)
               else isInterfaceAddress env (uIP remote)
           | Inl e \<Rightarrow> isInterfaceAddress env (uIP remote)))"

subsection \<open>Responses\<close>

record response =
  rpacket :: "packet option"
  serverAddr :: "host option"
  changedAddr :: "host option"
  mappedAddr :: "host option"
  otherAddr :: "host option"
  identical :: bool

definition newResponse :: "net_env \<Rightarrow> string \<Rightarrow> packet option \<Rightarrow> response outcome" where
  "newResponse env localAddr pkt =
     (let resp = \<lparr>rpacket = pkt, serverAddr = None, changedAddr = None, mappedAddr = None,
                  otherAddr = None, identical = False\<rparr> in
      case pkt of
        None \<Rightarrow> Inr resp
      | Some p \<Rightarrow>
          rbind (getXorMappedAddr (ipStr env) p) (\<lambda>xored.
          rbind (if xored = None then getMappedAddr (ipStr env) (spareOf env) p else Inr xored) (\<lambda>mapped.
          let resp = resp\<lparr>mappedAddr := mapped,
                identical := (case mapped of None \<Rightarrow> False
                              | Some m \<Rightarrow> isLocalAddress env localAddr (hostString m))\<rparr> in
          rbind (getChangedAddr (ipStr env) (spareOf env) p) (\<lambda>changed.
          let resp = (case changed of None \<Rightarrow> resp
                      | Some c \<Rightarrow> resp\<lparr>changedAddr := newHostFromStr env (hostString c)\<rparr>) in
          rbind (getOtherAddr (ipStr env) (spareOf env) p) (\<lambda>other.
          Inr (case other of None \<Rightarrow> resp
               | Some c \<Rightarrow> resp\<lparr>otherAddr := newHostFromStr env (hostString c)\<rparr>))))))"

subsection \<open>One request\<close>

definition numRetransmit :: nat where "numRetransmit = 9"
definition defaultTimeout :: int where "defaultTimeout = 100"
definition maxTimeout :: int where "maxTimeout = 1600"
definition maxPacketSize :: nat where "maxPacketSize = 1024"

datatype (plugins only: code size) read_error = Timeout | ReadError string

text \<open>
  The socket: a write takes the destination (possibly a nil pointer) and returns the number of bytes
  written; a deadline is given in milliseconds from now; a read delivers a datagram and its sender.
\<close>

record 'w socket =
  writeTo :: "bytes \<Rightarrow> udp_addr option \<Rightarrow> 'w \<Rightarrow> (string + int) \<times> 'w"
  setReadDeadline :: "int \<Rightarrow> 'w \<Rightarrow> string option \<times> 'w"
  readFrom :: "'w \<Rightarrow> (read_error + bytes \<times> string) \<times> 'w"
  localAddr :: string

text \<open>
  What a call on the network gives: an abort, or an error, or a value (a nil pointer is \<open>None\<close>).
\<close>

type_synonym ('r, 'w) io = "(string + 'r) outcome \<times> 'w"

text \<open>
  Reading until the answer to \<open>pkt\<close> has come or the time is over (\<open>Inr (Inr None)\<close>).  It never
  returns while datagrams for other transactions keep coming before the deadline.
\<close>

partial_function (option) readLoop ::
  "net_env \<Rightarrow> 'w socket \<Rightarrow> packet \<Rightarrow> 'w \<Rightarrow> (response option, 'w) io option" where
  "readLoop env sock pkt w =
     (case readFrom sock w of
        (Inl Timeout, w) \<Rightarrow> Some (Inr (Inr None), w)
      | (Inl (ReadError e), w) \<Rightarrow> Some (Inr (Inl e), w)
      | (Inr (datagram, raddr), w) \<Rightarrow>
          (case newPacketFromBytes (take maxPacketSize datagram) of
             Inl e \<Rightarrow> Some (Inl e, w)
           | Inr (Inl e) \<Rightarrow> Some (Inr (Inl e), w)
           | Inr (Inr p) \<Rightarrow>
               if transID pkt \<noteq> transID p then readLoop env sock pkt w
               else
                 (case newResponse env (localAddr sock) (Some p) of
                    Inl e \<Rightarrow> Some (Inl e, w)
                  | Inr resp \<Rightarrow> Some (Inr (Inr (Some (resp\<lparr>serverAddr := newHostFromStr env raddr\<rparr>))), w))))"

text \<open>The rounds that are left, with the current timeout.\<close>

fun sendLoop :: "nat \<Rightarrow> int \<Rightarrow> net_env \<Rightarrow> 'w socket \<Rightarrow> packet \<Rightarrow> udp_addr option \<Rightarrow> 'w \<Rightarrow> (response option, 'w) io" where
  "sendLoop 0 timeout env sock pkt addr w = (Inr (Inr None), w)"
| "sendLoop (Suc n) timeout env sock pkt addr w =
     (case writeTo sock (packetBytes pkt) addr w of
        (Inl e, w) \<Rightarrow> (Inr (Inl e), w)
      | (Inr len, w) \<Rightarrow>
          if len \<noteq> int (length (packetBytes pkt)) then (Inr (Inl ''Error in sending data.''), w)
          else
            (case setReadDeadline sock timeout w of
               (Some e, w) \<Rightarrow> (Inr (Inl e), w)
             | (None, w) \<Rightarrow>
                 let timeout = (if timeout < maxTimeout then timeout * 2 else timeout) in
                 (case readLoop env sock pkt w of
                    None \<Rightarrow> (Inl Diverges, w)
                  | Some (Inr (Inr None), w) \<Rightarrow> sendLoop n timeout env sock pkt addr w
                  | Some r \<Rightarrow> r)))"

definition sendPacket :: "net_env \<Rightarrow> 'w socket \<Rightarrow> packet \<Rightarrow> udp_addr option \<Rightarrow> 'w \<Rightarrow> (response option, 'w) io" where
  "sendPacket env sock pkt addr w = sendLoop numRetransmit defaultTimeout env sock pkt addr w"

text \<open>\<open>rand\<close> draws the random bytes of a transaction id from the state.\<close>

definition sendBindingReq ::
  "net_env \<Rightarrow> ('w \<Rightarrow> (string + bytes) \<times> 'w) \<Rightarrow> 'w socket \<Rightarrow> bytes \<Rightarrow> udp_addr option \<Rightarrow> bool \<Rightarrow> bool \<Rightarrow>
   'w \<Rightarrow> (response option, 'w) io" where
  "sendBindingReq env rand sock software addr changeIP changePort w =
     (case rand w of
        (r, w) \<Rightarrow>
          (case newPacket r of
             Inl e \<Rightarrow> (Inr (Inl e), w)
           | Inr p \<Rightarrow> sendPacket env sock (bindingRequest software p changeIP changePort) addr w))"

subsection \<open>The tests\<close>

text \<open>
  \<open>req\<close> is \<^verbatim>\<open>sendBindingReq\<close> on the client's connection.
\<close>

type_synonym 'w request = "udp_addr option \<Rightarrow> bool \<Rightarrow> bool \<Rightarrow> 'w \<Rightarrow> (response option, 'w) io"

definition addrCompare :: "net_env \<Rightarrow> host option \<Rightarrow> udp_addr option \<Rightarrow> bool \<Rightarrow> bool \<Rightarrow> bool outcome" where
  "addrCompare env h addr IPChange portChange =
     rbind (hostIPOf h) (\<lambda>ip.
     rbind (deref addr) (\<lambda>a.
     let isIPChange = (ip \<noteq> ipStr env (uIP a)) in
     rbind (hostPortOf h) (\<lambda>port.
     let isPortChange = (port \<noteq> word_of_int (uPort a)) in
     Inr (isIPChange = IPChange \<and> isPortChange = portChange))))"

definition sendWithLog :: "net_env \<Rightarrow> 'w request \<Rightarrow> 'w request" where
  "sendWithLog env req addr changeIP changePort w =
     (case req addr changeIP changePort w of
        (Inl e, w) \<Rightarrow> (Inl e, w)
      | (Inr (Inl e), w) \<Rightarrow> (Inr (Inl e), w)
      | (Inr (Inr None), w) \<Rightarrow>
          if \<not> changeIP \<and> \<not> changePort then (Inr (Inl ''NAT blocked.''), w) else (Inr (Inr None), w)
      | (Inr (Inr (Some resp)), w) \<Rightarrow>
          (case addrCompare env (serverAddr resp) addr changeIP changePort of
             Inl e \<Rightarrow> (Inl e, w)
           | Inr same \<Rightarrow>
               if \<not> same then (Inr (Inl ''Server error: response IP/port''), w)
               else (Inr (Inr (Some resp)), w)))"

definition testPlain :: "net_env \<Rightarrow> 'w request \<Rightarrow> udp_addr option \<Rightarrow> 'w \<Rightarrow> (response option, 'w) io" where
  "testPlain env req addr = sendWithLog env req addr False False"

definition testChangePort :: "net_env \<Rightarrow> 'w request \<Rightarrow> udp_addr option \<Rightarrow> 'w \<Rightarrow> (response option, 'w) io" where
  "testChangePort env req addr = sendWithLog env req addr False True"

definition testChangeBoth :: "net_env \<Rightarrow> 'w request \<Rightarrow> udp_addr option \<Rightarrow> 'w \<Rightarrow> (response option, 'w) io" where
  "testChangeBoth env req addr = sendWithLog env req addr True True"

definition test1 :: "'w request \<Rightarrow> udp_addr option \<Rightarrow> 'w \<Rightarrow> (response option, 'w) io" where
  "test1 req addr = req addr False False"

definition test2 :: "'w request \<Rightarrow> udp_addr option \<Rightarrow> 'w \<Rightarrow> (response option, 'w) io" where
  "test2 req addr = req addr True True"

definition test3 :: "'w request \<Rightarrow> udp_addr option \<Rightarrow> 'w \<Rightarrow> (response option, 'w) io" where
  "test3 req addr = req addr False True"

end
