(* ===== verification/StunDiscover.thy ===== *)
theory StunDiscover
  imports StunNet
begin

text \<open>
  The classification of the NAT (\<^verbatim>\<open>discover.go\<close>), the client (\<^verbatim>\<open>client.go\<close>), the names of the
  classes (\<^verbatim>\<open>const.go\<close>) and the report made of them (\<^verbatim>\<open>libcore/stun.go\<close>).
\<close>

subsection \<open>Classes\<close>

datatype (plugins only: code size) natType = NATError | NATUnknown | NATNone | NATBlocked | NATFull | NATSymmetric
  | NATRestricted | NATPortRestricted | SymmetricUDPFirewall

datatype (plugins only: code size) behaviorType = BehaviorTypeUnknown | BehaviorTypeEndpoint | BehaviorTypeAddr
  | BehaviorTypeAddrAndPort

record natBehavior =
  MappingType :: behaviorType
  FilteringType :: behaviorType

definition natStr :: "(natType \<times> string) list" where
  "natStr =
     [(NATError, ''Test failed''),
      (NATUnknown, ''Unexpected response from the STUN server''),
      (NATBlocked, ''UDP is blocked''),
      (NATFull, ''Full cone NAT''),
      (NATSymmetric, ''Symmetric NAT''),
      (NATRestricted, ''Restricted NAT''),
      (NATPortRestricted, ''Port restricted NAT''),
      (NATNone, ''Not behind a NAT''),
      (SymmetricUDPFirewall, ''Symmetric UDP firewall'')]"

definition natTypeString :: "natType \<Rightarrow> string" where
  "natTypeString t = (case map_of natStr t of Some s \<Rightarrow> s | None \<Rightarrow> ''Unknown'')"

definition natBehaviorTypeStr :: "(behaviorType \<times> string) list" where
  "natBehaviorTypeStr =
     [(BehaviorTypeEndpoint, ''EndpointIndependent''),
      (BehaviorTypeAddr, ''AddressDependent''),
      (BehaviorTypeAddrAndPort, ''AddressAndPortDependent'')]"

definition behaviorTypeString :: "behaviorType \<Rightarrow> string" where
  "behaviorTypeString t = (case map_of natBehaviorTypeStr t of Some s \<Rightarrow> s | None \<Rightarrow> ''Unknown'')"

definition natNormalTypeStr :: "((behaviorType \<times> behaviorType) \<times> string) list" where
  "natNormalTypeStr =
     [((BehaviorTypeEndpoint, BehaviorTypeEndpoint), ''Full cone NAT''),
      ((BehaviorTypeEndpoint, BehaviorTypeAddr), ''Restricted cone NAT''),
      ((BehaviorTypeEndpoint, BehaviorTypeAddrAndPort), ''Port Restricted cone NAT''),
      ((BehaviorTypeAddrAndPort, BehaviorTypeAddrAndPort), ''Symmetric NAT'')]"

definition normalType :: "natBehavior \<Rightarrow> string" where
  "normalType b =
     (case map_of natNormalTypeStr (MappingType b, FilteringType b) of
        Some s \<Rightarrow> s | None \<Rightarrow> ''Undefined'')"

subsection \<open>Discovery\<close>

text \<open>Going on after a test, and after an expression that may panic.\<close>

definition reply :: "('r, 'w) io \<Rightarrow> (string \<Rightarrow> 'w \<Rightarrow> 'b outcome \<times> 'w) \<Rightarrow> ('r \<Rightarrow> 'w \<Rightarrow> 'b outcome \<times> 'w) \<Rightarrow>
    'b outcome \<times> 'w" where
  "reply r onError go_on =
     (case r of
        (Inl a, w) \<Rightarrow> (Inl a, w)
      | (Inr (Inl e), w) \<Rightarrow> onError e w
      | (Inr (Inr x), w) \<Rightarrow> go_on x w)"

definition check :: "'a outcome \<Rightarrow> 'w \<Rightarrow> ('a \<Rightarrow> 'b outcome \<times> 'w) \<Rightarrow> 'b outcome \<times> 'w" where
  "check m w go_on = (case m of Inl a \<Rightarrow> (Inl a, w) | Inr x \<Rightarrow> go_on x)"

text \<open>Whether the host has the address' IP, and whether it has its port.\<close>

definition comparePeer :: "net_env \<Rightarrow> host option \<Rightarrow> udp_addr option \<Rightarrow> (bool \<times> bool) outcome" where
  "comparePeer env h addr =
     rbind (deref h) (\<lambda>h.
     rbind (deref addr) (\<lambda>a.
     Inr (hostIP h = ipStr env (uIP a), hostPort h = word_of_int (uPort a))))"

text \<open>Whether two mapped addresses agree.\<close>

definition sameMapped :: "host option \<Rightarrow> host option \<Rightarrow> bool outcome" where
  "sameMapped a b =
     rbind (hostIPOf a) (\<lambda>ipa.
     rbind (hostIPOf b) (\<lambda>ipb.
     if ipa \<noteq> ipb then Inr False
     else rbind (hostPortOf a) (\<lambda>pa. rbind (hostPortOf b) (\<lambda>pb. Inr (pa = pb)))))"

type_synonym discovery = "natType \<times> host option \<times> string option \<times> bool"

text \<open>From the second test 1 on: the server's other address is \<open>caddr\<close> (nil when it did not resolve).\<close>

definition discoverOther ::
  "net_env \<Rightarrow> 'w request \<Rightarrow> udp_addr option \<Rightarrow> host option \<Rightarrow> bool \<Rightarrow> 'w \<Rightarrow> discovery outcome \<times> 'w" where
  "discoverOther env req caddr mapped fake w =
     reply (test1 req caddr w) (\<lambda>e w. (Inr (NATError, mapped, Some e, fake), w)) (\<lambda>resp w.
       case resp of
         None \<Rightarrow> (Inr (NATUnknown, mapped, None, fake), w)
       | Some resp \<Rightarrow>
           check (comparePeer env (serverAddr resp) caddr) w (\<lambda>(ip, port).
           let fake = (fake \<or> \<not> ip \<or> \<not> port) in
           check (sameMapped mapped (mappedAddr resp)) w (\<lambda>same.
             if same then
               reply (test3 req caddr w) (\<lambda>e w. (Inr (NATError, mapped, Some e, fake), w)) (\<lambda>resp w.
                 case resp of
                   None \<Rightarrow> (Inr (NATPortRestricted, mapped, None, fake), w)
                 | Some resp \<Rightarrow>
                     check (comparePeer env (serverAddr resp) caddr) w (\<lambda>(ip, port).
                     let fake = (fake \<or> \<not> ip \<or> port) in
                     (Inr (NATRestricted, mapped, None, fake), w)))
             else (Inr (NATSymmetric, mapped, None, fake), w))))"

definition discover :: "net_env \<Rightarrow> 'w request \<Rightarrow> udp_addr \<Rightarrow> 'w \<Rightarrow> discovery outcome \<times> 'w" where
  "discover env req addr w =
     reply (test1 req (Some addr) w) (\<lambda>e w. (Inr (NATError, None, Some e, False), w)) (\<lambda>resp w.
       case resp of
         None \<Rightarrow> (Inr (NATBlocked, None, None, False), w)
       | Some resp \<Rightarrow>
           let ident = identical resp; mapped = mappedAddr resp in
           check (comparePeer env (serverAddr resp) (Some addr)) w (\<lambda>(ip, port).
           let fake = (\<not> ip \<or> \<not> port) in
           case (if changedAddr resp = None then otherAddr resp else changedAddr resp) of
             None \<Rightarrow> (Inr (NATError, mapped, Some ''Server error: no changed address.'', fake), w)
           | Some changed \<Rightarrow>
               reply (test2 req (Some addr) w) (\<lambda>e w. (Inr (NATError, mapped, Some e, fake), w)) (\<lambda>resp w.
                 check (case resp of None \<Rightarrow> Inr (False, False)
                        | Some resp \<Rightarrow> comparePeer env (serverAddr resp) (Some addr)) w (\<lambda>(ip, port).
                 let fake = (fake \<or> ip \<or> port) in
                 if ident then
                   (if resp = None then (Inr (SymmetricUDPFirewall, mapped, None, fake), w)
                    else (Inr (NATNone, mapped, None, fake), w))
                 else if resp \<noteq> None then (Inr (NATFull, mapped, None, fake), w)
                 else
                   discoverOther env req
                     (case resolveUDPAddr env (hostString changed) of Inl e \<Rightarrow> None | Inr a \<Rightarrow> Some a)
                     mapped fake w))))"

subsection \<open>The behaviour test\<close>

text \<open>\<open>parseIP\<close> is \<^verbatim>\<open>net.ParseIP\<close>; a nil result is the empty address.\<close>

type_synonym behaviour = "natBehavior option \<times> string option"

definition testFiltering ::
  "net_env \<Rightarrow> 'w request \<Rightarrow> udp_addr \<Rightarrow> natBehavior \<Rightarrow> 'w \<Rightarrow> behaviour outcome \<times> 'w" where
  "testFiltering env req addr b w =
     reply (testChangeBoth env req (Some addr) w) (\<lambda>e w. (Inr (Some b, Some e), w)) (\<lambda>resp4 w.
     let b = (if resp4 \<noteq> None then b\<lparr>FilteringType := BehaviorTypeEndpoint\<rparr> else b) in
     if FilteringType b = BehaviorTypeUnknown then
       reply (testChangePort env req (Some addr) w) (\<lambda>e w. (Inr (Some b, Some e), w)) (\<lambda>resp5 w.
       let b = (if resp5 \<noteq> None then b\<lparr>FilteringType := BehaviorTypeAddr\<rparr>
                else b\<lparr>FilteringType := BehaviorTypeAddrAndPort\<rparr>) in
       (Inr (Some b, None), w))
     else (Inr (Some b, None), w))"

definition testMapping ::
  "net_env \<Rightarrow> 'w request \<Rightarrow> bytes \<Rightarrow> host \<Rightarrow> udp_addr \<Rightarrow> response \<Rightarrow>
   (natBehavior \<Rightarrow> 'w \<Rightarrow> behaviour outcome \<times> 'w) \<Rightarrow> 'w \<Rightarrow> behaviour outcome \<times> 'w" where
  "testMapping env req ip other addr resp1 go_on w =
     (let b = \<lparr>MappingType = BehaviorTypeUnknown, FilteringType = BehaviorTypeUnknown\<rparr>;
          tmp = \<lparr>uIP = ip, uPort = uPort addr\<rparr> in
      reply (testPlain env req (Some tmp) w) (\<lambda>e w. (Inr (None, Some e), w)) (\<lambda>resp2 w.
      check (deref resp2) w (\<lambda>resp2.
      check (sameMapped (mappedAddr resp2) (mappedAddr resp1)) w (\<lambda>same.
      let b = (if same then b\<lparr>MappingType := BehaviorTypeEndpoint\<rparr> else b) in
      if MappingType b = BehaviorTypeUnknown then
        let tmp = tmp\<lparr>uPort := uint (hostPort other)\<rparr> in
        reply (testPlain env req (Some tmp) w) (\<lambda>e w. (Inr (None, Some e), w)) (\<lambda>resp3 w.
        check (deref resp3) w (\<lambda>resp3.
        check (sameMapped (mappedAddr resp3) (mappedAddr resp2)) w (\<lambda>same.
        go_on (if same then b\<lparr>MappingType := BehaviorTypeAddr\<rparr>
               else b\<lparr>MappingType := BehaviorTypeAddrAndPort\<rparr>) w)))
      else go_on b w))))"

definition behaviorTest ::
  "net_env \<Rightarrow> (string \<Rightarrow> bytes) \<Rightarrow> 'w request \<Rightarrow> udp_addr \<Rightarrow> 'w \<Rightarrow> behaviour outcome \<times> 'w" where
  "behaviorTest env parseIP req addr w =
     reply (testPlain env req (Some addr) w) (\<lambda>e w. (Inr (None, Some e), w)) (\<lambda>resp1 w.
     check (deref resp1) w (\<lambda>resp1.
     if identical resp1 then (Inr (None, Some ''Not behind a NAT.''), w)
     else
       (case (if otherAddr resp1 = None then changedAddr resp1 else otherAddr resp1) of
          None \<Rightarrow> (Inr (None, Some ''Server error: no other address and changed address.''), w)
        | Some other \<Rightarrow>
            testMapping env req (parseIP (hostIP other)) other addr resp1
              (testFiltering env req addr) w)))"

subsection \<open>The client\<close>

text \<open>
  A client may have been given a connection \<open>'s\<close>; otherwise each call opens one and closes it at the
  end.  \<open>request\<close> is \<^verbatim>\<open>sendBindingReq\<close> on a connection with the client's software name.
\<close>

record 's client =
  serverAddress :: string
  softwareName :: bytes
  conn :: "'s option"

record ('s, 'w) net_ops =
  listenUDP :: "'w \<Rightarrow> (string + 's) \<times> 'w"
  closeConn :: "'s \<Rightarrow> 'w \<Rightarrow> 'w"
  request :: "bytes \<Rightarrow> 's \<Rightarrow> 'w request"

definition defaultServerAddr :: string where "defaultServerAddr = ''stun.ekiga.net:3478''"

definition defaultSoftwareName :: bytes where
  "defaultSoftwareName = map (\<lambda>c. word_of_nat (of_char c)) ''StunClient''"

definition setSoftwareName :: "bytes \<Rightarrow> 's client \<Rightarrow> 's client" where
  "setSoftwareName name c = c\<lparr>softwareName := name\<rparr>"

definition setServerAddr :: "string \<Rightarrow> 's client \<Rightarrow> 's client" where
  "setServerAddr address c = c\<lparr>serverAddress := address\<rparr>"

definition setServerHost :: "string \<Rightarrow> nat \<Rightarrow> 's client \<Rightarrow> 's client" where
  "setServerHost h port c = c\<lparr>serverAddress := joinHostPort h (itoa port)\<rparr>"

definition newClient :: "'s client" where
  "newClient = setSoftwareName defaultSoftwareName \<lparr>serverAddress = [], softwareName = [], conn = None\<rparr>"

definition newClientWithConnection :: "'s \<Rightarrow> 's client" where
  "newClientWithConnection s =
     setSoftwareName defaultSoftwareName \<lparr>serverAddress = [], softwareName = [], conn = Some s\<rparr>"

definition withDefaultServer :: "'s client \<Rightarrow> 's client" where
  "withDefaultServer c = (if serverAddress c = [] then setServerAddr defaultServerAddr c else c)"

text \<open>Running \<open>body\<close> on the client's connection or on a fresh one, which is closed also when the body panics.\<close>

definition withConn ::
  "('s, 'w) net_ops \<Rightarrow> 's client \<Rightarrow> (string \<Rightarrow> 'b) \<Rightarrow> ('s \<Rightarrow> 'w \<Rightarrow> 'b outcome \<times> 'w) \<Rightarrow> 'w \<Rightarrow> 'b outcome \<times> 'w" where
  "withConn ops c failed body w =
     (case conn c of
        Some s \<Rightarrow> body s w
      | None \<Rightarrow>
          (case listenUDP ops w of
             (Inl e, w) \<Rightarrow> (Inr (failed e), w)
           | (Inr s, w) \<Rightarrow> (case body s w of (r, w) \<Rightarrow> (r, closeConn ops s w))))"

definition clientDiscover ::
  "net_env \<Rightarrow> ('s, 'w) net_ops \<Rightarrow> 's client \<Rightarrow> 'w \<Rightarrow> 's client \<times> discovery outcome \<times> 'w" where
  "clientDiscover env ops c w =
     (let c = withDefaultServer c in
      (c, case resolveUDPAddr env (serverAddress c) of
            Inl e \<Rightarrow> (Inr (NATError, None, Some e, False), w)
          | Inr addr \<Rightarrow>
              withConn ops c (\<lambda>e. (NATError, None, Some e, False))
                (\<lambda>s. discover env (request ops (softwareName c) s) addr) w))"

definition clientBehaviorTest ::
  "net_env \<Rightarrow> (string \<Rightarrow> bytes) \<Rightarrow> ('s, 'w) net_ops \<Rightarrow> 's client \<Rightarrow> 'w \<Rightarrow>
   's client \<times> behaviour outcome \<times> 'w" where
  "clientBehaviorTest env parseIP ops c w =
     (let c = withDefaultServer c in
      (c, case resolveUDPAddr env (serverAddress c) of
            Inl e \<Rightarrow> (Inr (None, Some e), w)
          | Inr addr \<Rightarrow>
              withConn ops c (\<lambda>e. (None, Some e))
                (\<lambda>s. behaviorTest env parseIP (request ops (softwareName c) s) addr) w))"

definition keepalive ::
  "net_env \<Rightarrow> ('s, 'w) net_ops \<Rightarrow> 's client \<Rightarrow> 'w \<Rightarrow> 's client \<times> (host option, 'w) io" where
  "keepalive env ops c w =
     (case conn c of
        None \<Rightarrow> (c, Inr (Inl ''no connection available''), w)
      | Some s \<Rightarrow>
          let c = withDefaultServer c in
          (c, case resolveUDPAddr env (serverAddress c) of
                Inl e \<Rightarrow> (Inr (Inl e), w)
              | Inr addr \<Rightarrow>
                  reply (test1 (request ops (softwareName c) s) (Some addr) w)
                    (\<lambda>e w. (Inr (Inl e), w))
                    (\<lambda>resp w. case resp of
                        None \<Rightarrow> (Inr (Inl ''failed to contact''), w)
                      | Some resp \<Rightarrow>
                          if rpacket resp = None then (Inr (Inl ''failed to contact''), w)
                          else (Inr (Inr (mappedAddr resp)), w))))"

subsection \<open>The report\<close>

record stunResult =
  resultText :: string
  success :: bool

text \<open>\<^verbatim>\<open>fmt.Sprintln\<close> of two operands, and \<^verbatim>\<open>strings.TrimRight\<close> of newlines.\<close>

definition line2 :: "string \<Rightarrow> string \<Rightarrow> string" where
  "line2 a b = a @ '' '' @ b @ [CHR 0x0A]"

definition trimNewlines :: "string \<Rightarrow> string" where
  "trimNewlines s = rev (dropWhile (\<lambda>c. c = CHR 0x0A) (rev s))"

definition discoverText :: "discovery \<Rightarrow> string" where
  "discoverText d =
     (case d of (kind, host, err, fake) \<Rightarrow>
        (case err of None \<Rightarrow> [] | Some e \<Rightarrow> line2 ''Discover Error:'' e)
        @ (if fake then ''Fake fullcone (no endpoint IP change) detected!!'' @ [CHR 0x0A] else [])
        @ (case host of None \<Rightarrow> []
           | Some h \<Rightarrow> line2 ''NAT Type:'' (natTypeString kind)
               @ line2 ''External IP Family:'' (itoa (unat (family h)))
               @ line2 ''External IP:'' (hostIP h)
               @ line2 ''External Port:'' (itoa (unat (hostPort h)))))"

definition behaviorText :: "behaviour \<Rightarrow> string" where
  "behaviorText r =
     (case r of (b, err) \<Rightarrow>
        (case err of None \<Rightarrow> [] | Some e \<Rightarrow> line2 ''BehaviorTest Error:'' e)
        @ (case b of None \<Rightarrow> []
           | Some b \<Rightarrow> line2 ''Mapping Behavior:'' (behaviorTypeString (MappingType b))
               @ line2 ''Filtering Behavior:'' (behaviorTypeString (FilteringType b))
               @ line2 ''Normal NAT Type:'' (normalType b)))"

definition stunTest ::
  "net_env \<Rightarrow> (string \<Rightarrow> bytes) \<Rightarrow> ('s, 'w) net_ops \<Rightarrow> string \<Rightarrow> 'w \<Rightarrow> stunResult outcome \<times> 'w" where
  "stunTest env parseIP ops server w =
     (let c = setServerAddr server (newClient :: 's client) in
      case clientDiscover env ops c w of
        (c, d, w) \<Rightarrow>
          check d w (\<lambda>d.
          (case clientBehaviorTest env parseIP ops c w of
             (c, b, w) \<Rightarrow>
               check b w (\<lambda>b.
               (Inr \<lparr>resultText = trimNewlines (discoverText d @ behaviorText b),
                     success = (fst (snd d) \<noteq> None \<or> fst b \<noteq> None)\<rparr>, w)))))"

end
