(* ===== verification/StunDiscoverSpec.thy ===== *)
theory StunDiscoverSpec
  imports StunDiscover
begin

text \<open>
  What the NAT tests find out.  An ideal NAT maps and filters independently of the peer, by its
  address, or by its address and port; the network state is the list of endpoints that were
  contacted.  Against it \<^verbatim>\<open>discover\<close> returns the class of RFC 3489, and \<^verbatim>\<open>behaviorTest\<close> the
  mapping behaviour; its filtering behaviour is wrong in one case.
\<close>

subsection \<open>An ideal NAT and server\<close>

type_synonym endpoint = "string \<times> 16 word"

datatype (plugins only: code size) reach = Independent | PerAddr | PerAddrPort

fun agree :: "reach \<Rightarrow> endpoint \<Rightarrow> endpoint \<Rightarrow> bool" where
  "agree Independent d e \<longleftrightarrow> True"
| "agree PerAddr d e \<longleftrightarrow> fst d = fst e"
| "agree PerAddrPort d e \<longleftrightarrow> d = e"

record nat_device =
  mapping :: reach
  filtering :: reach
  external :: "endpoint \<Rightarrow> endpoint"
  behind :: bool

record stun_server =
  ip1 :: string
  ip2 :: string
  port1 :: "16 word"
  port2 :: "16 word"

definition hostAt :: "endpoint \<Rightarrow> host" where
  "hostAt e = \<lparr>family = attributeFamilyIPv4, hostIP = fst e, hostPort = snd e\<rparr>"

definition other_ip :: "stun_server \<Rightarrow> string \<Rightarrow> string" where
  "other_ip s ip = (if ip = ip1 s then ip2 s else ip1 s)"

definition other_port :: "stun_server \<Rightarrow> 16 word \<Rightarrow> 16 word" where
  "other_port s p = (if p = port1 s then port2 s else port1 s)"

definition endpointOf :: "net_env \<Rightarrow> udp_addr \<Rightarrow> endpoint" where
  "endpointOf env a = (ipStr env (uIP a), word_of_int (uPort a))"

text \<open>
  A request to \<open>d\<close> opens the NAT for \<open>d\<close>; the answer, from the endpoint that the flags ask for, passes
  when an endpoint with the same mapping was contacted that the filter lets its sender stand for.
\<close>

definition nat_request :: "net_env \<Rightarrow> stun_server \<Rightarrow> nat_device \<Rightarrow> endpoint list request" where
  "nat_request env s box addr changeIP changePort w =
     (case addr of
        None \<Rightarrow> (Inr (Inl ''missing address''), w)
      | Some a \<Rightarrow>
          let d = endpointOf env a;
              src = (if changeIP then other_ip s (fst d) else fst d,
                     if changePort then other_port s (snd d) else snd d) in
          (Inr (Inr (if list_ex (\<lambda>c. agree (mapping box) c d \<and> agree (filtering box) c src) (d # w)
                     then Some \<lparr>rpacket = None, serverAddr = Some (hostAt src),
                                changedAddr = Some (hostAt (other_ip s (fst d), other_port s (snd d))),
                                mappedAddr = Some (hostAt (external box d)), otherAddr = None,
                                identical = (\<not> behind box)\<rparr>
                     else None)), d # w))"

definition good_server :: "net_env \<Rightarrow> (string \<Rightarrow> bytes) \<Rightarrow> stun_server \<Rightarrow> bool" where
  "good_server env parseIP s \<longleftrightarrow> ip1 s \<noteq> ip2 s \<and> port1 s \<noteq> port2 s
     \<and> (\<exists>a. resolveUDPAddr env (hostString (hostAt (ip2 s, port2 s))) = Inr a \<and> endpointOf env a = (ip2 s, port2 s))
     \<and> ipStr env (parseIP (ip2 s)) = ip2 s"

text \<open>Two destinations share an external endpoint exactly when they share a mapping.\<close>

definition maps_by :: "nat_device \<Rightarrow> bool" where
  "maps_by box \<longleftrightarrow> (\<forall>d e. external box d = external box e \<longleftrightarrow> agree (mapping box) d e)"


definition behavior :: "reach \<Rightarrow> behaviorType" where
  "behavior r = (case r of Independent \<Rightarrow> BehaviorTypeEndpoint | PerAddr \<Rightarrow> BehaviorTypeAddr
                 | PerAddrPort \<Rightarrow> BehaviorTypeAddrAndPort)"

lemma hostAt_simps [simp]: "hostIP (hostAt e) = fst e" "hostPort (hostAt e) = snd e"
  by (simp_all add: hostAt_def)

lemma comparePeer_hostAt [simp]:
  "comparePeer env (Some (hostAt e)) (Some a) = Inr (fst e = fst (endpointOf env a), snd e = snd (endpointOf env a))"
  by (simp add: comparePeer_def deref_def endpointOf_def)

lemma sameMapped_hostAt [simp]: "sameMapped (Some (hostAt d)) (Some (hostAt e)) = Inr (d = e)"
  by (auto simp: sameMapped_def hostIPOf_def hostPortOf_def deref_def prod_eq_iff)

lemma addrCompare_hostAt [simp]:
  "addrCompare env (Some (hostAt e)) (Some a) cI cP =
     Inr ((fst e \<noteq> fst (endpointOf env a)) = cI \<and> (snd e \<noteq> snd (endpointOf env a)) = cP)"
  by (simp add: addrCompare_def hostIPOf_def hostPortOf_def deref_def endpointOf_def)

lemma other_neq [simp]:
  "ip1 s \<noteq> ip2 s \<Longrightarrow> other_ip s ip \<noteq> ip" "port1 s \<noteq> port2 s \<Longrightarrow> other_port s p \<noteq> p"
  "other_ip s (ip1 s) = ip2 s" "other_port s (port1 s) = port2 s"
  "ip1 s \<noteq> ip2 s \<Longrightarrow> other_ip s (ip2 s) = ip1 s" "port1 s \<noteq> port2 s \<Longrightarrow> other_port s (port2 s) = port1 s"
  by (auto simp: other_ip_def other_port_def)

lemma reply_simps [simp]:
  "reply (Inl a, w) f g = (Inl a, w)" "reply (Inr (Inl e), w) f g = f e w"
  "reply (Inr (Inr x), w) f g = g x w"
  by (simp_all add: reply_def)

lemma check_simps [simp]: "check (Inr x) w g = g x" "check (Inl a) w g = (Inl a, w)"
  by (simp_all add: check_def)


text \<open>
  the behaviour test through an ideal NAT finds the mapping behaviour, but it takes a NAT that
  maps independently of the peer and filters by address for one that does not filter: the second
  test has already contacted the address from which the fourth waits for an answer.
\<close>

theorem behavior_test_result:
  assumes "good_server env parseIP s" "maps_by box" "endpointOf env addr = (ip1 s, port1 s)" "behind box"
  shows "fst (behaviorTest env parseIP (nat_request env s box) addr []) =
    Inr (Some \<lparr>MappingType = behavior (mapping box),
               FilteringType = (if mapping box = Independent \<and> filtering box = PerAddr
                                then BehaviorTypeEndpoint else behavior (filtering box))\<rparr>, None)"
proof -
  have neq: "ip1 s \<noteq> ip2 s" "port1 s \<noteq> port2 s" and ip: "ipStr env (parseIP (ip2 s)) = ip2 s"
    using assms(1) by (auto simp: good_server_def)
  have port: "(word_of_int (uPort addr) :: 16 word) = port1 s"
    using assms(3) by (simp add: endpointOf_def)
  have ext: "external box d = external box e \<longleftrightarrow> agree (mapping box) d e" for d e
    using assms(2) unfolding maps_by_def by blast
  have tmp: "endpointOf env \<lparr>uIP = parseIP (ip2 s), uPort = uPort addr\<rparr> = (ip2 s, port1 s)"
    "endpointOf env \<lparr>uIP = parseIP (ip2 s), uPort = uint (port2 s)\<rparr> = (ip2 s, port2 s)"
    using ip port by (simp_all add: endpointOf_def)
  note defs = behaviorTest_def testMapping_def testFiltering_def testPlain_def testChangeBoth_def
    testChangePort_def sendWithLog_def nat_request_def behavior_def deref_def
  show ?thesis
    by (cases "mapping box"; cases "filtering box")
      (simp_all add: defs tmp neq assms(3,4) ext neq [symmetric] Let_def)
qed

text \<open>A box and a server on which the hypotheses hold; \<open>ipStr\<close> is the identity on bytes.\<close>

definition sample_env :: net_env where
  "sample_env = \<lparr>resolveUDPAddr = (\<lambda>_. Inr \<lparr>uIP = [2], uPort = 20\<rparr>), ipStr = map (\<lambda>b. char_of (unat b)),
     interfaceAddrs = Inl [], parseCIDR = (\<lambda>_. Inl []), spareOf = (\<lambda>_. [])\<rparr>"

definition sample_server :: stun_server where
  "sample_server = \<lparr>ip1 = [char_of (1 :: nat)], ip2 = [char_of (2 :: nat)], port1 = 10, port2 = 20\<rparr>"

definition sample_box :: "reach \<Rightarrow> nat_device" where
  "sample_box f = \<lparr>mapping = Independent, filtering = f, external = (\<lambda>_. (''x'', 7)), behind = True\<rparr>"

lemma sample_ok:
  "good_server sample_env (\<lambda>_. [2]) sample_server" "maps_by (sample_box f)"
  "endpointOf sample_env \<lparr>uIP = [1], uPort = 10\<rparr> = (ip1 sample_server, port1 sample_server)"
  by (simp_all add: good_server_def sample_env_def sample_server_def endpointOf_def maps_by_def sample_box_def)


theorem behavior_test_result_witness:
  "fst (behaviorTest sample_env (\<lambda>_. [2]) (nat_request sample_env sample_server (sample_box PerAddr))
      \<lparr>uIP = [1], uPort = 10\<rparr> [])
     = Inr (Some \<lparr>MappingType = BehaviorTypeEndpoint, FilteringType = BehaviorTypeEndpoint\<rparr>, None)"
  using behavior_test_result [OF sample_ok(1) sample_ok(2) sample_ok(3), of PerAddr]
  by (simp add: behavior_def sample_box_def)

subsection \<open>Answers without a mapped address\<close>

text \<open>
  when the server's answers name another address but no mapped address, and the test from the
  other address is not answered, discovery dereferences a nil pointer.
\<close>

theorem discover_panics_without_mapped_address:
  assumes "req (Some addr) False False w = (Inr (Inr (Some r1)), w1)" "mappedAddr r1 = None"
    and "serverAddr r1 = Some h1" "changedAddr r1 = Some h" "\<not> identical r1"
    and "req (Some addr) True True w1 = (Inr (Inr None), w2)"
    and "resolveUDPAddr env (hostString h) = Inr a" "req (Some a) False False w2 = (Inr (Inr (Some r3)), w3)"
    and "serverAddr r3 = Some h3"
  shows "fst (discover env req addr w) = nilDeref"
  using assms
  by (simp add: discover_def discoverOther_def test1_def test2_def comparePeer_def sameMapped_def
      hostIPOf_def deref_def Let_def nilDeref_def)

definition silent_mapped :: response where
  "silent_mapped = \<lparr>rpacket = None, serverAddr = Some (hostAt (''s'', 1)), changedAddr = Some (hostAt (''t'', 2)),
     mappedAddr = None, otherAddr = None, identical = False\<rparr>"

theorem discover_panics_without_mapped_address_witness:
  "fst (discover sample_env (\<lambda>_ cI _ w. (Inr (Inr (if cI then None else Some silent_mapped)), w))
      \<lparr>uIP = [1], uPort = 10\<rparr> ()) = nilDeref"
  by (rule discover_panics_without_mapped_address [where ?r1.0 = silent_mapped and ?r3.0 = silent_mapped
        and ?h1.0 = "hostAt (''s'', 1)" and h = "hostAt (''t'', 2)" and ?h3.0 = "hostAt (''s'', 1)"])
    (simp_all add: silent_mapped_def sample_env_def)

subsection \<open>Retransmission\<close>




lemma newResponse_packet: "newResponse env loc (Some p) = Inr r \<Longrightarrow> rpacket r = Some p"
  by (auto simp: newResponse_def Let_def rbind_eq_Inr split: option.splits)

lemma readLoop_answers:
  assumes "readLoop env sock pkt w = Some (Inr (Inr (Some r)), w')"
  shows "\<exists>p. rpacket r = Some p \<and> transID p = transID pkt"
proof -
  let ?P = "\<lambda>(env :: net_env) (sock :: 'a socket) (pkt :: packet) (w :: 'a) (res :: (response option, 'a) io). \<forall>r w'. res = (Inr (Inr (Some r)), w') \<longrightarrow>
      (\<exists>p. rpacket r = Some p \<and> transID p = transID pkt)"
  have "?P env sock pkt w (Inr (Inr (Some r)), w')"
  proof (rule readLoop.raw_induct [OF _ assms])
    fix rec :: "net_env \<Rightarrow> 'a socket \<Rightarrow> packet \<Rightarrow> 'a \<Rightarrow> ((string + response option) outcome \<times> 'a) option"
      and env :: net_env and sock :: "'a socket" and pkt w res
    assume IH: "\<And>env sock pkt w res. rec env sock pkt w = Some res \<Longrightarrow> ?P env sock pkt w res"
    assume "(case readFrom sock w of
        (Inl Timeout, w) \<Rightarrow> Some (Inr (Inr None), w)
      | (Inl (ReadError e), w) \<Rightarrow> Some (Inr (Inl e), w)
      | (Inr (datagram, raddr), w) \<Rightarrow>
          (case newPacketFromBytes (take maxPacketSize datagram) of
             Inl e \<Rightarrow> Some (Inl e, w)
           | Inr (Inl e) \<Rightarrow> Some (Inr (Inl e), w)
           | Inr (Inr p) \<Rightarrow>
               if transID pkt \<noteq> transID p then rec env sock pkt w
               else
                 (case newResponse env (localAddr sock) (Some p) of
                    Inl e \<Rightarrow> Some (Inl e, w)
                  | Inr resp \<Rightarrow> Some (Inr (Inr (Some (resp\<lparr>serverAddr := newHostFromStr env raddr\<rparr>))), w)))) = Some res"
    then show "?P env sock pkt w res"
      by (auto split: prod.splits sum.splits read_error.splits if_splits
          dest: IH newResponse_packet)
  qed
  then show ?thesis by blast
qed

text \<open>
  whatever arrives, a response that a request returns is made of a packet with the request's
  transaction id.
\<close>

theorem response_matches_request:
  assumes "sendPacket env sock pkt addr w = (Inr (Inr (Some r)), w')"
  shows "\<exists>p. rpacket r = Some p \<and> transID p = transID pkt"
proof -
  have "sendLoop n t env sock pkt addr w = (Inr (Inr (Some r)), w') \<Longrightarrow>
      \<exists>p. rpacket r = Some p \<and> transID p = transID pkt" for n t w
  proof (induction n arbitrary: t w)
    case (Suc n)
    then show ?case
      by (auto simp: Let_def dest: readLoop_answers split: prod.splits sum.splits option.splits if_splits)
  qed simp
  then show ?thesis using assms by (simp add: sendPacket_def)
qed

definition empty_answer :: bytes where
  "empty_answer = [1, 1, 0, 0] @ replicate 16 0"

definition answering_socket :: "unit socket" where
  "answering_socket = \<lparr>writeTo = (\<lambda>b a w. (Inr (int (length b)), w)), setReadDeadline = (\<lambda>t w. (None, w)),
     readFrom = (\<lambda>w. (Inr (empty_answer, ''s''), w)), localAddr = []\<rparr>"

definition empty_packet :: packet where
  "empty_packet = \<lparr>ptypes = 1, plength = 0, transID = replicate 16 0, attributes = []\<rparr>"

theorem response_matches_request_witness:
  "\<exists>r p. sendPacket sample_env answering_socket empty_packet None () = (Inr (Inr (Some r)), ())
     \<and> rpacket r = Some p \<and> transID p = replicate 16 0"
proof -
  have loop: "parseLoop [] 0 p = Some (Inr (Inr p))" for p
    by (subst parseLoop.simps) simp
  have nine: "numRetransmit = Suc 8" by (simp add: numRetransmit_def)
  have fields: "writeTo answering_socket b a w = (Inr (int (length b)), w)"
    "setReadDeadline answering_socket t w = (None, w)"
    "readFrom answering_socket w = (Inr (empty_answer, ''s''), w)" "localAddr answering_socket = []" for b a t w
    by (simp_all add: answering_socket_def)
  have "take maxPacketSize empty_answer = empty_answer"
    by (simp add: maxPacketSize_def empty_answer_def)
  moreover have "\<exists>p. newPacketFromBytes empty_answer = Inr (Inr p) \<and> transID p = replicate 16 0 \<and> attributes p = []"
    by (simp add: newPacketFromBytes_def empty_answer_def loop)
  ultimately obtain p where p: "newPacketFromBytes (take maxPacketSize empty_answer) = Inr (Inr p)"
    "transID p = replicate 16 0" "attributes p = []" by auto
  have "\<exists>r. newResponse sample_env [] (Some p) = Inr r"
    using p(3) by (simp add: newResponse_def Let_def getXorMappedAddr_def getXorAddr_def getMappedAddr_def
        getRawAddr_def getChangedAddr_def getOtherAddr_def)
  then obtain r where r: "newResponse sample_env [] (Some p) = Inr r" ..
  let ?r = "r\<lparr>serverAddr := newHostFromStr sample_env ''s''\<rparr>"
  have "readLoop sample_env answering_socket empty_packet () = Some (Inr (Inr (Some ?r)), ())"
    by (subst readLoop.simps) (simp add: fields empty_packet_def p r)
  then have "sendPacket sample_env answering_socket empty_packet None () = (Inr (Inr (Some ?r)), ())"
    unfolding sendPacket_def nine sendLoop.simps(2) fields by simp
  from this response_matches_request [OF this] show ?thesis by (auto simp: empty_packet_def)
qed

end
