(* ===== verification/GoText.thy ===== *)
theory GoText
  imports Prelude "HOL-Library.Char_ord" "HOL-Library.List_Lexorder"
begin

text \<open>
  What the components use of Go's \<^verbatim>\<open>strings\<close> and \<^verbatim>\<open>strconv\<close> packages.  A Go
  string is the list of its bytes.
\<close>

text \<open>A result or the constant part of the message of an error.\<close>

type_synonym 'a checked = "string + 'a"

subsection \<open>Digits\<close>

abbreviation code :: "char \<Rightarrow> nat" where "code c \<equiv> of_char c"

definition isDigit :: "char \<Rightarrow> bool" where
  "isDigit c \<longleftrightarrow> 48 \<le> code c \<and> code c \<le> 57"

text \<open>The digits of an integer in a base, and \<^verbatim>\<open>strconv.ParseInt\<close> to 64 bits.\<close>

definition digitValue :: "char \<Rightarrow> nat option" where
  "digitValue c =
     (if isDigit c then Some (code c - 48)
      else if 97 \<le> code c \<and> code c \<le> 122 then Some (code c - 87)
      else if 65 \<le> code c \<and> code c \<le> 90 then Some (code c - 55) else None)"

fun parseDigits :: "nat \<Rightarrow> nat \<Rightarrow> string \<Rightarrow> nat option" where
  "parseDigits base acc [] = Some acc"
| "parseDigits base acc (c # s) =
     (case digitValue c of
        None \<Rightarrow> None
      | Some d \<Rightarrow> if d < base then parseDigits base (base * acc + d) s else None)"

definition parseInt :: "string \<Rightarrow> nat \<Rightarrow> int option" where
  "parseInt s base =
     (let neg = (s \<noteq> [] \<and> hd s = CHR ''-'');
          digits = (if s \<noteq> [] \<and> (hd s = CHR ''-'' \<or> hd s = CHR ''+'') then tl s else s) in
      if digits = [] then None
      else
        (case parseDigits base 0 digits of
           None \<Rightarrow> None
         | Some n \<Rightarrow>
             let i = (if neg then - int n else int n) in
             if - (2 ^ 63) \<le> i \<and> i < 2 ^ 63 then Some i else None))"

text \<open>\<^verbatim>\<open>strconv.ParseUint\<close> in base 10 to 64 bits takes no sign.\<close>

definition parseUint :: "string \<Rightarrow> nat option" where
  "parseUint s =
     (if s = [] then None
      else (case parseDigits 10 0 s of None \<Rightarrow> None | Some n \<Rightarrow> if n < 2 ^ 64 then Some n else None))"

fun showNat :: "nat \<Rightarrow> string" where
  "showNat n = (if n < 10 then [char_of (48 + n)] else showNat (n div 10) @ [char_of (48 + n mod 10)])"

declare showNat.simps [simp del]

definition showInt :: "int \<Rightarrow> string" where
  "showInt i = (if i < 0 then ''-'' @ showNat (nat (- i)) else showNat (nat i))"

subsection \<open>Substrings\<close>

fun containsString :: "string \<Rightarrow> string \<Rightarrow> bool" where
  "containsString s needle \<longleftrightarrow>
     take (length needle) s = needle \<or> (case s of [] \<Rightarrow> False | _ # s' \<Rightarrow> containsString s' needle)"

declare containsString.simps [simp del]

text \<open>\<^verbatim>\<open>strings.Split\<close> at a separator that is not empty; \<open>acc\<close> is the current part.\<close>

function splitAt :: "string \<Rightarrow> string \<Rightarrow> string \<Rightarrow> string list" where
  "splitAt sep acc [] = [acc]"
| "splitAt sep acc (c # s) =
     (if sep \<noteq> [] \<and> take (length sep) (c # s) = sep then acc # splitAt sep [] (drop (length sep) (c # s))
      else splitAt sep (acc @ [c]) s)"
  by pat_completeness auto
termination
  by (relation "measure (\<lambda>(sep, acc, s). length s)") (auto simp: length_greater_0_conv [symmetric] simp del: length_greater_0_conv)

declare splitAt.simps(2) [simp del]

fun joinStrings :: "string \<Rightarrow> string list \<Rightarrow> string" where
  "joinStrings sep [] = []"
| "joinStrings sep [s] = s"
| "joinStrings sep (s # ss) = s @ sep @ joinStrings sep ss"

text \<open>\<^verbatim>\<open>strings.Trim\<close> with a set of ASCII characters.\<close>

definition trimSet :: "char set \<Rightarrow> string \<Rightarrow> string" where
  "trimSet cs s = rev (dropWhile (\<lambda>c. c \<in> cs) (rev (dropWhile (\<lambda>c. c \<in> cs) s)))"

text \<open>
  \<^verbatim>\<open>strings.TrimSpace\<close> strips the characters with Unicode's property White Space, here in their
  encodings in UTF-8.
\<close>

definition spaceCodes :: "string list" where
  "spaceCodes =
     map (\<lambda>c. [char_of c]) [9, 10, 11, 12, 13, 32 :: nat]
     @ map (map char_of) [[0xC2, 0x85], [0xC2, 0xA0], [0xE1, 0x9A, 0x80], [0xE2, 0x80, 0xA8], [0xE2, 0x80, 0xA9],
         [0xE2, 0x80, 0xAF], [0xE2, 0x81, 0x9F], [0xE3, 0x80, 0x80 :: nat]]
     @ map (\<lambda>i. map char_of [0xE2, 0x80, 0x80 + i]) [0..<11]"

function stripSpaces :: "string list \<Rightarrow> string \<Rightarrow> string" where
  "stripSpaces cs s =
     (case find (\<lambda>c. c \<noteq> [] \<and> take (length c) s = c) cs of
        None \<Rightarrow> s
      | Some c \<Rightarrow> stripSpaces cs (drop (length c) s))"
  by pat_completeness auto
termination
proof (relation "measure (\<lambda>(cs, s). length s)", goal_cases)
  case (2 cs s c)
  then have "c \<noteq> []" "take (length c) s = c" by (auto simp: find_Some_iff)
  then have "s \<noteq> []" by auto
  with \<open>c \<noteq> []\<close> show ?case by simp
qed simp

declare stripSpaces.simps [simp del]

definition trimSpaces :: "string \<Rightarrow> string" where
  "trimSpaces s = rev (stripSpaces (map rev spaceCodes) (rev (stripSpaces spaceCodes s)))"

text \<open>\<^verbatim>\<open>strings.HasPrefix\<close> and \<^verbatim>\<open>strings.HasSuffix\<close>.\<close>

definition hasPrefix :: "string \<Rightarrow> string \<Rightarrow> bool" where
  "hasPrefix s p \<longleftrightarrow> take (length p) s = p"

definition hasSuffix :: "string \<Rightarrow> string \<Rightarrow> bool" where
  "hasSuffix s p \<longleftrightarrow> length p \<le> length s \<and> drop (length s - length p) s = p"

subsection \<open>Numbers read back\<close>

lemma isDigit_char_of: "n < 10 \<Longrightarrow> isDigit (char_of (48 + n :: nat))"
  by (simp add: isDigit_def)

lemma digitValue_char_of: "n < 10 \<Longrightarrow> digitValue (char_of (48 + n :: nat)) = Some n"
  by (simp add: digitValue_def isDigit_def)

lemma showNat_digits: "\<forall>c\<in>set (showNat n). isDigit c"
proof (induction n rule: showNat.induct)
  case (1 n)
  then show ?case by (subst showNat.simps) (auto simp: isDigit_char_of)
qed

lemma showNat_nonempty: "showNat n \<noteq> []"
  by (subst showNat.simps) simp

lemma parseDigits_append:
  "parseDigits b acc (s @ t) =
     (case parseDigits b acc s of None \<Rightarrow> None | Some n \<Rightarrow> parseDigits b n t)"
  by (induction b acc s rule: parseDigits.induct) (auto split: option.splits)

lemma parseDigits_showNat: "parseDigits 10 0 (showNat n) = Some n"
proof (induction n rule: showNat.induct)
  case (1 n)
  show ?case
  proof (cases "n < 10")
    case True
    then show ?thesis by (subst showNat.simps) (simp add: digitValue_char_of)
  next
    case False
    with 1 show ?thesis
      by (subst showNat.simps) (simp add: parseDigits_append digitValue_char_of)
  qed
qed

lemma digit_chars: "isDigit c \<Longrightarrow> c \<notin> {CHR ''.'', CHR ''e'', CHR ''E'', CHR ''x'', CHR ''X'', CHR ''-'', CHR ''+'',
    CHR 0x22, CHR ''#'', CHR ''~'', CHR ''['', CHR '']'', CHR '' '', CHR ''/'', CHR '','', CHR ''*''}"
  by (auto simp: isDigit_def)

lemma hd_showNat: "isDigit (hd (showNat n))"
  using showNat_digits [of n] showNat_nonempty [of n] by (cases "showNat n") auto

lemma parseInt_showNat: "int n < 2 ^ 63 \<Longrightarrow> parseInt (showNat n) 10 = Some (int n)"
  using digit_chars [OF hd_showNat [of n]] showNat_nonempty [of n]
  by (auto simp: parseInt_def parseDigits_showNat Let_def)

lemma parseUint_showNat: "n < 2 ^ 64 \<Longrightarrow> parseUint (showNat n) = Some n"
  by (simp add: parseUint_def parseDigits_showNat showNat_nonempty)

lemma parseInt_minus: "int n \<le> 2 ^ 63 \<Longrightarrow> parseInt (CHR ''-'' # showNat n) 10 = Some (- int n)"
  using showNat_nonempty [of n] by (auto simp: parseInt_def parseDigits_showNat Let_def)

subsection \<open>Trimming and splitting\<close>

text \<open>A text whose ends are no spaces is not trimmed.\<close>

lemma stripSpaces_stop:
  assumes "\<forall>c\<in>set cs. c = [] \<or> hd c \<noteq> x"
  shows "stripSpaces cs (x # s) = x # s"
proof -
  have "find (\<lambda>c. c \<noteq> [] \<and> take (length c) (x # s) = c) cs = None"
    using assms by (auto simp: find_None_iff take_Cons' split: if_splits) (metis list.sel(1))
  then show ?thesis by (simp add: stripSpaces.simps)
qed

lemma stripSpaces_Nil [simp]: "stripSpaces cs [] = []"
proof -
  have "find (\<lambda>c. c \<noteq> [] \<and> take (length c) [] = c) cs = None" by (auto simp: find_None_iff)
  then show ?thesis by (simp add: stripSpaces.simps)
qed

lemma trimSpaces_keeps:
  assumes "s = [] \<or> (\<forall>c\<in>set spaceCodes. hd c \<noteq> hd s \<and> last c \<noteq> last s)"
  shows "trimSpaces s = s"
proof (cases s)
  case (Cons x t)
  have ne: "\<forall>c\<in>set spaceCodes. c \<noteq> []" by (auto simp: spaceCodes_def)
  have left: "stripSpaces spaceCodes s = s"
    using assms unfolding Cons by (intro stripSpaces_stop) auto
  obtain y u where rev: "rev s = y # u" "y = last s" using Cons by (metis last_rev hd_rev list.sel(1) neq_Nil_conv rev_is_Nil_conv)
  have "stripSpaces (map rev spaceCodes) (rev s) = rev s"
    unfolding rev(1) using assms ne rev(2) Cons by (intro stripSpaces_stop) (auto simp: hd_rev)
  then show ?thesis by (simp add: trimSpaces_def left)
qed (simp add: trimSpaces_def)

lemma dropWhile_keeps: "set s \<inter> cs = {} \<Longrightarrow> dropWhile (\<lambda>c. c \<in> cs) s = s"
  by (cases s) auto

lemma trimSet_keeps: "set s \<inter> cs = {} \<Longrightarrow> trimSet cs s = s"
  by (simp add: trimSet_def dropWhile_keeps)

text \<open>Splitting at a character undoes joining with it.\<close>

lemma splitAt_char:
  "splitAt [d] acc (c # s) = (if c = d then acc # splitAt [d] [] s else splitAt [d] (acc @ [c]) s)"
  by (simp add: splitAt.simps(2))

lemma splitAt_skip: "d \<notin> set s \<Longrightarrow> splitAt [d] acc (s @ t) = splitAt [d] (acc @ s) t"
  by (induction s arbitrary: acc) (auto simp: splitAt_char)

lemma splitAt_join:
  "ss \<noteq> [] \<Longrightarrow> \<forall>s\<in>set ss. d \<notin> set s \<Longrightarrow> splitAt [d] [] (joinStrings [d] ss) = ss"
proof (induction "[d]" ss rule: joinStrings.induct)
  case (2 s)
  then show ?case using splitAt_skip [of d s "[]" "[]"] by simp
next
  case (3 s s' ss)
  then show ?case using splitAt_skip [of d s "[]" "d # joinStrings [d] (s' # ss)"] by (simp add: splitAt_char)
qed simp

lemma hd_joinStrings: "ss \<noteq> [] \<Longrightarrow> hd ss \<noteq> [] \<Longrightarrow> hd (joinStrings d ss) = hd (hd ss)"
  by (induction d ss rule: joinStrings.induct) simp_all

lemma last_joinStrings: "ss \<noteq> [] \<Longrightarrow> last ss \<noteq> [] \<Longrightarrow> last (joinStrings d ss) = last (last ss) \<and> joinStrings d ss \<noteq> []"
  by (induction d ss rule: joinStrings.induct) auto

lemma set_joinStrings: "set (joinStrings d ss) \<subseteq> set d \<union> \<Union> (set ` set ss)"
  by (induction d ss rule: joinStrings.induct) auto

definition isGraph :: "char \<Rightarrow> bool" where
  "isGraph c \<longleftrightarrow> 32 < code c \<and> code c < 128"

lemma isDigit_isGraph: "isDigit c \<Longrightarrow> isGraph c"
  by (simp add: isDigit_def isGraph_def)

lemma spaces_not_graph: "list_all (\<lambda>c. \<not> isGraph (hd c) \<and> \<not> isGraph (last c)) spaceCodes"
  by (auto simp: spaceCodes_def isGraph_def list_all_iff)

lemma trimSpaces_graph: "s = [] \<or> isGraph (hd s) \<and> isGraph (last s) \<Longrightarrow> trimSpaces s = s"
  using spaces_not_graph by (intro trimSpaces_keeps) (auto simp: list_all_iff)

lemma last_showNat: "isDigit (last (showNat n))"
  using showNat_digits [of n] showNat_nonempty [of n] by simp

end
