(* ===== verification/ExprLex.thy ===== *)
theory ExprLex
  imports GoText
begin

text \<open>
  The lexer of the override expressions (\<^verbatim>\<open>mihomo/adapter/provider/override_expr.go\<close>).  A Go
  string is the list of its bytes; \<^verbatim>\<open>unicode.IsSpace\<close> and the like are applied to single bytes, so
  they are the predicates of Latin-1.  The source is scanned as the text that is left and the position
  it starts at.  An error is the constant part of its message.
\<close>

subsection \<open>Characters\<close>

abbreviation "dquote \<equiv> CHR 0x22"
abbreviation "backslash \<equiv> CHR 0x5C"
abbreviation "newline \<equiv> CHR 0x0A"

definition isSpace :: "char \<Rightarrow> bool" where
  "isSpace c \<longleftrightarrow> code c \<in> {9, 10, 11, 12, 13, 32, 0x85, 0xA0}"

definition isHexDigit :: "char \<Rightarrow> bool" where
  "isHexDigit c \<longleftrightarrow> isDigit c \<or> 97 \<le> code c \<and> code c \<le> 102 \<or> 65 \<le> code c \<and> code c \<le> 70"

definition isLetter :: "char \<Rightarrow> bool" where
  "isLetter c \<longleftrightarrow> 65 \<le> code c \<and> code c \<le> 90 \<or> 97 \<le> code c \<and> code c \<le> 122
     \<or> code c \<in> {0xAA, 0xB5, 0xBA} \<or> 0xC0 \<le> code c \<and> code c \<noteq> 0xD7 \<and> code c \<noteq> 0xF7"

definition isOverrideIdentifierStart :: "char \<Rightarrow> bool" where
  "isOverrideIdentifierStart c \<longleftrightarrow> c = CHR ''_'' \<or> isLetter c"

definition isOverrideIdentifierPart :: "char \<Rightarrow> bool" where
  "isOverrideIdentifierPart c \<longleftrightarrow> c = CHR ''_'' \<or> c = CHR ''-'' \<or> isLetter c \<or> isDigit c"

subsection \<open>Tokens\<close>

datatype (plugins only: code size) token_kind = TEOF | TDot | TIdentifier | TString | TNumber | TLeftParen | TRightParen
  | TLeftBracket | TRightBracket | TLeftBrace | TRightBrace | TComma | TSemicolon | TColon | TPipe
  | TAssign | TUpdateAssign | TAddAssign | TSubtractAssign | TMultiplyAssign
  | TPlus | TMinus | TMultiply | TDivide | TModulo | TAlternative
  | TEqual | TNotEqual | TLess | TLessEqual | TGreater | TGreaterEqual

record token =
  tkind :: token_kind
  ttext :: string
  tpos :: nat

definition token_of :: "token_kind \<Rightarrow> string \<Rightarrow> nat \<Rightarrow> token" where
  "token_of k s p = \<lparr>tkind = k, ttext = s, tpos = p\<rparr>"

lemma token_of_simps [simp]: "tkind (token_of k s p) = k" "ttext (token_of k s p) = s" "tpos (token_of k s p) = p"
  by (simp_all add: token_of_def)

text \<open>
  The text of a string token up to the closing quote, and what follows it; \<open>None\<close> when it is not
  terminated.
\<close>

fun scanOverrideString :: "string \<Rightarrow> (string \<times> string) option" where
  "scanOverrideString [] = None"
| "scanOverrideString (c # s) =
     (if c = backslash
      then (case s of [] \<Rightarrow> None
            | d # s \<Rightarrow> map_option (\<lambda>(v, rest). (c # d # v, rest)) (scanOverrideString s))
      else if c = dquote then Some ([], s)
      else map_option (\<lambda>(v, rest). (c # v, rest)) (scanOverrideString s))"

text \<open>Decoding of the escapes; a lone backslash at the end is an error.\<close>

fun decodeOverrideString :: "string \<Rightarrow> string + string" where
  "decodeOverrideString [] = Inr []"
| "decodeOverrideString (c # s) =
     (if c \<noteq> backslash then rbind (decodeOverrideString s) (\<lambda>r. Inr (c # r))
      else (case s of
              [] \<Rightarrow> Inl ''invalid string escape''
            | d # s \<Rightarrow> rbind (decodeOverrideString s) (\<lambda>r.
                Inr ((if d = dquote then [dquote] else if d = CHR ''n'' then [newline]
                      else if d = backslash then [backslash] else [backslash, d]) @ r))))"

text \<open>The number of characters of the number that \<open>s\<close> starts with.\<close>

definition scanOverrideNumber :: "string \<Rightarrow> nat" where
  "scanOverrideNumber s =
     (if 2 \<le> length s \<and> s ! 0 = CHR ''0'' \<and> (s ! 1 = CHR ''x'' \<or> s ! 1 = CHR ''X'')
      then 2 + length (takeWhile isHexDigit (drop 2 s))
      else
        let digits = \<lambda>p. length (takeWhile isDigit (drop p s));
            at = \<lambda>p. (if p < length s then Some (s ! p) else None);
            p = digits 0;
            p = (if at p = Some (CHR ''.'') then p + 1 + digits (p + 1) else p) in
        if at p = Some (CHR ''e'') \<or> at p = Some (CHR ''E'')
        then let p = p + 1;
                 p = (if at p = Some (CHR ''+'') \<or> at p = Some (CHR ''-'') then p + 1 else p) in
             p + digits p
        else p)"

text \<open>The operators: the kind and the width of the token that starts with \<open>ch\<close>.\<close>

definition lexOperator :: "char \<Rightarrow> char option \<Rightarrow> (token_kind \<times> nat) option" where
  "lexOperator ch after =
     (let pick = \<lambda>d wide narrow. Some (if after = Some d then (wide, 2) else (narrow, 1)) in
      if ch = CHR ''.'' then Some (TDot, 1)
      else if ch = CHR ''('' then Some (TLeftParen, 1)
      else if ch = CHR '')'' then Some (TRightParen, 1)
      else if ch = CHR ''['' then Some (TLeftBracket, 1)
      else if ch = CHR '']'' then Some (TRightBracket, 1)
      else if ch = CHR ''{'' then Some (TLeftBrace, 1)
      else if ch = CHR ''}'' then Some (TRightBrace, 1)
      else if ch = CHR '','' then Some (TComma, 1)
      else if ch = CHR '';'' then Some (TSemicolon, 1)
      else if ch = CHR '':'' then Some (TColon, 1)
      else if ch = CHR ''|'' then pick (CHR ''='') TUpdateAssign TPipe
      else if ch = CHR ''+'' then pick (CHR ''='') TAddAssign TPlus
      else if ch = CHR ''-'' then pick (CHR ''='') TSubtractAssign TMinus
      else if ch = CHR ''*'' then pick (CHR ''='') TMultiplyAssign TMultiply
      else if ch = CHR ''/'' then pick (CHR ''/'') TAlternative TDivide
      else if ch = CHR ''%'' then Some (TModulo, 1)
      else if ch = CHR ''='' then pick (CHR ''='') TEqual TAssign
      else if ch = CHR ''!'' then (if after = Some (CHR ''='') then Some (TNotEqual, 2) else None)
      else if ch = CHR ''<'' then pick (CHR ''='') TLessEqual TLess
      else if ch = CHR ''>'' then pick (CHR ''='') TGreaterEqual TGreater
      else if ch = CHR ''~'' then Some (TIdentifier, 1)
      else None)"

lemma lexOperator_width: "lexOperator ch after = Some (k, w) \<Longrightarrow> 0 < w"
  by (auto simp: lexOperator_def Let_def split: if_splits)

lemma scanOverrideString_shorter: "scanOverrideString s = Some (v, rest) \<Longrightarrow> length v + length rest + 1 = length s"
  by (induction s arbitrary: v rest rule: scanOverrideString.induct) (auto split: if_splits list.splits)

lemma scanOverrideNumber_pos: "isDigit c \<Longrightarrow> 0 < scanOverrideNumber (c # s)"
  by (simp add: scanOverrideNumber_def Let_def)

definition nextChar :: "string \<Rightarrow> char option" where
  "nextChar s = (case s of [] \<Rightarrow> None | c # _ \<Rightarrow> Some c)"

function lexFrom :: "nat \<Rightarrow> string \<Rightarrow> string + token list" where
  "lexFrom pos [] = Inr [token_of TEOF [] pos]"
| "lexFrom pos (ch # s) =
     (if isSpace ch then lexFrom (pos + 1) s
      else if ch = CHR ''#'' then Inr [token_of TEOF [] (pos + 1 + length s)]
      else
        (case lexOperator ch (nextChar s) of
           Some (k, w) \<Rightarrow>
             rbind (lexFrom (pos + w) (drop w (ch # s))) (\<lambda>ts. Inr (token_of k (take w (ch # s)) pos # ts))
         | None \<Rightarrow>
             if ch = dquote then
               (case scanOverrideString s of
                  None \<Rightarrow> Inl ''unterminated string''
                | Some (v, rest) \<Rightarrow>
                    rbind (lexFrom (pos + length v + 2) rest) (\<lambda>ts. Inr (token_of TString v pos # ts)))
             else if isDigit ch then
               let n = scanOverrideNumber (ch # s) in
               rbind (lexFrom (pos + n) (drop n (ch # s))) (\<lambda>ts. Inr (token_of TNumber (take n (ch # s)) pos # ts))
             else if isOverrideIdentifierStart ch then
               let n = 1 + length (takeWhile isOverrideIdentifierPart s) in
               rbind (lexFrom (pos + n) (drop n (ch # s))) (\<lambda>ts. Inr (token_of TIdentifier (take n (ch # s)) pos # ts))
             else Inl ''unexpected character''))"
  by pat_completeness auto
termination
  by (relation "measure (\<lambda>(pos, s). length s)")
    (auto dest: lexOperator_width scanOverrideString_shorter intro!: diff_less scanOverrideNumber_pos)

declare lexFrom.simps(2) [simp del]

definition lexOverrideExpr :: "string \<Rightarrow> string + token list" where
  "lexOverrideExpr source = lexFrom 0 source"

end
