(* ===== verification/ExprAst.thy ===== *)
theory ExprAst
  imports ExprLex
begin

text \<open>
  Values, paths and expressions of the override language.

  A value is the dynamic type of an \<^verbatim>\<open>any\<close> that a decoded proxy mapping or an expression can hold;
  \<open>VNoMatch\<close> is \<^verbatim>\<open>overrideNoMatch{}\<close>, which the code passes around as a value too.  The numbers of Go
  keep their type.  A mapping is an association list that is kept sorted by its keys: reading it in
  order is what the code does after \<^verbatim>\<open>sort.Strings\<close>.  Maps and slices are values, not references: the
  sharing that \<^verbatim>\<open>|=\<close> can create between two places of a mapping is not modelled.
\<close>

datatype (plugins only: code size) int_kind = KInt | KInt8 | KInt16 | KInt32 | KInt64 | KUint | KUint8 | KUint16 | KUint32 | KUint64
datatype (plugins only: code size) float_kind = KFloat32 | KFloat64

datatype (plugins only: code size) 'f val =
    VNull
  | VBool bool
  | VStr string
  | VInt int_kind int
  | VFloat float_kind 'f
  | VList "'f val list"
  | VMap "(string \<times> 'f val) list"
  | VNoMatch

abbreviation "VI n \<equiv> VInt KInt n"

subsection \<open>Mappings\<close>

definition mget :: "(string \<times> 'v) list \<Rightarrow> string \<Rightarrow> 'v option" where
  "mget m k = map_of m k"

fun mput :: "string \<Rightarrow> 'v \<Rightarrow> (string \<times> 'v) list \<Rightarrow> (string \<times> 'v) list" where
  "mput k v [] = [(k, v)]"
| "mput k v ((k', v') # m) =
     (if k = k' then (k, v) # m else if k < k' then (k, v) # (k', v') # m else (k', v') # mput k v m)"

definition mdelete :: "string \<Rightarrow> (string \<times> 'v) list \<Rightarrow> (string \<times> 'v) list" where
  "mdelete k m = filter (\<lambda>(k', v). k' \<noteq> k) m"

definition mkeys :: "(string \<times> 'v) list \<Rightarrow> string list" where
  "mkeys m = map fst m"

text \<open>\<^verbatim>\<open>m[k]\<close> of a missing key is nil.\<close>

definition mindex :: "(string \<times> 'f val) list \<Rightarrow> string \<Rightarrow> 'f val" where
  "mindex m k = (case mget m k of None \<Rightarrow> VNull | Some v \<Rightarrow> v)"

definition sorted_map :: "(string \<times> 'v) list \<Rightarrow> bool" where
  "sorted_map m \<longleftrightarrow> sorted (mkeys m) \<and> distinct (mkeys m)"

lemma mget_mput [simp]: "mget (mput k v m) k' = (if k' = k then Some v else mget m k')"
  by (induction k v m rule: mput.induct) (auto simp: mget_def)

lemma mkeys_mput: "set (mkeys (mput k v m)) = insert k (set (mkeys m))"
  by (induction k v m rule: mput.induct) (auto simp: mkeys_def)

lemma sorted_map_simps [simp]:
  "sorted_map []"
  "sorted_map ((k, v) # m) \<longleftrightarrow> sorted_map m \<and> (\<forall>k'\<in>set (mkeys m). k < k')"
  by (auto simp: sorted_map_def mkeys_def less_le)

lemma sorted_map_mput: "sorted_map m \<Longrightarrow> sorted_map (mput k v m)"
  by (induction k v m rule: mput.induct) (auto simp: mkeys_mput, auto simp: mkeys_def)

lemma sorted_map_mdelete: "sorted_map m \<Longrightarrow> sorted_map (mdelete k m)"
  by (induction m) (auto simp: mdelete_def mkeys_def)

lemma mget_mdelete [simp]: "mget (mdelete k m) k' = (if k' = k then None else mget m k')"
  by (induction m) (auto simp: mget_def mdelete_def)

lemma mget_Some_in: "mget m k = Some v \<Longrightarrow> (k, v) \<in> set m"
  by (simp add: mget_def map_of_SomeD)

lemma set_mput: "set (mput k v m) \<subseteq> insert (k, v) (set m)"
  by (induction k v m rule: mput.induct) auto

subsection \<open>Paths\<close>

datatype (plugins only: code size) segment = Field string | Index int | Wildcard

type_synonym path = "segment list"

subsection \<open>Expressions\<close>

datatype (plugins only: code size) 'f expr =
    ELiteral "'f val"
  | EString "'f part list"
  | EPath path
  | EArray "'f expr list"
  | EMap "(string \<times> 'f expr) list"
  | EUpdate path token_kind "'f expr"
  | EBinary string "'f expr" "'f expr"
  | EFunction string "'f expr list"
  | EStream string "'f expr list"
  | EPipeline "'f expr list"
  | EUnion "'f expr list"
and 'f part = PLiteral string | PExpr "'f expr"

datatype (plugins only: code size) 'f stage = SPath path | SCondition "'f expr"

text \<open>The target of an assignment is a path or, in parentheses, a list of stages.\<close>

datatype (plugins only: code size) 'f statement =
    Assign path "'f stage list option" token_kind "'f expr"
  | Filter "'f expr"
  | Delete "path list"

record 'f override_expr =
  source :: string
  statements :: "'f statement list"

subsection \<open>What is not in the source\<close>

text \<open>
  Floating-point arithmetic, \<^verbatim>\<open>fmt.Sprint\<close> of a float, case folding and trimming of UTF-8 text,
  the characters of UTF-8 text, \<^verbatim>\<open>regexp\<close> and the YAML encoder.  \<open>reCompile\<close> says whether a pattern compiles.
\<close>

record 'f lib =
  fromInt :: "int \<Rightarrow> 'f"
  toInt :: "'f \<Rightarrow> int"
  fadd :: "'f \<Rightarrow> 'f \<Rightarrow> 'f"
  fsub :: "'f \<Rightarrow> 'f \<Rightarrow> 'f"
  fmul :: "'f \<Rightarrow> 'f \<Rightarrow> 'f"
  fdiv :: "'f \<Rightarrow> 'f \<Rightarrow> 'f"
  fmod :: "'f \<Rightarrow> 'f \<Rightarrow> 'f"
  feq :: "'f \<Rightarrow> 'f \<Rightarrow> bool"
  fless :: "'f \<Rightarrow> 'f \<Rightarrow> bool"
  fprint :: "float_kind \<Rightarrow> 'f \<Rightarrow> string"
  fparse :: "string \<Rightarrow> 'f option"
  toUpper :: "string \<Rightarrow> string"
  toLower :: "string \<Rightarrow> string"
  trimSpace :: "string \<Rightarrow> string"
  reCompile :: "string \<Rightarrow> bool"
  reMatch :: "string \<Rightarrow> string \<Rightarrow> bool"
  reReplace :: "string \<Rightarrow> string \<Rightarrow> string \<Rightarrow> string"
  utf8Chars :: "string \<Rightarrow> string list"
  yamlMarshal :: "'f val \<Rightarrow> string + string"

end
