(* ===== verification/ExprValue.thy ===== *)
theory ExprValue
  imports ExprAst
begin

text \<open>
  The operations on values: copying, kinds, numbers, comparison, containment, merging, and the binary
  operators.  Integers go through \<^verbatim>\<open>float64\<close> as they do in the code, and their sums, differences and
  products wrap at 64 bits.
\<close>

type_synonym 'a result = "string + 'a"

subsection \<open>Copies and kinds\<close>

fun cloneOverrideValue :: "'f val \<Rightarrow> 'f val"
and cloneItems :: "'f val list \<Rightarrow> 'f val list"
and cloneEntries :: "(string \<times> 'f val) list \<Rightarrow> (string \<times> 'f val) list" where
  "cloneOverrideValue (VMap m) = VMap (cloneEntries m)"
| "cloneOverrideValue (VList xs) = VList (cloneItems xs)"
| "cloneOverrideValue v = v"
| "cloneItems [] = []"
| "cloneItems (x # xs) = cloneOverrideValue x # cloneItems xs"
| "cloneEntries [] = []"
| "cloneEntries ((k, v) # m) = (k, cloneOverrideValue v) # cloneEntries m"

lemma clone_id [simp]:
  fixes v :: "'f val" and xs :: "'f val list" and m :: "(string \<times> 'f val) list"
  shows "cloneOverrideValue v = v" "cloneItems xs = xs" "cloneEntries m = m"
  by (induction v and xs and m rule: cloneOverrideValue_cloneItems_cloneEntries.induct) simp_all

definition isOverrideNoMatch :: "'f val \<Rightarrow> bool" where
  "isOverrideNoMatch v \<longleftrightarrow> (case v of VNoMatch \<Rightarrow> True | _ \<Rightarrow> False)"

text \<open>The number as a \<^verbatim>\<open>float64\<close>, and whether its type is an integer.\<close>

definition overrideNumber :: "'f lib \<Rightarrow> 'f val \<Rightarrow> ('f \<times> bool) option" where
  "overrideNumber lib v =
     (case v of VInt k n \<Rightarrow> Some (fromInt lib n, True) | VFloat k x \<Rightarrow> Some (x, False) | _ \<Rightarrow> None)"

definition isOverrideScalar :: "'f val \<Rightarrow> bool" where
  "isOverrideScalar v \<longleftrightarrow>
     (case v of VNull \<Rightarrow> True | VBool b \<Rightarrow> True | VStr s \<Rightarrow> True | VInt k n \<Rightarrow> True | VFloat k x \<Rightarrow> True
      | _ \<Rightarrow> False)"

definition overrideTruthy :: "'f val \<Rightarrow> bool" where
  "overrideTruthy v \<longleftrightarrow> (case v of VNull \<Rightarrow> False | VBool b \<Rightarrow> b | _ \<Rightarrow> True)"

definition overrideType :: "'f val \<Rightarrow> string" where
  "overrideType v =
     (case v of VNull \<Rightarrow> ''!!null'' | VBool b \<Rightarrow> ''!!bool'' | VStr s \<Rightarrow> ''!!str'' | VList xs \<Rightarrow> ''!!seq''
      | VMap m \<Rightarrow> ''!!map'' | VFloat k x \<Rightarrow> ''!!float'' | VInt k n \<Rightarrow> ''!!int''
      | VNoMatch \<Rightarrow> ''provider.overrideNoMatch'')"

text \<open>\<^verbatim>\<open>fmt.Sprint\<close> of a value that is no array and no mapping.\<close>

definition sprint :: "'f lib \<Rightarrow> 'f val \<Rightarrow> string" where
  "sprint lib v =
     (case v of VNull \<Rightarrow> ''<nil>'' | VBool b \<Rightarrow> (if b then ''true'' else ''false'') | VStr s \<Rightarrow> s
      | VInt k n \<Rightarrow> showInt n | VFloat k x \<Rightarrow> fprint lib k x | _ \<Rightarrow> ''{}'')"

subsection \<open>Comparison\<close>

definition compareOverrideValues :: "'f lib \<Rightarrow> 'f val \<Rightarrow> 'f val \<Rightarrow> int result" where
  "compareOverrideValues lib l r =
     (case overrideNumber lib l of
        Some (x, _) \<Rightarrow>
          (case overrideNumber lib r of
             None \<Rightarrow> Inl ''cannot compare number''
           | Some (y, _) \<Rightarrow> Inr (if fless lib x y then -1 else if fless lib y x then 1 else 0))
      | None \<Rightarrow>
          (case (l, r) of
             (VStr s, VStr t) \<Rightarrow> Inr (if s < t then -1 else if t < s then 1 else 0)
           | _ \<Rightarrow> Inl ''cannot compare''))"

definition sortRank :: "'f val \<Rightarrow> nat" where
  "sortRank v =
     (case v of VNull \<Rightarrow> 0 | VBool b \<Rightarrow> 1 | VInt k n \<Rightarrow> 2 | VFloat k x \<Rightarrow> 2 | VStr s \<Rightarrow> 3 | _ \<Rightarrow> 4)"

definition compareOverrideSortValues :: "'f lib \<Rightarrow> 'f val \<Rightarrow> 'f val \<Rightarrow> int result" where
  "compareOverrideSortValues lib l r =
     (if sortRank l \<noteq> sortRank r then Inr (if sortRank l < sortRank r then -1 else 1)
      else if sortRank l = 0 then Inr 0
      else if sortRank l = 1 then Inr (if l = r then 0 else if l = VBool False then -1 else 1)
      else if sortRank l = 2 \<or> sortRank l = 3 then compareOverrideValues lib l r
      else Inl ''sort only supports scalar array values in override-expr'')"

text \<open>\<^verbatim>\<open>reflect.DeepEqual\<close>.\<close>

fun deepEqual :: "'f lib \<Rightarrow> 'f val \<Rightarrow> 'f val \<Rightarrow> bool"
and deepEqualItems :: "'f lib \<Rightarrow> 'f val list \<Rightarrow> 'f val list \<Rightarrow> bool"
and deepEqualEntries :: "'f lib \<Rightarrow> (string \<times> 'f val) list \<Rightarrow> (string \<times> 'f val) list \<Rightarrow> bool" where
  "deepEqual lib (VList xs) r = (case r of VList ys \<Rightarrow> deepEqualItems lib xs ys | _ \<Rightarrow> False)"
| "deepEqual lib (VMap m) r = (case r of VMap n \<Rightarrow> deepEqualEntries lib m n | _ \<Rightarrow> False)"
| "deepEqual lib (VFloat k x) r = (case r of VFloat l y \<Rightarrow> k = l \<and> feq lib x y | _ \<Rightarrow> False)"
| "deepEqual lib (VInt k x) r = (case r of VInt l y \<Rightarrow> k = l \<and> x = y | _ \<Rightarrow> False)"
| "deepEqual lib (VStr s) r = (case r of VStr t \<Rightarrow> s = t | _ \<Rightarrow> False)"
| "deepEqual lib (VBool b) r = (case r of VBool c \<Rightarrow> b = c | _ \<Rightarrow> False)"
| "deepEqual lib VNull r = (case r of VNull \<Rightarrow> True | _ \<Rightarrow> False)"
| "deepEqual lib VNoMatch r = (case r of VNoMatch \<Rightarrow> True | _ \<Rightarrow> False)"
| "deepEqualItems lib [] ys \<longleftrightarrow> ys = []"
| "deepEqualItems lib (x # xs) ys =
     (case ys of [] \<Rightarrow> False | y # ys \<Rightarrow> deepEqual lib x y \<and> deepEqualItems lib xs ys)"
| "deepEqualEntries lib [] n \<longleftrightarrow> n = []"
| "deepEqualEntries lib ((k, x) # m) n =
     (case n of [] \<Rightarrow> False | (l, y) # n \<Rightarrow> k = l \<and> deepEqual lib x y \<and> deepEqualEntries lib m n)"

definition overrideEqual :: "'f lib \<Rightarrow> 'f val \<Rightarrow> 'f val \<Rightarrow> bool" where
  "overrideEqual lib l r \<longleftrightarrow>
     (case overrideNumber lib l of
        Some (x, i) \<Rightarrow> (case overrideNumber lib r of None \<Rightarrow> False | Some (y, j) \<Rightarrow> i = j \<and> feq lib x y)
      | None \<Rightarrow> deepEqual lib l r)"

definition overrideYQEqual :: "'f lib \<Rightarrow> 'f val \<Rightarrow> 'f val \<Rightarrow> bool" where
  "overrideYQEqual lib l r \<longleftrightarrow>
     (if \<not> isOverrideScalar l \<or> \<not> isOverrideScalar r then False
      else if sortRank l = 0 \<or> sortRank r = 0 then sortRank l = 0 \<and> sortRank r = 0
      else
        (case (overrideNumber lib l, overrideNumber lib r) of
           (Some (x, i), Some (y, j)) \<Rightarrow> i = j \<and> feq lib x y
         | _ \<Rightarrow> sprint lib l = sprint lib r))"

subsection \<open>Strings\<close>

definition splitString :: "'f lib \<Rightarrow> string \<Rightarrow> string \<Rightarrow> string list" where
  "splitString lib s sep = (if sep = [] then utf8Chars lib s else splitAt sep [] s)"

subsection \<open>Collections\<close>

lemma mget_size: "mget m k = Some v \<Longrightarrow> size v < size (VMap m)"
  by (induction m) (auto simp: mget_def split: if_splits)

lemma item_size: "x \<in> set xs \<Longrightarrow> size x < size (VList xs)"
  by (induction xs) auto

function overrideContains :: "'f lib \<Rightarrow> 'f val \<Rightarrow> 'f val \<Rightarrow> bool" where
  "overrideContains lib container wantedAll \<longleftrightarrow>
     (case container of
        VStr s \<Rightarrow> (case wantedAll of VStr t \<Rightarrow> containsString s t | _ \<Rightarrow> False)
      | VList xs \<Rightarrow>
          list_all (\<lambda>wanted. list_ex (\<lambda>c. overrideEqual lib c wanted \<or> overrideContains lib c wanted) xs)
            (case wantedAll of VList ys \<Rightarrow> ys | y \<Rightarrow> [y])
      | VMap m \<Rightarrow>
          (case wantedAll of
             VMap n \<Rightarrow>
               list_all (\<lambda>(key, wanted). case mget m key of
                   None \<Rightarrow> False
                 | Some c \<Rightarrow> overrideEqual lib c wanted \<or> overrideContains lib c wanted) n
           | _ \<Rightarrow> False)
      | _ \<Rightarrow> False)"
  by pat_completeness auto
termination
  by (relation "measure (\<lambda>(lib, c, d). size c)") (auto dest!: item_size mget_size)

declare overrideContains.simps [simp del]

fun mergeOverrideMaps :: "(string \<times> 'f val) list \<Rightarrow> (string \<times> 'f val) list \<Rightarrow> (string \<times> 'f val) list" where
  "mergeOverrideMaps l [] = cloneEntries l"
| "mergeOverrideMaps l ((k, rv) # r) =
     mergeOverrideMaps
       (mput k (case rv of
                  VMap rm \<Rightarrow> (case mget l k of Some (VMap lm) \<Rightarrow> VMap (mergeOverrideMaps lm rm)
                              | _ \<Rightarrow> cloneOverrideValue rv)
                | _ \<Rightarrow> cloneOverrideValue rv) l) r"

fun flattenOverrideArray :: "'f val list \<Rightarrow> int \<Rightarrow> 'f val list"
and flattenItem :: "'f val \<Rightarrow> int \<Rightarrow> 'f val list" where
  "flattenOverrideArray [] depth = []"
| "flattenOverrideArray (v # vs) depth = flattenItem v depth @ flattenOverrideArray vs depth"
| "flattenItem (VList ws) depth =
     (if depth = 0 then [cloneOverrideValue (VList ws)]
      else flattenOverrideArray ws (if depth > 0 then depth - 1 else depth))"
| "flattenItem v depth = [cloneOverrideValue v]"

definition overrideUniqueKey :: "'f lib \<Rightarrow> 'f val \<Rightarrow> string result" where
  "overrideUniqueKey lib v =
     (if isOverrideScalar v then Inr (if sortRank v = 0 then ''null'' else sprint lib v)
      else yamlMarshal lib v)"

definition overrideCollectionValues :: "'f val \<Rightarrow> 'f val list result" where
  "overrideCollectionValues v =
     (case v of VList xs \<Rightarrow> Inr xs | VMap m \<Rightarrow> Inr (map snd m) | _ \<Rightarrow> Inl ''expected array or mapping'')"

definition entryOf :: "'f val \<Rightarrow> 'f val \<Rightarrow> 'f val" where
  "entryOf k v = VMap [(''key'', k), (''value'', v)]"

text \<open>\<open>None\<close> is the nil result for null.\<close>

definition toOverrideEntries :: "'f val \<Rightarrow> 'f val list option result" where
  "toOverrideEntries v =
     (case v of
        VNull \<Rightarrow> Inr None
      | VList xs \<Rightarrow> Inr (Some (map (\<lambda>i. entryOf (VI (int i)) (cloneOverrideValue (xs ! i))) [0..<length xs]))
      | VMap m \<Rightarrow> Inr (Some (map (\<lambda>(k, x). entryOf (VStr k) (cloneOverrideValue x)) m))
      | _ \<Rightarrow> Inl ''value has no keys'')"

fun entriesLoop :: "(string \<times> 'f val) list \<Rightarrow> 'f val list \<Rightarrow> (string \<times> 'f val) list result" where
  "entriesLoop acc [] = Inr acc"
| "entriesLoop acc (item # items) =
     (case item of
        VMap entry \<Rightarrow>
          (case mget entry ''key'' of
             None \<Rightarrow> Inl ''entry has no key''
           | Some key \<Rightarrow>
               (case mget entry ''value'' of
                  None \<Rightarrow> Inl ''entry has no value''
                | Some v \<Rightarrow>
                    (case key of
                       VStr k \<Rightarrow> entriesLoop (mput k (cloneOverrideValue v) acc) items
                     | _ \<Rightarrow> Inl ''entry key must be a string in override-expr'')))
      | _ \<Rightarrow> Inl ''entry must be a mapping'')"

definition fromOverrideEntries :: "'f val \<Rightarrow> (string \<times> 'f val) list result" where
  "fromOverrideEntries v =
     (case v of VList items \<Rightarrow> entriesLoop [] items | _ \<Rightarrow> Inl ''from_entries only supports arrays'')"

subsection \<open>Binary operators\<close>

definition wrap64 :: "int \<Rightarrow> int" where
  "wrap64 n = signed_take_bit 63 n"

definition evaluateOverrideNumbers :: "'f lib \<Rightarrow> string \<Rightarrow> 'f val \<Rightarrow> 'f val \<Rightarrow> 'f val result" where
  "evaluateOverrideNumbers lib op l r =
     (case (overrideNumber lib l, overrideNumber lib r) of
        (Some (x, i), Some (y, j)) \<Rightarrow>
          let a = toInt lib x; b = toInt lib y in
          if op = ''+'' then Inr (if i \<and> j then VI (wrap64 (a + b)) else VFloat KFloat64 (fadd lib x y))
          else if op = ''-'' then Inr (if i \<and> j then VI (wrap64 (a - b)) else VFloat KFloat64 (fsub lib x y))
          else if op = ''*'' then Inr (if i \<and> j then VI (wrap64 (a * b)) else VFloat KFloat64 (fmul lib x y))
          else if op = ''/'' then Inr (VFloat KFloat64 (fdiv lib x y))
          else if op = ''%'' then
            (if i \<and> j then
               (if feq lib y (fromInt lib 0) then Inl ''cannot modulo by zero'' else Inr (VI (wrap64 (a smod b))))
             else Inr (VFloat KFloat64 (fmod lib x y)))
          else Inl ''unsupported numeric operator''
      | _ \<Rightarrow> Inl ''operator cannot be used'')"

definition addValues :: "'f lib \<Rightarrow> 'f val \<Rightarrow> 'f val \<Rightarrow> 'f val result" where
  "addValues lib l r =
     (case l of
        VNull \<Rightarrow> Inr (cloneOverrideValue r)
      | VStr s \<Rightarrow>
          (if sortRank r = 0 then Inr (VStr s)
           else if \<not> isOverrideScalar r then Inl ''cannot add string''
           else Inr (VStr (s @ sprint lib r)))
      | VList xs \<Rightarrow>
          (case r of
             VNull \<Rightarrow> Inr (VList xs)
           | VList ys \<Rightarrow> Inr (VList (xs @ cloneItems ys))
           | _ \<Rightarrow> Inr (VList (xs @ [cloneOverrideValue r])))
      | VMap m \<Rightarrow>
          (case r of
             VMap n \<Rightarrow> Inr (VMap (foldl (\<lambda>m (k, v). mput k (cloneOverrideValue v) m) (cloneEntries m) n))
           | _ \<Rightarrow> Inl ''cannot add mapping'')
      | _ \<Rightarrow>
          (case r of
             VStr t \<Rightarrow> if isOverrideScalar l then Inr (VStr (sprint lib l @ t))
                       else evaluateOverrideNumbers lib ''+'' l r
           | _ \<Rightarrow> evaluateOverrideNumbers lib ''+'' l r))"

definition subtractValues :: "'f lib \<Rightarrow> 'f val \<Rightarrow> 'f val \<Rightarrow> 'f val result" where
  "subtractValues lib l r =
     (case l of
        VNull \<Rightarrow> Inr (cloneOverrideValue r)
      | VList xs \<Rightarrow>
          (case r of
             VList ys \<Rightarrow> Inr (VList (filter (\<lambda>x. \<not> list_ex (\<lambda>y. overrideEqual lib x y) ys) xs))
           | _ \<Rightarrow> Inl ''value cannot be subtracted from !!seq'')
      | _ \<Rightarrow> evaluateOverrideNumbers lib ''-'' l r)"

definition repeatString :: "'f lib \<Rightarrow> string \<Rightarrow> 'f val \<Rightarrow> 'f val result" where
  "repeatString lib s r =
     (case overrideNumber lib r of
        Some (count, True) \<Rightarrow>
          if fless lib count (fromInt lib 0) then Inl ''string multiplier must be a non-negative integer''
          else if fless lib (fromInt lib 10000000) count then Inl ''string multiplier cannot exceed 10 million''
          else Inr (VStr (concat (replicate (nat (toInt lib count)) s)))
      | _ \<Rightarrow> Inl ''string multiplier must be a non-negative integer'')"

definition multiplyValues :: "'f lib \<Rightarrow> 'f val \<Rightarrow> 'f val \<Rightarrow> 'f val result" where
  "multiplyValues lib l r =
     (case (l, r) of
        (_, VNull) \<Rightarrow> Inr (cloneOverrideValue l)
      | (VNull, VList ys) \<Rightarrow> Inr (cloneOverrideValue r)
      | (VNull, VMap n) \<Rightarrow> Inr (cloneOverrideValue r)
      | (VMap m, VMap n) \<Rightarrow> Inr (VMap (mergeOverrideMaps m n))
      | (VMap m, _) \<Rightarrow> Inl ''cannot multiply mapping''
      | (VList xs, VList ys) \<Rightarrow> Inr (VList (cloneItems ys))
      | (VStr s, _) \<Rightarrow> repeatString lib s r
      | (_, VStr t) \<Rightarrow> repeatString lib t l
      | _ \<Rightarrow> evaluateOverrideNumbers lib ''*'' l r)"

definition divideValues :: "'f lib \<Rightarrow> 'f val \<Rightarrow> 'f val \<Rightarrow> 'f val result" where
  "divideValues lib l r =
     (case l of
        VStr s \<Rightarrow>
          (case r of
             VStr t \<Rightarrow> Inr (VList (if s = [] then [] else map VStr (splitString lib s t)))
           | _ \<Rightarrow> Inl ''operator / cannot be used with !!str'')
      | _ \<Rightarrow> evaluateOverrideNumbers lib ''/'' l r)"

definition orderValues :: "'f lib \<Rightarrow> string \<Rightarrow> 'f val \<Rightarrow> 'f val \<Rightarrow> 'f val result" where
  "orderValues lib op l r =
     (if \<not> isOverrideScalar l \<or> \<not> isOverrideScalar r then Inl ''cannot compare''
      else if sortRank l = 0 \<or> sortRank r = 0
      then Inr (VBool (sortRank l = 0 \<and> sortRank r = 0 \<and> (op = ''<='' \<or> op = ''>='')))
      else rbind (compareOverrideValues lib l r) (\<lambda>c.
        Inr (VBool (if op = ''<'' then c < 0 else if op = ''<='' then c \<le> 0
                    else if op = ''>'' then c > 0 else c \<ge> 0))))"

definition evaluateOverrideBinary :: "'f lib \<Rightarrow> string \<Rightarrow> 'f val \<Rightarrow> 'f val \<Rightarrow> 'f val result" where
  "evaluateOverrideBinary lib op l r =
     (if op = ''and'' then Inr (VBool (overrideTruthy l \<and> overrideTruthy r))
      else if op = ''or'' then Inr (VBool (overrideTruthy l \<or> overrideTruthy r))
      else if op = ''//'' then Inr (if overrideTruthy l then l else r)
      else if op = ''=='' then Inr (VBool (overrideYQEqual lib l r))
      else if op = ''!='' then Inr (VBool (\<not> overrideYQEqual lib l r))
      else if op \<in> {''<'', ''<='', ''>'', ''>=''} then orderValues lib op l r
      else if op = ''+'' then addValues lib l r
      else if op = ''-'' then subtractValues lib l r
      else if op = ''*'' then multiplyValues lib l r
      else if op = ''/'' then divideValues lib l r
      else if op = ''%'' then evaluateOverrideNumbers lib ''%'' l r
      else Inl ''unsupported operator'')"

end
