(* ===== verification/ExprPath.thy ===== *)
theory ExprPath
  imports ExprValue
begin

text \<open>Reading, expanding, updating and deleting along paths.\<close>

fun mapResult :: "('a \<Rightarrow> 'b result) \<Rightarrow> 'a list \<Rightarrow> 'b list result" where
  "mapResult f [] = Inr []"
| "mapResult f (x # xs) = rbind (f x) (\<lambda>y. rbind (mapResult f xs) (\<lambda>ys. Inr (y # ys)))"

text \<open>A negative index counts from the end.\<close>

definition fromEnd :: "int \<Rightarrow> 'a list \<Rightarrow> int" where
  "fromEnd i xs = (if i < 0 then i + int (length xs) else i)"

subsection \<open>Reading\<close>

fun lookupOverridePathStream :: "path \<Rightarrow> 'f val \<Rightarrow> 'f val list" where
  "lookupOverridePathStream [] v = [v]"
| "lookupOverridePathStream (Field k # p) v =
     (case v of VMap m \<Rightarrow> lookupOverridePathStream p (mindex m k) | _ \<Rightarrow> [VNull])"
| "lookupOverridePathStream (Index i # p) v =
     (case v of
        VList xs \<Rightarrow>
          let j = fromEnd i xs in
          if j < 0 \<or> j \<ge> int (length xs) then [VNull] else lookupOverridePathStream p (xs ! nat j)
      | _ \<Rightarrow> [VNull])"
| "lookupOverridePathStream (Wildcard # p) v =
     (case v of
        VList xs \<Rightarrow> concat (map (lookupOverridePathStream p) xs)
      | VMap m \<Rightarrow> concat (map (\<lambda>(k, x). lookupOverridePathStream p x) m)
      | _ \<Rightarrow> [])"

subsection \<open>Expanding the target of an assignment\<close>

text \<open>A selection is a value and the concrete path that leads to it.\<close>

fun expandOverrideTargetPath :: "path \<Rightarrow> 'f val \<times> path \<Rightarrow> ('f val \<times> path) list" where
  "expandOverrideTargetPath [] sel = [sel]"
| "expandOverrideTargetPath (Field k # p) (v, at) =
     (case v of
        VNull \<Rightarrow> expandOverrideTargetPath p (VNull, at @ [Field k])
      | VMap m \<Rightarrow> expandOverrideTargetPath p (mindex m k, at @ [Field k])
      | _ \<Rightarrow> [])"
| "expandOverrideTargetPath (Index i # p) (v, at) =
     (case v of
        VNull \<Rightarrow> expandOverrideTargetPath p (VNull, at @ [Index i])
      | VList xs \<Rightarrow>
          let j = fromEnd i xs in
          if j < 0 then []
          else expandOverrideTargetPath p (if j < int (length xs) then xs ! nat j else VNull, at @ [Index j])
      | _ \<Rightarrow> [])"
| "expandOverrideTargetPath (Wildcard # p) (v, at) =
     (case v of
        VList xs \<Rightarrow>
          concat (map (\<lambda>i. expandOverrideTargetPath p (xs ! i, at @ [Index (int i)])) [0..<length xs])
      | VMap m \<Rightarrow> concat (map (\<lambda>(k, x). expandOverrideTargetPath p (x, at @ [Field k])) m)
      | _ \<Rightarrow> [])"

subsection \<open>Updating\<close>

fun updateOverridePath :: "path \<Rightarrow> ('f val \<Rightarrow> 'f val result) \<Rightarrow> 'f val \<Rightarrow> 'f val result" where
  "updateOverridePath [] updater node = updater node"
| "updateOverridePath (Field k # p) updater node =
     (case (case node of VNull \<Rightarrow> VMap [] | n \<Rightarrow> n) of
        VMap m \<Rightarrow> rbind (updateOverridePath p updater (mindex m k)) (\<lambda>v. Inr (VMap (mput k v m)))
      | node \<Rightarrow> Inr node)"
| "updateOverridePath (Index i # p) updater node =
     (case (case node of VNull \<Rightarrow> VList [] | n \<Rightarrow> n) of
        VList xs \<Rightarrow>
          let j = fromEnd i xs in
          if j < 0 then Inl ''array index is out of range''
          else
            let xs = xs @ replicate (nat j + 1 - length xs) VNull in
            rbind (updateOverridePath p updater (xs ! nat j)) (\<lambda>v. Inr (VList (xs[nat j := v])))
      | node \<Rightarrow> Inr node)"
| "updateOverridePath (Wildcard # p) updater node =
     (case node of
        VList xs \<Rightarrow> rbind (mapResult (updateOverridePath p updater) xs) (\<lambda>ys. Inr (VList ys))
      | VMap m \<Rightarrow>
          rbind (mapResult (\<lambda>(k, x). rbind (updateOverridePath p updater x) (\<lambda>y. Inr (k, y))) m)
            (\<lambda>m. Inr (VMap m))
      | _ \<Rightarrow> Inr node)"

subsection \<open>Deleting\<close>

text \<open>
  What the paths say of a child: \<open>None\<close> when one of them ends there, else the rest of those that
  lead through it.
\<close>

definition tailsFor :: "(segment \<Rightarrow> bool) \<Rightarrow> path list \<Rightarrow> path list option" where
  "tailsFor here paths =
     (let hit = filter (\<lambda>p. p \<noteq> [] \<and> here (hd p)) paths in
      if list_ex (\<lambda>p. length p = 1) hit then None else Some (map tl hit))"

definition matchesKey :: "string \<Rightarrow> segment \<Rightarrow> bool" where
  "matchesKey k seg = (case seg of Wildcard \<Rightarrow> True | Field k' \<Rightarrow> k' = k | Index i \<Rightarrow> False)"

definition matchesIndex :: "nat \<Rightarrow> nat \<Rightarrow> segment \<Rightarrow> bool" where
  "matchesIndex len j seg =
     (case seg of Wildcard \<Rightarrow> True | Field k \<Rightarrow> False
      | Index i \<Rightarrow> (if i < 0 then i + int len else i) = int j)"

fun deleteOverridePaths :: "'f val \<Rightarrow> path list \<Rightarrow> 'f val"
and deleteEntries :: "(string \<times> 'f val) list \<Rightarrow> path list \<Rightarrow> (string \<times> 'f val) list"
and deleteItems :: "nat \<Rightarrow> nat \<Rightarrow> 'f val list \<Rightarrow> path list \<Rightarrow> 'f val list" where
  "deleteOverridePaths (VMap m) paths = VMap (deleteEntries m paths)"
| "deleteOverridePaths (VList xs) paths = VList (deleteItems (length xs) 0 xs paths)"
| "deleteOverridePaths v paths = v"
| "deleteEntries [] paths = []"
| "deleteEntries ((k, child) # m) paths =
     (case tailsFor (matchesKey k) paths of
        None \<Rightarrow> deleteEntries m paths
      | Some tails \<Rightarrow>
          (k, if tails = [] then child else deleteOverridePaths child tails) # deleteEntries m paths)"
| "deleteItems len j [] paths = []"
| "deleteItems len j (child # xs) paths =
     (case tailsFor (matchesIndex len j) paths of
        None \<Rightarrow> deleteItems len (Suc j) xs paths
      | Some tails \<Rightarrow>
          (if tails = [] then child else deleteOverridePaths child tails) # deleteItems len (Suc j) xs paths)"

end
