(* ===== verification/ExprEval.thy ===== *)
theory ExprEval
  imports ExprPath
begin

text \<open>
  The evaluator.  An expression has any number of results (\<^verbatim>\<open>evalOverrideStream\<close>); where the code
  calls \<^verbatim>\<open>eval\<close> it gets the single result of the stream, \<open>VNoMatch\<close> when there is none.
\<close>

definition single :: "'f val list \<Rightarrow> 'f val result" where
  "single vs =
     (case vs of
        [] \<Rightarrow> Inr VNoMatch
      | [v] \<Rightarrow> Inr v
      | _ \<Rightarrow> Inl ''expression produced several results; collect them with [...]'')"

text \<open>The stream of an expression whose code only has \<^verbatim>\<open>eval\<close>.\<close>

definition asStream :: "'f val \<Rightarrow> 'f val list" where
  "asStream v = (if isOverrideNoMatch v then [] else [v])"

definition concatResult :: "('a \<Rightarrow> 'b list result) \<Rightarrow> 'a list \<Rightarrow> 'b list result" where
  "concatResult f xs = rbind (mapResult f xs) (\<lambda>ys. Inr (concat ys))"

subsection \<open>Functions on the current value\<close>

definition stringArg :: "'f val list \<Rightarrow> nat \<Rightarrow> string result" where
  "stringArg args i = (case args ! i of VStr s \<Rightarrow> Inr s | _ \<Rightarrow> Inl ''argument must be a string'')"

definition argCount :: "nat list \<Rightarrow> 'f val list \<Rightarrow> unit result" where
  "argCount want args = (if length args \<in> set want then Inr () else Inl ''wrong number of arguments'')"

text \<open>
  \<^verbatim>\<open>sort.SliceStable\<close> with the comparison; the first error that a comparison meets is returned.  A
  comparison that fails counts as equal.
\<close>

fun stableInsert :: "'f lib \<Rightarrow> 'f val \<Rightarrow> 'f val list \<Rightarrow> 'f val list result" where
  "stableInsert lib x [] = Inr [x]"
| "stableInsert lib x (y # ys) =
     rbind (compareOverrideSortValues lib y x) (\<lambda>c.
     if c < 0 then rbind (stableInsert lib x ys) (\<lambda>zs. Inr (y # zs)) else Inr (x # y # ys))"

fun stableSort :: "'f lib \<Rightarrow> 'f val list \<Rightarrow> 'f val list result" where
  "stableSort lib [] = Inr []"
| "stableSort lib (x # xs) = rbind (stableSort lib xs) (stableInsert lib x)"

fun uniqueLoop :: "'f lib \<Rightarrow> string list \<Rightarrow> 'f val list \<Rightarrow> 'f val list result" where
  "uniqueLoop lib seen [] = Inr []"
| "uniqueLoop lib seen (v # vs) =
     rbind (overrideUniqueKey lib v) (\<lambda>key.
     if key \<in> set seen then uniqueLoop lib seen vs
     else rbind (uniqueLoop lib (key # seen) vs) (\<lambda>ws. Inr (cloneOverrideValue v # ws)))"

definition arrayInput :: "'f val \<Rightarrow> 'f val list result" where
  "arrayInput v = (case v of VList xs \<Rightarrow> Inr xs | _ \<Rightarrow> Inl ''function only supports arrays'')"

definition stringInput :: "'f val \<Rightarrow> string result" where
  "stringInput v = (case v of VStr s \<Rightarrow> Inr s | _ \<Rightarrow> Inl ''function requires string input'')"

definition callArray :: "'f lib \<Rightarrow> string \<Rightarrow> 'f val list \<Rightarrow> 'f val \<Rightarrow> 'f val result" where
  "callArray lib name args input =
     (if name = ''reverse'' then
        rbind (argCount [0] args) (\<lambda>_. rbind (arrayInput input) (\<lambda>xs. Inr (VList (rev (cloneItems xs)))))
      else if name = ''sort'' then
        rbind (argCount [0] args) (\<lambda>_. rbind (arrayInput input) (\<lambda>xs.
        rbind (stableSort lib (cloneItems xs)) (\<lambda>ys. Inr (VList ys))))
      else if name = ''unique'' then
        rbind (argCount [0] args) (\<lambda>_. rbind (arrayInput input) (\<lambda>xs.
        rbind (uniqueLoop lib [] xs) (\<lambda>ys. Inr (VList ys))))
      else if name = ''flatten'' then
        rbind (argCount [0, 1] args) (\<lambda>_. rbind (arrayInput input) (\<lambda>xs.
        if args = [] then Inr (VList (flattenOverrideArray xs (-1)))
        else
          (case overrideNumber lib (args ! 0) of
             Some (d, True) \<Rightarrow>
               if fless lib d (fromInt lib 0) then Inl ''flatten depth must be a non-negative integer''
               else Inr (VList (flattenOverrideArray xs (toInt lib d)))
           | _ \<Rightarrow> Inl ''flatten depth must be a non-negative integer'')))
      else if name = ''any'' then
        rbind (argCount [0] args) (\<lambda>_. rbind (arrayInput input) (\<lambda>xs. Inr (VBool (list_ex overrideTruthy xs))))
      else
        rbind (argCount [0] args) (\<lambda>_. rbind (arrayInput input) (\<lambda>xs. Inr (VBool (list_all overrideTruthy xs)))))"

definition callLength :: "'f lib \<Rightarrow> 'f val \<Rightarrow> 'f val result" where
  "callLength lib input =
     (case input of
        VNull \<Rightarrow> Inr (VI 0)
      | VStr s \<Rightarrow> Inr (VI (int (length s)))
      | VList xs \<Rightarrow> Inr (VI (int (length xs)))
      | VMap m \<Rightarrow> Inr (VI (int (length m)))
      | VNoMatch \<Rightarrow> Inl ''length cannot be used''
      | _ \<Rightarrow> Inr (VI (int (length (sprint lib input)))))"

definition callKeys :: "'f val \<Rightarrow> 'f val result" where
  "callKeys input =
     (case input of
        VMap m \<Rightarrow> Inr (VList (map VStr (mkeys m)))
      | VList xs \<Rightarrow> Inr (VList (map (\<lambda>i. VI (int i)) [0..<length xs]))
      | _ \<Rightarrow> Inl ''keys cannot be used'')"

definition callHas :: "'f lib \<Rightarrow> 'f val list \<Rightarrow> 'f val \<Rightarrow> 'f val result" where
  "callHas lib args input =
     (case input of
        VMap m \<Rightarrow> rbind (stringArg args 0) (\<lambda>k. Inr (VBool (mget m k \<noteq> None)))
      | VList xs \<Rightarrow>
          (case overrideNumber lib (args ! 0) of
             Some (x, True) \<Rightarrow>
               let j = fromEnd (toInt lib x) xs in Inr (VBool (0 \<le> j \<and> j < int (length xs)))
           | _ \<Rightarrow> Inr (VBool False))
      | _ \<Rightarrow> Inr (VBool False))"

definition callContains :: "'f lib \<Rightarrow> 'f val list \<Rightarrow> 'f val \<Rightarrow> 'f val result" where
  "callContains lib args input =
     (case input of
        VStr s \<Rightarrow> rbind (stringArg args 0) (\<lambda>t. Inr (VBool (containsString s t)))
      | VList xs \<Rightarrow>
          (case args ! 0 of
             VList ys \<Rightarrow> Inr (VBool (overrideContains lib input (args ! 0)))
           | _ \<Rightarrow> Inl ''cannot check contained in !!seq'')
      | VMap m \<Rightarrow>
          (case args ! 0 of
             VMap n \<Rightarrow> Inr (VBool (overrideContains lib input (args ! 0)))
           | _ \<Rightarrow> Inl ''cannot check contained in !!map'')
      | _ \<Rightarrow>
          if \<not> isOverrideScalar (args ! 0) then Inl ''cannot check contained''
          else if overrideType input \<noteq> overrideType (args ! 0) then Inr (VBool False)
          else Inr (VBool (overrideEqual lib input (args ! 0))))"

definition callTest :: "'f lib \<Rightarrow> 'f val list \<Rightarrow> 'f val \<Rightarrow> 'f val result" where
  "callTest lib args input =
     rbind (argCount [1, 2] args) (\<lambda>_.
     rbind (if length args = 2
            then rbind (stringArg args 1) (\<lambda>options.
                   if list_all (\<lambda>c. c = CHR ''g'') options then Inr () else Inl ''unsupported test options'')
            else Inr ()) (\<lambda>_.
     rbind (stringInput input) (\<lambda>s.
     rbind (stringArg args 0) (\<lambda>pattern.
     if \<not> reCompile lib pattern then Inl ''invalid regular expression''
     else Inr (VBool (reMatch lib pattern s))))))"

definition callSub :: "'f lib \<Rightarrow> 'f val list \<Rightarrow> 'f val \<Rightarrow> 'f val result" where
  "callSub lib args input =
     rbind (argCount [2] args) (\<lambda>_.
     rbind (stringInput input) (\<lambda>s.
     rbind (stringArg args 0) (\<lambda>pattern.
     if \<not> reCompile lib pattern then Inl ''invalid regular expression''
     else rbind (stringArg args 1) (\<lambda>replacement. Inr (VStr (reReplace lib pattern s replacement))))))"

definition callSplit :: "'f lib \<Rightarrow> 'f val list \<Rightarrow> 'f val \<Rightarrow> 'f val result" where
  "callSplit lib args input =
     rbind (argCount [1] args) (\<lambda>_.
     if sortRank input = 0 then Inr VNoMatch
     else
       rbind (stringInput input) (\<lambda>s.
       rbind (stringArg args 0) (\<lambda>sep. Inr (VList (map VStr (splitString lib s sep))))))"

definition callJoin :: "'f lib \<Rightarrow> 'f val list \<Rightarrow> 'f val \<Rightarrow> 'f val result" where
  "callJoin lib args input =
     rbind (argCount [1] args) (\<lambda>_.
     rbind (arrayInput input) (\<lambda>xs.
     rbind (stringArg args 0) (\<lambda>sep.
     Inr (VStr (joinStrings sep
       (map (\<lambda>v. case v of VNull \<Rightarrow> [] | VList ys \<Rightarrow> [] | VMap m \<Rightarrow> [] | VStr s \<Rightarrow> s | _ \<Rightarrow> sprint lib v) xs))))))"

text \<open>\<^verbatim>\<open>strings.TrimSuffix\<close> of one newline.\<close>

definition trimSuffixNewline :: "string \<Rightarrow> string" where
  "trimSuffixNewline s = (if s \<noteq> [] \<and> last s = newline then butlast s else s)"

definition callToString :: "'f lib \<Rightarrow> 'f val \<Rightarrow> 'f val result" where
  "callToString lib input =
     (case input of
        VStr s \<Rightarrow> Inr (VStr s)
      | _ \<Rightarrow> rbind (yamlMarshal lib input) (\<lambda>s. Inr (VStr (trimSuffixNewline s))))"

definition callToNumber :: "'f lib \<Rightarrow> 'f val \<Rightarrow> 'f val result" where
  "callToNumber lib input =
     (if overrideNumber lib input \<noteq> None then Inr input
      else
        (case input of
           VStr s \<Rightarrow>
             let p = take 2 s in
             if \<not> (p = ''0x'' \<or> p = ''0X'' \<or> p = ''0o'') \<and> (p = ''0b'' \<or> p = ''0B'')
             then Inl ''cannot convert to number''
             else
               (case (if p = ''0x'' \<or> p = ''0X'' then parseInt (drop 2 s) 16
                      else if p = ''0o'' then parseInt (drop 2 s) 8 else parseInt s 10) of
                  Some n \<Rightarrow> Inr (VI n)
                | None \<Rightarrow>
                    (case fparse lib s of
                       Some x \<Rightarrow> Inr (VFloat KFloat64 x)
                     | None \<Rightarrow> Inl ''cannot convert to number''))
         | _ \<Rightarrow> Inl ''tonumber requires string or number input''))"

definition callFunction :: "'f lib \<Rightarrow> string \<Rightarrow> 'f val list \<Rightarrow> 'f val \<Rightarrow> 'f val result" where
  "callFunction lib name args input =
     (if name = ''select'' then
        rbind (argCount [1] args) (\<lambda>_.
        Inr (if isOverrideNoMatch (args ! 0) \<or> \<not> overrideTruthy (args ! 0) then VNoMatch else input))
      else if name = ''not'' then rbind (argCount [0] args) (\<lambda>_. Inr (VBool (\<not> overrideTruthy input)))
      else if name \<in> {''reverse'', ''sort'', ''unique'', ''flatten'', ''any'', ''all''} then
        callArray lib name args input
      else if name = ''length'' then rbind (argCount [0] args) (\<lambda>_. callLength lib input)
      else if name = ''type'' then rbind (argCount [0] args) (\<lambda>_. Inr (VStr (overrideType input)))
      else if name = ''keys'' then rbind (argCount [0] args) (\<lambda>_. callKeys input)
      else if name = ''has'' then rbind (argCount [1] args) (\<lambda>_. callHas lib args input)
      else if name = ''contains'' then rbind (argCount [1] args) (\<lambda>_. callContains lib args input)
      else if name = ''test'' then callTest lib args input
      else if name = ''sub'' then callSub lib args input
      else if name = ''split'' then callSplit lib args input
      else if name = ''join'' then callJoin lib args input
      else if name = ''upcase'' then
        rbind (argCount [0] args) (\<lambda>_. rbind (stringInput input) (\<lambda>s. Inr (VStr (toUpper lib s))))
      else if name = ''downcase'' then
        rbind (argCount [0] args) (\<lambda>_. rbind (stringInput input) (\<lambda>s. Inr (VStr (toLower lib s))))
      else if name = ''trim'' then
        rbind (argCount [0] args) (\<lambda>_. rbind (stringInput input) (\<lambda>s. Inr (VStr (trimSpace lib s))))
      else if name = ''tostring'' then rbind (argCount [0] args) (\<lambda>_. callToString lib input)
      else if name = ''tonumber'' then rbind (argCount [0] args) (\<lambda>_. callToNumber lib input)
      else Inl ''unsupported function'')"

subsection \<open>Functions with expression arguments\<close>

text \<open>
  \<open>f\<close> evaluates the list of the arguments on a value, \<open>g\<close> each argument on a stream of values.
\<close>

definition streamFilter :: "('f val \<Rightarrow> 'f val list result) \<Rightarrow> 'f val list \<Rightarrow> 'f val list result" where
  "streamFilter f xs =
     concatResult (\<lambda>x. rbind (f x) (\<lambda>items.
       Inr (if list_ex overrideTruthy items then [cloneOverrideValue x] else []))) xs"

definition mapValue :: "('f val \<Rightarrow> 'f val list result) \<Rightarrow> 'f val \<Rightarrow> 'f val result" where
  "mapValue f x =
     rbind (f x) (\<lambda>items. Inr (case items of [] \<Rightarrow> x | y # _ \<Rightarrow> cloneOverrideValue y))"

definition streamMapValues :: "('f val \<Rightarrow> 'f val list result) \<Rightarrow> 'f val \<Rightarrow> 'f val result" where
  "streamMapValues f input =
     (case input of
        VList xs \<Rightarrow> rbind (mapResult (mapValue f) (cloneItems xs)) (\<lambda>ys. Inr (VList ys))
      | VMap m \<Rightarrow>
          rbind (mapResult (\<lambda>(k, x). rbind (mapValue f x) (\<lambda>y. Inr (k, y))) (cloneEntries m))
            (\<lambda>m. Inr (VMap m))
      | _ \<Rightarrow> Inl ''map_values only supports arrays and mappings'')"

text \<open>\<open>any_c\<close> and \<open>all_c\<close> (\<open>every\<close>) stop at the first value that decides.\<close>

fun anyLoop :: "('f val \<Rightarrow> 'f val list result) \<Rightarrow> bool \<Rightarrow> 'f val list \<Rightarrow> bool result" where
  "anyLoop f every [] = Inr every"
| "anyLoop f every (x # xs) =
     rbind (f x) (\<lambda>items.
     case items of
       [] \<Rightarrow> anyLoop f every xs
     | y # _ \<Rightarrow> if overrideTruthy y \<noteq> every then Inr (\<not> every) else anyLoop f every xs)"

definition withEntries :: "('f val \<Rightarrow> 'f val list result) \<Rightarrow> 'f val \<Rightarrow> 'f val list result" where
  "withEntries f input =
     (case input of
        VMap m \<Rightarrow>
          rbind (toOverrideEntries input) (\<lambda>entries.
          case entries of
            None \<Rightarrow> Inr []
          | Some es \<Rightarrow>
              rbind (concatResult f es) (\<lambda>transformed.
              rbind (fromOverrideEntries (VList transformed)) (\<lambda>m. Inr [VMap m])))
      | _ \<Rightarrow> Inl ''with_entries only supports mappings'')"

definition streamFunction ::
  "string \<Rightarrow> nat \<Rightarrow> ('f val \<Rightarrow> 'f val list result) \<Rightarrow> ('f val list \<Rightarrow> 'f val list result) \<Rightarrow> 'f val \<Rightarrow>
   'f val list result" where
  "streamFunction name nargs f g input =
     (if name = ''map'' then
        if nargs = 0 then Inl ''map expects an expression''
        else rbind (overrideCollectionValues input) (\<lambda>xs. rbind (g xs) (\<lambda>ys. Inr [VList ys]))
      else if name = ''filter'' then
        if nargs = 0 then Inl ''filter expects an expression''
        else rbind (overrideCollectionValues input) (\<lambda>xs. rbind (streamFilter f xs) (\<lambda>ys. Inr [VList ys]))
      else if name = ''map_values'' then
        if nargs = 0 then Inl ''map_values expects an expression''
        else rbind (streamMapValues f input) (\<lambda>v. Inr [v])
      else if name = ''to_entries'' then
        if nargs \<noteq> 0 then Inl ''to_entries expects no arguments''
        else rbind (toOverrideEntries input) (\<lambda>es. Inr (case es of None \<Rightarrow> [] | Some es \<Rightarrow> [VList es]))
      else if name = ''from_entries'' then
        if nargs \<noteq> 0 then Inl ''from_entries expects no arguments''
        else rbind (fromOverrideEntries input) (\<lambda>m. Inr [VMap m])
      else if name = ''with_entries'' then
        if nargs = 0 then Inl ''with_entries expects an expression'' else withEntries f input
      else if name = ''any_c'' \<or> name = ''all_c'' then
        if nargs = 0 then Inl ''function expects a condition''
        else rbind (arrayInput input) (\<lambda>xs.
             rbind (anyLoop f (name = ''all_c'') xs) (\<lambda>b. Inr [VBool b]))
      else Inl ''unsupported stream function'')"

subsection \<open>Operators on streams\<close>

text \<open>\<open>rights\<close> is the stream of the right operand, which is looked at only when the code evaluates it.\<close>

definition alternativeStream :: "'f val list \<Rightarrow> 'f val list result \<Rightarrow> 'f val list result" where
  "alternativeStream lefts rights =
     (if lefts = [] then rights
      else concatResult (\<lambda>l. if overrideTruthy l then Inr [l] else rights) lefts)"

definition binaryStream :: "'f lib \<Rightarrow> string \<Rightarrow> 'f val list \<Rightarrow> 'f val list result \<Rightarrow> 'f val list result" where
  "binaryStream lib op lefts rights =
     (let needsRight = (op \<noteq> ''and'' \<and> op \<noteq> ''or'' \<or>
            list_ex (\<lambda>l. op = ''and'' \<and> overrideTruthy l \<or> op = ''or'' \<and> \<not> overrideTruthy l) lefts) in
      if \<not> needsRight then Inr (map (\<lambda>l. VBool (op = ''or'' \<and> overrideTruthy l)) lefts)
      else
        rbind rights (\<lambda>rs.
        concatResult (\<lambda>l.
          if op = ''and'' \<and> \<not> overrideTruthy l then Inr [VBool False]
          else if op = ''or'' \<and> overrideTruthy l then Inr [VBool True]
          else mapResult (evaluateOverrideBinary lib op l) rs) lefts))"

text \<open>A part of an interpolated string.\<close>

definition showPart :: "'f lib \<Rightarrow> 'f val list \<Rightarrow> string result" where
  "showPart lib vs =
     (case vs of
        [] \<Rightarrow> Inr []
      | VStr s # _ \<Rightarrow> Inr s
      | v # _ \<Rightarrow>
          if isOverrideScalar v then Inr (if sortRank v = 0 then ''null'' else sprint lib v)
          else rbind (yamlMarshal lib v) (\<lambda>s. Inr (trimSuffixNewline s)))"

definition compoundOperator :: "token_kind \<Rightarrow> string" where
  "compoundOperator k =
     (case k of TAddAssign \<Rightarrow> ''+'' | TSubtractAssign \<Rightarrow> ''-'' | TMultiplyAssign \<Rightarrow> ''*'' | _ \<Rightarrow> [])"

text \<open>
  The updater of an assignment, \<open>None\<close> when the value has no result and nothing is changed.  \<open>ev\<close> is
  the single result of the value; an update inside an expression (\<open>checked = False\<close>) does not check
  the value of a compound operator.
\<close>

definition assignUpdater ::
  "'f lib \<Rightarrow> bool \<Rightarrow> token_kind \<Rightarrow> ('f val \<Rightarrow> 'f val result) \<Rightarrow> 'f val \<Rightarrow> ('f val \<Rightarrow> 'f val result) option result" where
  "assignUpdater lib checked op ev root =
     (if op = TAssign then
        rbind (ev root) (\<lambda>v.
        Inr (if isOverrideNoMatch v then None else Some (\<lambda>old. Inr (cloneOverrideValue v))))
      else if op = TUpdateAssign then
        Inr (Some (\<lambda>old. rbind (ev old) (\<lambda>v. Inr (if isOverrideNoMatch v then old else v))))
      else
        rbind (ev root) (\<lambda>v.
        Inr (if checked \<and> isOverrideNoMatch v then None
             else Some (\<lambda>old. evaluateOverrideBinary lib (compoundOperator op) old v))))"

subsection \<open>Expressions\<close>

function evalStream :: "'f lib \<Rightarrow> 'f expr \<Rightarrow> 'f val \<Rightarrow> 'f val list result"
and evalInputs :: "'f lib \<Rightarrow> 'f expr \<Rightarrow> 'f val list \<Rightarrow> 'f val list result"
and evalList :: "'f lib \<Rightarrow> 'f expr list \<Rightarrow> 'f val \<Rightarrow> 'f val list result"
and evalEach :: "'f lib \<Rightarrow> 'f expr list \<Rightarrow> 'f val list \<Rightarrow> 'f val list result"
and evalStages :: "'f lib \<Rightarrow> 'f expr list \<Rightarrow> 'f val list \<Rightarrow> 'f val list result"
and evalArgs :: "'f lib \<Rightarrow> 'f expr list \<Rightarrow> 'f val \<Rightarrow> 'f val list result"
and evalEntries :: "'f lib \<Rightarrow> (string \<times> 'f expr) list \<Rightarrow> (string \<times> 'f val) list \<Rightarrow> 'f val \<Rightarrow> (string \<times> 'f val) list result"
and evalParts :: "'f lib \<Rightarrow> 'f part list \<Rightarrow> 'f val \<Rightarrow> string result" where
  "evalStream lib (ELiteral v) input = Inr (asStream (cloneOverrideValue v))"
| "evalStream lib (EString parts) input = rbind (evalParts lib parts input) (\<lambda>s. Inr [VStr s])"
| "evalStream lib (EPath p) input = Inr (lookupOverridePathStream p input)"
| "evalStream lib (EArray es) input = rbind (evalList lib es input) (\<lambda>vs. Inr [VList vs])"
| "evalStream lib (EMap es) input = rbind (evalEntries lib es [] input) (\<lambda>m. Inr [VMap m])"
| "evalStream lib (EUpdate p op e) input =
     (let root = cloneOverrideValue input in
      rbind (assignUpdater lib False op (\<lambda>v. rbind (evalStream lib e v) single) root) (\<lambda>u.
      case u of
        None \<Rightarrow> Inr (asStream root)
      | Some updater \<Rightarrow> rbind (updateOverridePath p updater root) (\<lambda>v. Inr (asStream v))))"
| "evalStream lib (EBinary op l r) input =
     rbind (evalStream lib l input) (\<lambda>lefts.
     if op = ''//'' then alternativeStream lefts (evalStream lib r input)
     else binaryStream lib op lefts (evalStream lib r input))"
| "evalStream lib (EFunction name args) input =
     (if isOverrideNoMatch input then Inr []
      else
        rbind (evalArgs lib args input) (\<lambda>vs.
        rbind (callFunction lib name vs input) (\<lambda>v. Inr (asStream v))))"
| "evalStream lib (EStream name args) input =
     streamFunction name (length args) (\<lambda>v. evalList lib args v) (\<lambda>vs. evalEach lib args vs) input"
| "evalStream lib (EPipeline stages) input = evalStages lib stages [input]"
| "evalStream lib (EUnion es) input = evalEach lib es [input]"
| "evalInputs lib e inputs =
     (case e of
        EUnion es \<Rightarrow> evalEach lib es inputs
      | _ \<Rightarrow> concatResult (\<lambda>v. evalStream lib e v) inputs)"
| "evalList lib [] input = Inr []"
| "evalList lib (e # es) input =
     rbind (evalStream lib e input) (\<lambda>vs. rbind (evalList lib es input) (\<lambda>ws. Inr (vs @ ws)))"
| "evalEach lib [] inputs = Inr []"
| "evalEach lib (e # es) inputs =
     rbind (evalInputs lib e inputs) (\<lambda>vs. rbind (evalEach lib es inputs) (\<lambda>ws. Inr (vs @ ws)))"
| "evalStages lib [] vs = Inr vs"
| "evalStages lib (e # es) vs = rbind (evalInputs lib e vs) (\<lambda>ws. evalStages lib es ws)"
| "evalArgs lib [] input = Inr []"
| "evalArgs lib (e # es) input =
     rbind (rbind (evalStream lib e input) single) (\<lambda>v. rbind (evalArgs lib es input) (\<lambda>vs. Inr (v # vs)))"
| "evalEntries lib [] m input = Inr m"
| "evalEntries lib ((k, e) # es) m input =
     rbind (evalStream lib e input) (\<lambda>vs.
     evalEntries lib es (if vs = [] then m else mput k (last vs) m) input)"
| "evalParts lib [] input = Inr []"
| "evalParts lib (PLiteral s # ps) input = rbind (evalParts lib ps input) (\<lambda>t. Inr (s @ t))"
| "evalParts lib (PExpr e # ps) input =
     rbind (evalStream lib e input) (\<lambda>vs.
     rbind (showPart lib vs) (\<lambda>s. rbind (evalParts lib ps input) (\<lambda>t. Inr (s @ t))))"
  by pat_completeness auto
termination
  by (relation "measure (case_sum
      (case_sum (case_sum (\<lambda>(lib, e, v). 2 * size e) (\<lambda>(lib, e, vs). 2 * size e + 1))
        (case_sum (\<lambda>(lib, es, v). 2 * size_list size es) (\<lambda>(lib, es, vs). 2 * size_list size es)))
      (case_sum (case_sum (\<lambda>(lib, es, vs). 2 * size_list size es) (\<lambda>(lib, es, v). 2 * size_list size es))
        (case_sum (\<lambda>(lib, es, m, v). 2 * size_list (size_prod (\<lambda>k. 0) size) es) (\<lambda>(lib, ps, v). 2 * size_list size ps))))")
    simp_all

end
