(* ===== verification/ExprValueSpec.thy ===== *)
theory ExprValueSpec
  imports ExprEval "HOL-Library.Multiset"
begin

text \<open>
  What the operations on values promise: the deep merge of mappings, the sorting of scalar arrays, and
  the range in which integer arithmetic is exact.
\<close>

subsection \<open>Merging\<close>

definition merged :: "'f val option \<Rightarrow> 'f val option \<Rightarrow> 'f val option" where
  "merged l r =
     (case r of
        None \<Rightarrow> l
      | Some (VMap n) \<Rightarrow> (case l of Some (VMap m) \<Rightarrow> Some (VMap (mergeOverrideMaps m n)) | _ \<Rightarrow> r)
      | _ \<Rightarrow> r)"

lemma mget_Cons: "mget ((k, v) # m) k' = (if k' = k then Some v else mget m k')"
  by (simp add: mget_def)

lemma mget_None: "k \<notin> set (mkeys m) \<Longrightarrow> mget m k = None"
  by (simp add: mget_def mkeys_def map_of_eq_None_iff)

text \<open>
  merging two mappings merges, key by key, what both hold: nested mappings are merged in turn, any
  other value of the right one replaces the left one's, and the keys of only one of them are kept.
\<close>

theorem merge_is_pointwise:
  "sorted_map r \<Longrightarrow> mget (mergeOverrideMaps l r) k = merged (mget l k) (mget r k)"
proof (induction l r rule: mergeOverrideMaps.induct)
  case (2 l k' rv r)
  let ?w = "cloneOverrideValue rv"
  let ?v = "case rv of VMap rm \<Rightarrow> (case mget l k' of Some (VMap lm) \<Rightarrow> VMap (mergeOverrideMaps lm rm) | _ \<Rightarrow> ?w)
            | _ \<Rightarrow> ?w"
  have "k' \<notin> set (mkeys r)" using "2.prems" by auto
  then have no: "mget r k' = None" by (rule mget_None)
  have "mget (mergeOverrideMaps l ((k', rv) # r)) k = merged (mget (mput k' ?v l) k) (mget r k)"
    using "2.IH"(2) "2.prems" by simp
  also have "\<dots> = merged (mget l k) (mget ((k', rv) # r) k)"
    using no unfolding clone_id by (simp add: mget_Cons) (simp add: merged_def split: val.split option.split)
  finally show ?case .
qed (simp add: merged_def mget_def)

theorem merge_is_pointwise_witness:
  "mget (mergeOverrideMaps [(''a'', VMap [(''x'', VI 1)])] [(''a'', VMap [(''y'', VI 2)]), (''b'', VNull)]) ''b'' = Some (VNull :: nat val)"
  by (subst merge_is_pointwise) (simp_all add: mget_def merged_def mkeys_def)

subsection \<open>Integer arithmetic\<close>

text \<open>The integers that a \<^verbatim>\<open>float64\<close> holds exactly.\<close>

definition exact_ints :: "'f lib \<Rightarrow> bool" where
  "exact_ints lib \<longleftrightarrow> (\<forall>n. \<bar>n\<bar> \<le> 2 ^ 53 \<longrightarrow> toInt lib (fromInt lib n) = n)"

lemma wrap64_small: "- (2 ^ 63) \<le> n \<Longrightarrow> n < 2 ^ 63 \<Longrightarrow> wrap64 n = n"
  by (simp add: wrap64_def signed_take_bit_int_eq_self)

text \<open>
  sums and differences of integers of up to 53 bits are exact.
\<close>

theorem integer_arithmetic_exact:
  assumes "exact_ints lib" "\<bar>a\<bar> \<le> 2 ^ 53" "\<bar>b\<bar> \<le> 2 ^ 53"
  shows "evaluateOverrideBinary lib ''+'' (VInt k a) (VInt k' b) = Inr (VI (a + b))
    \<and> evaluateOverrideBinary lib ''-'' (VInt k a) (VInt k' b) = Inr (VI (a - b))"
proof -
  have "toInt lib (fromInt lib a) = a" "toInt lib (fromInt lib b) = b"
    using assms by (simp_all add: exact_ints_def)
  moreover have "wrap64 (a + b) = a + b" "wrap64 (a - b) = a - b"
    using assms(2,3) by (intro wrap64_small; simp)+
  ultimately show ?thesis
    by (simp add: evaluateOverrideBinary_def addValues_def subtractValues_def evaluateOverrideNumbers_def
        overrideNumber_def Let_def)
qed

definition int_lib :: "int lib" where
  "int_lib = \<lparr>fromInt = (\<lambda>n. n), toInt = (\<lambda>n. n), fadd = (+), fsub = (-), fmul = (*), fdiv = (div), fmod = (mod),
     feq = (=), fless = (<), fprint = (\<lambda>_ n. showInt n), fparse = (\<lambda>s. parseInt s 10), toUpper = (\<lambda>s. s),
     toLower = (\<lambda>s. s), trimSpace = (\<lambda>s. s), reCompile = (\<lambda>_. True), reMatch = (\<lambda>p s. p = s),
     reReplace = (\<lambda>p s r. if p = s then r else s), utf8Chars = map (\<lambda>c. [c]), yamlMarshal = (\<lambda>_. Inl ''unsupported'')\<rparr>"

theorem integer_arithmetic_exact_witness:
  "evaluateOverrideBinary int_lib ''+'' (VInt KInt 40) (VInt KInt8 2) = Inr (VI 42)
    \<and> evaluateOverrideBinary int_lib ''-'' (VInt KInt 40) (VInt KInt8 2) = Inr (VI 38)"
  using integer_arithmetic_exact [of int_lib 40 2 KInt KInt8] by (simp add: exact_ints_def int_lib_def)

text \<open>
  beyond that the operands are rounded first: when 2^53 + 1 rounds to 2^53, as it does in
  IEEE 754, adding zero to it changes it.
\<close>

theorem large_integer_rounded:
  assumes "fromInt lib (2 ^ 53 + 1) = fromInt lib (2 ^ 53)" "exact_ints lib"
  shows "evaluateOverrideBinary lib ''+'' (VI (2 ^ 53 + 1)) (VI 0) = Inr (VI (2 ^ 53))"
proof -
  have "toInt lib (fromInt lib (2 ^ 53)) = 2 ^ 53" "toInt lib (fromInt lib 0) = 0"
    using assms(2) by (simp_all add: exact_ints_def)
  moreover have "wrap64 (2 ^ 53) = 2 ^ 53" by (rule wrap64_small) simp_all
  ultimately show ?thesis
    using assms(1) by (simp add: evaluateOverrideBinary_def addValues_def evaluateOverrideNumbers_def
        overrideNumber_def Let_def)
qed

definition rounding_lib :: "int lib" where
  "rounding_lib = int_lib\<lparr>fromInt := (\<lambda>n. if n = 2 ^ 53 + 1 then 2 ^ 53 else n)\<rparr>"

theorem large_integer_rounded_witness:
  "evaluateOverrideBinary rounding_lib ''+'' (VI (2 ^ 53 + 1)) (VI 0) = Inr (VI (2 ^ 53))"
  by (rule large_integer_rounded) (simp_all add: rounding_lib_def int_lib_def exact_ints_def)

end
