(* ===== verification/ExprSortSpec.thy ===== *)
theory ExprSortSpec
  imports ExprValueSpec
begin

text \<open>The function \<^verbatim>\<open>sort\<close>: an ordered, stable permutation.\<close>

subsection \<open>Insertion under a strict weak order\<close>



abbreviation "ordered prec \<equiv> sorted_wrt (\<lambda>a b. \<not> prec b a)"






subsection \<open>The comparison\<close>













end
