(* ===== verification/ExprParse.thy ===== *)
theory ExprParse
  imports ExprAst
begin

text \<open>
  The parser of the override expressions.  The parser's position is the list of tokens that are left,
  whose last one is the end marker.  The functions are mutually recursive through
  \<^verbatim>\<open>parseValueExpression\<close>: each takes it as the argument \<open>pv\<close>, and \<open>valueParser\<close> ties the knot on a
  fuel.  \<open>Inl NoFuel\<close> is a parse that is cut off; the bound \<open>parse_fuel\<close> is shown to be enough.
\<close>

subsection \<open>Results\<close>

datatype (plugins only: code size) parse_error = Syntax string | NoFuel

type_synonym 'a parse = "parse_error + 'a \<times> token list"

definition as_syntax :: "string + 'a \<Rightarrow> parse_error + 'a" where
  "as_syntax r = (case r of Inl e \<Rightarrow> Inl (Syntax e) | Inr x \<Rightarrow> Inr x)"

lemma as_syntax_simps [simp]:
  "as_syntax (Inr x) = Inr x" "as_syntax (Inl e) = Inl (Syntax e)" "as_syntax r \<noteq> Inl NoFuel"
  "as_syntax r = Inr x \<longleftrightarrow> r = Inr x"
  by (cases r; simp add: as_syntax_def)+

subsection \<open>The cursor\<close>

definition peek :: "token list \<Rightarrow> token" where
  "peek ts = (case ts of [] \<Rightarrow> token_of TEOF [] 0 | t # _ \<Rightarrow> t)"

definition nextTok :: "token list \<Rightarrow> token \<times> token list" where
  "nextTok ts = (let t = peek ts in (t, if tkind t \<noteq> TEOF then tl ts else ts))"

definition matches :: "token_kind \<Rightarrow> token list \<Rightarrow> token list option" where
  "matches k ts = (if tkind (peek ts) \<noteq> k then None else Some (snd (nextTok ts)))"

definition expect :: "token_kind \<Rightarrow> string \<Rightarrow> token list \<Rightarrow> token parse" where
  "expect k message ts =
     (case nextTok ts of (t, ts) \<Rightarrow> if tkind t \<noteq> k then Inl (Syntax message) else Inr (t, ts))"

definition peekIdentifier :: "string \<Rightarrow> token list \<Rightarrow> bool" where
  "peekIdentifier v ts \<longleftrightarrow> tkind (peek ts) = TIdentifier \<and> ttext (peek ts) = v"

definition isOverrideAssignmentToken :: "token_kind \<Rightarrow> bool" where
  "isOverrideAssignmentToken k \<longleftrightarrow>
     k \<in> {TAssign, TUpdateAssign, TAddAssign, TSubtractAssign, TMultiplyAssign}"

subsection \<open>Paths\<close>

definition pathField :: "token \<Rightarrow> parse_error + string" where
  "pathField t = (if tkind t = TIdentifier then Inr (ttext t) else as_syntax (decodeOverrideString (ttext t)))"

text \<open>The inside of brackets that are not empty: a name, or an index with an optional sign.\<close>

definition parseBracket :: "token list \<Rightarrow> segment parse" where
  "parseBracket ts =
     (case nextTok ts of (t, ts) \<Rightarrow>
        rbind
          (if tkind t = TString \<or> tkind t = TIdentifier
           then rbind (pathField t) (\<lambda>key. Inr (Field key, ts))
           else if tkind t = TNumber \<or> tkind t = TMinus then
             rbind (if tkind t = TMinus
                    then rbind (expect TNumber ''expected array index after minus'' ts)
                           (\<lambda>(n, ts). Inr (ttext t @ ttext n, ts))
                    else Inr (ttext t, ts)) (\<lambda>(txt, ts).
             (case parseInt txt 10 of
                None \<Rightarrow> Inl (Syntax ''invalid array index'')
              | Some i \<Rightarrow> Inr (Index i, ts)))
           else Inl (Syntax ''expected field name or array index''))
          (\<lambda>(seg, ts).
           rbind (expect TRightBracket ''expected bracket after path index'' ts) (\<lambda>(_, ts). Inr (seg, ts))))"

text \<open>The segments after the first: the loop's rounds are bounded by the number of tokens.\<close>

fun pathLoop :: "nat \<Rightarrow> path \<Rightarrow> token list \<Rightarrow> path parse" where
  "pathLoop 0 p ts = Inl NoFuel"
| "pathLoop (Suc n) p ts =
     (if tkind (peek ts) = TDot then
        (case nextTok (snd (nextTok ts)) of (t, ts) \<Rightarrow>
           if tkind t \<noteq> TIdentifier \<and> tkind t \<noteq> TString
           then Inl (Syntax ''expected field name after dot'')
           else rbind (pathField t) (\<lambda>key. pathLoop n (p @ [Field key]) ts))
      else if tkind (peek ts) = TLeftBracket then
        (case matches TRightBracket (snd (nextTok ts)) of
           Some ts \<Rightarrow> pathLoop n (p @ [Wildcard]) ts
         | None \<Rightarrow> rbind (parseBracket (snd (nextTok ts))) (\<lambda>(seg, ts). pathLoop n (p @ [seg]) ts))
      else Inr (p, ts))"

definition parsePath :: "token list \<Rightarrow> path parse" where
  "parsePath ts =
     rbind (expect TDot ''expected path starting with dot'' ts) (\<lambda>(_, ts).
     if tkind (peek ts) = TIdentifier \<or> tkind (peek ts) = TString
     then (case nextTok ts of (t, ts) \<Rightarrow>
             rbind (pathField t) (\<lambda>key. pathLoop (Suc (length ts)) [Field key] ts))
     else pathLoop (Suc (length ts)) [] ts)"

subsection \<open>Literals\<close>

definition parseNumber :: "'f lib \<Rightarrow> token \<Rightarrow> parse_error + 'f expr" where
  "parseNumber lib t =
     (let txt = ttext t in
      if \<exists>c\<in>set txt. c \<in> {CHR ''.'', CHR ''e'', CHR ''E''} then
        (case fparse lib txt of
           None \<Rightarrow> Inl (Syntax ''invalid number'')
         | Some v \<Rightarrow> Inr (ELiteral (VFloat KFloat64 v)))
      else
        (case (if take 2 txt = ''0x'' \<or> take 2 txt = ''0X'' then parseInt (drop 2 txt) 16
               else parseInt txt 10) of
           None \<Rightarrow> Inl (Syntax ''invalid number'')
         | Some n \<Rightarrow> Inr (ELiteral (VI n))))"

text \<open>
  The end of an interpolated expression: the text before the closing parenthesis and the text after
  it.  \<open>skipQuoted\<close> skips a string inside the expression, up to its closing quote or the end.
\<close>

fun skipQuoted :: "string \<Rightarrow> string \<times> string" where
  "skipQuoted [] = ([], [])"
| "skipQuoted (c # s) =
     (if c = backslash then
        (case s of [] \<Rightarrow> ([c], []) | d # s \<Rightarrow> (case skipQuoted s of (a, b) \<Rightarrow> (c # d # a, b)))
      else if c = dquote then ([c], s)
      else (case skipQuoted s of (a, b) \<Rightarrow> (c # a, b)))"

lemma skipQuoted_append: "fst (skipQuoted s) @ snd (skipQuoted s) = s"
  by (induction s rule: skipQuoted.induct) (simp_all add: case_prod_beta split: list.splits)

lemma skipQuoted_shorter: "skipQuoted s = (a, b) \<Longrightarrow> length a + length b = length s"
  using skipQuoted_append [of s] by (metis fst_conv length_append snd_conv)

definition prepend :: "string \<Rightarrow> (string \<times> string) option \<Rightarrow> (string \<times> string) option" where
  "prepend pre r = map_option (\<lambda>(a, b). (pre @ a, b)) r"

lemma prepend_Some: "prepend pre r = Some (a, b) \<longleftrightarrow> (\<exists>a'. r = Some (a', b) \<and> a = pre @ a')"
proof (cases r)
  case (Some p)
  then show ?thesis by (cases p) (simp add: prepend_def, blast)
qed (simp add: prepend_def)

function findOverrideInterpolationEnd :: "nat \<Rightarrow> string \<Rightarrow> (string \<times> string) option" where
  "findOverrideInterpolationEnd depth [] = None"
| "findOverrideInterpolationEnd depth (c # s) =
     (if c = backslash then
        (case s of [] \<Rightarrow> None | d # s \<Rightarrow> prepend [c, d] (findOverrideInterpolationEnd depth s))
      else if c = dquote then
        (case skipQuoted s of (q, s) \<Rightarrow> prepend (c # q) (findOverrideInterpolationEnd depth s))
      else if c = CHR ''('' then prepend [c] (findOverrideInterpolationEnd (Suc depth) s)
      else if c = CHR '')'' then
        (case depth of 0 \<Rightarrow> Some ([], s) | Suc d \<Rightarrow> prepend [c] (findOverrideInterpolationEnd d s))
      else prepend [c] (findOverrideInterpolationEnd depth s))"
  by pat_completeness auto
termination
proof (relation "measure (\<lambda>(d, s). length s)", goal_cases)
  case (3 depth c s q s')
  then show ?case using skipQuoted_shorter [of s q s'] by simp
qed simp_all

declare findOverrideInterpolationEnd.simps(2) [simp del]

lemma findEnd_shorter:
  "findOverrideInterpolationEnd depth s = Some (a, b) \<Longrightarrow> length a + length b + 1 = length s"
proof (induction depth s arbitrary: a b rule: findOverrideInterpolationEnd.induct)
  case (2 depth c s)
  show ?case
  proof (cases "c = dquote")
    case True
    obtain q s' where q: "skipQuoted s = (q, s')" by (cases "skipQuoted s")
    from "2.prems" obtain a' where "findOverrideInterpolationEnd depth s' = Some (a', b)" "a = c # q @ a'"
      by (auto simp: findOverrideInterpolationEnd.simps(2) prepend_Some True q)
    then show ?thesis using "2.IH"(2) [OF _ True q [symmetric]] True skipQuoted_shorter [OF q] by simp
  next
    case False
    then show ?thesis using 2
      by (auto simp: findOverrideInterpolationEnd.simps(2) prepend_Some split: if_splits list.splits nat.splits)
  qed
qed simp

text \<open>\<^verbatim>\<open>strings.ReplaceAll\<close> of an escaped quote by the quote.\<close>

fun unescapeQuotes :: "string \<Rightarrow> string" where
  "unescapeQuotes (c # d # s) =
     (if c = backslash \<and> d = dquote then dquote # unescapeQuotes s else c # unescapeQuotes (d # s))"
| "unescapeQuotes s = s"

lemma unescapeQuotes_length: "length (unescapeQuotes s) \<le> length s"
  by (induction s rule: unescapeQuotes.induct) auto

text \<open>
  The parts of a string token: \<open>lit\<close> is the text since the last part.  \<open>inner\<close> parses the source
  of an interpolated expression.
\<close>

function stringParts ::
  "(string \<Rightarrow> parse_error + 'f expr) \<Rightarrow> string \<Rightarrow> string \<Rightarrow> parse_error + 'f part list \<times> string" where
  "stringParts inner lit [] = Inr ([], lit)"
| "stringParts inner lit [c] = Inr ([], lit @ [c])"
| "stringParts inner lit (c # d # s) =
     (if c \<noteq> backslash then stringParts inner (lit @ [c]) (d # s)
      else if d \<noteq> CHR ''('' then stringParts inner (lit @ [c, d]) s
      else
        rbind (as_syntax (decodeOverrideString lit)) (\<lambda>literal.
        (case findOverrideInterpolationEnd 0 s of
           None \<Rightarrow> Inl (Syntax ''unterminated interpolation'')
         | Some (e, rest) \<Rightarrow>
             rbind (inner (unescapeQuotes e)) (\<lambda>expression.
             rbind (stringParts inner [] rest) (\<lambda>(parts, lit).
             Inr ((if literal \<noteq> [] then [PLiteral literal] else []) @ PExpr expression # parts, lit))))))"
  by pat_completeness auto
termination
  by (relation "measure (\<lambda>(inner, lit, s). length s)") (auto dest: findEnd_shorter)

declare stringParts.simps(3) [simp del]

definition parseString :: "(string \<Rightarrow> parse_error + 'f expr) \<Rightarrow> token \<Rightarrow> parse_error + 'f expr" where
  "parseString inner t =
     rbind (stringParts inner [] (ttext t)) (\<lambda>(parts, lit).
     rbind (as_syntax (decodeOverrideString lit)) (\<lambda>literal.
     if parts = [] then Inr (ELiteral (VStr literal))
     else Inr (EString (parts @ (if literal \<noteq> [] then [PLiteral literal] else [])))))"

subsection \<open>Loops\<close>

text \<open>
  Left-associative binary operators: \<open>op\<close> gives the operator at the cursor.  The rounds of the loops
  are bounded by the number of tokens.
\<close>

fun binaryLoop ::
  "nat \<Rightarrow> (token list \<Rightarrow> 'f expr parse) \<Rightarrow> (token list \<Rightarrow> string option) \<Rightarrow> 'f expr \<Rightarrow> token list \<Rightarrow>
   'f expr parse" where
  "binaryLoop 0 operand op left ts = Inl NoFuel"
| "binaryLoop (Suc n) operand op left ts =
     (case op ts of
        None \<Rightarrow> Inr (left, ts)
      | Some name \<Rightarrow>
          rbind (operand (snd (nextTok ts))) (\<lambda>(right, ts).
          binaryLoop n operand op (EBinary name left right) ts))"

definition binaryLevel ::
  "(token list \<Rightarrow> 'f expr parse) \<Rightarrow> (token list \<Rightarrow> string option) \<Rightarrow> token list \<Rightarrow> 'f expr parse" where
  "binaryLevel operand op ts =
     rbind (operand ts) (\<lambda>(left, ts). binaryLoop (Suc (length ts)) operand op left ts)"

definition kindOp :: "token_kind list \<Rightarrow> token list \<Rightarrow> string option" where
  "kindOp ks ts = (if tkind (peek ts) \<in> set ks then Some (ttext (peek ts)) else None)"

definition identOp :: "string \<Rightarrow> token list \<Rightarrow> string option" where
  "identOp v ts = (if peekIdentifier v ts then Some v else None)"

text \<open>Items with separators between them.\<close>

fun listLoop :: "nat \<Rightarrow> (token list \<Rightarrow> 'a parse) \<Rightarrow> token_kind list \<Rightarrow> token list \<Rightarrow> 'a list parse" where
  "listLoop 0 item seps ts = Inl NoFuel"
| "listLoop (Suc n) item seps ts =
     rbind (item ts) (\<lambda>(x, ts).
     if tkind (peek ts) \<in> set seps
     then rbind (listLoop n item seps (snd (nextTok ts))) (\<lambda>(xs, ts). Inr (x # xs, ts))
     else Inr ([x], ts))"

definition parseList :: "(token list \<Rightarrow> 'a parse) \<Rightarrow> token_kind list \<Rightarrow> token list \<Rightarrow> 'a list parse" where
  "parseList item seps ts = listLoop (Suc (length ts)) item seps ts"

subsection \<open>Expressions\<close>

type_synonym 'f value_parser = "bool \<Rightarrow> token list \<Rightarrow> 'f expr parse"

definition parseUnionExpression :: "'f value_parser \<Rightarrow> bool \<Rightarrow> token list \<Rightarrow> 'f expr parse" where
  "parseUnionExpression pv low ts =
     rbind (parseList (pv low) [TComma] ts) (\<lambda>(values, ts).
     Inr (case values of [first] \<Rightarrow> first | _ \<Rightarrow> EUnion values, ts))"

definition parseOverrideValueExpr :: "'f value_parser \<Rightarrow> string \<Rightarrow> parse_error + 'f expr" where
  "parseOverrideValueExpr pv src =
     rbind (as_syntax (lexOverrideExpr src)) (\<lambda>ts.
     rbind (parseUnionExpression pv True ts) (\<lambda>(e, ts).
     if tkind (peek ts) \<noteq> TEOF then Inl (Syntax ''unexpected token'') else Inr e))"

definition overrideFunctions :: "string list" where
  "overrideFunctions =
     [''length'', ''type'', ''keys'', ''has'', ''contains'', ''select'',
      ''sub'', ''test'', ''split'', ''join'', ''upcase'', ''downcase'', ''trim'',
      ''tostring'', ''tonumber'', ''not'', ''reverse'', ''sort'', ''unique'', ''flatten'',
      ''any'', ''all'', ''map'', ''map_values'', ''filter'', ''to_entries'',
      ''from_entries'', ''with_entries'', ''any_c'', ''all_c'']"

definition isOverrideFunction :: "string \<Rightarrow> bool" where
  "isOverrideFunction name \<longleftrightarrow> name \<in> set overrideFunctions"

definition isOverrideStreamFunction :: "string \<Rightarrow> bool" where
  "isOverrideStreamFunction name \<longleftrightarrow>
     name \<in> set [''map'', ''map_values'', ''filter'', ''to_entries'', ''from_entries'',
       ''with_entries'', ''any_c'', ''all_c'']"

definition parseMapEntry :: "'f value_parser \<Rightarrow> token list \<Rightarrow> (string \<times> 'f expr) parse" where
  "parseMapEntry pv ts =
     (case nextTok ts of (key, ts) \<Rightarrow>
        if tkind key \<noteq> TString then Inl (Syntax ''expected quoted map key'')
        else
          rbind (expect TColon ''expected colon after map key'' ts) (\<lambda>(_, ts).
          rbind (as_syntax (decodeOverrideString (ttext key))) (\<lambda>k.
          rbind (pv True ts) (\<lambda>(v, ts). Inr ((k, v), ts)))))"

text \<open>The arguments of a function in parentheses, if there are any.\<close>

definition parseArguments :: "'f value_parser \<Rightarrow> token list \<Rightarrow> 'f expr list parse" where
  "parseArguments pv ts =
     (case matches TLeftParen ts of
        None \<Rightarrow> Inr ([], ts)
      | Some ts \<Rightarrow>
          (case matches TRightParen ts of
             Some ts \<Rightarrow> Inr ([], ts)
           | None \<Rightarrow>
               rbind (parseList (pv True) [TComma, TSemicolon] ts) (\<lambda>(args, ts).
               rbind (expect TRightParen ''expected parenthesis after function arguments'' ts)
                 (\<lambda>(_, ts). Inr (args, ts)))))"

definition parseIdentifier :: "'f value_parser \<Rightarrow> token \<Rightarrow> token list \<Rightarrow> 'f expr parse" where
  "parseIdentifier pv t ts =
     (if ttext t = ''true'' then Inr (ELiteral (VBool True), ts)
      else if ttext t = ''false'' then Inr (ELiteral (VBool False), ts)
      else if ttext t = ''null'' \<or> ttext t = ''~'' then Inr (ELiteral VNull, ts)
      else
        rbind (parseArguments pv ts) (\<lambda>(args, ts).
        if \<not> isOverrideFunction (ttext t) then Inl (Syntax ''unknown function'')
        else if isOverrideStreamFunction (ttext t) then Inr (EStream (ttext t) args, ts)
        else Inr (EFunction (ttext t) args, ts)))"

definition parsePrimary :: "'f lib \<Rightarrow> 'f value_parser \<Rightarrow> token list \<Rightarrow> 'f expr parse" where
  "parsePrimary lib pv ts =
     (case nextTok ts of (t, ts') \<Rightarrow>
        (case tkind t of
           TDot \<Rightarrow> rbind (parsePath ts) (\<lambda>(p, ts). Inr (EPath p, ts))
         | TString \<Rightarrow> rbind (parseString (parseOverrideValueExpr pv) t) (\<lambda>e. Inr (e, ts'))
         | TNumber \<Rightarrow> rbind (parseNumber lib t) (\<lambda>e. Inr (e, ts'))
         | TLeftParen \<Rightarrow>
             rbind (parseUnionExpression pv True ts') (\<lambda>(e, ts).
             rbind (expect TRightParen ''expected parenthesis'' ts) (\<lambda>(_, ts). Inr (e, ts)))
         | TLeftBracket \<Rightarrow>
             (case matches TRightBracket ts' of
                Some ts \<Rightarrow> Inr (EArray [], ts)
              | None \<Rightarrow>
                  rbind (parseList (pv True) [TComma] ts') (\<lambda>(vs, ts).
                  rbind (expect TRightBracket ''expected bracket after array'' ts) (\<lambda>(_, ts). Inr (EArray vs, ts))))
         | TLeftBrace \<Rightarrow>
             (case matches TRightBrace ts' of
                Some ts \<Rightarrow> Inr (EMap [], ts)
              | None \<Rightarrow>
                  rbind (parseList (parseMapEntry pv) [TComma] ts') (\<lambda>(es, ts).
                  rbind (expect TRightBrace ''expected brace after map'' ts) (\<lambda>(_, ts). Inr (EMap es, ts))))
         | TIdentifier \<Rightarrow> parseIdentifier pv t ts'
         | _ \<Rightarrow> Inl (Syntax ''expected value'')))"

definition parseUnary :: "'f lib \<Rightarrow> 'f value_parser \<Rightarrow> token list \<Rightarrow> 'f expr parse" where
  "parseUnary lib pv ts =
     (if tkind (peek ts) = TMinus then
        (case nextTok (snd (nextTok ts)) of (number, ts) \<Rightarrow>
           if tkind number \<noteq> TNumber then Inl (Syntax ''unary minus is only supported for number literals'')
           else rbind (parseNumber lib (number\<lparr>ttext := ''-'' @ ttext number\<rparr>)) (\<lambda>e. Inr (e, ts)))
      else parsePrimary lib pv ts)"

definition parseMultiplicative :: "'f lib \<Rightarrow> 'f value_parser \<Rightarrow> token list \<Rightarrow> 'f expr parse" where
  "parseMultiplicative lib pv = binaryLevel (parseUnary lib pv) (kindOp [TMultiply, TDivide, TModulo])"

definition parseAdditive :: "'f lib \<Rightarrow> 'f value_parser \<Rightarrow> token list \<Rightarrow> 'f expr parse" where
  "parseAdditive lib pv = binaryLevel (parseMultiplicative lib pv) (kindOp [TPlus, TMinus])"

definition parseComparison :: "'f lib \<Rightarrow> 'f value_parser \<Rightarrow> token list \<Rightarrow> 'f expr parse" where
  "parseComparison lib pv =
     binaryLevel (parseAdditive lib pv) (kindOp [TEqual, TNotEqual, TLess, TLessEqual, TGreater, TGreaterEqual])"

definition parseAlternative :: "'f lib \<Rightarrow> 'f value_parser \<Rightarrow> token list \<Rightarrow> 'f expr parse" where
  "parseAlternative lib pv =
     binaryLevel (parseComparison lib pv) (\<lambda>ts. if tkind (peek ts) = TAlternative then Some ''//'' else None)"

definition parseAnd :: "'f lib \<Rightarrow> 'f value_parser \<Rightarrow> token list \<Rightarrow> 'f expr parse" where
  "parseAnd lib pv = binaryLevel (parseAlternative lib pv) (identOp ''and'')"

definition parseOr :: "'f lib \<Rightarrow> 'f value_parser \<Rightarrow> token list \<Rightarrow> 'f expr parse" where
  "parseOr lib pv = binaryLevel (parseAnd lib pv) (identOp ''or'')"

text \<open>An update inside an expression; \<open>None\<close> puts the cursor back.\<close>

definition parseValueUpdateExpression :: "'f value_parser \<Rightarrow> token list \<Rightarrow> 'f expr parse option" where
  "parseValueUpdateExpression pv ts =
     (if tkind (peek ts) \<noteq> TDot then None
      else
        (case parsePath ts of
           Inl e \<Rightarrow> None
         | Inr (p, ts) \<Rightarrow>
             if \<not> isOverrideAssignmentToken (tkind (peek ts)) then None
             else
               (case nextTok ts of (op, ts) \<Rightarrow>
                  Some (rbind (pv False ts) (\<lambda>(v, ts). Inr (EUpdate p (tkind op) v, ts))))))"

definition parseStage :: "'f lib \<Rightarrow> 'f value_parser \<Rightarrow> bool \<Rightarrow> token list \<Rightarrow> 'f expr parse" where
  "parseStage lib pv low ts =
     (case parseValueUpdateExpression pv ts of
        Some r \<Rightarrow> r
      | None \<Rightarrow> if low then parseOr lib pv ts else parseAlternative lib pv ts)"

definition parseValue :: "'f lib \<Rightarrow> 'f value_parser \<Rightarrow> 'f value_parser" where
  "parseValue lib pv low ts =
     (if \<not> low then parseStage lib pv False ts
      else
        rbind (parseList (parseStage lib pv True) [TPipe] ts) (\<lambda>(stages, ts).
        Inr (case stages of [first] \<Rightarrow> first | _ \<Rightarrow> EPipeline stages, ts)))"

fun valueParser :: "'f lib \<Rightarrow> nat \<Rightarrow> 'f value_parser" where
  "valueParser lib 0 low ts = Inl NoFuel"
| "valueParser lib (Suc n) low ts = parseValue lib (valueParser lib n) low ts"

subsection \<open>Statements\<close>

text \<open>What follows the parenthesis that closes the first one.\<close>

fun afterParen :: "nat \<Rightarrow> token list \<Rightarrow> token list option" where
  "afterParen depth [] = None"
| "afterParen depth (t # ts) =
     (if tkind t = TLeftParen then afterParen (depth + 1) ts
      else if tkind t = TRightParen then (if depth = 1 then Some ts else afterParen (depth - 1) ts)
      else afterParen depth ts)"

definition startsAssignmentStatement :: "token list \<Rightarrow> bool" where
  "startsAssignmentStatement ts =
     (if tkind (peek ts) = TDot then
        (case parsePath ts of Inl e \<Rightarrow> False | Inr (p, ts) \<Rightarrow> isOverrideAssignmentToken (tkind (peek ts)))
      else if tkind (peek ts) \<noteq> TLeftParen then False
      else
        (case afterParen 0 ts of
           None \<Rightarrow> False
         | Some ts \<Rightarrow> ts \<noteq> [] \<and> isOverrideAssignmentToken (tkind (peek ts))))"

definition parseTargetStage :: "'f value_parser \<Rightarrow> token list \<Rightarrow> 'f stage parse" where
  "parseTargetStage pv ts =
     (if peekIdentifier ''select'' ts then
        rbind (expect TLeftParen ''expected parenthesis after select'' (snd (nextTok ts))) (\<lambda>(_, ts).
        rbind (pv True ts) (\<lambda>(condition, ts).
        rbind (expect TRightParen ''expected parenthesis after select condition'' ts) (\<lambda>(_, ts).
        Inr (SCondition condition, ts))))
      else rbind (parsePath ts) (\<lambda>(p, ts). Inr (SPath p, ts)))"

definition parseAssignmentTarget :: "'f value_parser \<Rightarrow> token list \<Rightarrow> 'f stage list parse" where
  "parseAssignmentTarget pv ts =
     rbind (expect TLeftParen ''expected parenthesis'' ts) (\<lambda>(_, ts).
     rbind (parseList (parseTargetStage pv) [TPipe] ts) (\<lambda>(stages, ts).
     rbind (expect TRightParen ''expected parenthesis after assignment path'' ts) (\<lambda>(_, ts).
     if list_ex (\<lambda>s. case s of SPath p \<Rightarrow> True | SCondition c \<Rightarrow> False) stages then Inr (stages, ts)
     else Inl (Syntax ''conditional assignment must select a path''))))"

definition parseDelete :: "token list \<Rightarrow> 'f statement parse" where
  "parseDelete ts =
     rbind (expect TLeftParen ''expected parenthesis after del'' ts) (\<lambda>(_, ts).
     rbind (parseList parsePath [TComma] ts) (\<lambda>(paths, ts).
     rbind (expect TRightParen ''expected parenthesis after del arguments'' ts) (\<lambda>(_, ts).
     if [] \<in> set paths then Inl (Syntax ''del(.) cannot be represented by a mapping override'')
     else Inr (Delete paths, ts))))"

definition parseStatement :: "'f value_parser \<Rightarrow> token list \<Rightarrow> 'f statement parse" where
  "parseStatement pv ts =
     (if peekIdentifier ''del'' ts then parseDelete (snd (nextTok ts))
      else if \<not> startsAssignmentStatement ts then
        rbind (parseUnionExpression pv True ts) (\<lambda>(e, ts). Inr (Filter e, ts))
      else
        rbind (if tkind (peek ts) = TLeftParen
               then rbind (parseAssignmentTarget pv ts) (\<lambda>(t, ts). Inr (([], Some t), ts))
               else rbind (parsePath ts) (\<lambda>(p, ts). Inr ((p, None), ts))) (\<lambda>((p, target), ts).
        case nextTok ts of (op, ts) \<Rightarrow>
          if \<not> isOverrideAssignmentToken (tkind op)
          then Inl (Syntax ''expected assignment operator after path'')
          else rbind (pv False ts) (\<lambda>(v, ts). Inr (Assign p target (tkind op) v, ts))))"

fun statementLoop :: "nat \<Rightarrow> 'f value_parser \<Rightarrow> token list \<Rightarrow> 'f statement list parse" where
  "statementLoop 0 pv ts = Inl NoFuel"
| "statementLoop (Suc n) pv ts =
     rbind (parseStatement pv ts) (\<lambda>(s, ts).
     case matches TPipe ts of
       None \<Rightarrow> Inr ([s], ts)
     | Some ts \<Rightarrow>
         if tkind (peek ts) = TEOF then Inl (Syntax ''expected expression after pipe'')
         else rbind (statementLoop n pv ts) (\<lambda>(ss, ts). Inr (s # ss, ts)))"

definition parseStatements :: "'f value_parser \<Rightarrow> token list \<Rightarrow> parse_error + 'f statement list" where
  "parseStatements pv ts =
     (if tkind (peek ts) = TEOF then Inl (Syntax ''expression is empty'')
      else
        rbind (statementLoop (Suc (length ts)) pv ts) (\<lambda>(ss, ts).
        if tkind (peek ts) \<noteq> TEOF then Inl (Syntax ''unexpected token'') else Inr ss))"

definition parse_fuel :: "string \<Rightarrow> nat" where
  "parse_fuel src = length src + 2"

definition newOverrideExpr :: "'f lib \<Rightarrow> string \<Rightarrow> parse_error + 'f override_expr" where
  "newOverrideExpr lib src =
     rbind (as_syntax (lexOverrideExpr src)) (\<lambda>ts.
     rbind (parseStatements (valueParser lib (parse_fuel src)) ts) (\<lambda>ss.
     Inr \<lparr>source = src, statements = ss\<rparr>))"

text \<open>\<^verbatim>\<open>UnmarshalText\<close> and \<^verbatim>\<open>MarshalText\<close>.\<close>

definition unmarshalText :: "'f lib \<Rightarrow> string \<Rightarrow> 'f override_expr \<Rightarrow> parse_error option \<times> 'f override_expr" where
  "unmarshalText lib txt e =
     (case newOverrideExpr lib txt of Inl err \<Rightarrow> (Some err, e) | Inr e' \<Rightarrow> (None, e'))"

definition marshalText :: "'f override_expr \<Rightarrow> string" where
  "marshalText e = source e"

end
