(* ===== verification/ExprApply.thy ===== *)
theory ExprApply
  imports ExprParse ExprEval
begin

text \<open>
  The statements and their effect on a mapping.  A statement returns the new mapping or an error; what
  it has changed before an error is not returned, since the caller drops the mapping then.
\<close>

type_synonym 'f mapping = "(string \<times> 'f val) list"

fun resolveStages :: "'f lib \<Rightarrow> 'f stage list \<Rightarrow> ('f val \<times> path) list \<Rightarrow> ('f val \<times> path) list result" where
  "resolveStages lib [] sels = Inr sels"
| "resolveStages lib (SPath p # stages) sels =
     resolveStages lib stages (concat (map (expandOverrideTargetPath p) sels))"
| "resolveStages lib (SCondition c # stages) sels =
     rbind (concatResult (\<lambda>sel. rbind (evalStream lib c (fst sel)) (\<lambda>vs.
              Inr (if list_ex overrideTruthy vs then [sel] else []))) sels) (\<lambda>sels.
     resolveStages lib stages sels)"

definition resolveTarget :: "'f lib \<Rightarrow> 'f stage list \<Rightarrow> 'f val \<Rightarrow> ('f val \<times> path) list result" where
  "resolveTarget lib stages root = resolveStages lib stages [(root, [])]"

definition asMapping :: "'f val \<Rightarrow> 'f mapping result" where
  "asMapping v = (case v of VMap m \<Rightarrow> Inr m | _ \<Rightarrow> Inl ''root expression must produce a mapping'')"

fun updateSelections :: "('f val \<Rightarrow> 'f val result) \<Rightarrow> path list \<Rightarrow> 'f mapping \<Rightarrow> 'f mapping result" where
  "updateSelections updater [] m = Inr m"
| "updateSelections updater (p # ps) m =
     rbind (updateOverridePath p updater (VMap m)) (\<lambda>v.
     rbind (asMapping v) (\<lambda>m. updateSelections updater ps m))"

definition evalSingle :: "'f lib \<Rightarrow> 'f expr \<Rightarrow> 'f val \<Rightarrow> 'f val result" where
  "evalSingle lib e v = rbind (evalStream lib e v) single"

definition applyAssign ::
  "'f lib \<Rightarrow> path \<Rightarrow> 'f stage list option \<Rightarrow> token_kind \<Rightarrow> 'f expr \<Rightarrow> 'f mapping \<Rightarrow> 'f mapping result" where
  "applyAssign lib p target op e m =
     rbind (assignUpdater lib True op (evalSingle lib e) (VMap m)) (\<lambda>u.
     case u of
       None \<Rightarrow> Inr m
     | Some updater \<Rightarrow>
         (case target of
            Some stages \<Rightarrow>
              rbind (resolveTarget lib stages (VMap m)) (\<lambda>sels. updateSelections updater (map snd sels) m)
          | None \<Rightarrow> updateSelections updater [p] m))"

definition applyFilter :: "'f lib \<Rightarrow> 'f expr \<Rightarrow> 'f mapping \<Rightarrow> 'f mapping result" where
  "applyFilter lib e m =
     rbind (evalSingle lib e (VMap m)) (\<lambda>v.
     if isOverrideNoMatch v then Inl ''filter expression produced no result; a mapping is required''
     else (case v of VMap r \<Rightarrow> Inr (cloneEntries r) | _ \<Rightarrow> Inl ''filter expression must produce a mapping''))"

definition applyDelete :: "path list \<Rightarrow> 'f mapping \<Rightarrow> 'f mapping result" where
  "applyDelete paths m = asMapping (deleteOverridePaths (VMap m) paths)"

definition applyStatement :: "'f lib \<Rightarrow> 'f statement \<Rightarrow> 'f mapping \<Rightarrow> 'f mapping result" where
  "applyStatement lib s m =
     (case s of
        Assign p target op e \<Rightarrow> applyAssign lib p target op e m
      | Filter e \<Rightarrow> applyFilter lib e m
      | Delete paths \<Rightarrow> applyDelete paths m)"

fun applyStatements :: "'f lib \<Rightarrow> 'f statement list \<Rightarrow> 'f mapping \<Rightarrow> 'f mapping result" where
  "applyStatements lib [] m = Inr m"
| "applyStatements lib (s # ss) m = rbind (applyStatement lib s m) (applyStatements lib ss)"

definition applyOverride :: "'f lib \<Rightarrow> 'f override_expr \<Rightarrow> 'f mapping \<Rightarrow> 'f mapping result" where
  "applyOverride lib e m = applyStatements lib (statements e) m"

end
