(* ===== verification/ExprParseSpec.thy ===== *)
theory ExprParseSpec
  imports ExprParse "HOL-Library.Sublist"
begin

text \<open>
  The parser always comes to an end: the fuel of \<open>newOverrideExpr\<close> is enough for every source.  Every
  sub-parser leaves a proper suffix of its tokens, and the source of an interpolated expression is
  shorter than the string token it stands in; the \<open>weight\<close> of a token list bounds the nesting.
\<close>

definition weight :: "token list \<Rightarrow> nat" where
  "weight ts = sum_list (map (\<lambda>t. if tkind t = TString then length (ttext t) + 2 else 1) ts)"

lemma weight_simps [simp]:
  "weight [] = 0"
  "weight (t # ts) = (if tkind t = TString then length (ttext t) + 2 else 1) + weight ts"
  by (simp_all add: weight_def)

lemma weight_append [simp]: "weight (us @ ts) = weight us + weight ts"
  by (simp add: weight_def)

lemma length_weight: "length ts \<le> weight ts"
  by (induction ts) auto

lemma weight_suffix: "suffix ts' ts \<Longrightarrow> weight ts' \<le> weight ts"
  by (auto simp: suffix_def)

lemma weight_strict_suffix: "strict_suffix ts' ts \<Longrightarrow> weight ts' < weight ts"
proof -
  assume "strict_suffix ts' ts"
  then obtain us where us: "ts = us @ ts'" "us \<noteq> []"
    by (auto simp: strict_suffix_def suffix_def)
  then have "0 < weight us" using length_weight [of us] by (cases us) auto
  then show ?thesis using us by simp
qed

text \<open>A parser that, on tokens of weight below \<open>n\<close>, ends and consumes at least one token.\<close>

definition consuming :: "nat \<Rightarrow> (token list \<Rightarrow> 'a parse) \<Rightarrow> bool" where
  "consuming n P \<longleftrightarrow> (\<forall>ts. weight ts < n \<longrightarrow>
     P ts \<noteq> Inl NoFuel \<and> (\<forall>x ts'. P ts = Inr (x, ts') \<longrightarrow> strict_suffix ts' ts))"

lemma consumingI:
  "(\<And>ts. weight ts < n \<Longrightarrow> P ts \<noteq> Inl NoFuel) \<Longrightarrow>
   (\<And>ts x ts'. weight ts < n \<Longrightarrow> P ts = Inr (x, ts') \<Longrightarrow> strict_suffix ts' ts) \<Longrightarrow> consuming n P"
  by (simp add: consuming_def)

lemma consumingD:
  assumes "consuming n P" "weight ts < n"
  shows "P ts \<noteq> Inl NoFuel" "P ts = Inr (x, ts') \<Longrightarrow> strict_suffix ts' ts"
  using assms by (auto simp: consuming_def)

text \<open>On any tokens: the parsers that do not call the value parser.\<close>

definition always :: "(token list \<Rightarrow> 'a parse) \<Rightarrow> bool" where
  "always P \<longleftrightarrow> (\<forall>n. consuming n P)"

lemma suffix_nextTok: "nextTok ts = (t, ts') \<Longrightarrow> suffix ts' ts"
  by (cases ts) (auto simp: nextTok_def Let_def peek_def suffix_def split: if_splits)

lemma strict_nextTok: "nextTok ts = (t, ts') \<Longrightarrow> tkind t \<noteq> TEOF \<Longrightarrow> strict_suffix ts' ts"
  by (cases ts) (auto simp: nextTok_def Let_def peek_def strict_suffix_def suffix_def split: if_splits)

lemma fst_nextTok: "nextTok ts = (t, ts') \<Longrightarrow> t = peek ts"
  by (auto simp: nextTok_def Let_def)

lemma snd_nextTok_strict: "tkind (peek ts) \<noteq> TEOF \<Longrightarrow> strict_suffix (snd (nextTok ts)) ts"
  using strict_nextTok [of ts "fst (nextTok ts)" "snd (nextTok ts)"] by (simp add: nextTok_def Let_def)

lemma suffix_snd_nextTok: "suffix (snd (nextTok ts)) ts"
  using suffix_nextTok [of ts "fst (nextTok ts)"] by simp

lemma matches_strict: "matches k ts = Some ts' \<Longrightarrow> k \<noteq> TEOF \<Longrightarrow> strict_suffix ts' ts"
  by (auto simp: matches_def snd_nextTok_strict split: if_splits)

lemma expect_no_fuel [simp]: "expect k m ts \<noteq> Inl NoFuel"
  by (auto simp: expect_def split: prod.splits)

lemma expect_strict: "expect k m ts = Inr (t, ts') \<Longrightarrow> k \<noteq> TEOF \<Longrightarrow> strict_suffix ts' ts"
  by (auto simp: expect_def strict_nextTok split: prod.splits if_splits)

lemmas cursor = suffix_nextTok strict_nextTok snd_nextTok_strict suffix_snd_nextTok matches_strict expect_strict

lemma strict_suffix_trans1: "strict_suffix a b \<Longrightarrow> suffix b c \<Longrightarrow> strict_suffix a c"
  by (metis strict_suffix_def suffix_order.antisym suffix_order.trans)

lemma strict_suffix_trans2: "suffix a b \<Longrightarrow> strict_suffix b c \<Longrightarrow> strict_suffix a c"
  by (metis strict_suffix_def suffix_order.antisym suffix_order.trans)

lemma strict_suffix_imp: "strict_suffix a b \<Longrightarrow> suffix a b"
  by (simp add: strict_suffix_def)

subsection \<open>Results that leave a suffix\<close>

definition down :: "token list \<Rightarrow> 'a parse \<Rightarrow> bool" where
  "down ts r \<longleftrightarrow> r \<noteq> Inl NoFuel \<and> (\<forall>x ts'. r = Inr (x, ts') \<longrightarrow> strict_suffix ts' ts)"

definition stay :: "token list \<Rightarrow> 'a parse \<Rightarrow> bool" where
  "stay ts r \<longleftrightarrow> r \<noteq> Inl NoFuel \<and> (\<forall>x ts'. r = Inr (x, ts') \<longrightarrow> suffix ts' ts)"

lemma consuming_down: "consuming n P \<longleftrightarrow> (\<forall>ts. weight ts < n \<longrightarrow> down ts (P ts))"
  by (simp add: consuming_def down_def)

lemma down_Inl [simp]: "down ts (Inl (Syntax e))" "stay ts (Inl (Syntax e))"
  by (simp_all add: down_def stay_def)

lemma stay_Inr [simp]: "stay ts (Inr (x, ts')) \<longleftrightarrow> suffix ts' ts" "down ts (Inr (x, ts')) \<longleftrightarrow> strict_suffix ts' ts"
  by (auto simp: stay_def down_def)

lemma down_stay: "down ts r \<Longrightarrow> stay ts r"
  by (auto simp: down_def stay_def strict_suffix_imp)

lemma stay_suffix: "stay ts r \<Longrightarrow> suffix ts ts0 \<Longrightarrow> stay ts0 r"
  by (auto simp: stay_def intro: suffix_order.trans)

lemma stay_strict: "stay ts r \<Longrightarrow> strict_suffix ts ts0 \<Longrightarrow> down ts0 r"
  by (auto simp: stay_def down_def intro: strict_suffix_trans2)

lemma down_suffix: "down ts r \<Longrightarrow> suffix ts ts0 \<Longrightarrow> down ts0 r"
  by (auto simp: down_def intro: strict_suffix_trans1)

lemma down_bind:
  "down ts r \<Longrightarrow> (\<And>x ts'. r = Inr (x, ts') \<Longrightarrow> strict_suffix ts' ts \<Longrightarrow> stay ts' (f x ts')) \<Longrightarrow>
   down ts (rbind r (\<lambda>(x, ts'). f x ts'))"
  by (cases r) (auto simp: down_def stay_def intro: strict_suffix_trans2)

lemma stay_bind:
  "stay ts r \<Longrightarrow> (\<And>x ts'. r = Inr (x, ts') \<Longrightarrow> suffix ts' ts \<Longrightarrow> stay ts' (f x ts')) \<Longrightarrow>
   stay ts (rbind r (\<lambda>(x, ts'). f x ts'))"
  by (cases r) (auto simp: stay_def intro: suffix_order.trans)

lemma bind_down: "stay ts r \<Longrightarrow> (\<And>x ts'. r = Inr (x, ts') \<Longrightarrow> suffix ts' ts \<Longrightarrow> down ts' (f x ts')) \<Longrightarrow>
   down ts (rbind r (\<lambda>(x, ts'). f x ts'))"
  by (cases r) (auto simp: stay_def down_def intro: strict_suffix_trans1)

lemma pure_bind:
  "m \<noteq> Inl NoFuel \<Longrightarrow> (\<And>x. m = Inr x \<Longrightarrow> stay ts (f x)) \<Longrightarrow> stay ts (rbind m f)"
  "m \<noteq> Inl NoFuel \<Longrightarrow> (\<And>x. m = Inr x \<Longrightarrow> down ts (f x)) \<Longrightarrow> down ts (rbind m f)"
  by (cases m; simp add: stay_def down_def)+

lemma stay_expect: "k \<noteq> TEOF \<Longrightarrow> down ts (expect k m ts)"
  by (simp add: down_def expect_strict)

lemma stay_option: "(\<And>x. r = Some x \<Longrightarrow> stay ts (f x)) \<Longrightarrow> (r = None \<Longrightarrow> stay ts d) \<Longrightarrow>
    stay ts (case r of None \<Rightarrow> d | Some x \<Rightarrow> f x)"
  by (cases r) auto

subsection \<open>Lexing\<close>

lemma lex_weight: "lexFrom pos s = Inr ts \<Longrightarrow> weight ts \<le> length s + 1"
proof (induction pos s arbitrary: ts rule: lexFrom.induct)
  case (2 pos ch s)
  consider "isSpace ch" | "\<not> isSpace ch" "ch = CHR ''#''" | "\<not> isSpace ch" "ch \<noteq> CHR ''#''" by blast
  then show ?case
  proof cases
    case 1
    with "2.prems" have "lexFrom (pos + 1) s = Inr ts" unfolding lexFrom.simps(2) by (simp only: if_True)
    from "2.IH"(1) [OF 1 this] show ?thesis by simp
  next
    case ns: 2
    with "2.prems" have "ts = [token_of TEOF [] (pos + 1 + length s)]"
      unfolding lexFrom.simps(2) by (simp only: if_True if_False) simp
    then show ?thesis by simp
  next
    case ns: 3
    note eq = "2.prems" [unfolded lexFrom.simps(2), simplified ns if_False]
    show ?thesis
    proof (cases "lexOperator ch (nextChar s)")
      case (Some kw)
      then obtain k w where kw: "lexOperator ch (nextChar s) = Some (k, w)" by (cases kw) auto
      then have k: "k \<noteq> TString" by (auto simp: lexOperator_def Let_def split: if_splits)
      from eq kw obtain ts' where "lexFrom (pos + w) (drop w (ch # s)) = Inr ts'"
        "ts = token_of k (take w (ch # s)) pos # ts'" by (auto simp: rbind_eq_Inr)
      then show ?thesis using "2.IH"(5) [OF ns kw refl] lexOperator_width [OF kw] k by fastforce
    next
      case None
      note eq = eq [unfolded None option.case]
      show ?thesis
      proof (cases "ch = dquote")
        case True
        from eq True obtain v rest ts' where v: "scanOverrideString s = Some (v, rest)"
          "lexFrom (pos + length v + 2) rest = Inr ts'" "ts = token_of TString v pos # ts'"
          by (auto simp: rbind_eq_Inr split: option.splits)
        then show ?thesis
          using "2.IH"(2) [OF ns None True v(1) refl v(2)] scanOverrideString_shorter [OF v(1)] by simp
      next
        case nq: False
        note eq = eq [simplified nq if_False]
        show ?thesis
        proof (cases "isDigit ch")
          case True
          from eq True obtain ts' where "lexFrom (pos + scanOverrideNumber (ch # s)) (drop (scanOverrideNumber (ch # s)) (ch # s)) = Inr ts'"
            "ts = token_of TNumber (take (scanOverrideNumber (ch # s)) (ch # s)) pos # ts'"
            by (auto simp: Let_def rbind_eq_Inr)
          then show ?thesis
            using "2.IH"(3) [OF ns None nq True refl] scanOverrideNumber_pos [OF True, of s] by fastforce
        next
          case nd: False
          let ?n = "1 + length (takeWhile isOverrideIdentifierPart s)"
          from eq nd obtain ts' where i: "isOverrideIdentifierStart ch" "lexFrom (pos + ?n) (drop ?n (ch # s)) = Inr ts'"
            "ts = token_of TIdentifier (take ?n (ch # s)) pos # ts'"
            by (auto simp: Let_def rbind_eq_Inr split: if_splits)
          then show ?thesis using "2.IH"(4) [OF ns None nq nd i(1) refl] by fastforce
        qed
      qed
    qed
  qed
qed simp

subsection \<open>Loops\<close>

lemma suffix_length: "suffix a b \<Longrightarrow> length a \<le> length b"
  by (auto simp: suffix_def)

lemma strict_suffix_length: "strict_suffix a b \<Longrightarrow> length a < length b"
  by (auto simp: strict_suffix_def suffix_def)

lemma listLoop_consuming:
  assumes "consuming n item" "weight ts < n" "length ts < m" "TEOF \<notin> set seps"
  shows "listLoop m item seps ts \<noteq> Inl NoFuel
    \<and> (\<forall>xs ts'. listLoop m item seps ts = Inr (xs, ts') \<longrightarrow> strict_suffix ts' ts)"
  using assms(2,3)
proof (induction m arbitrary: ts)
  case (Suc m)
  show ?case
  proof (cases "item ts")
    case (Inl e)
    then show ?thesis using consumingD(1) [OF assms(1) Suc.prems(1)] by auto
  next
    case (Inr r)
    obtain x ts1 where r: "r = (x, ts1)" by (cases r)
    have 1: "strict_suffix ts1 ts" using consumingD(2) [OF assms(1) Suc.prems(1)] Inr r by blast
    show ?thesis
    proof (cases "tkind (peek ts1) \<in> set seps")
      case False
      then show ?thesis using Inr r 1 by simp
    next
      case True
      let ?ts2 = "snd (nextTok ts1)"
      have 2: "strict_suffix ?ts2 ts"
        using True assms(4) by (intro strict_suffix_trans2 [OF suffix_snd_nextTok 1])
      then have "weight ?ts2 < n" "length ?ts2 < m"
        using weight_strict_suffix [OF 2] strict_suffix_length [OF 2] Suc.prems by simp_all
      note IH = Suc.IH [OF this]
      show ?thesis
        using Inr r True IH 2 by (auto simp: rbind_eq_Inl rbind_eq_Inr intro: strict_suffix_trans1 dest: strict_suffix_imp)
    qed
  qed
qed simp

lemma parseList_consuming:
  "consuming n item \<Longrightarrow> TEOF \<notin> set seps \<Longrightarrow> consuming n (parseList item seps)"
  unfolding consuming_def [of n "parseList item seps"] parseList_def
  using listLoop_consuming [of n item] by blast

lemma binaryLoop_consuming:
  assumes "consuming n operand" "\<And>ts name. op ts = Some name \<Longrightarrow> tkind (peek ts) \<noteq> TEOF"
    and "weight ts < n" "length ts < m"
  shows "binaryLoop m operand op left ts \<noteq> Inl NoFuel
    \<and> (\<forall>x ts'. binaryLoop m operand op left ts = Inr (x, ts') \<longrightarrow> suffix ts' ts)"
  using assms(3,4)
proof (induction m arbitrary: left ts)
  case (Suc m)
  show ?case
  proof (cases "op ts")
    case (Some name)
    let ?ts1 = "snd (nextTok ts)"
    have 1: "strict_suffix ?ts1 ts" using assms(2) [OF Some] by (rule snd_nextTok_strict)
    then have w1: "weight ?ts1 < n" using weight_strict_suffix [OF 1] Suc.prems by simp
    show ?thesis
    proof (cases "operand ?ts1")
      case (Inl e)
      then show ?thesis using consumingD(1) [OF assms(1) w1] Some by auto
    next
      case (Inr r)
      obtain x ts2 where r: "r = (x, ts2)" by (cases r)
      have 2: "strict_suffix ts2 ts"
        using consumingD(2) [OF assms(1) w1] Inr r 1 by (metis strict_suffix_trans1 strict_suffix_imp)
      then have "weight ts2 < n" "length ts2 < m"
        using weight_strict_suffix [OF 2] strict_suffix_length [OF 2] Suc.prems by simp_all
      note IH = Suc.IH [OF this, of "EBinary name left x"]
      show ?thesis
        using Some Inr r IH strict_suffix_imp [OF 2] by (auto intro: suffix_order.trans)
    qed
  qed simp
qed simp

lemma binaryLevel_consuming:
  assumes "consuming n operand" "\<And>ts name. op ts = Some name \<Longrightarrow> tkind (peek ts) \<noteq> TEOF"
  shows "consuming n (binaryLevel operand op)"
  unfolding consuming_down binaryLevel_def
proof (intro allI impI, rule down_bind)
  fix ts :: "token list" assume w: "weight ts < n"
  show "down ts (operand ts)" using assms(1) w by (simp add: consuming_down)
  fix l ts1 assume "strict_suffix ts1 ts"
  then have "weight ts1 < n" using weight_strict_suffix w by fastforce
  then show "stay ts1 (binaryLoop (Suc (length ts1)) operand op l ts1)"
    using binaryLoop_consuming [OF assms(1), of op ts1] assms(2) unfolding stay_def by blast
qed

subsection \<open>Paths\<close>

lemma pathField_no_fuel [simp]: "pathField t \<noteq> Inl NoFuel"
  by (simp add: pathField_def)

lemma parseBracket_consuming: "consuming n parseBracket"
  unfolding consuming_down
proof (intro allI impI)
  fix ts :: "token list"
  obtain t ts1 where t: "nextTok ts = (t, ts1)" by (cases "nextTok ts")
  show "down ts (parseBracket ts)"
    unfolding parseBracket_def t prod.case
  proof (rule down_suffix [OF bind_down suffix_nextTok [OF t]])
    show "down ts2 (rbind (expect TRightBracket ''expected bracket after path index'' ts2)
            (\<lambda>(_, ts). Inr (seg, ts)))" for seg ts2
      by (intro down_bind stay_expect) simp_all
    have num: "stay ts1 (if tkind t = TMinus
        then rbind (expect TNumber ''expected array index after minus'' ts1) (\<lambda>(n, ts). Inr (ttext t @ ttext n, ts))
        else Inr (ttext t, ts1))"
      by (auto intro!: stay_bind down_stay [OF stay_expect])
    have field: "stay ts1 (rbind (pathField t) (\<lambda>key. Inr (Field key, ts1)))"
      by (intro pure_bind) simp_all
    show "stay ts1 (if tkind t = TString \<or> tkind t = TIdentifier then rbind (pathField t) (\<lambda>key. Inr (Field key, ts1))
        else if tkind t = TNumber \<or> tkind t = TMinus then
          rbind (if tkind t = TMinus
                 then rbind (expect TNumber ''expected array index after minus'' ts1) (\<lambda>(n, ts). Inr (ttext t @ ttext n, ts))
                 else Inr (ttext t, ts1)) (\<lambda>(txt, ts).
          (case parseInt txt 10 of
             None \<Rightarrow> Inl (Syntax ''invalid array index'')
           | Some i \<Rightarrow> Inr (Index i, ts)))
        else Inl (Syntax ''expected field name or array index''))"
    proof (split if_split, intro conjI impI field)
      assume "\<not> (tkind t = TString \<or> tkind t = TIdentifier)"
      show "stay ts1 (if tkind t = TNumber \<or> tkind t = TMinus then
          rbind (if tkind t = TMinus
                 then rbind (expect TNumber ''expected array index after minus'' ts1) (\<lambda>(n, ts). Inr (ttext t @ ttext n, ts))
                 else Inr (ttext t, ts1)) (\<lambda>(txt, ts).
          (case parseInt txt 10 of
             None \<Rightarrow> Inl (Syntax ''invalid array index'')
           | Some i \<Rightarrow> Inr (Index i, ts)))
        else Inl (Syntax ''expected field name or array index''))"
        by (split if_split, intro conjI impI stay_bind num stay_option) simp_all
    qed
  qed
qed

lemma pathLoop_suffix:
  "length ts < n \<Longrightarrow> pathLoop n p ts \<noteq> Inl NoFuel
    \<and> (\<forall>q ts'. pathLoop n p ts = Inr (q, ts') \<longrightarrow> suffix ts' ts)"
proof (induction n arbitrary: p ts)
  case (Suc n)
  let ?ts1 = "snd (nextTok ts)"
  consider "tkind (peek ts) = TDot" | "tkind (peek ts) = TLeftBracket"
    | "tkind (peek ts) \<noteq> TDot" "tkind (peek ts) \<noteq> TLeftBracket" by blast
  then show ?case
  proof cases
    case 1
    then have s1: "strict_suffix ?ts1 ts" by (intro snd_nextTok_strict) simp
    obtain t ts2 where t: "nextTok ?ts1 = (t, ts2)" by (cases "nextTok ?ts1")
    have s2: "strict_suffix ts2 ts" using suffix_nextTok [OF t] s1 by (rule strict_suffix_trans2)
    then have "length ts2 < n" using strict_suffix_length [OF s2] Suc.prems by simp
    note IH = Suc.IH [OF this]
    show ?thesis using 1 t IH strict_suffix_imp [OF s2]
      by (auto simp: rbind_eq_Inl rbind_eq_Inr intro: suffix_order.trans)
  next
    case 2
    then have s1: "strict_suffix ?ts1 ts" by (intro snd_nextTok_strict) simp
    show ?thesis
    proof (cases "matches TRightBracket ?ts1")
      case (Some ts2)
      have s2: "strict_suffix ts2 ts"
        using matches_strict [OF Some] s1 by (auto intro: strict_suffix_trans2 dest: strict_suffix_imp)
      then have "length ts2 < n" using strict_suffix_length [OF s2] Suc.prems by simp
      note IH = Suc.IH [OF this]
      show ?thesis using 2 Some IH strict_suffix_imp [OF s2] by (auto intro: suffix_order.trans)
    next
      case None
      note pb = consumingD [OF parseBracket_consuming [of "Suc (weight ?ts1)"], of ?ts1, simplified]
      have *: "length ts2 < n \<and> suffix ts2 ts" if "parseBracket ?ts1 = Inr (seg, ts2)" for seg ts2
      proof -
        have "strict_suffix ts2 ts" using pb(2) [OF that] s1 by (meson strict_suffix_trans2 strict_suffix_imp)
        then show ?thesis using strict_suffix_length [of ts2 ts] Suc.prems by (simp add: strict_suffix_imp)
      qed
      show ?thesis using 2 None pb(1) Suc.IH *
        by (auto simp: rbind_eq_Inl rbind_eq_Inr) (meson suffix_order.trans)
    qed
  qed simp
qed simp

lemma pathLoop_stay: "length ts < n \<Longrightarrow> stay ts (pathLoop n p ts)"
  using pathLoop_suffix [of ts n p] by (simp add: stay_def)

declare listLoop.simps(2) [simp del] binaryLoop.simps(2) [simp del] pathLoop.simps(2) [simp del]
  valueParser.simps(2) [simp del] statementLoop.simps(2) [simp del]

lemma parsePath_consuming: "consuming n parsePath"
  unfolding consuming_down
proof (intro allI impI)
  fix ts :: "token list"
  have "stay ts1 (pathLoop (Suc (length ts1)) p ts1)" for p ts1 by (rule pathLoop_stay) simp
  then show "down ts (parsePath ts)"
    unfolding parsePath_def
  proof (intro down_bind)
    fix t ts1
    obtain u ts2 where u: "nextTok ts1 = (u, ts2)" by (cases "nextTok ts1")
    have "stay ts1 (rbind (pathField u) (\<lambda>key. pathLoop (Suc (length ts2)) [Field key] ts2))"
      by (intro pure_bind stay_suffix [OF _ suffix_nextTok [OF u]] pathLoop_stay) simp_all
    then show "stay ts1 (if tkind (peek ts1) = TIdentifier \<or> tkind (peek ts1) = TString
       then case nextTok ts1 of (t, ts) \<Rightarrow> rbind (pathField t) (\<lambda>key. pathLoop (Suc (length ts)) [Field key] ts)
       else pathLoop (Suc (length ts1)) [] ts1)"
      by (simp add: u pathLoop_stay)
  qed (simp add: stay_expect)
qed

subsection \<open>Expressions\<close>

lemma consuming_weaken: "consuming n P \<Longrightarrow> m \<le> n \<Longrightarrow> consuming m P"
  by (simp add: consuming_def)

lemma downD: "consuming n P \<Longrightarrow> weight ts < n \<Longrightarrow> down ts (P ts)"
  by (simp add: consuming_down)

lemma parseUnion_consuming: "consuming n (pv low) \<Longrightarrow> consuming n (parseUnionExpression pv low)"
  unfolding consuming_down [of n "parseUnionExpression pv low"] parseUnionExpression_def
  by (intro allI impI down_bind downD [OF parseList_consuming]) simp_all

lemma inner_ends:
  assumes "\<And>low. consuming n (pv low)" "length src + 1 < n"
  shows "parseOverrideValueExpr pv src \<noteq> Inl NoFuel"
proof
  assume "parseOverrideValueExpr pv src = Inl NoFuel"
  then obtain ts where ts: "lexOverrideExpr src = Inr ts" "parseUnionExpression pv True ts = Inl NoFuel"
    by (auto simp: parseOverrideValueExpr_def rbind_eq_Inl split: if_splits)
  then have "weight ts < n" using lex_weight [of 0 src ts] assms(2) by (simp add: lexOverrideExpr_def)
  from consumingD(1) [OF parseUnion_consuming [OF assms(1)] this] ts(2) show False by simp
qed

lemma stringParts_ends:
  "(\<And>src. length src < length lit + length s \<Longrightarrow> inner src \<noteq> Inl NoFuel) \<Longrightarrow> stringParts inner lit s \<noteq> Inl NoFuel"
proof (induction inner lit s rule: stringParts.induct)
  case (3 inner lit c d s)
  consider "c \<noteq> backslash" | "c = backslash" "d \<noteq> CHR ''(''" | "c = backslash" "d = CHR ''(''" by blast
  then show ?case
  proof cases
    case 1
    then show ?thesis using "3.IH"(1) [OF 1] "3.prems" by (simp add: stringParts.simps(3))
  next
    case 2
    then show ?thesis using "3.IH"(2) "3.prems" by (simp add: stringParts.simps(3))
  next
    case b: 3
    show ?thesis
    proof
      assume "stringParts inner lit (c # d # s) = Inl NoFuel"
      then obtain literal e rest where l: "decodeOverrideString lit = Inr literal"
        and e: "findOverrideInterpolationEnd 0 s = Some (e, rest)"
        and cases: "inner (unescapeQuotes e) = Inl NoFuel \<or>
          (\<exists>x. inner (unescapeQuotes e) = Inr x \<and> stringParts inner [] rest = Inl NoFuel)"
        using b by (auto simp: stringParts.simps(3) rbind_eq_Inl split: option.splits)
      note short = findEnd_shorter [OF e] unescapeQuotes_length [of e]
      have "inner (unescapeQuotes e) \<noteq> Inl NoFuel" using short by (intro "3.prems") simp
      with cases obtain x where x: "inner (unescapeQuotes e) = Inr x" "stringParts inner [] rest = Inl NoFuel" by auto
      have "stringParts inner [] rest \<noteq> Inl NoFuel"
        using b l e x(1) short by (intro "3.IH"(3) [of literal "(e, rest)"] "3.prems") simp_all
      with x(2) show False by simp
    qed
  qed
qed simp_all

lemma parseString_ends:
  assumes "\<And>src. length src < length (ttext t) \<Longrightarrow> inner src \<noteq> Inl NoFuel"
  shows "parseString inner t \<noteq> Inl NoFuel"
  using stringParts_ends [of "[]" "ttext t" inner] assms
  by (auto simp: parseString_def rbind_eq_Inl split: if_splits)

lemma parseNumber_ends [simp]: "parseNumber lib t \<noteq> Inl NoFuel"
  by (auto simp: parseNumber_def Let_def split: option.splits)

lemma parseMapEntry_consuming: "(\<And>low. consuming n (pv low)) \<Longrightarrow> consuming n (parseMapEntry pv)"
  unfolding consuming_down [of n "parseMapEntry pv"]
proof (intro allI impI)
  fix ts :: "token list" assume pv: "\<And>low. consuming n (pv low)" and w: "weight ts < n"
  obtain k ts1 where k: "nextTok ts = (k, ts1)" by (cases "nextTok ts")
  have w1: "weight ts1 \<le> weight ts" by (rule weight_suffix [OF suffix_nextTok [OF k]])
  have "down ts1 (rbind (expect TColon ''expected colon after map key'' ts1) (\<lambda>(_, ts).
      rbind (as_syntax (decodeOverrideString (ttext k))) (\<lambda>key. rbind (pv True ts) (\<lambda>(v, ts). Inr ((key, v), ts)))))"
  proof (intro down_bind stay_expect)
    fix u ts2 assume "strict_suffix ts2 ts1"
    then have "weight ts2 < n" using weight_strict_suffix [of ts2 ts1] w w1 by simp
    then show "stay ts2 (rbind (as_syntax (decodeOverrideString (ttext k))) (\<lambda>key. rbind (pv True ts2) (\<lambda>(v, ts). Inr ((key, v), ts))))"
      by (intro pure_bind(1) stay_bind down_stay [OF downD [OF pv]]) simp_all
  qed simp
  then show "down ts (parseMapEntry pv ts)"
    unfolding parseMapEntry_def by (simp add: k down_suffix [OF _ suffix_nextTok [OF k]])
qed

lemma bracketed_stay:
  assumes "consuming n item" "weight ts < n" "TEOF \<notin> set seps" "k \<noteq> TEOF"
  shows "stay ts (rbind (parseList item seps ts) (\<lambda>(xs, ts). rbind (expect k m ts) (\<lambda>(_, ts). Inr (f xs, ts))))"
  by (intro stay_bind down_stay [OF downD [OF parseList_consuming [OF assms(1,3)] assms(2)]] down_stay [OF stay_expect])
    (simp_all add: assms(4))

lemma parseArguments_stay:
  assumes "\<And>low. consuming n (pv low)" "weight ts < n"
  shows "stay ts (parseArguments pv ts)"
  unfolding parseArguments_def
proof (rule stay_option)
  fix ts1 assume 1: "matches TLeftParen ts = Some ts1"
  have s1: "strict_suffix ts1 ts" using matches_strict [OF 1] by simp
  then have w1: "weight ts1 < n" using weight_strict_suffix [OF s1] assms(2) by simp
  have "stay ts1 (rbind (parseList (pv True) [TComma, TSemicolon] ts1) (\<lambda>(args, ts).
        rbind (expect TRightParen ''expected parenthesis after function arguments'' ts) (\<lambda>(_, ts). Inr (args, ts))))"
    by (rule bracketed_stay [OF assms(1) w1, where f = "\<lambda>x. x"]) simp_all
  then show "stay ts (case matches TRightParen ts1 of None \<Rightarrow>
      rbind (parseList (pv True) [TComma, TSemicolon] ts1) (\<lambda>(args, ts).
        rbind (expect TRightParen ''expected parenthesis after function arguments'' ts) (\<lambda>(_, ts). Inr (args, ts)))
    | Some ts \<Rightarrow> Inr ([], ts))"
    by (intro stay_suffix [OF stay_option strict_suffix_imp [OF s1]])
      (simp_all add: strict_suffix_imp [OF matches_strict])
qed simp

lemma parseIdentifier_stay:
  assumes "\<And>low. consuming n (pv low)" "weight ts < n"
  shows "stay ts (parseIdentifier pv t ts)"
  unfolding parseIdentifier_def
  by (split if_split, intro conjI impI stay_bind parseArguments_stay [OF assms] stay_Inr(1) [THEN iffD2] suffix_order.refl)+
    simp_all

lemma parsePrimary_consuming:
  assumes pv: "\<And>low. consuming n (pv low)"
  shows "consuming (Suc n) (parsePrimary lib pv)"
  unfolding consuming_down
proof (intro allI impI)
  fix ts :: "token list" assume w: "weight ts < Suc n"
  obtain t ts1 where t: "nextTok ts = (t, ts1)" by (cases "nextTok ts")
  show "down ts (parsePrimary lib pv ts)"
  proof (cases "tkind t = TEOF")
    case True
    then show ?thesis by (simp add: parsePrimary_def t)
  next
    case False
    have s1: "strict_suffix ts1 ts" by (rule strict_nextTok [OF t False])
    then have w1: "weight ts1 < n" using weight_strict_suffix w by fastforce
    have short: "length (ttext t) < n" if "tkind t = TString"
    proof -
      from False t have "ts = t # ts1" by (cases ts) (auto simp: nextTok_def peek_def Let_def)
      then show ?thesis using w that by simp
    qed
    have str: "parseString (parseOverrideValueExpr pv) t \<noteq> Inl NoFuel" if "tkind t = TString"
      using short [OF that] by (intro parseString_ends inner_ends [OF pv]) simp
    have brack: "stay ts1 (rbind (parseList (pv True) [TComma] ts1) (\<lambda>(vs, ts).
        rbind (expect TRightBracket ''expected bracket after array'' ts) (\<lambda>(_, ts). Inr (EArray vs, ts))))"
      and brace: "stay ts1 (rbind (parseList (parseMapEntry pv) [TComma] ts1) (\<lambda>(es, ts).
        rbind (expect TRightBrace ''expected brace after map'' ts) (\<lambda>(_, ts). Inr (EMap es, ts))))"
      by (rule bracketed_stay [OF _ w1]; simp add: pv parseMapEntry_consuming)+
    have paren: "stay ts1 (rbind (parseUnionExpression pv True ts1) (\<lambda>(e, ts).
        rbind (expect TRightParen ''expected parenthesis'' ts) (\<lambda>(_, ts). Inr (e, ts))))"
      by (intro stay_bind down_stay [OF downD [OF parseUnion_consuming [OF pv] w1]] down_stay [OF stay_expect]) simp_all
    have "down ts (rbind (parsePath ts) (\<lambda>(p, ts). Inr (EPath p, ts)))"
      by (intro down_bind downD [OF parsePath_consuming, of _ "Suc n"] w) simp
    moreover have "stay ts1 (parseIdentifier pv t ts1)" by (rule parseIdentifier_stay [OF pv w1])
    moreover have "stay ts1 (rbind (parseNumber lib t) (\<lambda>e. Inr (e, ts1)))"
      by (intro pure_bind) simp_all
    moreover have "tkind t = TString \<Longrightarrow> stay ts1 (rbind (parseString (parseOverrideValueExpr pv) t) (\<lambda>e. Inr (e, ts1)))"
      using str by (intro pure_bind) simp_all
    moreover have "stay ts1 (case matches k ts1 of None \<Rightarrow> r | Some ts \<Rightarrow> Inr (x, ts))"
      if "stay ts1 r" "k \<noteq> TEOF" for r k and x :: "'a expr"
      using that matches_strict by (auto intro: strict_suffix_imp split: option.split)
    ultimately show ?thesis
      using brack brace paren
      by (cases "tkind t = TDot")
        (simp add: parsePrimary_def t, auto simp: parsePrimary_def t intro!: stay_strict [OF _ s1] split: token_kind.split)
  qed
qed

lemma parseUnary_consuming:
  assumes pv: "\<And>low. consuming n (pv low)"
  shows "consuming (Suc n) (parseUnary lib pv)"
  unfolding consuming_down
proof (intro allI impI)
  fix ts :: "token list" assume w: "weight ts < Suc n"
  obtain t ts1 where t: "nextTok (snd (nextTok ts)) = (t, ts1)" by (cases "nextTok (snd (nextTok ts))")
  show "down ts (parseUnary lib pv ts)"
  proof (cases "tkind (peek ts) = TMinus")
    case True
    then have "strict_suffix (snd (nextTok ts)) ts" by (intro snd_nextTok_strict) simp
    then have s: "strict_suffix ts1 ts" using suffix_nextTok [OF t] by (rule strict_suffix_trans2 [rotated])
    have "stay ts1 (rbind (parseNumber lib (t\<lparr>ttext := ''-'' @ ttext t\<rparr>)) (\<lambda>e. Inr (e, ts1)))"
      by (intro pure_bind) simp_all
    then show ?thesis using True by (auto simp: parseUnary_def t intro!: stay_strict [OF _ s])
  next
    case False
    then show ?thesis using downD [OF parsePrimary_consuming [OF pv] w] by (simp add: parseUnary_def)
  qed
qed

lemma kindOp_not_EOF: "TEOF \<notin> set ks \<Longrightarrow> kindOp ks ts = Some name \<Longrightarrow> tkind (peek ts) \<noteq> TEOF"
  by (auto simp: kindOp_def split: if_splits)

lemma identOp_not_EOF: "identOp v ts = Some name \<Longrightarrow> tkind (peek ts) \<noteq> TEOF"
  by (auto simp: identOp_def peekIdentifier_def split: if_splits)

lemma levels_consuming:
  assumes pv: "\<And>low. consuming n (pv low)"
  shows "consuming (Suc n) (parseAlternative lib pv)" "consuming (Suc n) (parseOr lib pv)"
proof -
  have "consuming (Suc n) (parseMultiplicative lib pv)"
    unfolding parseMultiplicative_def
    by (intro binaryLevel_consuming parseUnary_consuming pv) (rule kindOp_not_EOF, simp_all)
  then have "consuming (Suc n) (parseAdditive lib pv)"
    unfolding parseAdditive_def by (intro binaryLevel_consuming) (assumption, rule kindOp_not_EOF, simp_all)
  then have "consuming (Suc n) (parseComparison lib pv)"
    unfolding parseComparison_def by (intro binaryLevel_consuming) (assumption, rule kindOp_not_EOF, simp_all)
  then show alt: "consuming (Suc n) (parseAlternative lib pv)"
    unfolding parseAlternative_def by (intro binaryLevel_consuming) (assumption, auto split: if_splits)
  then have "consuming (Suc n) (parseAnd lib pv)"
    unfolding parseAnd_def by (intro binaryLevel_consuming) (assumption, rule identOp_not_EOF)
  then show "consuming (Suc n) (parseOr lib pv)"
    unfolding parseOr_def by (intro binaryLevel_consuming) (assumption, rule identOp_not_EOF)
qed

lemma parseValueUpdate_down:
  assumes pv: "\<And>low. consuming n (pv low)" and w: "weight ts < Suc n"
    and r: "parseValueUpdateExpression pv ts = Some r"
  shows "down ts r"
proof -
  from r obtain p ts1 where p: "parsePath ts = Inr (p, ts1)"
    and op: "isOverrideAssignmentToken (tkind (peek ts1))"
    and r': "r = (case nextTok ts1 of (op, ts) \<Rightarrow> rbind (pv False ts) (\<lambda>(v, ts). Inr (EUpdate p (tkind op) v, ts)))"
    by (auto simp: parseValueUpdateExpression_def split: if_splits sum.splits prod.splits)
  have s1: "strict_suffix ts1 ts" using consumingD(2) [OF parsePath_consuming w p] .
  obtain u ts2 where u: "nextTok ts1 = (u, ts2)" by (cases "nextTok ts1")
  have s2: "strict_suffix ts2 ts" by (rule strict_suffix_trans2 [OF suffix_nextTok [OF u] s1])
  then have "weight ts2 < n" using weight_strict_suffix w by fastforce
  then have "stay ts2 r"
    unfolding r' u prod.case by (intro stay_bind down_stay [OF downD [OF pv]]) simp_all
  then show ?thesis using s2 by (rule stay_strict)
qed

lemma parseStage_consuming:
  assumes pv: "\<And>low. consuming n (pv low)"
  shows "consuming (Suc n) (parseStage lib pv low)"
  unfolding consuming_down parseStage_def
  using parseValueUpdate_down [OF pv] downD [OF levels_consuming(1) [OF pv]] downD [OF levels_consuming(2) [OF pv]]
  by (auto split: option.split)

lemma parseValue_consuming:
  assumes pv: "\<And>low. consuming n (pv low)"
  shows "consuming (Suc n) (parseValue lib pv low)"
proof -
  have "consuming (Suc n) (parseList (parseStage lib pv True) [TPipe])"
    by (intro parseList_consuming parseStage_consuming pv) simp
  then show ?thesis
    using parseStage_consuming [OF pv]
    unfolding consuming_down parseValue_def by (auto intro!: down_bind)
qed

lemma valueParser_consuming: "consuming n (valueParser lib n low)"
proof (induction n arbitrary: low)
  case 0
  show ?case by (simp add: consuming_def)
next
  case (Suc n)
  have "valueParser lib (Suc n) low = parseValue lib (valueParser lib n) low"
    by (rule ext) (simp add: valueParser.simps(2))
  then show ?case using parseValue_consuming [OF Suc.IH] by simp
qed

subsection \<open>Statements\<close>

lemma expect_then:
  assumes "k \<noteq> TEOF" "weight ts < n" "\<And>ts'. weight ts' < n \<Longrightarrow> stay ts' (f ts')"
  shows "down ts (rbind (expect k m ts) (\<lambda>(_, ts). f ts))"
proof (intro down_bind stay_expect assms(1))
  fix u ts' assume "strict_suffix ts' ts"
  then show "stay ts' (f ts')" using assms(2) weight_strict_suffix by (intro assms(3)) fastforce
qed

lemma stay_step:
  assumes "down ts r" "weight ts < n" "\<And>x ts'. weight ts' < n \<Longrightarrow> stay ts' (f x ts')"
  shows "down ts (rbind r (\<lambda>(x, ts). f x ts))"
proof (intro down_bind assms(1))
  fix x ts' assume "strict_suffix ts' ts"
  then show "stay ts' (f x ts')" using assms(2) weight_strict_suffix by (intro assms(3)) fastforce
qed

lemma parseTargetStage_consuming:
  assumes pv: "\<And>low. consuming n (pv low)"
  shows "consuming n (parseTargetStage pv)"
  unfolding consuming_down
proof (intro allI impI)
  fix ts :: "token list" assume w: "weight ts < n"
  let ?ts1 = "snd (nextTok ts)"
  have w1: "weight ?ts1 < n" using weight_suffix [OF suffix_snd_nextTok] w le_less_trans by blast
  have "down ?ts1 (rbind (expect TLeftParen ''expected parenthesis after select'' ?ts1) (\<lambda>(_, ts).
        rbind (pv True ts) (\<lambda>(condition, ts).
        rbind (expect TRightParen ''expected parenthesis after select condition'' ts) (\<lambda>(_, ts).
        Inr (SCondition condition, ts)))))"
    by (intro expect_then [OF _ w1] down_stay [OF stay_step [OF downD [OF pv]]] down_stay [OF expect_then]) simp_all
  moreover have "down ts (rbind (parsePath ts) (\<lambda>(p, ts). Inr (SPath p, ts)) :: 'a stage parse)"
    by (intro down_bind downD [OF parsePath_consuming w]) simp
  ultimately show "down ts (parseTargetStage pv ts)"
    by (simp add: parseTargetStage_def down_suffix [OF _ suffix_snd_nextTok])
qed

lemma parseAssignmentTarget_consuming:
  assumes pv: "\<And>low. consuming n (pv low)"
  shows "consuming n (parseAssignmentTarget pv)"
  unfolding consuming_down parseAssignmentTarget_def
  by (intro allI impI expect_then down_stay [OF stay_step]
      downD [OF parseList_consuming [OF parseTargetStage_consuming [OF pv]]]) (simp_all add: stay_expect)

lemma parseDelete_down: "weight ts < n \<Longrightarrow> down ts (parseDelete ts)"
  unfolding parseDelete_def
  by (intro expect_then down_stay [OF stay_step] downD [OF parseList_consuming [OF parsePath_consuming]]) (simp_all add: stay_expect)

lemma parseStatement_consuming:
  assumes pv: "\<And>low. consuming n (pv low)"
  shows "consuming n (parseStatement pv)"
  unfolding consuming_down
proof (intro allI impI)
  fix ts :: "token list" assume w: "weight ts < n"
  have "weight (snd (nextTok ts)) < n"
    using weight_suffix [OF suffix_snd_nextTok] w le_less_trans by blast
  then have del: "down ts (parseDelete (snd (nextTok ts)) :: 'a statement parse)"
    by (rule down_suffix [OF parseDelete_down suffix_snd_nextTok])
  have filt: "down ts (rbind (parseUnionExpression pv True ts) (\<lambda>(e, ts). Inr (Filter e, ts)))"
    by (intro down_bind downD [OF parseUnion_consuming [OF pv] w]) simp
  have rest: "stay ts1 (case nextTok ts1 of (op, ts) \<Rightarrow>
          if \<not> isOverrideAssignmentToken (tkind op)
          then Inl (Syntax ''expected assignment operator after path'')
          else rbind (pv False ts) (\<lambda>(v, ts). Inr (Assign p target (tkind op) v, ts)))"
    if w1: "weight ts1 < n" for ts1 p target
  proof -
    obtain u ts2 where u: "nextTok ts1 = (u, ts2)" by (cases "nextTok ts1")
    have "weight ts2 < n" using weight_suffix [OF suffix_nextTok [OF u]] w1 by simp
    then have "down ts2 (rbind (pv False ts2) (\<lambda>(v, ts). Inr (Assign p target (tkind u) v, ts)))"
      by (intro down_bind downD [OF pv]) simp_all
    then show ?thesis by (simp add: u stay_suffix [OF down_stay suffix_nextTok [OF u]])
  qed
  have target: "down ts (if tkind (peek ts) = TLeftParen
               then rbind (parseAssignmentTarget pv ts) (\<lambda>(t, ts). Inr (([], Some t), ts))
               else rbind (parsePath ts) (\<lambda>(p, ts). Inr ((p, None), ts)))"
    by (split if_split, intro conjI impI down_bind downD [OF parseAssignmentTarget_consuming [OF pv] w]
        downD [OF parsePath_consuming w]) simp_all
  have "down ts (rbind (if tkind (peek ts) = TLeftParen
               then rbind (parseAssignmentTarget pv ts) (\<lambda>(t, ts). Inr (([], Some t), ts))
               else rbind (parsePath ts) (\<lambda>(p, ts). Inr ((p, None), ts))) (\<lambda>((p, target), ts).
        case nextTok ts of (op, ts) \<Rightarrow>
          if \<not> isOverrideAssignmentToken (tkind op)
          then Inl (Syntax ''expected assignment operator after path'')
          else rbind (pv False ts) (\<lambda>(v, ts). Inr (Assign p target (tkind op) v, ts))))"
    by (rule stay_step [OF target w]) (simp add: rest split: prod.split)
  then show "down ts (parseStatement pv ts)"
    using del filt by (simp add: parseStatement_def)
qed

lemma statementLoop_ends:
  assumes pv: "\<And>low. consuming n (pv low)"
  shows "weight ts < n \<Longrightarrow> length ts < m \<Longrightarrow> statementLoop m pv ts \<noteq> Inl NoFuel"
proof (induction m arbitrary: ts)
  case (Suc m)
  note st = consumingD [OF parseStatement_consuming [OF pv] Suc.prems(1)]
  have "statementLoop m pv ts2 \<noteq> Inl NoFuel"
    if s: "parseStatement pv ts = Inr (s, ts1)" and m: "matches TPipe ts1 = Some ts2" for s ts1 ts2
  proof -
    have "strict_suffix ts2 ts1" by (rule matches_strict [OF m]) simp
    then have "strict_suffix ts2 ts" using st(2) [OF s] by (meson strict_suffix_trans2 strict_suffix_imp)
    then show ?thesis
      using weight_strict_suffix strict_suffix_length Suc.prems by (intro Suc.IH) fastforce+
  qed
  then show ?case
    using st(1) by (auto simp: statementLoop.simps(2) rbind_eq_Inl split: option.splits if_splits)
qed simp

text \<open>
  C26: parsing an override expression always comes to an end, whatever the source: the bound that
  the model puts on the nesting is never reached.
\<close>

theorem override_parser_terminates: "newOverrideExpr lib src \<noteq> Inl NoFuel"
proof -
  have "parseStatements (valueParser lib (parse_fuel src)) ts \<noteq> Inl NoFuel"
    if "lexOverrideExpr src = Inr ts" for ts
  proof -
    have "weight ts < parse_fuel src"
      using lex_weight [of 0 src ts] that by (simp add: lexOverrideExpr_def parse_fuel_def)
    from statementLoop_ends [OF valueParser_consuming [of "parse_fuel src" lib] this, of "Suc (length ts)"]
    show ?thesis by (auto simp: parseStatements_def rbind_eq_Inl split: if_splits)
  qed
  then show ?thesis by (auto simp: newOverrideExpr_def rbind_eq_Inl)
qed

end
