(* ===== verification/ExprPrint.thy ===== *)
theory ExprPrint
  imports ExprApply ExprParseSpec
begin

text \<open>
  Writing values as source: the tokens that spell a value, the text that spells a list of tokens, and
  the lemma that the lexer reads the tokens back.
\<close>

subsection \<open>Escaping and digits\<close>

fun escape :: "string \<Rightarrow> string" where
  "escape [] = []"
| "escape (c # s) =
     (if c = dquote then [backslash, dquote] else if c = newline then [backslash, CHR ''n'']
      else if c = backslash then [backslash, backslash] else [c]) @ escape s"

lemma scan_escape: "scanOverrideString (escape x @ dquote # s) = Some (escape x, s)"
  by (induction x) auto

lemma decode_escape: "decodeOverrideString (escape x) = Inr x"
  by (induction x) auto

lemma takeWhile_all: "\<forall>c\<in>set s. P c \<Longrightarrow> \<not> P d \<Longrightarrow> takeWhile P (s @ d # t) = s"
  by (induction s) auto

lemma scan_showNat: "scanOverrideNumber (showNat n @ CHR '' '' # s) = length (showNat n)"
proof -
  have tw: "takeWhile isDigit (showNat n @ CHR '' '' # s) = showNat n"
    by (rule takeWhile_all [OF showNat_digits]) (simp add: isDigit_def)
  have "(showNat n @ CHR '' '' # s) ! 1 \<notin> {CHR ''x'', CHR ''X''}"
  proof (cases "showNat n")
    case (Cons c cs)
    then show ?thesis using showNat_digits [of n] digit_chars by (cases cs) auto
  qed (simp add: showNat_nonempty)
  then show ?thesis using tw by (simp add: scanOverrideNumber_def Let_def)
qed

subsection \<open>Tokens and their text\<close>

type_synonym sign = "token_kind \<times> string"

abbreviation strip :: "token \<Rightarrow> sign" where "strip t \<equiv> (tkind t, ttext t)"

definition showToken :: "sign \<Rightarrow> string" where
  "showToken t = (if fst t = TString then dquote # snd t @ [dquote] else snd t) @ '' ''"

definition showTokens :: "sign list \<Rightarrow> string" where
  "showTokens ts = concat (map showToken ts)"

text \<open>The tokens that the printed sources are made of.\<close>

definition punctuation :: "sign list" where
  "punctuation = [(TDot, ''.''), (TAssign, ''=''), (TMinus, ''-''), (TLeftBracket, ''[''), (TRightBracket, '']''),
     (TLeftBrace, ''{''), (TRightBrace, ''}''), (TComma, '',''), (TColon, '':''), (TIdentifier, ''null''),
     (TIdentifier, ''true''), (TIdentifier, ''false'')]"

definition printable :: "sign \<Rightarrow> bool" where
  "printable t \<longleftrightarrow> t \<in> set punctuation \<or> (\<exists>x. t = (TString, escape x)) \<or> (\<exists>n. t = (TNumber, showNat n))"

lemma lex_space: "lexFrom pos (CHR '' '' # s) = lexFrom (pos + 1) s"
  by (simp add: lexFrom.simps(2) isSpace_def)

lemma lexOperator_digit: "isDigit c \<Longrightarrow> lexOperator c a = None"
proof -
  assume "isDigit c"
  then have "c \<notin> {CHR ''.'', CHR ''('', CHR '')'', CHR ''['', CHR '']'', CHR ''{'', CHR ''}'', CHR '','', CHR '';'', CHR '':'',
    CHR ''|'', CHR ''+'', CHR ''-'', CHR ''*'', CHR ''/'', CHR ''%'', CHR ''='', CHR ''!'', CHR ''<'', CHR ''>'', CHR ''~''}"
    by (auto simp: isDigit_def)
  then show ?thesis by (simp add: lexOperator_def Let_def)
qed

lemma lex_string:
  "lexFrom pos (dquote # escape x @ dquote # s) =
     rbind (lexFrom (pos + length (escape x) + 2) s) (\<lambda>ts. Inr (token_of TString (escape x) pos # ts))"
  by (simp add: lexFrom.simps(2) isSpace_def lexOperator_def Let_def scan_escape)

lemma lex_number:
  "lexFrom pos (showNat n @ CHR '' '' # s) =
     rbind (lexFrom (pos + length (showNat n)) (CHR '' '' # s)) (\<lambda>ts. Inr (token_of TNumber (showNat n) pos # ts))"
proof -
  obtain c cs where c: "showNat n = c # cs" using showNat_nonempty [of n] by (cases "showNat n") auto
  then have "isDigit c" using showNat_digits [of n] by simp
  moreover from this have "\<not> isSpace c" "c \<noteq> CHR ''#''" "c \<noteq> dquote" by (auto simp: isSpace_def isDigit_def)
  ultimately show ?thesis
    using scan_showNat [of n s] by (simp add: c lexFrom.simps(2) lexOperator_digit Let_def)
qed

lemma lex_punctuation:
  "t \<in> set punctuation \<Longrightarrow>
     lexFrom pos (snd t @ CHR '' '' # s) =
       rbind (lexFrom (pos + length (snd t)) (CHR '' '' # s)) (\<lambda>ts. Inr (token_of (fst t) (snd t) pos # ts))"
  by (auto simp: punctuation_def lexFrom.simps(2) isSpace_def lexOperator_def nextChar_def isDigit_def
      isOverrideIdentifierStart_def isOverrideIdentifierPart_def isLetter_def Let_def)

lemma lex_token:
  assumes "printable t"
  shows "\<exists>p. lexFrom pos (showToken t @ s) = rbind (lexFrom p s) (\<lambda>ts. Inr (token_of (fst t) (snd t) pos # ts))"
proof -
  consider "t \<in> set punctuation" | x where "t = (TString, escape x)" | n where "t = (TNumber, showNat n)"
    using assms by (auto simp: printable_def)
  then show ?thesis
  proof cases
    case 1
    then have "fst t \<noteq> TString" by (auto simp: punctuation_def)
    then show ?thesis using lex_punctuation [OF 1, of pos s] by (auto simp: showToken_def lex_space)
  qed (auto simp: showToken_def lex_string lex_number lex_space)
qed

lemma lex_tokens:
  "\<forall>t\<in>set ts. printable t \<Longrightarrow>
     \<exists>us. lexFrom pos (showTokens ts) = Inr us \<and> map strip us = ts @ [(TEOF, [])]"
proof (induction ts arbitrary: pos)
  case (Cons t ts)
  obtain p where p: "lexFrom pos (showToken t @ showTokens ts) =
    rbind (lexFrom p (showTokens ts)) (\<lambda>us. Inr (token_of (fst t) (snd t) pos # us))"
    using lex_token [of t pos "showTokens ts"] Cons.prems by auto
  obtain us where "lexFrom p (showTokens ts) = Inr us" "map strip us = ts @ [(TEOF, [])]"
    using Cons.IH [of p] Cons.prems by auto
  then show ?case using p by (simp add: showTokens_def)
qed (simp add: showTokens_def)

subsection \<open>Values\<close>

text \<open>The values that have a literal: no floats, no other integer types than \<^verbatim>\<open>int\<close>.\<close>

fun plain :: "'f val \<Rightarrow> bool"
and plainItems :: "'f val list \<Rightarrow> bool"
and plainEntries :: "(string \<times> 'f val) list \<Rightarrow> bool" where
  "plain (VInt k n) \<longleftrightarrow> k = KInt \<and> - (2 ^ 63) \<le> n \<and> n < 2 ^ 63"
| "plain (VFloat k x) \<longleftrightarrow> False"
| "plain VNoMatch \<longleftrightarrow> False"
| "plain (VList vs) \<longleftrightarrow> plainItems vs"
| "plain (VMap m) \<longleftrightarrow> sorted_map m \<and> plainEntries m"
| "plain v \<longleftrightarrow> True"
| "plainItems [] \<longleftrightarrow> True"
| "plainItems (v # vs) \<longleftrightarrow> plain v \<and> plainItems vs"
| "plainEntries [] \<longleftrightarrow> True"
| "plainEntries ((k, v) # m) \<longleftrightarrow> plain v \<and> plainEntries m"

fun valueTokens :: "'f val \<Rightarrow> sign list"
and itemTokens :: "'f val list \<Rightarrow> sign list"
and entryTokens :: "(string \<times> 'f val) list \<Rightarrow> sign list" where
  "valueTokens VNull = [(TIdentifier, ''null'')]"
| "valueTokens (VBool b) = [(TIdentifier, if b then ''true'' else ''false'')]"
| "valueTokens (VStr s) = [(TString, escape s)]"
| "valueTokens (VInt k n) =
     (if n < 0 then [(TMinus, ''-''), (TNumber, showNat (nat (- n)))] else [(TNumber, showNat (nat n))])"
| "valueTokens (VList []) = [(TLeftBracket, ''[''), (TRightBracket, '']'')]"
| "valueTokens (VList (v # vs)) =
     (TLeftBracket, ''['') # valueTokens v @ itemTokens vs @ [(TRightBracket, '']'')]"
| "valueTokens (VMap []) = [(TLeftBrace, ''{''), (TRightBrace, ''}'')]"
| "valueTokens (VMap ((k, v) # m)) =
     (TLeftBrace, ''{'') # (TString, escape k) # (TColon, '':'') # valueTokens v @ entryTokens m @ [(TRightBrace, ''}'')]"
| "valueTokens v = []"
| "itemTokens [] = []"
| "itemTokens (v # vs) = (TComma, '','') # valueTokens v @ itemTokens vs"
| "entryTokens [] = []"
| "entryTokens ((k, v) # m) =
     (TComma, '','') # (TString, escape k) # (TColon, '':'') # valueTokens v @ entryTokens m"

fun valueExpr :: "'f val \<Rightarrow> 'f expr"
and itemExprs :: "'f val list \<Rightarrow> 'f expr list"
and entryExprs :: "(string \<times> 'f val) list \<Rightarrow> (string \<times> 'f expr) list" where
  "valueExpr (VList vs) = EArray (itemExprs vs)"
| "valueExpr (VMap m) = EMap (entryExprs m)"
| "valueExpr v = ELiteral v"
| "itemExprs [] = []"
| "itemExprs (v # vs) = valueExpr v # itemExprs vs"
| "entryExprs [] = []"
| "entryExprs ((k, v) # m) = (k, valueExpr v) # entryExprs m"

lemma printable_simps [simp]:
  "printable (TString, escape x)" "printable (TNumber, showNat n)" "printable (TMinus, ''-'')"
  "printable (TLeftBracket, ''['')" "printable (TRightBracket, '']'')" "printable (TLeftBrace, ''{'')"
  "printable (TRightBrace, ''}'')" "printable (TComma, '','')" "printable (TColon, '':'')"
  "printable (TIdentifier, ''null'')" "printable (TIdentifier, ''true'')" "printable (TIdentifier, ''false'')"
  "printable (TDot, ''.'')" "printable (TAssign, ''='')"
  by (auto simp: printable_def punctuation_def)

lemma printable_values:
  fixes v :: "'f val" and vs :: "'f val list" and m :: "(string \<times> 'f val) list"
  shows "\<forall>t\<in>set (valueTokens v). printable t" "\<forall>t\<in>set (itemTokens vs). printable t"
    "\<forall>t\<in>set (entryTokens m). printable t"
  by (induction v and vs and m rule: valueTokens_itemTokens_entryTokens.induct)
    (simp_all add: ball_Un)

subsection \<open>Evaluation of the literals\<close>

lemma mput_last: "\<forall>k'\<in>set (mkeys m). k' < k \<Longrightarrow> mput k v m = m @ [(k, v)]"
  by (induction k v m rule: mput.induct) (auto simp: mkeys_def)

lemma eval_values:
  fixes v :: "'f val" and vs :: "'f val list" and m :: "(string \<times> 'f val) list"
  shows "plain v \<Longrightarrow> evalStream lib (valueExpr v) input = Inr [v]"
    "plainItems vs \<Longrightarrow> evalList lib (itemExprs vs) input = Inr vs"
    "plainEntries m \<Longrightarrow> (\<forall>n. sorted_map m \<longrightarrow> (\<forall>k\<in>set (mkeys n). \<forall>k'\<in>set (mkeys m). k < k')
       \<longrightarrow> evalEntries lib (entryExprs m) n input = Inr (n @ m))"
proof (induction v and vs and m rule: valueExpr_itemExprs_entryExprs.induct)
  case (7 k v m)
  then show ?case by (auto simp: mput_last mkeys_def)
qed (simp_all add: asStream_def isOverrideNoMatch_def mkeys_def)

end
