(* ===== verification/ExprApplySpec.thy ===== *)
theory ExprApplySpec
  imports ExprApply ExprValueSpec "HOL-Library.Sublist"
begin

text \<open>What the statements leave alone, and what a deletion removes.\<close>

abbreviation fieldLookup :: "string list \<Rightarrow> 'f val \<Rightarrow> 'f val list" where
  "fieldLookup ks v \<equiv> lookupOverridePathStream (map Field ks) v"

lemma mindex_mput [simp]: "mindex (mput k v m) k' = (if k' = k then v else mindex m k')"
  by (simp add: mindex_def)

lemma mindex_simps [simp]: "mindex [] k = VNull" "mindex ((k', v) # m) k = (if k = k' then v else mindex m k)"
  by (simp_all add: mindex_def mget_def)

lemma lookup_Null [simp]: "fieldLookup ks VNull = [VNull]"
  by (cases ks) simp_all

subsection \<open>Assignments\<close>

lemma parallel_Cons: "parallel (j # js) (k # ks) \<longleftrightarrow> j \<noteq> k \<or> parallel js ks"
  by (auto simp: parallel_def)

lemma parallel_Nil: "\<not> parallel [] ks" "\<not> parallel ks []"
  by (auto simp: parallel_def)



subsection \<open>Deletions\<close>

lemma mindex_deleteEntries:
  "mindex (deleteEntries m paths) k =
    (case tailsFor (matchesKey k) paths of
       None \<Rightarrow> VNull
     | Some tails \<Rightarrow> if tails = [] then mindex m k else deleteOverridePaths (mindex m k) tails)"
proof (induction m)
  case Nil
  then show ?case by (simp split: option.split)
next
  case (Cons e m)
  obtain k' v where e: "e = (k', v)" by fastforce
  show ?case
  proof (cases "k = k'")
    case True
    show ?thesis using Cons.IH by (auto simp: e True split: option.split)
  next
    case False
    then show ?thesis using Cons.IH by (simp add: e split: option.split)
  qed
qed

lemma tails_hit:
  assumes "Field k # p \<in> set paths" "tailsFor (matchesKey k) paths = Some tails"
  shows "p \<noteq> []" "p \<in> set tails"
proof -
  let ?hit = "filter (\<lambda>p. p \<noteq> [] \<and> matchesKey k (hd p)) paths"
  have "Field k # p \<in> set ?hit" using assms(1) by (simp add: matchesKey_def)
  moreover have "tails = map tl ?hit" "\<not> list_ex (\<lambda>p. length p = 1) ?hit"
    using assms(2) by (auto simp: tailsFor_def Let_def split: if_splits)
  ultimately show "p \<in> set tails" "p \<noteq> []" by (force simp: list_ex_iff)+
qed

lemma deleted_lookup:
  "map Field ds \<in> set paths \<Longrightarrow> ds \<noteq> [] \<Longrightarrow> prefix ds ks \<Longrightarrow> fieldLookup ks (deleteOverridePaths v paths) = [VNull]"
proof (induction ds arbitrary: paths ks v)
  case (Cons d ds)
  obtain ks' where ks: "ks = d # ks'" "prefix ds ks'" using Cons.prems(3) by (cases ks) auto
  show ?case
  proof (cases v)
    case (VMap m)
    show ?thesis
    proof (cases "tailsFor (matchesKey d) paths")
      case (Some tails)
      with tails_hit [of d "map Field ds" paths tails] Cons.prems(1)
      have tails: "map Field ds \<in> set tails" "ds \<noteq> []" "tails \<noteq> []" by auto
      from Cons.IH [OF tails(1,2) ks(2)] tails(3) show ?thesis
        by (simp add: VMap ks(1) mindex_deleteEntries Some)
    qed (simp add: VMap ks(1) mindex_deleteEntries)
  qed (simp_all add: ks(1))
qed simp

lemma kept_lookup:
  "\<forall>p\<in>set paths. \<exists>ds. p = map Field ds \<and> parallel ds ks \<Longrightarrow>
     fieldLookup ks (deleteOverridePaths v paths) = fieldLookup ks v"
proof (induction ks arbitrary: paths v)
  case Nil
  then have "paths = []" by (cases paths) (auto simp: parallel_Nil)
  have "deleteEntries m [] = m" for m :: "(string \<times> 'a val) list" by (induction m) (auto simp: tailsFor_def)
  moreover have "deleteItems l j vs [] = vs" for l j and vs :: "'a val list"
    by (induction vs arbitrary: j) (auto simp: tailsFor_def)
  ultimately show ?case by (cases v) (simp_all add: \<open>paths = []\<close>)
next
  case (Cons k ks)
  let ?hit = "filter (\<lambda>p. p \<noteq> [] \<and> matchesKey k (hd p)) paths"
  have tl: "\<exists>ds. p = Field k # map Field ds \<and> parallel ds ks" if hit: "p \<in> set ?hit" for p
  proof -
    from hit Cons.prems obtain ds where ds: "p = map Field ds" "parallel ds (k # ks)" by auto
    from hit ds(1) have "ds \<noteq> [] \<and> hd ds = k" by (cases ds) (auto simp: matchesKey_def)
    with ds show ?thesis by (cases ds) (auto simp: parallel_Cons)
  qed
  then have "\<not> list_ex (\<lambda>p. length p = 1) ?hit" by (fastforce simp: list_ex_iff parallel_Nil)
  then have tails: "tailsFor (matchesKey k) paths = Some (map tl ?hit)"
    by (simp add: tailsFor_def Let_def)
  have "\<forall>p\<in>set (map tl ?hit). \<exists>ds. p = map Field ds \<and> parallel ds ks" using tl by fastforce
  from Cons.IH [OF this] show ?case
    by (cases v) (simp_all add: mindex_deleteEntries tails)
qed

text \<open>
  a deletion of fields succeeds; what a deleted path leads to reads as null afterwards, and what
  neither leads to a deleted path nor goes on from one is unchanged.
\<close>

theorem deletion_is_exact:
  assumes "[] \<notin> set kss"
  shows "\<exists>m'. applyStatement lib (Delete (map (map Field) kss)) m = Inr m' \<and>
    (\<forall>ks. (\<exists>ds\<in>set kss. prefix ds ks) \<longrightarrow> fieldLookup ks (VMap m') = [VNull]) \<and>
    (\<forall>ks. (\<forall>ds\<in>set kss. parallel ds ks) \<longrightarrow> fieldLookup ks (VMap m') = fieldLookup ks (VMap m))"
proof -
  let ?paths = "map (map Field) kss" and ?m = "deleteEntries m (map (map Field) kss)"
  have "applyStatement lib (Delete ?paths) m = Inr ?m"
    by (simp add: applyStatement_def applyDelete_def asMapping_def)
  moreover have "fieldLookup ks (VMap ?m) = [VNull]" if "ds \<in> set kss" "prefix ds ks" for ds ks
    using that assms deleted_lookup [of ds ?paths ks "VMap m"] by fastforce
  moreover have "fieldLookup ks (VMap ?m) = fieldLookup ks (VMap m)" if "\<forall>ds\<in>set kss. parallel ds ks" for ks
    using that kept_lookup [of ?paths ks "VMap m"] by fastforce
  ultimately show ?thesis by blast
qed


theorem deletion_is_exact_witness:
  "\<exists>m'. applyStatement int_lib (Delete (map (map Field) [[''a'', ''b'']])) [(''a'', VMap [(''b'', VI 1), (''c'', VI 2)])] = Inr m' \<and>
     fieldLookup [''a'', ''b''] (VMap m') = [VNull] \<and> fieldLookup [''a'', ''c''] (VMap m') = [VI 2]"
proof -
  let ?m = "[(''a'', VMap [(''b'', VI 1), (''c'', VI 2)])] :: (string \<times> int val) list"
  obtain m' where m': "applyStatement int_lib (Delete (map (map Field) [[''a'', ''b'']])) ?m = Inr m'"
      "\<forall>ks. (\<exists>ds\<in>set [[''a'', ''b'']]. prefix ds ks) \<longrightarrow> fieldLookup ks (VMap m') = [VNull]"
      "\<forall>ks. (\<forall>ds\<in>set [[''a'', ''b'']]. parallel ds ks) \<longrightarrow> fieldLookup ks (VMap m') = fieldLookup ks (VMap ?m)"
    using deletion_is_exact [of "[[''a'', ''b'']]" int_lib ?m] by auto
  have "fieldLookup [''a'', ''b''] (VMap m') = [VNull]" by (rule m'(2) [rule_format]) simp
  moreover have "fieldLookup [''a'', ''c''] (VMap m') = fieldLookup [''a'', ''c''] (VMap ?m)"
    by (rule m'(3) [rule_format]) (simp add: parallel_Cons)
  ultimately show ?thesis using m'(1) by (intro exI [of _ m']) simp
qed

subsection \<open>A value without a result\<close>

lemma parse_leak:
  "newOverrideExpr (lib :: 'f::equal lib) ''. | .a += select(false)'' =
     Inr \<lparr>source = ''. | .a += select(false)'', statements =
       [Filter (EPipeline [EPath [], EUpdate [Field ''a''] TAddAssign (EFunction ''select'' [ELiteral (VBool False)])])]\<rparr>"
  by code_simp

lemma parse_no_leak:
  "newOverrideExpr (lib :: 'f::equal lib) ''.a += select(false)'' =
     Inr \<lparr>source = ''.a += select(false)'', statements =
       [Assign [Field ''a''] None TAddAssign (EFunction ''select'' [ELiteral (VBool False)])]\<rparr>"
  by code_simp

lemma select_false: "callFunction lib ''select'' [VBool False] v = Inr VNoMatch"
  by (simp add: callFunction_def argCount_def overrideTruthy_def)

text \<open>
  a compound assignment of a value without a result leaves the mapping alone as a statement, but
  inside an expression it stores the marker of "no result" in the mapping when the field is missing.
\<close>

theorem no_match_is_stored:
  fixes m :: "(string \<times> 'f::equal val) list"
  assumes "mindex m ''a'' = VNull"
  shows "(\<exists>e. newOverrideExpr lib ''.a += select(false)'' = Inr e \<and> applyOverride lib e m = Inr m) \<and>
    (\<exists>e. newOverrideExpr lib ''. | .a += select(false)'' = Inr e \<and> applyOverride lib e m = Inr (mput ''a'' VNoMatch m))"
proof -
  have "evalStream lib (EUpdate [Field ''a''] TAddAssign (EFunction ''select'' [ELiteral (VBool False)])) (VMap m)
      = Inr [VMap (mput ''a'' VNoMatch m)]"
    using assms
    by (simp add: assignUpdater_def select_false compoundOperator_def evaluateOverrideBinary_def addValues_def
        asStream_def isOverrideNoMatch_def single_def Let_def)
  then show ?thesis
    by (simp add: parse_leak parse_no_leak applyOverride_def applyStatement_def applyFilter_def applyAssign_def
        evalSingle_def single_def select_false assignUpdater_def concatResult_def isOverrideNoMatch_def
        asStream_def)
qed

theorem no_match_is_stored_witness:
  "\<exists>e. newOverrideExpr int_lib ''. | .a += select(false)'' = Inr e \<and> applyOverride int_lib e [] = Inr [(''a'', VNoMatch)]"
  using no_match_is_stored [of "[]" int_lib] by simp

end
