(* ===== verification/ExprAssignSpec.thy ===== *)
theory ExprAssignSpec
  imports ExprPrint ExprApplySpec
begin

text \<open>
  The round trip of a value through the source of an assignment: the parser reads the literal that
  spells a value as an expression that evaluates to the value, and the statement stores it.
\<close>

subsection \<open>The cursor\<close>

lemma cursor_simps [simp]:
  "peek (t # ts) = t"
  "nextTok (t # ts) = (t, if tkind t = TEOF then t # ts else ts)"
  "matches k (t # ts) = (if tkind t = k then Some (if tkind t = TEOF then t # ts else ts) else None)"
  "expect k msg (t # ts) = (if tkind t = k then Inr (t, if tkind t = TEOF then t # ts else ts) else Inl (Syntax msg))"
  by (auto simp: peek_def nextTok_def matches_def expect_def)

definition closes :: "token list \<Rightarrow> bool" where
  "closes ts \<longleftrightarrow> tkind (peek ts) \<in> {TEOF, TComma, TRightBracket, TRightBrace}"

lemma binaryLevel_pass:
  "operand ts = Inr (e, rest) \<Longrightarrow> op rest = None \<Longrightarrow> binaryLevel operand op ts = Inr (e, rest)"
  by (simp add: binaryLevel_def)

lemma closes_no_operator:
  assumes "closes ts"
  shows "kindOp [TMultiply, TDivide, TModulo] ts = None" "kindOp [TPlus, TMinus] ts = None"
    "kindOp [TEqual, TNotEqual, TLess, TLessEqual, TGreater, TGreaterEqual] ts = None"
    "identOp v ts = None" "tkind (peek ts) \<noteq> TAlternative" "tkind (peek ts) \<noteq> TPipe"
  using assms by (auto simp: closes_def kindOp_def identOp_def peekIdentifier_def)

lemma unary_levels:
  assumes "parseUnary lib pv ts = Inr (e, rest)" "closes rest"
  shows "parseAlternative lib pv ts = Inr (e, rest)" "parseOr lib pv ts = Inr (e, rest)"
proof -
  note none = closes_no_operator [OF assms(2)]
  have "parseComparison lib pv ts = Inr (e, rest)"
    unfolding parseComparison_def parseAdditive_def parseMultiplicative_def
    by (intro binaryLevel_pass assms(1) none)
  then show alt: "parseAlternative lib pv ts = Inr (e, rest)"
    unfolding parseAlternative_def by (rule binaryLevel_pass) (simp add: none)
  show "parseOr lib pv ts = Inr (e, rest)"
    unfolding parseOr_def parseAnd_def by (intro binaryLevel_pass alt none)
qed

lemma unary_value:
  assumes "parseUnary lib pv ts = Inr (e, rest)" "closes rest" "tkind (peek ts) \<noteq> TDot"
  shows "parseValue lib pv low ts = Inr (e, rest)"
proof -
  have "parseStage lib pv l ts = Inr (e, rest)" for l
    using unary_levels [OF assms(1,2)] assms(3) by (simp add: parseStage_def parseValueUpdateExpression_def)
  then show ?thesis
    using closes_no_operator(6) [OF assms(2)] by (simp add: parseValue_def parseList_def)
qed

lemma primary_value:
  assumes "parsePrimary lib (valueParser lib n) ts = Inr (e, rest)" "closes rest"
    "tkind (peek ts) \<noteq> TDot" "tkind (peek ts) \<noteq> TMinus"
  shows "valueParser lib (Suc n) low ts = Inr (e, rest)"
  using unary_value [of lib "valueParser lib n" ts e rest low] assms by (simp add: parseUnary_def)

subsection \<open>Literals\<close>

lemma stringParts_escape: "stringParts inner lit (escape x) = Inr ([], lit @ escape x)"
proof (induction x arbitrary: lit)
  case (Cons c x)
  show ?case
  proof (cases "c = dquote \<or> c = newline \<or> c = backslash")
    case True
    then show ?thesis using Cons.IH by (auto simp: stringParts.simps(3))
  next
    case False
    then have e: "escape (c # x) = c # escape x" by simp
    show ?thesis
    proof (cases "escape x")
      case (Cons d s)
      then show ?thesis using False Cons.IH [of "lit @ [c]"] unfolding e by (simp add: stringParts.simps(3))
    next
      case Nil
      then show ?thesis unfolding e by simp
    qed
  qed
qed simp

lemma parseString_escape: "ttext t = escape x \<Longrightarrow> parseString inner t = Inr (ELiteral (VStr x))"
  by (simp add: parseString_def stringParts_escape decode_escape)

lemma no_dot_digits: "\<forall>c\<in>set (showNat n). c \<noteq> CHR ''.'' \<and> c \<noteq> CHR ''e'' \<and> c \<noteq> CHR ''E''"
  using showNat_digits [of n] digit_chars by blast

lemma parseNumber_nat:
  "int n < 2 ^ 63 \<Longrightarrow> ttext t = showNat n \<Longrightarrow> parseNumber lib t = Inr (ELiteral (VI (int n)))"
proof -
  assume n: "int n < 2 ^ 63" "ttext t = showNat n"
  have "take 2 (showNat n) \<noteq> ''0x'' \<and> take 2 (showNat n) \<noteq> ''0X''"
  proof -
    have "isDigit c" if "c \<in> set (take 2 (showNat n))" for c
      using that showNat_digits [of n] set_take_subset [of 2 "showNat n"] by blast
    then have "\<forall>c\<in>set (take 2 (showNat n)). c \<noteq> CHR ''x'' \<and> c \<noteq> CHR ''X''" using digit_chars by blast
    then show ?thesis by (metis list.set_intros(1,2))
  qed
  then show ?thesis
    using no_dot_digits [of n] n by (auto simp: parseNumber_def parseInt_showNat Let_def)
qed

lemma parseNumber_minus:
  "int n \<le> 2 ^ 63 \<Longrightarrow> ttext t = CHR ''-'' # showNat n \<Longrightarrow> parseNumber lib t = Inr (ELiteral (VI (- int n)))"
  using no_dot_digits [of n] by (auto simp: parseNumber_def parseInt_minus Let_def)

lemma strip_Cons:
  "map strip ts = (k, x) # ss \<longleftrightarrow> (\<exists>t us. ts = t # us \<and> tkind t = k \<and> ttext t = x \<and> map strip us = ss)"
  by (auto simp: map_eq_Cons_conv)

lemma closes_Cons [simp]:
  "closes (t # ts) \<longleftrightarrow> tkind t \<in> {TEOF, TComma, TRightBracket, TRightBrace}"
  by (simp add: closes_def)

definition reads :: "'f lib \<Rightarrow> 'f val \<Rightarrow> bool" where
  "reads lib v \<longleftrightarrow>
     (\<forall>n low us rest. map strip us = valueTokens v \<longrightarrow> length us < n \<longrightarrow> closes rest \<longrightarrow>
        valueParser lib n low (us @ rest) = Inr (valueExpr v, rest))"

lemma readsD:
  "reads lib v \<Longrightarrow> map strip us = valueTokens v \<Longrightarrow> length us < n \<Longrightarrow> closes rest \<Longrightarrow>
     valueParser lib n low (us @ rest) = Inr (valueExpr v, rest)"
  by (simp add: reads_def)

lemma strip_append:
  "map strip ts = xs @ ys \<longleftrightarrow> (\<exists>us vs. ts = us @ vs \<and> map strip us = xs \<and> map strip vs = ys)"
  by (auto simp: map_eq_append_conv)

lemma closes_items:
  "map strip us = itemTokens vs \<Longrightarrow> closes rest \<Longrightarrow> closes (us @ rest)"
  "map strip us = entryTokens m \<Longrightarrow> closes rest \<Longrightarrow> closes (us @ rest)"
  by (cases vs; cases m; auto simp: strip_Cons)+

definition reads_items :: "'f lib \<Rightarrow> 'f val list \<Rightarrow> bool" where
  "reads_items lib vs \<longleftrightarrow>
     (\<forall>n k us rest ts x. map strip us = itemTokens vs \<longrightarrow> length us < n \<longrightarrow> length us < k \<longrightarrow>
        tkind (peek rest) = TRightBracket \<longrightarrow> valueParser lib n True ts = Inr (x, us @ rest) \<longrightarrow>
        listLoop k (valueParser lib n True) [TComma] ts = Inr (x # itemExprs vs, rest))"

definition reads_entries :: "'f lib \<Rightarrow> (string \<times> 'f val) list \<Rightarrow> bool" where
  "reads_entries lib m \<longleftrightarrow>
     (\<forall>n k us rest ts x. map strip us = entryTokens m \<longrightarrow> length us < n \<longrightarrow> length us < k \<longrightarrow>
        tkind (peek rest) = TRightBrace \<longrightarrow> parseMapEntry (valueParser lib n) ts = Inr (x, us @ rest) \<longrightarrow>
        listLoop k (parseMapEntry (valueParser lib n)) [TComma] ts = Inr (x # entryExprs m, rest))"

lemma reads_itemsD:
  "reads_items lib vs \<Longrightarrow> valueParser lib n True ts = Inr (x, us @ rest) \<Longrightarrow> map strip us = itemTokens vs \<Longrightarrow>
     length us < n \<Longrightarrow> length us < k \<Longrightarrow> tkind (peek rest) = TRightBracket \<Longrightarrow>
     listLoop k (valueParser lib n True) [TComma] ts = Inr (x # itemExprs vs, rest)"
  unfolding reads_items_def by blast

lemma reads_entriesD:
  "reads_entries lib m \<Longrightarrow> parseMapEntry (valueParser lib n) ts = Inr (x, us @ rest) \<Longrightarrow>
     map strip us = entryTokens m \<Longrightarrow> length us < n \<Longrightarrow> length us < k \<Longrightarrow> tkind (peek rest) = TRightBrace \<Longrightarrow>
     listLoop k (parseMapEntry (valueParser lib n)) [TComma] ts = Inr (x # entryExprs m, rest)"
  unfolding reads_entries_def by blast

lemma closes_bracket: "tkind (peek ts) = TRightBracket \<Longrightarrow> closes ts" "tkind (peek ts) = TRightBrace \<Longrightarrow> closes ts"
  by (simp_all add: closes_def)

lemma listLoop_single:
  "item ts = Inr (x, rest) \<Longrightarrow> tkind (peek rest) \<notin> set seps \<Longrightarrow> 0 < k \<Longrightarrow> listLoop k item seps ts = Inr ([x], rest)"
  by (cases k) auto

lemma reads_items_Nil: "reads_items lib []"
  by (auto simp: reads_items_def intro!: listLoop_single)

lemma reads_items_Cons:
  assumes "reads lib v" "reads_items lib vs"
  shows "reads_items lib (v # vs)"
  unfolding reads_items_def
proof (intro allI impI)
  fix n k us rest ts and x :: "'a expr"
  assume us: "map strip us = itemTokens (v # vs)" "length us < n" "length us < k"
    and rest: "tkind (peek rest) = TRightBracket" and x: "valueParser lib n True ts = Inr (x, us @ rest)"
  from us(1) obtain t uv uw where u: "us = t # uv @ uw" "tkind t = TComma"
      "map strip uv = valueTokens v" "map strip uw = itemTokens vs"
    by (auto simp: strip_Cons strip_append)
  have v: "valueParser lib n True (uv @ (uw @ rest)) = Inr (valueExpr v, uw @ rest)"
    using us(2) u by (intro readsD [OF assms(1)] closes_items(1) [OF u(4)] closes_bracket rest) auto
  obtain k' where k: "k = Suc k'" "length uw < k'" using us(3) u(1) by (cases k) auto
  have "listLoop k' (valueParser lib n True) [TComma] (uv @ (uw @ rest)) = Inr (valueExpr v # itemExprs vs, rest)"
    using u(1,4) us(2) k(2) rest by (intro reads_itemsD [OF assms(2) v]) auto
  then show "listLoop k (valueParser lib n True) [TComma] ts = Inr (x # itemExprs (v # vs), rest)"
    using x u(1,2) by (simp add: k(1))
qed

lemma reads_entries_Nil: "reads_entries lib []"
  by (auto simp: reads_entries_def intro!: listLoop_single)

lemma parseMapEntry_reads:
  assumes "reads lib v" "map strip us = (TString, escape key) # (TColon, '':'') # valueTokens v" "length us < n" "closes rest"
  shows "parseMapEntry (valueParser lib n) (us @ rest) = Inr ((key, valueExpr v), rest)"
proof -
  from assms(2) obtain t c uv where u: "us = t # c # uv" "tkind t = TString" "ttext t = escape key"
      "tkind c = TColon" "map strip uv = valueTokens v"
    by (auto simp: strip_Cons)
  have "valueParser lib n True (uv @ rest) = Inr (valueExpr v, rest)"
    using u assms by (intro readsD [OF assms(1)]) auto
  then show ?thesis using u by (simp add: parseMapEntry_def decode_escape)
qed

lemma reads_entries_Cons:
  assumes "reads lib v" "reads_entries lib m"
  shows "reads_entries lib ((key, v) # m)"
  unfolding reads_entries_def
proof (intro allI impI)
  fix n k us rest ts and x :: "string \<times> 'a expr"
  assume us: "map strip us = entryTokens ((key, v) # m)" "length us < n" "length us < k"
    and rest: "tkind (peek rest) = TRightBrace" and x: "parseMapEntry (valueParser lib n) ts = Inr (x, us @ rest)"
  have "entryTokens ((key, v) # m) =
      (TComma, '','') # ((TString, escape key) # (TColon, '':'') # valueTokens v) @ entryTokens m" by simp
  from us(1) [unfolded this] obtain t uv uw where u: "us = t # uv @ uw" "tkind t = TComma"
      "map strip uv = (TString, escape key) # (TColon, '':'') # valueTokens v" "map strip uw = entryTokens m"
    unfolding strip_Cons strip_append by blast
  have v: "parseMapEntry (valueParser lib n) (uv @ (uw @ rest)) = Inr ((key, valueExpr v), uw @ rest)"
    using us(2) u by (intro parseMapEntry_reads [OF assms(1)] closes_items(2) [OF u(4)] closes_bracket rest) auto
  obtain k' where k: "k = Suc k'" "length uw < k'" using us(3) u(1) by (cases k) auto
  have "listLoop k' (parseMapEntry (valueParser lib n)) [TComma] (uv @ (uw @ rest)) =
      Inr ((key, valueExpr v) # entryExprs m, rest)"
    using u(1,4) us(2) k(2) rest by (intro reads_entriesD [OF assms(2) v]) auto
  then show "listLoop k (parseMapEntry (valueParser lib n)) [TComma] ts = Inr (x # entryExprs ((key, v) # m), rest)"
    using x u(1,2) by (simp add: k(1))
qed

text \<open>A literal is read when its primary is.\<close>

lemma reads_primary:
  assumes "\<And>n us rest. map strip us = valueTokens v \<Longrightarrow> length us \<le> n \<Longrightarrow> closes rest \<Longrightarrow>
      tkind (peek (us @ rest)) \<noteq> TDot \<and> tkind (peek (us @ rest)) \<noteq> TMinus \<and>
      parsePrimary lib (valueParser lib n) (us @ rest) = Inr (valueExpr v, rest)"
  shows "reads lib v"
  unfolding reads_def
proof (intro allI impI)
  fix n low us rest
  assume us: "map strip us = valueTokens v" "length us < n" "closes rest"
  obtain m where n: "n = Suc m" "length us \<le> m" using us(2) by (cases n) auto
  show "valueParser lib n low (us @ rest) = Inr (valueExpr v, rest)"
    unfolding n(1) using assms [OF us(1) n(2) us(3)] us(3) by (intro primary_value) auto
qed

lemma reads_int:
  assumes "- (2 ^ 63) \<le> i" "i < 2 ^ 63"
  shows "reads lib (VI i)"
proof (cases "i < 0")
  case True
  have m: "int (nat (- i)) \<le> 2 ^ 63" using assms(1) True by simp
  show ?thesis unfolding reads_def
  proof (intro allI impI)
    fix n low us rest
    assume us: "map strip us = valueTokens (VI i)" "length us < n" "closes rest"
    obtain m where n: "n = Suc m" using us(2) by (cases n) auto
    from us(1) True obtain t u where u: "us = [t, u]" "tkind t = TMinus" "tkind u = TNumber" "ttext u = showNat (nat (- i))"
      by (auto simp: strip_Cons)
    have "parseNumber lib (u\<lparr>ttext := CHR ''-'' # ttext u\<rparr>) = Inr (ELiteral (VI (- int (nat (- i)))))"
      using u(4) by (intro parseNumber_minus m) simp
    then have "parseUnary lib (valueParser lib m) (us @ rest) = Inr (valueExpr (VI i), rest)"
      using u True by (simp add: parseUnary_def)
    then show "valueParser lib n low (us @ rest) = Inr (valueExpr (VI i), rest)"
      unfolding n valueParser.simps using u us(3) by (intro unary_value) auto
  qed
next
  case False
  then have "int (nat i) < 2 ^ 63" using assms(2) by simp
  then show ?thesis using False parseNumber_nat [of "nat i" _ lib]
    by (intro reads_primary) (auto simp: strip_Cons parsePrimary_def)
qed

lemma value_head:
  "plain v \<Longrightarrow> map strip us = valueTokens v \<Longrightarrow> \<exists>t us'. us = t # us' \<and> tkind t \<noteq> TRightBracket"
  by (cases v rule: valueTokens.cases) (auto simp: strip_Cons split: if_splits)

lemma reads_list:
  assumes "reads lib v" "reads_items lib vs" "plain v"
  shows "reads lib (VList (v # vs))"
proof (rule reads_primary)
  fix n us rest
  assume us: "map strip us = valueTokens (VList (v # vs))" "length us \<le> n" "closes rest"
  from us(1) obtain b uv uw c where u: "us = b # uv @ uw @ [c]" "tkind b = TLeftBracket" "tkind c = TRightBracket"
      "map strip uv = valueTokens v" "map strip uw = itemTokens vs"
    by (auto simp: strip_Cons strip_append)
  have first: "valueParser lib n True (uv @ (uw @ c # rest)) = Inr (valueExpr v, uw @ c # rest)"
    using us(2) u by (intro readsD [OF assms(1)] closes_items(1) [OF u(5)]) auto
  have not_end: "tkind (peek (uv @ uw @ c # rest)) \<noteq> TRightBracket"
    using value_head [OF assms(3) u(4)] by auto
  have "listLoop (Suc (length (uv @ uw @ c # rest))) (valueParser lib n True) [TComma] (uv @ uw @ c # rest)
      = Inr (valueExpr v # itemExprs vs, c # rest)"
    using u us(2) by (intro reads_itemsD [OF assms(2) first]) auto
  then show "tkind (peek (us @ rest)) \<noteq> TDot \<and> tkind (peek (us @ rest)) \<noteq> TMinus \<and>
      parsePrimary lib (valueParser lib n) (us @ rest) = Inr (valueExpr (VList (v # vs)), rest)"
    using u(2,3) not_end by (simp add: u(1) parsePrimary_def parseList_def matches_def)
qed

lemma reads_map:
  assumes "reads lib v" "reads_entries lib m"
  shows "reads lib (VMap ((key, v) # m))"
proof (rule reads_primary)
  fix n us rest
  assume us: "map strip us = valueTokens (VMap ((key, v) # m))" "length us \<le> n" "closes rest"
  have "valueTokens (VMap ((key, v) # m)) = (TLeftBrace, ''{'') # ((TString, escape key) # (TColon, '':'') # valueTokens v) @
      entryTokens m @ (TRightBrace, ''}'') # []" by simp
  from us(1) [unfolded this] obtain b uv uw c where u: "us = b # uv @ uw @ c # []" "tkind b = TLeftBrace" "tkind c = TRightBrace"
      "map strip uv = (TString, escape key) # (TColon, '':'') # valueTokens v" "map strip uw = entryTokens m"
    unfolding strip_Cons strip_append by (elim exE conjE) (simp only: map_is_Nil_conv, blast)
  have first: "parseMapEntry (valueParser lib n) (uv @ (uw @ c # rest)) = Inr ((key, valueExpr v), uw @ c # rest)"
    using us(2) u by (intro parseMapEntry_reads [OF assms(1)] closes_items(2) [OF u(5)]) auto
  have not_end: "tkind (peek (uv @ uw @ c # rest)) \<noteq> TRightBrace"
    using u(4) by (auto simp: strip_Cons)
  have "listLoop (Suc (length (uv @ uw @ c # rest))) (parseMapEntry (valueParser lib n)) [TComma] (uv @ uw @ c # rest)
      = Inr ((key, valueExpr v) # entryExprs m, c # rest)"
    using u us(2) by (intro reads_entriesD [OF assms(2) first]) auto
  then show "tkind (peek (us @ rest)) \<noteq> TDot \<and> tkind (peek (us @ rest)) \<noteq> TMinus \<and>
      parsePrimary lib (valueParser lib n) (us @ rest) = Inr (valueExpr (VMap ((key, v) # m)), rest)"
    using u(2,3) not_end by (simp add: u(1) parsePrimary_def parseList_def matches_def)
qed

lemma reads_scalars:
  "reads lib VNull" "reads lib (VBool b)" "reads lib (VStr s)" "reads lib (VList [])" "reads lib (VMap [])"
  by (rule reads_primary, auto simp: strip_Cons parsePrimary_def parseIdentifier_def parseString_escape)+

lemma reads_plain:
  fixes v :: "'f val" and vs :: "'f val list" and m :: "(string \<times> 'f val) list"
  shows "plain v \<Longrightarrow> reads lib v" "plainItems vs \<Longrightarrow> reads_items lib vs" "plainEntries m \<Longrightarrow> reads_entries lib m"
  by (induction v and vs and m rule: valueTokens_itemTokens_entryTokens.induct)
    (auto intro: reads_list reads_map reads_items_Cons reads_entries_Cons reads_items_Nil reads_entries_Nil reads_int reads_scalars)

subsection \<open>Assignments\<close>

fun pathTokens :: "string list \<Rightarrow> sign list" where
  "pathTokens [] = []"
| "pathTokens (k # ks) = (TDot, ''.'') # (TString, escape k) # pathTokens ks"

definition assignTokens :: "string list \<Rightarrow> 'f val \<Rightarrow> sign list" where
  "assignTokens ks v = pathTokens ks @ (TAssign, ''='') # valueTokens v"

definition assignSource :: "string list \<Rightarrow> 'f val \<Rightarrow> string" where
  "assignSource ks v = showTokens (assignTokens ks v)"

lemma printable_path: "\<forall>t\<in>set (pathTokens ks). printable t"
  by (induction ks) simp_all

lemma pathLoop_reads:
  "map strip us = pathTokens ks \<Longrightarrow> length us < n \<Longrightarrow> tkind (peek rest) = TAssign \<Longrightarrow>
     pathLoop n p (us @ rest) = Inr (p @ map Field ks, rest)"
proof (induction ks arbitrary: us n p)
  case Nil
  then show ?case by (cases n) simp_all
next
  case (Cons k ks)
  from Cons.prems(1) obtain d t us' where us: "us = d # t # us'" "tkind d = TDot" "tkind t = TString"
      "ttext t = escape k" "map strip us' = pathTokens ks"
    by (auto simp: strip_Cons)
  obtain n' where n: "n = Suc n'" "length us' < n'" using Cons.prems(2) us(1) by (cases n) auto
  from Cons.IH [OF us(5) n(2) Cons.prems(3), of "p @ [Field k]"]
  show ?case using us by (simp add: n(1) pathField_def decode_escape)
qed

lemma parsePath_reads:
  assumes "map strip us = pathTokens (k # ks)" "tkind (peek rest) = TAssign"
  shows "parsePath (us @ rest) = Inr (map Field (k # ks), rest)"
proof -
  from assms(1) obtain d t us' where us: "us = d # t # us'" "tkind d = TDot" "tkind t = TString"
      "ttext t = escape k" "map strip us' = pathTokens ks"
    by (auto simp: strip_Cons)
  have "pathLoop (Suc (length (us' @ rest))) [Field k] (us' @ rest) = Inr ([Field k] @ map Field ks, rest)"
    by (rule pathLoop_reads [OF us(5) _ assms(2)]) simp
  then show ?thesis using us by (simp add: parsePath_def pathField_def decode_escape del: pathLoop.simps)
qed

lemma parse_assignment:
  assumes "plain v" "ks \<noteq> []"
  shows "newOverrideExpr lib (assignSource ks v) =
    Inr \<lparr>source = assignSource ks v, statements = [Assign (map Field ks) None TAssign (valueExpr v)]\<rparr>"
proof -
  let ?src = "assignSource ks v"
  have "\<forall>t\<in>set (assignTokens ks v). printable t"
    using printable_path [of ks] printable_values(1) [of v] by (auto simp: assignTokens_def)
  from lex_tokens [OF this, of 0] obtain ts where ts: "lexFrom 0 ?src = Inr ts"
      "map strip ts = assignTokens ks v @ [(TEOF, [])]"
    by (auto simp: assignSource_def)
  obtain k ks' where k: "ks = k # ks'" using assms(2) by (cases ks) auto
  have "map strip ts = pathTokens ks @ (TAssign, ''='') # (valueTokens v @ (TEOF, []) # [])"
    using ts(2) by (simp add: assignTokens_def)
  then obtain us a uv z zs where u: "ts = us @ a # uv @ z # zs" "map strip us = pathTokens ks" "tkind a = TAssign"
      "map strip uv = valueTokens v" "tkind z = TEOF"
    unfolding strip_Cons strip_append by blast
  from u(2) obtain d us' where d: "us = d # us'" "tkind d = TDot" by (auto simp: k strip_Cons)
  have path: "parsePath ts = Inr (map Field ks, a # uv @ z # zs)"
    unfolding u(1) k by (rule parsePath_reads) (use u k in simp_all)
  have "length ts \<le> length ?src + 1"
    using lex_weight [OF ts(1)] length_weight [of ts] by linarith
  then have val: "valueParser lib (parse_fuel ?src) False (uv @ z # zs) = Inr (valueExpr v, z # zs)"
    using u(5) by (intro readsD [OF reads_plain(1) [OF assms(1)] u(4)]) (simp_all add: u(1) parse_fuel_def)
  have head: "peek ts = d" by (simp add: u(1) d(1))
  have "parseStatement (valueParser lib (parse_fuel ?src)) ts =
      Inr (Assign (map Field ks) None TAssign (valueExpr v), z # zs)"
    using head d(2) u(3) val
    by (simp add: parseStatement_def peekIdentifier_def startsAssignmentStatement_def path isOverrideAssignmentToken_def)
  then show ?thesis
    using head d(2) u(5) ts(1) by (simp add: newOverrideExpr_def lexOverrideExpr_def parseStatements_def)
qed

subsection \<open>Reading back\<close>

text \<open>An assignment can go through nothing and through mappings; a value of another kind stops it.\<close>

fun writable :: "string list \<Rightarrow> 'f val \<Rightarrow> bool" where
  "writable [] v \<longleftrightarrow> True"
| "writable (k # ks) v \<longleftrightarrow>
     (case v of VNull \<Rightarrow> True | VMap m \<Rightarrow> writable ks (mindex m k) | _ \<Rightarrow> False)"

lemma writable_Null [simp]: "writable ks VNull"
  by (cases ks) simp_all

lemma update_field:
  "writable ks v \<Longrightarrow> \<exists>v'. updateOverridePath (map Field ks) (\<lambda>_. Inr w) v = Inr v' \<and>
     lookupOverridePathStream (map Field ks) v' = [w] \<and> (ks \<noteq> [] \<longrightarrow> (\<exists>m. v' = VMap m))"
proof (induction ks arbitrary: v)
  case (Cons k ks)
  define m where "m = (case v of VMap m \<Rightarrow> m | _ \<Rightarrow> [])"
  have "writable ks (mindex m k)" and v: "v = VMap m \<or> v = VNull \<and> m = []"
    using Cons.prems by (auto simp: m_def split: val.splits)
  from Cons.IH [OF this(1)] obtain v' where "updateOverridePath (map Field ks) (\<lambda>_. Inr w) (mindex m k) = Inr v'"
      "lookupOverridePathStream (map Field ks) v' = [w]" by blast
  then show ?case using v by auto
qed simp

text \<open>
  C8: whatever value without floats is assigned to a path of fields by the source that spells it, the
  source parses, and applying it stores this very value there, unless something that is no mapping is
  in the way.
\<close>

theorem assigned_value_read_back:
  assumes "plain v" "ks \<noteq> []" "writable ks (VMap m)"
  shows "\<exists>e m'. newOverrideExpr lib (assignSource ks v) = Inr e \<and> applyOverride lib e m = Inr m' \<and>
    lookupOverridePathStream (map Field ks) (VMap m') = [v]"
proof -
  obtain m' where m': "updateOverridePath (map Field ks) (\<lambda>_. Inr v) (VMap m) = Inr (VMap m')"
      "lookupOverridePathStream (map Field ks) (VMap m') = [v]"
    using update_field [OF assms(3), of v] assms(2) by auto
  have "evalSingle lib (valueExpr v) (VMap m) = Inr v"
    using eval_values(1) [OF assms(1)] by (simp add: evalSingle_def single_def)
  moreover have "\<not> isOverrideNoMatch v" using assms(1) by (cases v) (simp_all add: isOverrideNoMatch_def)
  ultimately have "applyAssign lib (map Field ks) None TAssign (valueExpr v) m = Inr m'"
    using m'(1) by (simp add: applyAssign_def assignUpdater_def asMapping_def)
  then show ?thesis
    using m'(2) parse_assignment [OF assms(1,2), of lib] by (simp add: applyOverride_def applyStatement_def)
qed

theorem assigned_value_read_back_witness:
  "\<exists>e m'. newOverrideExpr int_lib (assignSource [''a'', ''b''] (VList [VStr ''x'', VI (-3)] :: int val)) = Inr e \<and>
     applyOverride int_lib e [(''a'', VMap [(''c'', VBool True)])] = Inr m' \<and>
     lookupOverridePathStream (map Field [''a'', ''b'']) (VMap m') = [VList [VStr ''x'', VI (-3)]]"
  by (rule assigned_value_read_back) simp_all

end
