(* ===== verification/Ranges.thy ===== *)
theory Ranges
  imports GoText
begin

text \<open>
  Ranges of unsigned integers (\<^verbatim>\<open>mihomo/common/utils/range.go\<close> and \<^verbatim>\<open>ranges.go\<close>).  The
  type parameter of the code, an unsigned integer type, is the width of a word; the signed instances
  are not modelled.  An error is the constant part of its message.
\<close>

record 'a range =
  rangeStart :: 'a
  rangeEnd :: 'a

definition NewRange :: "'w::len word \<Rightarrow> 'w word \<Rightarrow> 'w word range" where
  "NewRange start stop =
     (if start > stop then \<lparr>rangeStart = stop, rangeEnd = start\<rparr> else \<lparr>rangeStart = start, rangeEnd = stop\<rparr>)"

definition rangeContains :: "'w::len word range \<Rightarrow> 'w word \<Rightarrow> bool" where
  "rangeContains r t \<longleftrightarrow> t \<ge> rangeStart r \<and> t \<le> rangeEnd r"

definition LeftContains :: "'w::len word range \<Rightarrow> 'w word \<Rightarrow> bool" where
  "LeftContains r t \<longleftrightarrow> t \<ge> rangeStart r \<and> t < rangeEnd r"

definition RightContains :: "'w::len word range \<Rightarrow> 'w word \<Rightarrow> bool" where
  "RightContains r t \<longleftrightarrow> t > rangeStart r \<and> t \<le> rangeEnd r"

definition rangeString :: "'w::len word range \<Rightarrow> string" where
  "rangeString r =
     (if rangeStart r = rangeEnd r then showNat (unat (rangeStart r))
      else showNat (unat (rangeStart r)) @ ''-'' @ showNat (unat (rangeEnd r)))"

text \<open>The number is read to 64 bits and converted to the type of the range, which drops its high bits.\<close>

definition parseUnsigned :: "string \<Rightarrow> 'w::len word checked" where
  "parseUnsigned s = (case parseUint s of None \<Rightarrow> Inl ''invalid syntax'' | Some n \<Rightarrow> Inr (word_of_nat n))"

definition newIntRange :: "(string \<Rightarrow> 'w::len word checked) \<Rightarrow> string \<Rightarrow> 'w word range checked" where
  "newIntRange parseFn s =
     (let s = trimSpaces s; bound = \<lambda>t. parseFn (trimSet {CHR ''['', CHR '' '', CHR '']''} t) in
      if s = [] then Inr (NewRange 0 0)
      else
        let status = splitAt ''-'' [] s in
        (case bound (status ! 0) of
           Inl e \<Rightarrow> Inl ''invalid range''
         | Inr start \<Rightarrow>
             if length status = 1 then Inr (NewRange start start)
             else if length status = 2 then
               (case bound (status ! 1) of
                  Inl e \<Rightarrow> Inl ''invalid range''
                | Inr stop \<Rightarrow> Inr (NewRange start stop))
             else Inl ''invalid range''))"

definition NewUnsignedRange :: "string \<Rightarrow> 'w::len word range checked" where
  "NewUnsignedRange s = newIntRange parseUnsigned s"

type_synonym 'w ranges = "'w word range list"

fun newIntRangesFromList :: "(string \<Rightarrow> 'w::len word checked) \<Rightarrow> string list \<Rightarrow> 'w ranges checked" where
  "newIntRangesFromList parseFn [] = Inr []"
| "newIntRangesFromList parseFn (s # ss) =
     (if s = [] then newIntRangesFromList parseFn ss
      else rbind (newIntRange parseFn s) (\<lambda>r. rbind (newIntRangesFromList parseFn ss) (\<lambda>rs. Inr (r # rs))))"

definition newIntRanges :: "(string \<Rightarrow> 'w::len word checked) \<Rightarrow> string \<Rightarrow> 'w ranges checked" where
  "newIntRanges parseFn expected =
     (let expected = trimSpaces expected in
      if expected = [] \<or> expected = ''*'' then Inr []
      else
        let parts = splitAt ''/'' [] (map (\<lambda>c. if c = CHR '','' then CHR ''/'' else c) expected) in
        if length parts > 28 then Inl ''too many ranges''
        else newIntRangesFromList parseFn parts)"

definition NewUnsignedRanges :: "string \<Rightarrow> 'w::len ranges checked" where
  "NewUnsignedRanges s = newIntRanges parseUnsigned s"

definition NewUnsignedRangesFromList :: "string list \<Rightarrow> 'w::len ranges checked" where
  "NewUnsignedRangesFromList ss = newIntRangesFromList parseUnsigned ss"

definition rangesCheck :: "'w::len ranges \<Rightarrow> 'w word \<Rightarrow> bool" where
  "rangesCheck rs t \<longleftrightarrow> rs = [] \<or> list_ex (\<lambda>r. rangeContains r t) rs"

definition rangesString :: "'w::len ranges \<Rightarrow> string" where
  "rangesString rs = (if rs = [] then ''*'' else joinStrings ''/'' (map rangeString rs))"

lemma no_overflow: "\<not> i + 1 < i \<Longrightarrow> unat (i + 1) = unat i + 1" for i :: "'w::len word"
  by (metis add.commute not_less unat_1 unat_plus_simple)

text \<open>
  The iteration: \<open>f\<close> is the callback on a state of the caller's, and says whether to go on.  The
  result says whether the loops ran to their end.
\<close>

function rangeLoop :: "('s \<Rightarrow> 'w::len word \<Rightarrow> bool \<times> 's) \<Rightarrow> 'w word range \<Rightarrow> 'w word \<Rightarrow> 's \<Rightarrow> bool \<times> 's" where
  "rangeLoop f r i st =
     (if i \<le> rangeEnd r \<and> i \<ge> rangeStart r then
        (case f st i of (go, st) \<Rightarrow>
           if \<not> go then (False, st)
           else if i + 1 < i then (True, st)
           else rangeLoop f r (i + 1) st)
      else (True, st))"
  by pat_completeness auto

termination
  by (relation "measure (\<lambda>(f, r, i, st). unat (rangeEnd r) + 1 - unat i)")
    (auto simp: word_le_nat_alt no_overflow)

declare rangeLoop.simps [simp del]

fun rangesRange :: "('s \<Rightarrow> 'w::len word \<Rightarrow> bool \<times> 's) \<Rightarrow> 'w ranges \<Rightarrow> 's \<Rightarrow> 's" where
  "rangesRange f [] st = st"
| "rangesRange f (r # rs) st =
     (case rangeLoop f r (rangeStart r) st of (go, st) \<Rightarrow> if go then rangesRange f rs st else st)"

text \<open>
  Merging of ranges that are sorted by their starts; \<open>cur\<close> is the last merged range.  The merged
  ranges overwrite the front of the receiver's array, whose content afterwards is the second result.
\<close>

fun mergeLoop :: "'w::len word range \<Rightarrow> 'w ranges \<Rightarrow> 'w ranges" where
  "mergeLoop cur [] = [cur]"
| "mergeLoop cur (r # rs) =
     (if rangeEnd cur + 1 > rangeEnd cur \<and> rangeStart r > rangeEnd cur + 1 then cur # mergeLoop r rs
      else if rangeEnd r > rangeEnd cur then mergeLoop (cur\<lparr>rangeEnd := rangeEnd r\<rparr>) rs
      else mergeLoop cur rs)"

definition mergeSorted :: "'w::len ranges \<Rightarrow> 'w ranges \<times> 'w ranges" where
  "mergeSorted rs =
     (case rs of
        [] \<Rightarrow> ([], [])
      | r # rest \<Rightarrow> let m = mergeLoop r rest in (m, m @ drop (length m) rs))"

text \<open>\<^verbatim>\<open>sort.Slice\<close> leaves the order of equal starts open: this is one of the orders it may produce.\<close>

definition Merge :: "'w::len ranges \<Rightarrow> 'w ranges \<times> 'w ranges" where
  "Merge rs = mergeSorted (sort_key rangeStart rs)"

end
