(* ===== verification/RangesSpec.thy ===== *)
theory RangesSpec
  imports Ranges "HOL-Library.Multiset"
begin

text \<open>What the ranges promise: parsing, iterating and merging.\<close>

definition validRange :: "'w::len word range \<Rightarrow> bool" where
  "validRange r \<longleftrightarrow> rangeStart r \<le> rangeEnd r"

lemma NewRange_valid: "validRange (NewRange a b)"
  by (auto simp: NewRange_def validRange_def)

subsection \<open>Iterating\<close>

lemma rangeLoop_visits:
  fixes r :: "'w::len word range"
  shows "rangeStart r \<le> i \<Longrightarrow>
    rangeLoop (\<lambda>acc i. (True, acc @ [i])) r i acc = (True, acc @ map word_of_nat [unat i..<Suc (unat (rangeEnd r))])"
proof (induction "\<lambda>(acc :: 'w word list) i. (True, acc @ [i])" r i acc rule: rangeLoop.induct)
  case (1 r i acc)
  show ?case
  proof (cases "i \<le> rangeEnd r")
    case True
    then have le: "unat i \<le> unat (rangeEnd r)" by (simp add: word_le_nat_alt)
    then have upt: "[unat i..<Suc (unat (rangeEnd r))] = unat i # [Suc (unat i)..<Suc (unat (rangeEnd r))]"
      by (simp add: upt_conv_Cons del: upt_Suc)
    show ?thesis
    proof (cases "i + 1 < i")
      case ov: True
      then have "unat i + 1 \<ge> 2 ^ LENGTH('w)"
        by (metis no_olen_add_nat not_le not_less unat_1 word_le_nat_alt add.commute le_add_same_cancel2 unat_plus_simple zero_le)
      moreover have "unat (rangeEnd r) < 2 ^ LENGTH('w)" by (rule unsigned_less)
      ultimately have "unat (rangeEnd r) = unat i" using le by linarith
      then show ?thesis using True ov 1 by (subst rangeLoop.simps) simp
    next
      case False
      then have s: "unat (i + 1) = Suc (unat i)" using no_overflow [of i] by simp
      then have "rangeStart r \<le> i + 1" using 1 by (simp add: word_le_nat_alt)
      then show ?thesis using 1 True False by (subst rangeLoop.simps) (simp add: upt s del: upt_Suc)
    qed
  next
    case False
    then have "unat (rangeEnd r) < unat i" by (simp add: word_le_nat_alt)
    then show ?thesis using False by (subst rangeLoop.simps) simp
  qed
qed

text \<open>
  the iteration over ranges visits exactly their elements, in the order of the ranges, and
  ends even when a range reaches the largest value of its type.
\<close>

theorem ranges_iteration_exact:
  "rangesRange (\<lambda>acc i. (True, acc @ [i])) rs acc =
     acc @ concat (map (\<lambda>r. map word_of_nat [unat (rangeStart r)..<Suc (unat (rangeEnd r))]) rs)"
  by (induction rs arbitrary: acc) (simp_all add: rangeLoop_visits del: upt_Suc)

subsection \<open>Merging\<close>

text \<open>Ranges in increasing order, with at least one value between any two.\<close>

fun separated :: "'w::len ranges \<Rightarrow> bool" where
  "separated (r # s # rs) \<longleftrightarrow> unat (rangeEnd r) + 1 < unat (rangeStart s) \<and> separated (s # rs)"
| "separated rs \<longleftrightarrow> True"

lemma gap_word:
  fixes a b :: "'w::len word"
  shows "a + 1 > a \<and> b > a + 1 \<longleftrightarrow> unat a + 1 < unat b"
proof
  assume "a + 1 > a \<and> b > a + 1"
  then show "unat a + 1 < unat b" using no_overflow [of a] by (simp add: word_less_nat_alt)
next
  assume "unat a + 1 < unat b"
  moreover have "unat b < 2 ^ LENGTH('w)" by (rule unsigned_less)
  ultimately have "unat a + 1 < 2 ^ LENGTH('w)" by linarith
  then have "unat (a + 1) = unat a + 1" by (simp add: unat_word_ariths)
  then show "a + 1 > a \<and> b > a + 1" using \<open>unat a + 1 < unat b\<close> by (simp add: word_less_nat_alt)
qed

lemma rangeContains_nat: "rangeContains r t \<longleftrightarrow> unat (rangeStart r) \<le> unat t \<and> unat t \<le> unat (rangeEnd r)"
  by (simp add: rangeContains_def word_le_nat_alt)

lemma mergeLoop_contains:
  "sorted (map rangeStart (cur # rs)) \<Longrightarrow> validRange cur \<Longrightarrow> \<forall>r\<in>set rs. validRange r \<Longrightarrow>
     list_ex (\<lambda>r. rangeContains r t) (mergeLoop cur rs) \<longleftrightarrow> list_ex (\<lambda>r. rangeContains r t) (cur # rs)"
proof (induction cur rs rule: mergeLoop.induct)
  case (2 cur r rs)
  have order: "unat (rangeStart cur) \<le> unat (rangeStart r)" "unat (rangeStart cur) \<le> unat (rangeEnd cur)"
    using 2 by (simp_all add: word_le_nat_alt validRange_def)
  consider "rangeEnd cur + 1 > rangeEnd cur \<and> rangeStart r > rangeEnd cur + 1"
    | "\<not> (rangeEnd cur + 1 > rangeEnd cur \<and> rangeStart r > rangeEnd cur + 1)" "rangeEnd r > rangeEnd cur"
    | "\<not> (rangeEnd cur + 1 > rangeEnd cur \<and> rangeStart r > rangeEnd cur + 1)" "\<not> rangeEnd r > rangeEnd cur"
    by blast
  then show ?case
  proof cases
    case 1
    then show ?thesis using "2.IH"(1) "2.prems" by simp
  next
    case 2
    have valid: "validRange (cur\<lparr>rangeEnd := rangeEnd r\<rparr>)" using order "2"(2) by (simp add: validRange_def word_le_nat_alt word_less_nat_alt)
    have "mergeLoop cur (r # rs) = mergeLoop (cur\<lparr>rangeEnd := rangeEnd r\<rparr>) rs"
      unfolding mergeLoop.simps using 2 by (simp only: if_False if_True)
    moreover have "list_ex (\<lambda>r. rangeContains r t) (mergeLoop (cur\<lparr>rangeEnd := rangeEnd r\<rparr>) rs) \<longleftrightarrow>
        list_ex (\<lambda>r. rangeContains r t) (cur\<lparr>rangeEnd := rangeEnd r\<rparr> # rs)"
      using "2.IH"(2) [OF 2] "2.prems" valid by simp
    ultimately have "list_ex (\<lambda>r. rangeContains r t) (mergeLoop cur (r # rs)) \<longleftrightarrow>
        list_ex (\<lambda>r. rangeContains r t) (cur\<lparr>rangeEnd := rangeEnd r\<rparr> # rs)" by simp
    moreover have "rangeContains (cur\<lparr>rangeEnd := rangeEnd r\<rparr>) t \<longleftrightarrow> rangeContains cur t \<or> rangeContains r t"
      using 2 order unfolding gap_word by (auto simp: rangeContains_nat word_less_nat_alt)
    ultimately show ?thesis by auto
  next
    case 3
    have "mergeLoop cur (r # rs) = mergeLoop cur rs"
      unfolding mergeLoop.simps using 3 by (simp only: if_False)
    moreover have "rangeContains r t \<Longrightarrow> rangeContains cur t"
      using 3 order by (auto simp: rangeContains_nat word_less_nat_alt)
    ultimately show ?thesis using "2.IH"(3) [OF 3] "2.prems" by auto
  qed
qed simp

lemma hd_mergeLoop: "rangeStart (hd (mergeLoop cur rs)) = rangeStart cur \<and> mergeLoop cur rs \<noteq> []"
  by (induction cur rs rule: mergeLoop.induct) auto

lemma mergeLoop_separated: "separated (mergeLoop cur rs)"
proof (induction cur rs rule: mergeLoop.induct)
  case (2 cur r rs)
  obtain s ss where m: "mergeLoop r rs = s # ss" "rangeStart s = rangeStart r"
    using hd_mergeLoop [of r rs] by (cases "mergeLoop r rs") auto
  show ?case using 2 m gap_word [of "rangeEnd cur" "rangeStart r"] by auto
qed simp

text \<open>
  C14: in whatever order the sort leaves ranges with equal starts, merging keeps the values that
  are in one of the ranges, and the merged ranges are in order with a gap between any two.
\<close>

theorem merge_keeps_values:
  assumes "mset rs' = mset rs" "sorted (map rangeStart rs')" "\<forall>r\<in>set rs. validRange r"
  shows "rangesCheck (fst (mergeSorted rs')) t = rangesCheck rs t \<and> separated (fst (mergeSorted rs'))"
proof (cases rs')
  case Nil
  then have "rs = []" using assms(1) by simp
  then show ?thesis by (simp add: Nil mergeSorted_def)
next
  case (Cons r rest)
  have set: "set rs' = set rs" using assms(1) by (metis set_mset_mset)
  then have "validRange r \<and> (\<forall>s\<in>set rest. validRange s)" using assms(3) Cons by auto
  then have "list_ex (\<lambda>r. rangeContains r t) (mergeLoop r rest) \<longleftrightarrow> list_ex (\<lambda>r. rangeContains r t) rs'"
    using mergeLoop_contains [of r rest t] assms(2) unfolding Cons by blast
  also have "\<dots> \<longleftrightarrow> list_ex (\<lambda>r. rangeContains r t) rs" using set by (simp add: list_ex_iff)
  finally show ?thesis
    using Cons set hd_mergeLoop [of r rest] mergeLoop_separated [of r rest]
    by (auto simp: mergeSorted_def rangesCheck_def Let_def)
qed

theorem merge_keeps_values_witness:
  "rangesCheck (fst (Merge [NewRange 5 9, NewRange 0 (3 :: 8 word), NewRange 4 4])) 7 = True"
  using merge_keeps_values [of "sort_key rangeStart [NewRange 5 9, NewRange 0 3, NewRange 4 4]"
      "[NewRange 5 9, NewRange 0 3, NewRange 4 (4 :: 8 word)]" 7]
  by (simp add: Merge_def NewRange_valid rangesCheck_def rangeContains_def NewRange_def validRange_def)

subsection \<open>Parsing\<close>

lemma no_char_showNat: "\<not> isDigit c \<Longrightarrow> c \<notin> set (showNat n)"
  using showNat_digits [of n] by blast

lemma parseUnsigned_showNat: "n < 2 ^ 64 \<Longrightarrow> parseUnsigned (showNat n) = Inr (word_of_nat n)"
  by (simp add: parseUnsigned_def parseUint_showNat)

lemma bound_showNat:
  "n < 2 ^ 64 \<Longrightarrow> parseUnsigned (trimSet {CHR ''['', CHR '' '', CHR '']''} (showNat n)) = Inr (word_of_nat n)"
proof -
  assume n: "n < 2 ^ 64"
  have "set (showNat n) \<inter> {CHR ''['', CHR '' '', CHR '']''} = {}"
    using no_char_showNat [of "CHR ''[''" n] no_char_showNat [of "CHR '']''" n] no_char_showNat [of "CHR '' ''" n]
    by (auto simp: isDigit_def)
  then show ?thesis using n by (simp add: trimSet_keeps parseUnsigned_showNat)
qed

lemma split_showNat: "splitAt ''-'' [] (showNat n) = [showNat n]"
  using splitAt_skip [of "CHR ''-''" "showNat n" "[]" "[]"] no_char_showNat [of "CHR ''-''" n] by (simp add: isDigit_def)

lemma split_showNat2: "splitAt ''-'' [] (showNat n @ ''-'' @ showNat k) = [showNat n, showNat k]"
  using splitAt_skip [of "CHR ''-''" "showNat n" "[]" "''-'' @ showNat k"] no_char_showNat [of "CHR ''-''" n]
  by (simp add: isDigit_def splitAt_char split_showNat)

lemma trimSpaces_showNat: "trimSpaces (showNat n) = showNat n"
  by (rule trimSpaces_graph) (simp add: isDigit_isGraph hd_showNat last_showNat)

lemma newIntRange_number:
  "n < 2 ^ 64 \<Longrightarrow> newIntRange parseUnsigned (showNat n) = Inr (NewRange (word_of_nat n) (word_of_nat n))"
  by (simp add: newIntRange_def Let_def trimSpaces_showNat split_showNat bound_showNat showNat_nonempty)

lemma rangeString_ends:
  "rangeString r \<noteq> []" "isDigit (hd (rangeString r))" "isDigit (last (rangeString r))"
  "set (rangeString r) \<subseteq> insert (CHR ''-'') {c. isDigit c}"
  using showNat_digits by (auto simp: rangeString_def showNat_nonempty hd_showNat last_showNat)

lemma newIntRange_rangeString:
  fixes r :: "'w::len word range"
  assumes "validRange r" "LENGTH('w) \<le> 64"
  shows "newIntRange parseUnsigned (rangeString r) = Inr r"
proof -
  have small: "unat w < 2 ^ 64" for w :: "'w word"
  proof -
    have "unat w < 2 ^ LENGTH('w)" by (rule unsigned_less)
    also have "\<dots> \<le> 2 ^ 64" using assms(2) by (intro power_increasing) simp_all
    finally show ?thesis .
  qed
  have r: "NewRange (rangeStart r) (rangeEnd r) = r" using assms(1) by (simp add: NewRange_def validRange_def)
  show ?thesis
  proof (cases "rangeStart r = rangeEnd r")
    case True
    have "newIntRange parseUnsigned (showNat (unat (rangeStart r))) = Inr (NewRange (rangeStart r) (rangeStart r))"
      using newIntRange_number [OF small [of "rangeStart r"], where 'a = 'w] by simp
    then show ?thesis using True r by (simp add: rangeString_def)
  next
    case False
    then have s: "rangeString r = showNat (unat (rangeStart r)) @ ''-'' @ showNat (unat (rangeEnd r))"
      by (simp add: rangeString_def)
    have "trimSpaces (rangeString r) = rangeString r"
      by (rule trimSpaces_graph) (simp add: isDigit_isGraph rangeString_ends)
    then show ?thesis
      unfolding newIntRange_def s split_showNat2 Let_def using r
      by (simp add: split_showNat2 [simplified] bound_showNat [OF small] showNat_nonempty)
  qed
qed

lemma newIntRangesFromList_strings:
  fixes rs :: "'w::len ranges"
  shows "\<forall>r\<in>set rs. validRange r \<Longrightarrow> LENGTH('w) \<le> 64 \<Longrightarrow>
    newIntRangesFromList parseUnsigned (map rangeString rs) = Inr rs"
  by (induction rs) (simp_all add: rangeString_ends(1) newIntRange_rangeString)

text \<open>
  at most 28 ranges of a type of at most 64 bits are read back from their text.
\<close>

theorem ranges_round_trip:
  fixes rs :: "'w::len ranges"
  assumes "\<forall>r\<in>set rs. validRange r" "length rs \<le> 28" "LENGTH('w) \<le> 64"
  shows "NewUnsignedRanges (rangesString rs) = Inr rs"
proof (cases "rs = []")
  case True
  have "trimSpaces ''*'' = ''*''" by (rule trimSpaces_graph) (simp add: isGraph_def)
  then show ?thesis by (simp add: True rangesString_def NewUnsignedRanges_def newIntRanges_def)
next
  case False
  let ?ss = "map rangeString rs" and ?s = "rangesString rs"
  have s: "?s = joinStrings ''/'' ?ss" using False by (simp add: rangesString_def)
  have ne: "?ss \<noteq> []" and h: "hd ?ss = rangeString (hd rs)" and l: "last ?ss = rangeString (last rs)"
    using False by (simp_all add: hd_map last_map)
  have "hd ?s = hd (rangeString (hd rs))"
    using hd_joinStrings [OF ne, of "''/''"] rangeString_ends(1) unfolding s h by blast
  moreover have "last ?s = last (rangeString (last rs)) \<and> ?s \<noteq> []"
    using last_joinStrings [OF ne, of "''/''"] rangeString_ends(1) unfolding s l by blast
  ultimately have ends: "?s \<noteq> []" "isDigit (hd ?s)" "isDigit (last ?s)"
    by (simp_all add: rangeString_ends)
  have "set ?s \<subseteq> insert (CHR ''/'') (insert (CHR ''-'') {c. isDigit c})"
    unfolding s using set_joinStrings [of "''/''" ?ss] rangeString_ends(4) by fastforce
  then have "CHR '','' \<notin> set ?s" by (auto simp: isDigit_def)
  then have comma: "map (\<lambda>c. if c = CHR '','' then CHR ''/'' else c) ?s = ?s"
    by (intro map_idI) auto
  have "CHR ''/'' \<notin> set (rangeString r)" for r :: "'w word range"
    using rangeString_ends(4) [of r] by (auto simp: isDigit_def)
  then have split: "splitAt ''/'' [] ?s = ?ss"
    unfolding s using False by (intro splitAt_join) auto
  have "?s \<noteq> ''*''" using ends(2) by (auto simp: isDigit_def)
  moreover have "trimSpaces ?s = ?s" by (rule trimSpaces_graph) (simp add: isDigit_isGraph ends)
  ultimately show ?thesis
    using assms ends(1) newIntRangesFromList_strings [of rs]
    by (simp add: NewUnsignedRanges_def newIntRanges_def comma split Let_def)
qed

theorem ranges_round_trip_witness:
  "NewUnsignedRanges (rangesString [NewRange 80 80, NewRange 8000 (9000 :: 16 word)])
     = Inr [NewRange 80 80, NewRange 8000 (9000 :: 16 word)]"
  by (rule ranges_round_trip) (simp_all add: NewRange_valid)

text \<open>
  a number that does not fit the type of the ranges is not rejected but loses its high bits: as
  long as it has 64 bits at most, it stands for its remainder.
\<close>

theorem range_bound_wraps:
  assumes "n < 2 ^ 64"
  shows "NewUnsignedRanges (showNat n) = Inr [NewRange (word_of_nat n) (word_of_nat n :: 'w::len word)]"
proof -
  have "splitAt ''/'' [] (showNat n) = [showNat n]"
    using splitAt_skip [of "CHR ''/''" "showNat n" "[]" "[]"] no_char_showNat [of "CHR ''/''" n] by (simp add: isDigit_def)
  moreover have "map (\<lambda>c. if c = CHR '','' then CHR ''/'' else c) (showNat n) = showNat n"
    using no_char_showNat [of "CHR '',''" n] by (intro map_idI) (auto simp: isDigit_def)
  moreover have "showNat n \<noteq> ''*''" using hd_showNat [of n] by (auto simp: isDigit_def)
  ultimately show ?thesis using assms
    by (simp add: NewUnsignedRanges_def newIntRanges_def trimSpaces_showNat showNat_nonempty newIntRange_number Let_def)
qed

theorem range_bound_wraps_witness:
  "NewUnsignedRanges (showNat 65616) = Inr [NewRange 80 (80 :: 16 word)]"
proof -
  have eq: "word_of_nat 65616 = (80 :: 16 word)" by simp
  show ?thesis using range_bound_wraps [of 65616, where 'w = 16] unfolding eq by simp
qed

end
