(* ===== verification/Wildcard.thy ===== *)
theory Wildcard
  imports GoText
begin

text \<open>
  Matching with wildcards (\<^verbatim>\<open>mihomo/component/wildcard/wildcard.go\<close>).  The labels of the code's
  loop are functions; \<open>star\<close> is the position of the last star, \<open>None\<close> for the code's -1.  The
  loop is a partial function: that it ends is part of the theorem.
\<close>

subsection \<open>The code\<close>

function checkPattern :: "string \<Rightarrow> nat \<Rightarrow> bool" where
  "checkPattern pattern i =
     (if i < length pattern \<and> pattern ! i = CHR ''*'' then checkPattern pattern (i + 1)
      else i = length pattern)"
  by pat_completeness auto
termination
  by (relation "measure (\<lambda>(pattern, i). length pattern - i)") auto

declare checkPattern.simps [simp del]

partial_function (option) wildcardLoop :: "string \<Rightarrow> string \<Rightarrow> nat \<Rightarrow> nat \<Rightarrow> nat option \<Rightarrow> nat \<Rightarrow> bool option" where
  "wildcardLoop pattern s i j star lastStar =
     (if j \<ge> length s then Some (checkPattern pattern i)
      else if i \<ge> length pattern then
        (case star of
           Some k \<Rightarrow> wildcardLoop pattern s (k + 1) (lastStar + 1) star (lastStar + 1)
         | None \<Rightarrow> Some False)
      else if pattern ! i = CHR ''?'' then wildcardLoop pattern s (i + 1) (j + 1) star lastStar
      else if pattern ! i = CHR ''*'' then wildcardLoop pattern s (i + 1) j (Some i) j
      else if pattern ! i \<noteq> s ! j then
        (case star of
           Some k \<Rightarrow> wildcardLoop pattern s (k + 1) (lastStar + 1) star (lastStar + 1)
         | None \<Rightarrow> Some False)
      else wildcardLoop pattern s (i + 1) (j + 1) star lastStar)"

definition matchByString :: "string \<Rightarrow> string \<Rightarrow> bool option" where
  "matchByString pattern s = wildcardLoop pattern s 0 0 None 0"

definition wildcardMatch :: "string \<Rightarrow> string \<Rightarrow> bool option" where
  "wildcardMatch pattern s =
     (if pattern = [] then Some (s = pattern)
      else if pattern = ''*'' \<or> s = pattern then Some True
      else matchByString pattern s)"

subsection \<open>The reference\<close>

text \<open>A star stands for any text, a question mark for any byte.\<close>

fun glob :: "string \<Rightarrow> string \<Rightarrow> bool" where
  "glob [] s \<longleftrightarrow> s = []"
| "glob (x # p) s \<longleftrightarrow>
     (if x = CHR ''*'' then glob p s \<or> (case s of [] \<Rightarrow> False | c # s' \<Rightarrow> glob (x # p) s')
      else (case s of [] \<Rightarrow> False | c # s' \<Rightarrow> (x = CHR ''?'' \<or> x = c) \<and> glob p s'))"

lemma glob_byte:
  "x \<noteq> CHR ''*'' \<Longrightarrow> glob (x # p) [] \<longleftrightarrow> False"
  "x \<noteq> CHR ''*'' \<Longrightarrow> glob (x # p) (c # s) \<longleftrightarrow> (x = CHR ''?'' \<or> x = c) \<and> glob p s"
  by simp_all

lemma glob_star: "glob (CHR ''*'' # p) s \<longleftrightarrow> (\<exists>n. glob p (drop n s))"
proof (induction s)
  case (Cons c s)
  have "(\<exists>n. glob p (drop n (c # s))) \<longleftrightarrow> glob p (c # s) \<or> (\<exists>n. glob p (drop n s))"
    by (metis drop0 drop_Suc_Cons not0_implies_Suc)
  then show ?case using Cons by simp
qed simp

declare glob.simps(2) [simp del]

lemma glob_self: "glob p p"
proof (induction p)
  case (Cons x p)
  then show ?case
    by (cases "x = CHR ''*''") (auto simp: glob_byte glob_star intro: exI [of _ 1])
qed simp

lemma glob_Nil: "glob p [] \<longleftrightarrow> set p \<subseteq> {CHR ''*''}"
proof (induction p)
  case (Cons x p)
  then show ?case by (cases "x = CHR ''*''") (auto simp: glob_byte glob_star)
qed simp

subsection \<open>Segments without a star\<close>

fun fits :: "string \<Rightarrow> string \<Rightarrow> bool" where
  "fits [] v \<longleftrightarrow> v = []"
| "fits (x # seg) v \<longleftrightarrow>
     (case v of [] \<Rightarrow> False | c # v' \<Rightarrow> x \<noteq> CHR ''*'' \<and> (x = CHR ''?'' \<or> x = c) \<and> fits seg v')"

lemma fits_Nil2 [simp]: "fits seg [] \<longleftrightarrow> seg = []"
  by (cases seg) simp_all

lemma fits_snoc: "fits (seg @ [x]) (v @ [c]) \<longleftrightarrow> fits seg v \<and> x \<noteq> CHR ''*'' \<and> (x = CHR ''?'' \<or> x = c)"
proof (induction seg arbitrary: v)
  case Nil
  then show ?case by (cases v) (auto split: list.split)
next
  case (Cons y seg)
  then show ?case by (cases v) (auto split: list.splits)
qed

lemma fits_length: "fits seg v \<Longrightarrow> length seg = length v"
  by (induction seg v rule: fits.induct) (auto split: list.splits)

lemma glob_fits: "fits seg v \<Longrightarrow> glob (seg @ p) (v @ t) \<longleftrightarrow> glob p t"
proof (induction seg arbitrary: v)
  case (Cons x seg)
  then show ?case by (cases v) (auto simp: glob_byte)
qed simp

lemma fits_no_star: "fits seg v \<Longrightarrow> CHR ''*'' \<notin> set seg"
  by (induction seg v rule: fits.induct) (auto split: list.splits)

lemma glob_segment:
  "CHR ''*'' \<notin> set seg \<Longrightarrow> glob (seg @ p) t \<longleftrightarrow>
     length seg \<le> length t \<and> fits seg (take (length seg) t) \<and> glob p (drop (length seg) t)"
proof (induction seg arbitrary: t)
  case (Cons x seg)
  then have x: "x \<noteq> CHR ''*''" by auto
  show ?case
  proof (cases t)
    case (Cons c t')
    then show ?thesis using x Cons.IH [of t'] Cons.prems by (simp add: glob_byte) blast
  qed (use x in \<open>simp add: glob_byte\<close>)
qed simp

lemma checkPattern_stars: "i \<le> length pattern \<Longrightarrow> checkPattern pattern i \<longleftrightarrow> set (drop i pattern) \<subseteq> {CHR ''*''}"
proof (induction pattern i rule: checkPattern.induct)
  case (1 pattern i)
  show ?case
  proof (cases "i < length pattern")
    case True
    then have "drop i pattern = pattern ! i # drop (i + 1) pattern" by (simp add: Cons_nth_drop_Suc)
    then show ?thesis using 1 True by (subst checkPattern.simps) auto
  qed (use 1 in \<open>subst checkPattern.simps, simp\<close>)
qed

text \<open>A text is tried from its start first: a failure there leaves the later starts.\<close>

lemma later_starts:
  "t \<noteq> [] \<Longrightarrow> \<not> glob q t \<Longrightarrow> (\<exists>n. glob q (drop n t)) \<longleftrightarrow> (\<exists>n. glob q (drop n (tl t)))"
  by (metis drop0 drop_Suc not0_implies_Suc)

text \<open>
  What is between two stars may be matched where it is found first.
\<close>

lemma first_match:
  assumes "fits seg v"
  shows "(\<exists>n. glob (seg @ CHR ''*'' # p) (drop n (v @ t))) \<longleftrightarrow> (\<exists>n. glob p (drop n t))"
proof
  assume "\<exists>n. glob (seg @ CHR ''*'' # p) (drop n (v @ t))"
  then obtain n where "glob (CHR ''*'' # p) (drop (length seg) (drop n (v @ t)))"
    using glob_segment [OF fits_no_star [OF assms]] by blast
  then obtain k where "glob p (drop k (drop (length seg) (drop n (v @ t))))" unfolding glob_star by blast
  moreover have "drop (length seg) (drop n (v @ t)) = drop n (drop (length seg) (v @ t))"
    by (simp only: drop_drop add.commute)
  moreover have "drop (length seg) (v @ t) = t" using fits_length [OF assms] by simp
  ultimately have "glob p (drop k (drop n t))" by (simp only:)
  then show "\<exists>n. glob p (drop n t)" by (auto simp: add.commute)
next
  assume "\<exists>n. glob p (drop n t)"
  then have "glob (seg @ CHR ''*'' # p) (drop 0 (v @ t))"
    using glob_fits [OF assms, of "CHR ''*'' # p" t] glob_star by simp
  then show "\<exists>n. glob (seg @ CHR ''*'' # p) (drop n (v @ t))" by blast
qed

text \<open>
  The loop after a star: \<open>seg\<close> is the pattern between the star and the current position, \<open>v\<close>
  the text it has been matched with.
\<close>

lemma wildcardLoop_star:
  assumes "pattern = pre @ CHR ''*'' # seg @ p" "s = u @ v @ t" "fits seg v"
  shows "wildcardLoop pattern s (length pre + 1 + length seg) (length u + length v) (Some (length pre)) (length u)
    = Some (\<exists>n. glob (seg @ p) (drop n (v @ t)))"
  using assms
proof (induction "(length (v @ t), length (seg @ p), length t)" arbitrary: pre seg p u v t
    rule: wf_induct_rule [OF wf_lex_prod [OF wf_less_than wf_lex_prod [OF wf_less_than wf_less_than]]])
  case (1 seg p v t pre u)
  let ?i = "length pre + 1 + length seg" and ?j = "length u + length v"
  have len: "length seg = length v" by (rule fits_length [OF "1.prems"(3)])
  have restart: "wildcardLoop pattern s (length pre + 1) (length u + 1) (Some (length pre)) (length u + 1)
      = Some (\<exists>n. glob (seg @ p) (drop n (v @ t)))" if t: "t \<noteq> []" and fail: "\<not> glob (seg @ p) (v @ t)"
  proof -
    have "wildcardLoop pattern s (length pre + 1 + length ([] :: string)) (length (u @ [hd (v @ t)]) + length ([] :: string)) (Some (length pre))
        (length (u @ [hd (v @ t)])) = Some (\<exists>n. glob ([] @ (seg @ p)) (drop n ([] @ tl (v @ t))))"
      using "1.prems"(1,2) t by (intro "1.hyps") (auto simp: neq_Nil_conv)
    then show ?thesis using later_starts [OF _ fail] t by simp
  qed
  show ?case
  proof (cases t)
    case Nil
    have "(\<exists>n. glob (seg @ p) (drop n v)) \<longleftrightarrow> glob p []"
    proof
      assume "\<exists>n. glob (seg @ p) (drop n v)"
      then obtain n where "length seg \<le> length (drop n v)" "glob p (drop (length seg) (drop n v))"
        using glob_segment [OF fits_no_star [OF "1.prems"(3)]] by blast
      then show "glob p []" using len by simp
    next
      assume "glob p []"
      then show "\<exists>n. glob (seg @ p) (drop n v)" using glob_fits [OF "1.prems"(3), of p "[]"] by (intro exI [of _ 0]) simp
    qed
    moreover have "checkPattern pattern ?i \<longleftrightarrow> glob p []"
      using "1.prems"(1) by (simp add: checkPattern_stars glob_Nil)
    ultimately show ?thesis
      using "1.prems"(2) Nil by (subst wildcardLoop.simps) simp
  next
    case t: (Cons c t')
    have j: "\<not> ?j \<ge> length s" "s ! ?j = c" using "1.prems"(2) t by (simp_all add: nth_append)
    show ?thesis
    proof (cases p)
      case Nil
      have "\<not> glob (seg @ p) (v @ t)" using glob_fits [OF "1.prems"(3), of p t] Nil t by simp
      from restart [OF _ this] show ?thesis
        using j "1.prems"(1) Nil t by (subst wildcardLoop.simps) simp
    next
      case p: (Cons x p')
      have i: "\<not> ?i \<ge> length pattern" "pattern ! ?i = x" using "1.prems"(1) p by (simp_all add: nth_append)
      have shift: "wildcardLoop pattern s (?i + 1) (?j + 1) (Some (length pre)) (length u)
          = Some (\<exists>n. glob (seg @ p) (drop n (v @ t)))" if "x \<noteq> CHR ''*''" "x = CHR ''?'' \<or> x = c"
      proof -
        have "wildcardLoop pattern s (length pre + 1 + length (seg @ [x])) (length u + length (v @ [c])) (Some (length pre)) (length u)
            = Some (\<exists>n. glob ((seg @ [x]) @ p') (drop n ((v @ [c]) @ t')))"
          using "1.prems" t p that by (intro "1.hyps") (auto simp: fits_snoc)
        then show ?thesis using p t by simp
      qed
      consider "x = CHR ''?''" | "x = CHR ''*''" | "x \<noteq> CHR ''?''" "x \<noteq> CHR ''*''" "x \<noteq> c" | "x \<noteq> CHR ''?''" "x \<noteq> CHR ''*''" "x = c"
        by blast
      then show ?thesis
      proof cases
        case 2
        have "wildcardLoop pattern s (length (pre @ CHR ''*'' # seg) + 1 + length ([] :: string)) (length (u @ v) + length ([] :: string))
            (Some (length (pre @ CHR ''*'' # seg))) (length (u @ v)) = Some (\<exists>n. glob ([] @ p') (drop n ([] @ t)))"
          using "1.prems"(1,2) t p 2 by (intro "1.hyps") auto
        moreover have "(\<exists>n. glob (seg @ p) (drop n (v @ t))) \<longleftrightarrow> (\<exists>n. glob p' (drop n t))"
          unfolding p 2 by (rule first_match [OF "1.prems"(3)])
        ultimately show ?thesis using i j 2 by (subst wildcardLoop.simps) (simp add: add.commute)
      next
        case 3
        have "\<not> glob (seg @ p) (v @ t)" using glob_fits [OF "1.prems"(3), of p t] 3 p t by (simp add: glob_byte)
        from restart [OF _ this] show ?thesis using i j 3 t by (subst wildcardLoop.simps) simp
      qed (use i j shift in \<open>subst wildcardLoop.simps, simp\<close>)+
    qed
  qed
qed

lemma wildcardLoop_start:
  assumes "pattern = seg @ p" "s = v @ t" "fits seg v"
  shows "wildcardLoop pattern s (length seg) (length v) None 0 = Some (glob p t)"
  using assms
proof (induction t arbitrary: seg p v)
  case Nil
  then show ?case by (subst wildcardLoop.simps) (simp add: checkPattern_stars glob_Nil)
next
  case (Cons c t)
  have j: "\<not> length v \<ge> length s" "s ! length v = c" using Cons.prems(2) by simp_all
  show ?case
  proof (cases p)
    case Nil
    then show ?thesis using j Cons.prems(1) by (subst wildcardLoop.simps) simp
  next
    case p: (Cons x p')
    have i: "\<not> length seg \<ge> length pattern" "pattern ! length seg = x" using Cons.prems(1) p by simp_all
    consider "x = CHR ''*''" | "x \<noteq> CHR ''*''" "x = CHR ''?'' \<or> x = c" | "x \<noteq> CHR ''*''" "\<not> (x = CHR ''?'' \<or> x = c)" by blast
    then show ?thesis
    proof cases
      case 1
      have "wildcardLoop pattern s (length seg + 1 + length ([] :: string)) (length v + length ([] :: string)) (Some (length seg)) (length v)
          = Some (\<exists>n. glob ([] @ p') (drop n ([] @ c # t)))"
        using Cons.prems p 1 by (intro wildcardLoop_star) auto
      then show ?thesis using i j 1 by (subst wildcardLoop.simps) (simp add: p glob_star)
    next
      case 2
      have "wildcardLoop pattern s (length (seg @ [x])) (length (v @ [c])) None 0 = Some (glob p' t)"
        using Cons.prems p 2 by (intro Cons.IH) (auto simp: fits_snoc)
      then show ?thesis using i j 2 by (subst wildcardLoop.simps) (auto simp: p glob_byte)
    next
      case 3
      then show ?thesis using i j by (subst wildcardLoop.simps) (auto simp: p glob_byte)
    qed
  qed
qed

text \<open>
  C13: matching a text against a pattern ends, and succeeds exactly when the pattern, its stars
  standing for any text and its question marks for any byte, describes the text.
\<close>

theorem wildcard_equals_glob: "wildcardMatch pattern s = Some (glob pattern s)"
proof -
  have "wildcardLoop pattern s (length ([] :: string)) (length ([] :: string)) None 0 = Some (glob pattern s)"
    by (rule wildcardLoop_start [of pattern "[]" pattern s "[]" s]) simp_all
  moreover have "glob ''*'' s" using glob_star [of "[]" s] by (metis drop_all glob.simps(1) order_refl)
  ultimately show ?thesis by (auto simp: wildcardMatch_def matchByString_def glob_self)
qed

end
