(* ===== verification/Metadata.thy ===== *)
theory Metadata
  imports GoText
begin

text \<open>
  The metadata of a connection (\<^verbatim>\<open>mihomo/constant/metadata.go\<close>) and the kinds of rules
  (\<^verbatim>\<open>mihomo/constant/rule.go\<close>).  An address of \<^verbatim>\<open>net/netip\<close> is its bytes, with the
  zone of an IPv6 address.
\<close>

datatype (plugins only: code size) addr = NoAddr | Addr4 "8 word list" | Addr6 "8 word list" string

definition IsValid :: "addr \<Rightarrow> bool" where
  "IsValid ip \<longleftrightarrow> ip \<noteq> NoAddr"

definition Is4 :: "addr \<Rightarrow> bool" where
  "Is4 ip \<longleftrightarrow> (case ip of Addr4 bs \<Rightarrow> True | _ \<Rightarrow> False)"

definition AsSlice :: "addr \<Rightarrow> 8 word list" where
  "AsSlice ip = (case ip of NoAddr \<Rightarrow> [] | Addr4 bs \<Rightarrow> bs | Addr6 bs zone \<Rightarrow> bs)"

definition WithoutZone :: "addr \<Rightarrow> addr" where
  "WithoutZone ip = (case ip of Addr6 bs zone \<Rightarrow> Addr6 bs [] | _ \<Rightarrow> ip)"

text \<open>\<^verbatim>\<open>Unmap\<close> turns an IPv4-mapped IPv6 address into the IPv4 address.\<close>

definition Unmap :: "addr \<Rightarrow> addr" where
  "Unmap ip =
     (case ip of
        Addr6 bs zone \<Rightarrow> if take 12 bs = replicate 10 0 @ [0xFF, 0xFF] then Addr4 (drop 12 bs) else ip
      | _ \<Rightarrow> ip)"

datatype (plugins only: code size) network = TCP | UDP | ALLNet | InvalidNet

definition networkString :: "network \<Rightarrow> string" where
  "networkString n = (case n of TCP \<Rightarrow> ''tcp'' | UDP \<Rightarrow> ''udp'' | ALLNet \<Rightarrow> ''all'' | InvalidNet \<Rightarrow> ''invalid'')"

datatype (plugins only: code size) inbound = HTTP | HTTPS | SOCKS4 | SOCKS5 | SHADOWSOCKS | SNELL | VMESS | VLESS | REDIR | TPROXY
  | TROJAN | TUNNEL | TUN | TUIC | HYSTERIA2 | ANYTLS | MIERU | SUDOKU | TRUSTTUNNEL | SHADOWQUIC | INNER

definition typeString :: "inbound \<Rightarrow> string" where
  "typeString t =
     (case t of HTTP \<Rightarrow> ''HTTP'' | HTTPS \<Rightarrow> ''HTTPS'' | SOCKS4 \<Rightarrow> ''Socks4'' | SOCKS5 \<Rightarrow> ''Socks5''
      | SHADOWSOCKS \<Rightarrow> ''ShadowSocks'' | SNELL \<Rightarrow> ''Snell'' | VMESS \<Rightarrow> ''Vmess'' | VLESS \<Rightarrow> ''Vless''
      | REDIR \<Rightarrow> ''Redir'' | TPROXY \<Rightarrow> ''TProxy'' | TROJAN \<Rightarrow> ''Trojan'' | TUNNEL \<Rightarrow> ''Tunnel''
      | TUN \<Rightarrow> ''Tun'' | TUIC \<Rightarrow> ''Tuic'' | HYSTERIA2 \<Rightarrow> ''Hysteria2'' | ANYTLS \<Rightarrow> ''AnyTLS''
      | MIERU \<Rightarrow> ''Mieru'' | SUDOKU \<Rightarrow> ''Sudoku'' | TRUSTTUNNEL \<Rightarrow> ''TrustTunnel''
      | SHADOWQUIC \<Rightarrow> ''ShadowQuic'' | INNER \<Rightarrow> ''Inner'')"

definition inboundNames :: "(string \<times> inbound) list" where
  "inboundNames =
     [(''HTTP'', HTTP), (''HTTPS'', HTTPS), (''SOCKS4'', SOCKS4), (''SOCKS5'', SOCKS5),
      (''SHADOWSOCKS'', SHADOWSOCKS), (''SNELL'', SNELL), (''VMESS'', VMESS), (''VLESS'', VLESS),
      (''REDIR'', REDIR), (''TPROXY'', TPROXY), (''TROJAN'', TROJAN), (''TUNNEL'', TUNNEL), (''TUN'', TUN),
      (''TUIC'', TUIC), (''HYSTERIA2'', HYSTERIA2), (''ANYTLS'', ANYTLS), (''MIERU'', MIERU),
      (''SUDOKU'', SUDOKU), (''TRUSTTUNNEL'', TRUSTTUNNEL), (''SHADOWQUIC'', SHADOWQUIC), (''INNER'', INNER)]"

definition ParseType :: "string \<Rightarrow> string + inbound" where
  "ParseType t = of_option ''unknown type'' (map_of inboundNames t)"

datatype (plugins only: code size) dns_mode = DNSNormal | DNSFakeIP | DNSMapping | DNSHosts

text \<open>
  A list of countries that was never queried is nil, which the code tells from an empty one.
\<close>

record metadata =
  NetWork :: network
  Type :: inbound
  SrcIP :: addr
  DstIP :: addr
  SrcGeoIP :: "string list option"
  DstGeoIP :: "string list option"
  SrcIPASN :: string
  DstIPASN :: string
  SrcPort :: "16 word"
  DstPort :: "16 word"
  InIP :: addr
  InPort :: "16 word"
  InName :: string
  InUser :: string
  RematchName :: string
  Host :: string
  DNSMode :: dns_mode
  Uid :: "32 word"
  Process :: string
  ProcessPath :: string
  SpecialProxy :: string
  SpecialRules :: string
  DSCP :: "8 word"
  SniffHost :: string

datatype (plugins only: code size) addr_type = AtypIPv4 | AtypDomainName | AtypIPv6

definition AddrType :: "metadata \<Rightarrow> addr_type" where
  "AddrType m =
     (if Host m \<noteq> [] \<or> \<not> IsValid (DstIP m) then AtypDomainName
      else if Is4 (DstIP m) then AtypIPv4 else AtypIPv6)"

definition Resolved :: "metadata \<Rightarrow> bool" where
  "Resolved m \<longleftrightarrow> IsValid (DstIP m)"

definition RuleHost :: "metadata \<Rightarrow> string" where
  "RuleHost m = (if length (SniffHost m) = 0 then Host m else SniffHost m)"

definition Pure :: "metadata \<Rightarrow> metadata" where
  "Pure m =
     (if (DNSMode m = DNSMapping \<or> DNSMode m = DNSHosts) \<and> IsValid (DstIP m) then m\<lparr>Host := []\<rparr> else m)"

definition Valid :: "metadata \<Rightarrow> bool" where
  "Valid m \<longleftrightarrow> Host m \<noteq> [] \<or> IsValid (DstIP m)"

definition SourceValid :: "metadata \<Rightarrow> bool" where
  "SourceValid m \<longleftrightarrow> SrcPort m \<noteq> 0 \<and> IsValid (SrcIP m)"

definition SwapSrcDst :: "metadata \<Rightarrow> metadata" where
  "SwapSrcDst m =
     m\<lparr>SrcIP := DstIP m, DstIP := SrcIP m, SrcPort := DstPort m, DstPort := SrcPort m,
       SrcIPASN := DstIPASN m, DstIPASN := SrcIPASN m, SrcGeoIP := DstGeoIP m, DstGeoIP := SrcGeoIP m\<rparr>"

lemma SwapSrcDst_twice [simp]: "SwapSrcDst (SwapSrcDst m) = m"
  by (simp add: SwapSrcDst_def)

subsection \<open>Kinds of rules\<close>

datatype (plugins only: code size) rule_type = TDomain | TDomainSuffix | TDomainKeyword | TDomainRegex | TDomainWildcard | TGEOSITE
  | TGEOIP | TSrcGEOIP | TIPASN | TSrcIPASN | TIPCIDR | TSrcIPCIDR | TIPSuffix | TSrcIPSuffix
  | TSrcPort | TDstPort | TInPort | TDSCP | TInUser | TInName | TInType
  | TProcessName | TProcessPath | TProcessNameRegex | TProcessPathRegex | TProcessNameWildcard | TProcessPathWildcard
  | TRematchName | TRuleSet | TNetwork | TUid | TSubRules | TMATCH | TAND | TOR | TNOT

definition ruleTypeString :: "rule_type \<Rightarrow> string" where
  "ruleTypeString rt =
     (case rt of
        TDomain \<Rightarrow> ''Domain'' | TDomainSuffix \<Rightarrow> ''DomainSuffix'' | TDomainKeyword \<Rightarrow> ''DomainKeyword''
      | TDomainRegex \<Rightarrow> ''DomainRegex'' | TDomainWildcard \<Rightarrow> ''DomainWildcard'' | TGEOSITE \<Rightarrow> ''GeoSite''
      | TGEOIP \<Rightarrow> ''GeoIP'' | TSrcGEOIP \<Rightarrow> ''SrcGeoIP'' | TIPASN \<Rightarrow> ''IPASN'' | TSrcIPASN \<Rightarrow> ''SrcIPASN''
      | TIPCIDR \<Rightarrow> ''IPCIDR'' | TSrcIPCIDR \<Rightarrow> ''SrcIPCIDR'' | TIPSuffix \<Rightarrow> ''IPSuffix''
      | TSrcIPSuffix \<Rightarrow> ''SrcIPSuffix'' | TSrcPort \<Rightarrow> ''SrcPort'' | TDstPort \<Rightarrow> ''DstPort''
      | TInPort \<Rightarrow> ''InPort'' | TInUser \<Rightarrow> ''InUser'' | TInName \<Rightarrow> ''InName'' | TInType \<Rightarrow> ''InType''
      | TProcessName \<Rightarrow> ''ProcessName'' | TProcessPath \<Rightarrow> ''ProcessPath''
      | TProcessNameRegex \<Rightarrow> ''ProcessNameRegex'' | TProcessPathRegex \<Rightarrow> ''ProcessPathRegex''
      | TProcessNameWildcard \<Rightarrow> ''ProcessNameWildcard'' | TProcessPathWildcard \<Rightarrow> ''ProcessPathWildcard''
      | TRematchName \<Rightarrow> ''RematchName'' | TMATCH \<Rightarrow> ''Match'' | TRuleSet \<Rightarrow> ''RuleSet''
      | TNetwork \<Rightarrow> ''Network'' | TDSCP \<Rightarrow> ''DSCP'' | TUid \<Rightarrow> ''Uid'' | TSubRules \<Rightarrow> ''SubRules''
      | TAND \<Rightarrow> ''AND'' | TOR \<Rightarrow> ''OR'' | TNOT \<Rightarrow> ''NOT'')"

end
