(* ===== verification/Rules.thy ===== *)
theory Rules
  imports Metadata Ranges Wildcard
begin

text \<open>
  The rules (\<^verbatim>\<open>mihomo/rules/common\<close>): their constructors and how each kind matches.

  What the rules take from elsewhere is the record \<open>rule_env\<close>: Unicode's case mapping, the regular
  expressions of \<^verbatim>\<open>regexp2\<close>, \<^verbatim>\<open>netip.ParsePrefix\<close> and \<^verbatim>\<open>Prefix.String\<close>, the geodata and MaxMind
  databases, and the rule providers.  Logging is left out.
\<close>

subsection \<open>State and helpers\<close>

text \<open>
  The metadata, and the two flags that the closures of \<^verbatim>\<open>resolveMetadata\<close> keep: whether the
  address has been looked up and whether the process has still to be looked up.
\<close>

record match_state =
  meta :: metadata
  resolved :: bool
  attemptProcessLookup :: bool

text \<open>A helper of the code may be nil.\<close>

record match_helper =
  ResolveIP :: "(match_state \<Rightarrow> match_state) option"
  FindProcess :: "(match_state \<Rightarrow> match_state) option"
  CheckPassRule :: "(match_state \<Rightarrow> string \<Rightarrow> bool) option"

definition callHelper :: "(match_state \<Rightarrow> match_state) option \<Rightarrow> match_state \<Rightarrow> match_state" where
  "callHelper h st = (case h of None \<Rightarrow> st | Some f \<Rightarrow> f st)"

record rule_env =
  toUpper :: "string \<Rightarrow> string"
  toLower :: "string \<Rightarrow> string"
  equalFold :: "string \<Rightarrow> string \<Rightarrow> bool"
  regexCompiles :: "string \<Rightarrow> bool"
  regexMatch :: "string \<Rightarrow> string \<Rightarrow> bool"
  parsePrefix :: "string \<Rightarrow> (addr \<times> nat) option"
  prefixString :: "addr \<Rightarrow> nat \<Rightarrow> string"
  isLan :: "addr \<Rightarrow> bool"
  geodataMode :: bool
  geoInit :: "rule_type \<Rightarrow> bool"
  geoIPMatcher :: "string \<Rightarrow> (addr \<Rightarrow> bool) option"
  geoSiteMatcher :: "string \<Rightarrow> (string \<Rightarrow> bool) option"
  lookupCode :: "8 word list \<Rightarrow> string list"
  lookupASN :: "8 word list \<Rightarrow> string \<times> string"
  onLinux :: bool
  ruleProvider :: "string \<Rightarrow> (match_helper \<Rightarrow> match_state \<Rightarrow> bool \<times> match_state) option"

subsection \<open>The rules\<close>

datatype (plugins only: code size) rule =
    Domain (domain: string) (adapter: string)
  | DomainSuffix string (adapter: string)
  | DomainKeyword string (adapter: string)
  | DomainRegex string (adapter: string)
  | DomainWildcard string (adapter: string)
  | GEOSITE string (adapter: string)
  | GEOIP string (adapter: string) (isSourceIP: bool) (noResolveIP: bool)
  | ASN string (adapter: string) (isSourceIP: bool) (noResolveIP: bool)
  | IPCIDR addr nat (adapter: string) (isSourceIP: bool) (noResolveIP: bool)
  | IPSuffix "8 word list" nat string (adapter: string) (isSourceIP: bool) (noResolveIP: bool)
  | Port rule_type "16 ranges" string (adapter: string)
  | DscpRule "8 ranges" string (adapter: string)
  | ProcessRule rule_type string (adapter: string)
  | NetworkType network (adapter: string)
  | UidRule "32 ranges" string (adapter: string)
  | InType "inbound list" string (adapter: string)
  | InUserRule "string list" string (adapter: string)
  | InNameRule "string list" string (adapter: string)
  | RematchNameRule "string list" string (adapter: string)
  | RuleSet string (adapter: string) (isSourceIP: bool) (noResolveIP: bool)
  | Match (adapter: string)
  | Logic rule_type string (adapter: string) "rule list"

definition RuleType :: "rule \<Rightarrow> rule_type" where
  "RuleType r =
     (case r of
        Domain _ _ \<Rightarrow> TDomain | DomainSuffix _ _ \<Rightarrow> TDomainSuffix | DomainKeyword _ _ \<Rightarrow> TDomainKeyword
      | DomainRegex _ _ \<Rightarrow> TDomainRegex | DomainWildcard _ _ \<Rightarrow> TDomainWildcard | GEOSITE _ _ \<Rightarrow> TGEOSITE
      | GEOIP _ _ src _ \<Rightarrow> (if src then TSrcGEOIP else TGEOIP)
      | ASN _ _ src _ \<Rightarrow> (if src then TSrcIPASN else TIPASN)
      | IPCIDR _ _ _ src _ \<Rightarrow> (if src then TSrcIPCIDR else TIPCIDR)
      | IPSuffix _ _ _ _ src _ \<Rightarrow> (if src then TSrcIPSuffix else TIPSuffix)
      | Port t _ _ _ \<Rightarrow> t | DscpRule _ _ _ \<Rightarrow> TDSCP | ProcessRule t _ _ \<Rightarrow> t | NetworkType _ _ \<Rightarrow> TNetwork
      | UidRule _ _ _ \<Rightarrow> TUid | InType _ _ _ \<Rightarrow> TInType | InUserRule _ _ _ \<Rightarrow> TInUser
      | InNameRule _ _ _ \<Rightarrow> TInName | RematchNameRule _ _ _ \<Rightarrow> TRematchName | RuleSet _ _ _ _ \<Rightarrow> TRuleSet
      | Match _ \<Rightarrow> TMATCH | Logic t _ _ _ \<Rightarrow> t)"

fun Payload :: "rule_env \<Rightarrow> rule \<Rightarrow> string" where
  "Payload env (Logic t payload _ rules) =
     (let shown = map (\<lambda>r. ''('' @ ruleTypeString (RuleType r) @ '','' @ Payload env r @ '')'') rules in
      if t = TNOT then ''(!'' @ hd shown @ '')''
      else if t = TOR then ''('' @ joinStrings '' || '' shown @ '')''
      else if t = TAND then ''('' @ joinStrings '' && '' shown @ '')''
      else payload)"
| "Payload env (IPCIDR ip bits _ _ _) = prefixString env ip bits"
| "Payload env (IPSuffix _ _ payload _ _ _) = payload"
| "Payload env (Port _ _ payload _) = payload"
| "Payload env (DscpRule _ payload _) = payload"
| "Payload env (UidRule _ payload _) = payload"
| "Payload env (InType _ payload _) = payload"
| "Payload env (InUserRule _ payload _) = payload"
| "Payload env (InNameRule _ payload _) = payload"
| "Payload env (RematchNameRule _ payload _) = payload"
| "Payload env (ProcessRule _ pattern _) = pattern"
| "Payload env (NetworkType n _) = networkString n"
| "Payload env (Match _) = []"
| "Payload env (Domain s _) = s"
| "Payload env (DomainSuffix s _) = s"
| "Payload env (DomainKeyword s _) = s"
| "Payload env (DomainRegex s _) = s"
| "Payload env (DomainWildcard s _) = s"
| "Payload env (GEOSITE s _) = s"
| "Payload env (GEOIP s _ _ _) = s"
| "Payload env (ASN s _ _ _) = s"
| "Payload env (RuleSet s _ _ _) = s"

fun ProviderNames :: "rule \<Rightarrow> string list" where
  "ProviderNames (RuleSet name _ _ _) = [name]"
| "ProviderNames (Logic _ _ _ rules) = concat (map ProviderNames rules)"
| "ProviderNames _ = []"

subsection \<open>Constructors\<close>

definition NewDomain :: "rule_env \<Rightarrow> string \<Rightarrow> string \<Rightarrow> rule" where
  "NewDomain env s ad = Domain (toLower env s) ad"

definition NewDomainSuffix :: "rule_env \<Rightarrow> string \<Rightarrow> string \<Rightarrow> rule" where
  "NewDomainSuffix env s ad = DomainSuffix (toLower env s) ad"

definition NewDomainKeyword :: "rule_env \<Rightarrow> string \<Rightarrow> string \<Rightarrow> rule" where
  "NewDomainKeyword env s ad = DomainKeyword (toLower env s) ad"

definition NewDomainRegex :: "rule_env \<Rightarrow> string \<Rightarrow> string \<Rightarrow> rule checked" where
  "NewDomainRegex env re ad = (if regexCompiles env re then Inr (DomainRegex re ad) else Inl ''invalid regexp'')"

definition NewDomainWildcard :: "rule_env \<Rightarrow> string \<Rightarrow> string \<Rightarrow> rule checked" where
  "NewDomainWildcard env s ad = Inr (DomainWildcard (toLower env s) ad)"

definition NewGEOSITE :: "rule_env \<Rightarrow> string \<Rightarrow> string \<Rightarrow> rule checked" where
  "NewGEOSITE env country ad =
     (if \<not> geoInit env TGEOSITE then Inl ''cannot initial GeoSite''
      else if geoSiteMatcher env country = None then Inl ''load GeoSite data error''
      else Inr (GEOSITE country ad))"

definition NewGEOIP :: "rule_env \<Rightarrow> string \<Rightarrow> string \<Rightarrow> bool \<Rightarrow> bool \<Rightarrow> rule checked" where
  "NewGEOIP env country ad isSrc noResolve =
     (let country = toLower env country; rule = GEOIP country ad isSrc noResolve in
      if country = ''lan'' then Inr rule
      else if \<not> geoInit env TGEOIP then Inl ''cannot initial GeoIP''
      else if geodataMode env \<and> geoIPMatcher env country = None then Inl ''[GeoIP]''
      else Inr rule)"

definition NewIPASN :: "rule_env \<Rightarrow> string \<Rightarrow> string \<Rightarrow> bool \<Rightarrow> bool \<Rightarrow> rule checked" where
  "NewIPASN env asn ad isSrc noResolve =
     (if geoInit env TIPASN then Inr (ASN asn ad isSrc noResolve) else Inl ''cannot initial ASN'')"

definition NewIPCIDR :: "rule_env \<Rightarrow> string \<Rightarrow> string \<Rightarrow> bool \<Rightarrow> bool \<Rightarrow> rule checked" where
  "NewIPCIDR env s ad isSrc noResolve =
     (case parsePrefix env s of
        None \<Rightarrow> Inl ''payloadRule error''
      | Some (ip, bits) \<Rightarrow> Inr (IPCIDR ip bits ad isSrc noResolve))"

definition NewIPSuffix :: "rule_env \<Rightarrow> string \<Rightarrow> string \<Rightarrow> bool \<Rightarrow> bool \<Rightarrow> rule checked" where
  "NewIPSuffix env s ad isSrc noResolve =
     (case parsePrefix env s of
        None \<Rightarrow> Inl ''payloadRule error''
      | Some (ip, bits) \<Rightarrow> Inr (IPSuffix (AsSlice ip) bits s ad isSrc noResolve))"

definition NewPort :: "string \<Rightarrow> string \<Rightarrow> rule_type \<Rightarrow> rule checked" where
  "NewPort port ad ruleType =
     rbind (NewUnsignedRanges port) (\<lambda>rs.
     if length rs = 0 then Inl ''payloadRule error'' else Inr (Port ruleType rs port ad))"

definition NewDSCP :: "string \<Rightarrow> string \<Rightarrow> rule checked" where
  "NewDSCP dscp ad =
     rbind (NewUnsignedRanges dscp) (\<lambda>rs.
     if list_ex (\<lambda>r. rangeEnd r > 63) rs then Inl ''DSCP couldnt be negative or exceed 63''
     else Inr (DscpRule rs dscp ad))"

definition NewProcess :: "rule_env \<Rightarrow> string \<Rightarrow> string \<Rightarrow> rule_type \<Rightarrow> rule checked" where
  "NewProcess env pattern ad ruleType =
     (if (ruleType = TProcessNameRegex \<or> ruleType = TProcessPathRegex) \<and> \<not> regexCompiles env pattern
      then Inl ''invalid regexp'' else Inr (ProcessRule ruleType pattern ad))"

definition NewNetworkType :: "rule_env \<Rightarrow> string \<Rightarrow> string \<Rightarrow> rule checked" where
  "NewNetworkType env n ad =
     (if toUpper env n = ''TCP'' then Inr (NetworkType TCP ad)
      else if toUpper env n = ''UDP'' then Inr (NetworkType UDP ad)
      else Inl ''unsupported network type, only TCP/UDP'')"

definition NewUid :: "rule_env \<Rightarrow> string \<Rightarrow> string \<Rightarrow> rule checked" where
  "NewUid env uid ad =
     (if \<not> onLinux env then Inl ''uid rule not support this platform''
      else
        rbind (NewUnsignedRanges uid) (\<lambda>rs.
        if length rs = 0 then Inl ''payloadRule error'' else Inr (UidRule rs uid ad)))"

fun trimNames :: "string list \<Rightarrow> string list checked" where
  "trimNames [] = Inr []"
| "trimNames (s # ss) =
     (if trimSpaces s = [] then Inl ''name couldnt be empty''
      else rbind (trimNames ss) (\<lambda>ts. Inr (trimSpaces s # ts)))"

definition NewInName :: "string \<Rightarrow> string \<Rightarrow> rule checked" where
  "NewInName names ad = rbind (trimNames (splitAt ''/'' [] names)) (\<lambda>ns. Inr (InNameRule ns names ad))"

definition NewInUser :: "string \<Rightarrow> string \<Rightarrow> rule checked" where
  "NewInUser names ad = rbind (trimNames (splitAt ''/'' [] names)) (\<lambda>ns. Inr (InUserRule ns names ad))"

definition NewRematchName :: "string \<Rightarrow> string \<Rightarrow> rule checked" where
  "NewRematchName names ad = rbind (trimNames (splitAt ''/'' [] names)) (\<lambda>ns. Inr (RematchNameRule ns names ad))"

fun parseInTypes :: "rule_env \<Rightarrow> string list \<Rightarrow> inbound list checked" where
  "parseInTypes env [] = Inr []"
| "parseInTypes env (tp # tps) =
     (let utp = toUpper env tp in
      if utp = ''SOCKS'' then rbind (parseInTypes env tps) (\<lambda>ts. Inr (SOCKS4 # SOCKS5 # ts))
      else rbind (ParseType utp) (\<lambda>t. rbind (parseInTypes env tps) (\<lambda>ts. Inr (t # ts))))"

definition NewInType :: "rule_env \<Rightarrow> string \<Rightarrow> string \<Rightarrow> rule checked" where
  "NewInType env types ad =
     rbind (trimNames (splitAt ''/'' [] types)) (\<lambda>tps.
     rbind (parseInTypes env tps) (\<lambda>ts. Inr (InType ts (toUpper env types) ad)))"

definition NewMatch :: "string \<Rightarrow> rule" where
  "NewMatch ad = Match ad"

definition NewRuleSet :: "string \<Rightarrow> string \<Rightarrow> bool \<Rightarrow> bool \<Rightarrow> rule checked" where
  "NewRuleSet name ad isSrc noResolve = Inr (RuleSet name ad isSrc noResolve)"

subsection \<open>Matching\<close>

text \<open>\<^verbatim>\<open>netip.Prefix.Contains\<close>: the bits of an address from its first byte on.\<close>

definition addrBits :: "8 word list \<Rightarrow> bool list" where
  "addrBits bs = concat (map (\<lambda>b. map (bit b) (rev [0..<8])) bs)"

definition prefixContains :: "addr \<Rightarrow> nat \<Rightarrow> addr \<Rightarrow> bool" where
  "prefixContains net bits ip \<longleftrightarrow>
     IsValid ip \<and> WithoutZone ip = ip \<and> length (AsSlice ip) = length (AsSlice net) \<and> Is4 ip = Is4 net
     \<and> take bits (addrBits (AsSlice ip)) = take bits (addrBits (AsSlice net))"

definition ipOf :: "bool \<Rightarrow> match_state \<Rightarrow> addr" where
  "ipOf isSrc st = (if isSrc then SrcIP (meta st) else DstIP (meta st))"

text \<open>The address of the destination is looked up unless the rule does not need it.\<close>

definition resolveFor :: "match_helper \<Rightarrow> bool \<Rightarrow> bool \<Rightarrow> match_state \<Rightarrow> match_state" where
  "resolveFor h isSrc noResolve st = (if \<not> noResolve \<and> \<not> isSrc then callHelper (ResolveIP h) st else st)"

text \<open>The comparison of the suffixes: \<open>i\<close> counts the whole bytes from the end.\<close>

fun suffixBytes :: "8 word list \<Rightarrow> 8 word list \<Rightarrow> nat \<Rightarrow> bool" where
  "suffixBytes xs ys 0 \<longleftrightarrow> True"
| "suffixBytes xs ys (Suc i) \<longleftrightarrow>
     xs ! (length ys - Suc i) = ys ! (length ys - Suc i) \<and> suffixBytes xs ys i"

definition ipSuffixMatch :: "8 word list \<Rightarrow> nat \<Rightarrow> 8 word list \<Rightarrow> bool" where
  "ipSuffixMatch ipBytes bits mIPBytes \<longleftrightarrow>
     length ipBytes = length mIPBytes \<and> suffixBytes ipBytes mIPBytes (bits div 8)
     \<and> (bits mod 8 \<noteq> 0 \<longrightarrow>
          (let k = length mIPBytes - bits div 8 - 1 in
           push_bit (8 - bits mod 8) (ipBytes ! k) = push_bit (8 - bits mod 8) (mIPBytes ! k)))"

definition contains :: "string list option \<Rightarrow> string \<Rightarrow> bool" where
  "contains xs x \<longleftrightarrow> (case xs of None \<Rightarrow> False | Some ys \<Rightarrow> x \<in> set ys)"

definition geoOf :: "bool \<Rightarrow> match_state \<Rightarrow> string list option" where
  "geoOf isSrc st = (if isSrc then SrcGeoIP (meta st) else DstGeoIP (meta st))"

definition setGeo :: "bool \<Rightarrow> string list \<Rightarrow> match_state \<Rightarrow> match_state" where
  "setGeo isSrc codes st =
     st\<lparr>meta := (if isSrc then meta st\<lparr>SrcGeoIP := Some codes\<rparr> else meta st\<lparr>DstGeoIP := Some codes\<rparr>)\<rparr>"

definition matchGEOIP :: "rule_env \<Rightarrow> string \<Rightarrow> string \<Rightarrow> bool \<Rightarrow> match_state \<Rightarrow> (bool \<times> string) \<times> match_state" where
  "matchGEOIP env country ad isSrc st =
     (let ip = ipOf isSrc st; geo = geoOf isSrc st in
      if \<not> IsValid ip then ((False, []), st)
      else if country = ''lan'' then ((isLan env ip, ad), st)
      else if geodataMode env then
        if contains geo country then ((True, ad), st)
        else
          (case geoIPMatcher env country of
             None \<Rightarrow> ((False, []), st)
           | Some matcher \<Rightarrow>
               if matcher ip then ((True, ad), setGeo isSrc ((case geo of None \<Rightarrow> [] | Some cs \<Rightarrow> cs) @ [country]) st)
               else ((False, ad), st))
      else
        (case geo of
           Some cs \<Rightarrow> ((country \<in> set cs, ad), st)
         | None \<Rightarrow>
             let codes = lookupCode env (AsSlice ip); st = setGeo isSrc codes st in
             if country \<in> set codes then ((True, ad), st) else ((False, []), st)))"

definition matchASN :: "rule_env \<Rightarrow> string \<Rightarrow> string \<Rightarrow> bool \<Rightarrow> match_state \<Rightarrow> (bool \<times> string) \<times> match_state" where
  "matchASN env asn ad isSrc st =
     (let ip = ipOf isSrc st in
      if \<not> IsValid ip then ((False, []), st)
      else
        let (a, aso) = lookupASN env (AsSlice ip); txt = a @ '' '' @ aso;
            m = (if isSrc then meta st\<lparr>SrcIPASN := txt\<rparr> else meta st\<lparr>DstIPASN := txt\<rparr>) in
        ((asn = a, ad), st\<lparr>meta := m\<rparr>))"

definition processTarget :: "rule_type \<Rightarrow> metadata \<Rightarrow> string" where
  "processTarget t m =
     (if t \<in> {TProcessName, TProcessNameRegex, TProcessNameWildcard} then Process m else ProcessPath m)"

text \<open>The wildcard matcher returns a result on all inputs.\<close>

definition matchProcess :: "rule_env \<Rightarrow> rule_type \<Rightarrow> string \<Rightarrow> metadata \<Rightarrow> bool" where
  "matchProcess env t pattern m =
     (let target = processTarget t m in
      if t = TProcessNameRegex \<or> t = TProcessPathRegex then regexMatch env pattern target
      else if t = TProcessNameWildcard \<or> t = TProcessPathWildcard
      then wildcardMatch (toLower env pattern) (toLower env target) = Some True
      else equalFold env target pattern)"

definition portOf :: "rule_type \<Rightarrow> metadata \<Rightarrow> 16 word" where
  "portOf t m = (if t = TInPort then InPort m else if t = TSrcPort then SrcPort m else DstPort m)"

definition found :: "bool \<Rightarrow> string \<Rightarrow> bool \<times> string" where
  "found b ad = (if b then (True, ad) else (False, []))"

definition matchRuleSet :: "rule_env \<Rightarrow> match_helper \<Rightarrow> rule \<Rightarrow> match_state \<Rightarrow> (bool \<times> string) \<times> match_state" where
  "matchRuleSet env h r st =
     (case r of
        RuleSet name ad isSrc noResolve \<Rightarrow>
          (case ruleProvider env name of
             None \<Rightarrow> ((False, []), st)
           | Some provider \<Rightarrow>
               let swap = (if isSrc then (\<lambda>st. st\<lparr>meta := SwapSrcDst (meta st)\<rparr>) else id);
                   h = (if isSrc \<or> noResolve then h\<lparr>ResolveIP := None\<rparr> else h);
                   (b, st) = provider h (swap st) in
               ((b, ad), swap st))
      | _ \<Rightarrow> ((False, []), st))"

type_synonym match_result = "(bool \<times> string) \<times> match_state"

definition matchDomain :: "string \<Rightarrow> string \<Rightarrow> match_state \<Rightarrow> match_result" where
  "matchDomain s ad st = ((RuleHost (meta st) = s, ad), st)"

definition matchDomainSuffix :: "string \<Rightarrow> string \<Rightarrow> match_state \<Rightarrow> match_result" where
  "matchDomainSuffix s ad st = (let host = RuleHost (meta st) in ((hasSuffix host (''.'' @ s) \<or> host = s, ad), st))"

definition matchDomainKeyword :: "string \<Rightarrow> string \<Rightarrow> match_state \<Rightarrow> match_result" where
  "matchDomainKeyword s ad st = ((containsString (RuleHost (meta st)) s, ad), st)"

definition matchDomainRegex :: "rule_env \<Rightarrow> string \<Rightarrow> string \<Rightarrow> match_state \<Rightarrow> match_result" where
  "matchDomainRegex env re ad st = ((regexMatch env re (RuleHost (meta st)), ad), st)"

definition matchDomainWildcard :: "string \<Rightarrow> string \<Rightarrow> match_state \<Rightarrow> match_result" where
  "matchDomainWildcard p ad st = ((wildcardMatch p (RuleHost (meta st)) = Some True, ad), st)"

definition matchGEOSITE :: "rule_env \<Rightarrow> string \<Rightarrow> string \<Rightarrow> match_state \<Rightarrow> match_result" where
  "matchGEOSITE env c ad st =
     (let host = RuleHost (meta st) in
      ((host \<noteq> [] \<and> (case geoSiteMatcher env c of None \<Rightarrow> False | Some f \<Rightarrow> f host), ad), st))"

definition matchIPCIDR :: "match_helper \<Rightarrow> addr \<Rightarrow> nat \<Rightarrow> string \<Rightarrow> bool \<Rightarrow> bool \<Rightarrow> match_state \<Rightarrow> match_result" where
  "matchIPCIDR h net bits ad isSrc noResolve st =
     (let st = resolveFor h isSrc noResolve st; ip = ipOf isSrc st in
      ((IsValid ip \<and> prefixContains net bits (WithoutZone ip), ad), st))"

definition matchIPSuffix :: "match_helper \<Rightarrow> 8 word list \<Rightarrow> nat \<Rightarrow> string \<Rightarrow> bool \<Rightarrow> bool \<Rightarrow> match_state \<Rightarrow> match_result" where
  "matchIPSuffix h bytes bits ad isSrc noResolve st =
     (let st = resolveFor h isSrc noResolve st in
      (found (ipSuffixMatch bytes bits (AsSlice (ipOf isSrc st))) ad, st))"

definition matchPort :: "rule_type \<Rightarrow> 16 ranges \<Rightarrow> string \<Rightarrow> match_state \<Rightarrow> match_result" where
  "matchPort t rs ad st = ((rangesCheck rs (portOf t (meta st)), ad), st)"

definition matchDSCP :: "8 ranges \<Rightarrow> string \<Rightarrow> match_state \<Rightarrow> match_result" where
  "matchDSCP rs ad st = ((rangesCheck rs (DSCP (meta st)), ad), st)"

definition matchProcessRule :: "rule_env \<Rightarrow> match_helper \<Rightarrow> rule_type \<Rightarrow> string \<Rightarrow> string \<Rightarrow> match_state \<Rightarrow> match_result" where
  "matchProcessRule env h t pattern ad st =
     (let st = callHelper (FindProcess h) st in ((matchProcess env t pattern (meta st), ad), st))"

definition matchNetworkType :: "network \<Rightarrow> string \<Rightarrow> match_state \<Rightarrow> match_result" where
  "matchNetworkType n ad st = ((n = NetWork (meta st), ad), st)"

definition matchUid :: "match_helper \<Rightarrow> 32 ranges \<Rightarrow> string \<Rightarrow> match_state \<Rightarrow> match_result" where
  "matchUid h rs ad st =
     (let st = callHelper (FindProcess h) st in
      (found (Uid (meta st) \<noteq> 0 \<and> rangesCheck rs (Uid (meta st))) ad, st))"

definition matchInType :: "inbound list \<Rightarrow> string \<Rightarrow> match_state \<Rightarrow> match_result" where
  "matchInType ts ad st = (found (Type (meta st) \<in> set ts) ad, st)"

definition matchInUser :: "string list \<Rightarrow> string \<Rightarrow> match_state \<Rightarrow> match_result" where
  "matchInUser names ad st = (found (InUser (meta st) \<in> set names) ad, st)"

definition matchInName :: "string list \<Rightarrow> string \<Rightarrow> match_state \<Rightarrow> match_result" where
  "matchInName names ad st = (found (InName (meta st) \<in> set names) ad, st)"

definition matchRematchName :: "string list \<Rightarrow> string \<Rightarrow> match_state \<Rightarrow> match_result" where
  "matchRematchName names ad st = (found (RematchName (meta st) \<in> set names) ad, st)"

definition matchFinal :: "string \<Rightarrow> match_state \<Rightarrow> match_result" where
  "matchFinal ad st = ((True, ad), st)"

text \<open>The call of \<^verbatim>\<open>Match\<close> on every rule but the logical ones.\<close>

definition matchAtom :: "rule_env \<Rightarrow> match_helper \<Rightarrow> rule \<Rightarrow> match_state \<Rightarrow> match_result" where
  "matchAtom env h r st =
     (case r of
        Domain s ad \<Rightarrow> matchDomain s ad st
      | DomainSuffix s ad \<Rightarrow> matchDomainSuffix s ad st
      | DomainKeyword s ad \<Rightarrow> matchDomainKeyword s ad st
      | DomainRegex re ad \<Rightarrow> matchDomainRegex env re ad st
      | DomainWildcard p ad \<Rightarrow> matchDomainWildcard p ad st
      | GEOSITE c ad \<Rightarrow> matchGEOSITE env c ad st
      | GEOIP c ad isSrc noResolve \<Rightarrow> matchGEOIP env c ad isSrc (resolveFor h isSrc noResolve st)
      | ASN asn ad isSrc noResolve \<Rightarrow> matchASN env asn ad isSrc (resolveFor h isSrc noResolve st)
      | IPCIDR net bits ad isSrc noResolve \<Rightarrow> matchIPCIDR h net bits ad isSrc noResolve st
      | IPSuffix bytes bits payload ad isSrc noResolve \<Rightarrow> matchIPSuffix h bytes bits ad isSrc noResolve st
      | Port t rs payload ad \<Rightarrow> matchPort t rs ad st
      | DscpRule rs payload ad \<Rightarrow> matchDSCP rs ad st
      | ProcessRule t pattern ad \<Rightarrow> matchProcessRule env h t pattern ad st
      | NetworkType n ad \<Rightarrow> matchNetworkType n ad st
      | UidRule rs payload ad \<Rightarrow> matchUid h rs ad st
      | InType ts payload ad \<Rightarrow> matchInType ts ad st
      | InUserRule names payload ad \<Rightarrow> matchInUser names ad st
      | InNameRule names payload ad \<Rightarrow> matchInName names ad st
      | RematchNameRule names payload ad \<Rightarrow> matchRematchName names ad st
      | RuleSet name ad isSrc noResolve \<Rightarrow> matchRuleSet env h r st
      | Match ad \<Rightarrow> matchFinal ad st
      | Logic t payload ad rules \<Rightarrow> ((False, []), st))"

end
