(* ===== verification/RuleParse.thy ===== *)
theory RuleParse
  imports Rules
begin

text \<open>
  The parser of rules: \<^verbatim>\<open>rules/common/base.go\<close>, the payloads of the logical rules
  (\<^verbatim>\<open>rules/logic/logic.go\<close>), \<^verbatim>\<open>rules/parser.go\<close>, and \<^verbatim>\<open>parseRules\<close> of
  \<^verbatim>\<open>config/config.go\<close>.
\<close>

subsection \<open>One line\<close>

definition ParseParams :: "string list \<Rightarrow> bool \<times> bool" where
  "ParseParams params =
     (let isSrc = ''src'' \<in> set params in (isSrc, isSrc \<or> ''no-resolve'' \<in> set params))"

definition trimArr :: "string list \<Rightarrow> string list" where
  "trimArr ss = map (trimSet {CHR '' ''}) ss"

type_synonym parsed_line = "string \<times> string \<times> string \<times> string list"

definition ParseRulePayload :: "rule_env \<Rightarrow> string \<Rightarrow> bool \<Rightarrow> parsed_line" where
  "ParseRulePayload env ruleRaw needTarget =
     (let item = trimArr (splitAt '','' [] ruleRaw); tp = toUpper env (item ! 0) in
      if length item \<le> 1 then (tp, [], [], [])
      else if tp = ''MATCH'' then (tp, [], item ! 1, [])
      else if tp \<in> {''NOT'', ''OR'', ''AND'', ''SUB-RULE'', ''DOMAIN-REGEX'', ''PROCESS-NAME-REGEX'', ''PROCESS-PATH-REGEX''} then
        (let target = (if needTarget then last item else []);
             item = (if needTarget then butlast item else item) in
         (tp, joinStrings '','' (tl item), target, []))
      else if length item > 2 then
        if needTarget then (tp, item ! 1, item ! 2, drop 3 item)
        else (tp, item ! 1, [], drop 2 item)
      else (tp, item ! 1, [], []))"

subsection \<open>Parentheses\<close>

text \<open>A range of the payload in parentheses: the positions of its two parentheses.\<close>

record paren =
  pstart :: nat
  pend :: nat

text \<open>\<open>i\<close> is the position, \<open>stack\<close> the open parentheses with the last one first.\<close>

fun formatLoop :: "nat \<Rightarrow> nat list \<Rightarrow> string \<Rightarrow> paren list checked" where
  "formatLoop i stack [] = (if stack \<noteq> [] then Inl ''format error is missing )'' else Inr [])"
| "formatLoop i stack (c # s) =
     (if c = CHR ''('' then formatLoop (i + 1) (i # stack) s
      else if c = CHR '')'' then
        (case stack of
           [] \<Rightarrow> Inl ''missing (''
         | start # stack \<Rightarrow>
             rbind (formatLoop (i + 1) stack s) (\<lambda>rs. Inr (\<lparr>pstart = start, pend = i\<rparr> # rs)))
      else formatLoop (i + 1) stack s)"

text \<open>No two ranges start at the same parenthesis, so that the order of the sort is determined.\<close>

definition formatPayload :: "string \<Rightarrow> paren list checked" where
  "formatPayload payload = rbind (formatLoop 0 [] payload) (\<lambda>rs. Inr (sort_key pstart rs))"

definition containRange :: "paren \<Rightarrow> nat \<Rightarrow> nat \<Rightarrow> bool" where
  "containRange r preStart preEnd \<longleftrightarrow> preStart < pstart r \<and> preEnd > pend r"

fun subRuleLoop :: "nat \<Rightarrow> paren list \<Rightarrow> paren list \<Rightarrow> paren list" where
  "subRuleLoop len acc [] = acc"
| "subRuleLoop len acc (rr # rs) =
     (if pstart rr = 0 \<and> pend rr + 1 = len then subRuleLoop len acc rs
      else if list_ex (\<lambda>r. containRange rr (pstart r) (pend r)) acc then subRuleLoop len acc rs
      else subRuleLoop len (acc @ [rr]) rs)"

definition findSubRuleRange :: "string \<Rightarrow> paren list \<Rightarrow> paren list" where
  "findSubRuleRange payload rs = subRuleLoop (length payload) [] rs"

definition subPayload :: "string \<Rightarrow> paren \<Rightarrow> string" where
  "subPayload payload r = take (pend r - (pstart r + 1)) (drop (pstart r + 1) payload)"

definition subPayloads :: "string \<Rightarrow> string list checked" where
  "subPayloads payload =
     (if \<not> hasPrefix payload ''('' \<or> \<not> hasSuffix payload '')'' then Inl ''payload format error''
      else
        rbind (formatPayload payload) (\<lambda>rs.
        Inr (map (subPayload payload) (findSubRuleRange payload rs))))"

subsection \<open>The payloads are shorter than the text around them\<close>

lemma formatLoop_bounds:
  "formatLoop i stack s = Inr rs \<Longrightarrow> \<forall>k\<in>set stack. k < i \<Longrightarrow> r \<in> set rs \<Longrightarrow> pstart r < pend r \<and> pend r < i + length s"
proof (induction i stack s arbitrary: rs rule: formatLoop.induct)
  case (2 i stack c s)
  consider "c = CHR ''(''" | "c = CHR '')''" | "c \<noteq> CHR ''(''" "c \<noteq> CHR '')''" by blast
  then show ?case
  proof cases
    case 1
    then show ?thesis using "2.IH"(1) [OF 1, of rs] "2.prems" by force
  next
    case 2
    then obtain start stack' rs' where s: "stack = start # stack'" "formatLoop (i + 1) stack' s = Inr rs'"
        "rs = \<lparr>pstart = start, pend = i\<rparr> # rs'"
      using "2.prems"(1) by (auto simp: rbind_eq_Inr split: list.splits)
    then show ?thesis using "2.IH"(2) [OF _ 2, of start stack' rs'] 2 "2.prems" by force
  next
    case 3
    then show ?thesis using "2.IH"(3) [OF 3, of rs] "2.prems" by force
  qed
qed (simp split: if_splits)

lemma subRuleLoop_subset:
  "r \<in> set (subRuleLoop len acc rs) \<Longrightarrow> r \<in> set acc \<or> r \<in> set rs \<and> \<not> (pstart r = 0 \<and> pend r + 1 = len)"
  by (induction len acc rs rule: subRuleLoop.induct) (auto split: if_splits)

lemma subPayloads_shorter:
  assumes "subPayloads q = Inr ss" "s \<in> set ss"
  shows "length s + 3 \<le> length q"
proof -
  obtain rs r where rs: "formatLoop 0 [] q = Inr rs" "r \<in> set (findSubRuleRange q (sort_key pstart rs))" "s = subPayload q r"
    using assms by (auto simp: subPayloads_def formatPayload_def rbind_eq_Inr split: if_splits)
  have r: "r \<in> set rs" "\<not> (pstart r = 0 \<and> pend r + 1 = length q)"
    using subRuleLoop_subset rs(2) by (fastforce simp: findSubRuleRange_def)+
  have "pstart r < pend r" "pend r < length q" using formatLoop_bounds [OF rs(1) _ r(1)] by simp_all
  then show ?thesis using r(2) by (auto simp: rs(3) subPayload_def)
qed

lemma length_trimSet: "length (trimSet cs s) \<le> length s"
  using length_dropWhile_le [of "\<lambda>c. c \<in> cs" "rev (dropWhile (\<lambda>c. c \<in> cs) s)"] length_dropWhile_le [of "\<lambda>c. c \<in> cs" s]
  by (simp add: trimSet_def)

definition textSize :: "string list \<Rightarrow> nat" where
  "textSize ss = sum_list (map (\<lambda>s. Suc (length s)) ss)"

lemma textSize_simps [simp]: "textSize [] = 0" "textSize (s # ss) = Suc (length s) + textSize ss"
  by (simp_all add: textSize_def)

lemma textSize_splitAt: "textSize (splitAt [d] acc s) = Suc (length acc + length s)"
  by (induction s arbitrary: acc) (auto simp: splitAt_char)

lemma textSize_trimArr: "textSize (trimArr ss) \<le> textSize ss"
proof (induction ss)
  case (Cons s ss)
  then show ?case using length_trimSet [of "{CHR '' ''}" s] by (simp add: trimArr_def)
qed (simp add: trimArr_def)

lemma length_joinStrings: "length (joinStrings [d] ss) \<le> textSize ss"
  by (induction "[d]" ss rule: joinStrings.induct) auto

lemma textSize_butlast: "textSize (butlast ss) \<le> textSize ss"
  by (induction ss) auto

lemma textSize_tl: "textSize (tl ss) \<le> textSize ss - 1"
  by (cases ss) auto

lemma textSize_nth: "i < length ss \<Longrightarrow> Suc (length (ss ! i)) \<le> textSize ss"
proof (induction ss arbitrary: i)
  case (Cons s ss)
  then show ?case by (cases i) force+
qed simp

lemma ParseRulePayload_shorter: "length (fst (snd (ParseRulePayload env s b))) \<le> length s"
proof -
  define item where "item = trimArr (splitAt '','' [] s)"
  have size: "textSize item \<le> Suc (length s)"
    using textSize_trimArr [of "splitAt '','' [] s"] textSize_splitAt [of "CHR '',''" "[]" s] by (simp add: item_def)
  have join: "length (joinStrings '','' (tl ss)) \<le> length s" if "textSize ss \<le> textSize item" for ss
    using length_joinStrings [of "CHR '',''" "tl ss"] textSize_tl [of ss] that size by simp
  have nth: "length (item ! 1) \<le> length s" if "\<not> length item \<le> 1"
    using textSize_nth [of 1 item] that size by simp
  show ?thesis
    using nth join [of item] join [of "butlast item"] textSize_butlast [of item]
    unfolding ParseRulePayload_def Let_def item_def [symmetric] by (simp split: if_splits)
qed

subsection \<open>Rules\<close>

fun mapChecked :: "('a \<Rightarrow> 'b checked) \<Rightarrow> 'a list \<Rightarrow> 'b list checked" where
  "mapChecked f [] = Inr []"
| "mapChecked f (x # xs) = rbind (f x) (\<lambda>y. rbind (mapChecked f xs) (\<lambda>ys. Inr (y # ys)))"

lemma mapChecked_cong [fundef_cong]:
  "xs = ys \<Longrightarrow> (\<And>x. x \<in> set ys \<Longrightarrow> f x = g x) \<Longrightarrow> mapChecked f xs = mapChecked g ys"
proof (induction xs arbitrary: ys)
  case (Cons x xs)
  then have "f x = g x" "mapChecked f xs = mapChecked g xs" by auto
  with Cons.prems(1) show ?case by auto
qed simp

text \<open>The kinds whose rules need no parser for their payload.\<close>

definition parseAtom :: "rule_env \<Rightarrow> string \<Rightarrow> string \<Rightarrow> string \<Rightarrow> string list \<Rightarrow> rule checked" where
  "parseAtom env tp payload target params =
     (let (isSrc, noResolve) = ParseParams params in
      if tp = ''DOMAIN'' then Inr (NewDomain env payload target)
      else if tp = ''DOMAIN-SUFFIX'' then Inr (NewDomainSuffix env payload target)
      else if tp = ''DOMAIN-KEYWORD'' then Inr (NewDomainKeyword env payload target)
      else if tp = ''DOMAIN-REGEX'' then NewDomainRegex env payload target
      else if tp = ''DOMAIN-WILDCARD'' then NewDomainWildcard env payload target
      else if tp = ''GEOSITE'' then NewGEOSITE env payload target
      else if tp = ''GEOIP'' then NewGEOIP env payload target isSrc noResolve
      else if tp = ''SRC-GEOIP'' then NewGEOIP env payload target True True
      else if tp = ''IP-ASN'' then NewIPASN env payload target isSrc noResolve
      else if tp = ''SRC-IP-ASN'' then NewIPASN env payload target True True
      else if tp = ''IP-CIDR'' \<or> tp = ''IP-CIDR6'' then NewIPCIDR env payload target isSrc noResolve
      else if tp = ''SRC-IP-CIDR'' then NewIPCIDR env payload target True True
      else if tp = ''IP-SUFFIX'' then NewIPSuffix env payload target isSrc noResolve
      else if tp = ''SRC-IP-SUFFIX'' then NewIPSuffix env payload target True True
      else if tp = ''SRC-PORT'' then NewPort payload target TSrcPort
      else if tp = ''DST-PORT'' then NewPort payload target TDstPort
      else if tp = ''IN-PORT'' then NewPort payload target TInPort
      else if tp = ''DSCP'' then NewDSCP payload target
      else if tp = ''PROCESS-NAME'' then NewProcess env payload target TProcessName
      else if tp = ''PROCESS-PATH'' then NewProcess env payload target TProcessPath
      else if tp = ''PROCESS-NAME-REGEX'' then NewProcess env payload target TProcessNameRegex
      else if tp = ''PROCESS-PATH-REGEX'' then NewProcess env payload target TProcessPathRegex
      else if tp = ''PROCESS-NAME-WILDCARD'' then NewProcess env payload target TProcessNameWildcard
      else if tp = ''PROCESS-PATH-WILDCARD'' then NewProcess env payload target TProcessPathWildcard
      else if tp = ''NETWORK'' then NewNetworkType env payload target
      else if tp = ''UID'' then NewUid env payload target
      else if tp = ''IN-TYPE'' then NewInType env payload target
      else if tp = ''IN-USER'' then NewInUser payload target
      else if tp = ''IN-NAME'' then NewInName payload target
      else if tp = ''REMATCH-NAME'' then NewRematchName payload target
      else if tp = ''RULE-SET'' then NewRuleSet payload target isSrc noResolve
      else if tp = ''MATCH'' then Inr (NewMatch target)
      else Inl ''unsupported rule type'')"

text \<open>
  The logical rules take the parser of rules as an argument; their sub-rules are looked up by name
  when a rule is matched.
\<close>

type_synonym rule_parser = "string \<Rightarrow> string \<Rightarrow> string \<Rightarrow> string list \<Rightarrow> rule checked"

definition payloadToRule :: "rule_parser \<Rightarrow> rule_env \<Rightarrow> string \<Rightarrow> rule checked" where
  "payloadToRule parse env s =
     (case ParseRulePayload env s False of (tp, payload, target, params) \<Rightarrow>
        if tp = ''MATCH'' \<or> tp = ''SUB-RULE'' then Inl ''unsupported rule type on logic rule''
        else if tp = [] then Inl ''format is error''
        else parse tp payload target params)"

definition parsePayload :: "rule_parser \<Rightarrow> rule_env \<Rightarrow> string \<Rightarrow> rule list checked" where
  "parsePayload parse env payload = rbind (subPayloads payload) (mapChecked (payloadToRule parse env))"

definition NewSubRule :: "rule_parser \<Rightarrow> rule_env \<Rightarrow> string \<Rightarrow> string \<Rightarrow> rule checked" where
  "NewSubRule parse env payload ad =
     rbind (parsePayload parse env (''('' @ payload @ '')'')) (\<lambda>rules.
     if length rules \<noteq> 1 then Inl ''Sub-Rule rule must contain one rule''
     else Inr (Logic TSubRules payload ad rules))"

definition NewNOT :: "rule_parser \<Rightarrow> rule_env \<Rightarrow> string \<Rightarrow> string \<Rightarrow> rule checked" where
  "NewNOT parse env payload ad =
     rbind (parsePayload parse env payload) (\<lambda>rules.
     if length rules \<noteq> 1 then Inl ''not rule must contain one rule''
     else Inr (Logic TNOT payload ad rules))"

definition NewOR :: "rule_parser \<Rightarrow> rule_env \<Rightarrow> string \<Rightarrow> string \<Rightarrow> rule checked" where
  "NewOR parse env payload ad = rbind (parsePayload parse env payload) (\<lambda>rules. Inr (Logic TOR payload ad rules))"

definition NewAND :: "rule_parser \<Rightarrow> rule_env \<Rightarrow> string \<Rightarrow> string \<Rightarrow> rule checked" where
  "NewAND parse env payload ad = rbind (parsePayload parse env payload) (\<lambda>rules. Inr (Logic TAND payload ad rules))"

text \<open>The parser is only called on payloads that are shorter.\<close>

lemma payloadToRule_cong:
  assumes "\<And>tp p target params. length p \<le> length s \<Longrightarrow> f tp p target params = g tp p target params"
  shows "payloadToRule f env s = payloadToRule g env s"
proof -
  obtain tp p target params where r: "ParseRulePayload env s False = (tp, p, target, params)" by (metis prod_cases4)
  then have "length p \<le> length s" using ParseRulePayload_shorter [of env s False] by simp
  then show ?thesis using assms [of p tp target params] by (simp add: payloadToRule_def r)
qed

lemma parsePayload_cong:
  assumes "\<And>tp p target params. length p + 3 \<le> length q \<Longrightarrow> f tp p target params = g tp p target params"
  shows "parsePayload f env q = parsePayload g env q"
proof (cases "subPayloads q")
  case (Inr ss)
  have "payloadToRule f env s = payloadToRule g env s" if "s \<in> set ss" for s
    using subPayloads_shorter [OF Inr that] assms by (intro payloadToRule_cong) simp
  then show ?thesis by (simp add: parsePayload_def Inr cong: mapChecked_cong)
qed (simp add: parsePayload_def)

lemma NewLogic_cong [fundef_cong]:
  "q = q' \<Longrightarrow> ad = ad' \<Longrightarrow> env = env' \<Longrightarrow>
    (\<And>tp p target params. length p < length q' \<Longrightarrow> f tp p target params = g tp p target params) \<Longrightarrow>
    NewSubRule f env q ad = NewSubRule g env' q' ad'"
  "q = q' \<Longrightarrow> ad = ad' \<Longrightarrow> env = env' \<Longrightarrow>
    (\<And>tp p target params. length p < length q' \<Longrightarrow> f tp p target params = g tp p target params) \<Longrightarrow>
    NewNOT f env q ad = NewNOT g env' q' ad'"
  "q = q' \<Longrightarrow> ad = ad' \<Longrightarrow> env = env' \<Longrightarrow>
    (\<And>tp p target params. length p < length q' \<Longrightarrow> f tp p target params = g tp p target params) \<Longrightarrow>
    NewOR f env q ad = NewOR g env' q' ad'"
  "q = q' \<Longrightarrow> ad = ad' \<Longrightarrow> env = env' \<Longrightarrow>
    (\<And>tp p target params. length p < length q' \<Longrightarrow> f tp p target params = g tp p target params) \<Longrightarrow>
    NewAND f env q ad = NewAND g env' q' ad'"
  using parsePayload_cong [of q' f g env'] parsePayload_cong [of "''('' @ q' @ '')''" f g env']
  by (simp_all add: NewSubRule_def NewNOT_def NewOR_def NewAND_def)

function ParseRule :: "rule_env \<Rightarrow> string \<Rightarrow> string \<Rightarrow> string \<Rightarrow> string list \<Rightarrow> rule checked" where
  "ParseRule env tp payload target params =
     (if tp \<noteq> ''MATCH'' \<and> payload = [] then Inl ''missing subsequent parameters''
      else if tp = ''SUB-RULE'' then NewSubRule (ParseRule env) env payload target
      else if tp = ''AND'' then NewAND (ParseRule env) env payload target
      else if tp = ''OR'' then NewOR (ParseRule env) env payload target
      else if tp = ''NOT'' then NewNOT (ParseRule env) env payload target
      else parseAtom env tp payload target params)"
  by pat_completeness auto
termination
  by (relation "measure (\<lambda>(env, tp, payload, target, params). length payload)") auto

declare ParseRule.simps [simp del]

subsection \<open>The rules of a configuration\<close>

text \<open>
  \<^verbatim>\<open>parseRules\<close>: \<open>proxies\<close>, \<open>subNames\<close> and \<open>providers\<close> are the keys of the maps.  The wrapping of
  the top-level rules is left to the tunnel.
\<close>

fun parseRules :: "rule_env \<Rightarrow> string list \<Rightarrow> string list \<Rightarrow> string list \<Rightarrow> string list \<Rightarrow> rule list checked" where
  "parseRules env proxies subNames providers [] = Inr []"
| "parseRules env proxies subNames providers (line # lines) =
     (case ParseRulePayload env line True of (tp, payload, target, params) \<Rightarrow>
        if target = [] then Inl ''format invalid''
        else if target \<notin> set proxies \<and> tp \<noteq> ''SUB-RULE'' then Inl ''proxy not found''
        else if target \<notin> set proxies \<and> target \<notin> set subNames then Inl ''sub-rule not found''
        else
          rbind (ParseRule env tp payload target params) (\<lambda>parsed.
          if \<not> set (ProviderNames parsed) \<subseteq> set providers then Inl ''rule set not found''
          else rbind (parseRules env proxies subNames providers lines) (\<lambda>rules. Inr (parsed # rules))))"

text \<open>
  \<^verbatim>\<open>verifySubRule\<close>: \<open>arr\<close> are the names on the path to the rules that are checked, the last of which
  holds them.
\<close>

type_synonym sub_rules = "(string \<times> rule list) list"

definition subRulesOf :: "sub_rules \<Rightarrow> string \<Rightarrow> rule list" where
  "subRulesOf subs name = (case map_of subs name of None \<Rightarrow> [] | Some rules \<Rightarrow> rules)"

function verifyRules :: "sub_rules \<Rightarrow> string list \<Rightarrow> rule list \<Rightarrow> unit checked" where
  "verifyRules subs arr [] = Inr ()"
| "verifyRules subs arr (r # rs) =
     (if RuleType r \<noteq> TSubRules then verifyRules subs arr rs
      else if adapter r \<notin> fst ` set subs then Inl ''sub-rule not found''
      else if adapter r \<in> set arr then Inl ''circular references''
      else rbind (verifyRules subs (arr @ [adapter r]) (subRulesOf subs (adapter r))) (\<lambda>_. verifyRules subs arr rs))"
  by pat_completeness auto
termination
proof (relation "measures [\<lambda>(subs, arr, rs). card (fst ` set subs - set arr), \<lambda>(subs, arr, rs). length rs]", goal_cases)
  case (3 subs arr r rs)
  then have "fst ` set subs - set (arr @ [adapter r]) \<subset> fst ` set subs - set arr" by auto
  then have "card (fst ` set subs - set (arr @ [adapter r])) < card (fst ` set subs - set arr)"
    by (intro psubset_card_mono) auto
  then show ?case by simp
qed auto

definition verifySubRuleCircularReferences :: "sub_rules \<Rightarrow> string \<Rightarrow> string list \<Rightarrow> unit checked" where
  "verifySubRuleCircularReferences subs n arr = verifyRules subs (arr @ [n]) (subRulesOf subs n)"

fun verifyNames :: "sub_rules \<Rightarrow> string list \<Rightarrow> unit checked" where
  "verifyNames subs [] = Inr ()"
| "verifyNames subs (n # ns) = rbind (verifySubRuleCircularReferences subs n []) (\<lambda>_. verifyNames subs ns)"

definition verifySubRule :: "sub_rules \<Rightarrow> unit checked" where
  "verifySubRule subs = verifyNames subs (map fst subs)"

fun parseSubRuleLists ::
  "rule_env \<Rightarrow> string list \<Rightarrow> string list \<Rightarrow> string list \<Rightarrow> (string \<times> string list) list \<Rightarrow> sub_rules checked" where
  "parseSubRuleLists env proxies subNames providers [] = Inr []"
| "parseSubRuleLists env proxies subNames providers ((name, lines) # cfg) =
     (if length name = 0 then Inl ''sub-rule name is empty''
      else
        rbind (parseRules env proxies subNames providers lines) (\<lambda>rules.
        rbind (parseSubRuleLists env proxies subNames providers cfg) (\<lambda>subs. Inr ((name, rules) # subs))))"

definition parseSubRules ::
  "rule_env \<Rightarrow> string list \<Rightarrow> string list \<Rightarrow> (string \<times> string list) list \<Rightarrow> sub_rules checked" where
  "parseSubRules env proxies providers cfg =
     rbind (parseSubRuleLists env proxies (map fst cfg) providers cfg) (\<lambda>subs.
     rbind (verifySubRule subs) (\<lambda>_. Inr subs))"

end
