(* ===== verification/RuleMatch.thy ===== *)
theory RuleMatch
  imports RuleParse
begin

text \<open>
  Matching of rules, the logical ones and the sub-rules included (\<^verbatim>\<open>rules/logic/logic.go\<close>).  A sub-rule
  is looked up by its name, and nothing in the matcher bounds the depth of these calls: \<open>None\<close> is a
  call that is cut off when the fuel, the depth that is allowed, is used up.
\<close>

type_synonym matched = "bool \<times> string"

function matchRule :: "rule_env \<Rightarrow> sub_rules \<Rightarrow> nat \<Rightarrow> match_helper \<Rightarrow> rule \<Rightarrow> match_state \<Rightarrow> (matched \<times> match_state) option"
and matchAny :: "rule_env \<Rightarrow> sub_rules \<Rightarrow> nat \<Rightarrow> match_helper \<Rightarrow> rule list \<Rightarrow> match_state \<Rightarrow> (bool \<times> match_state) option"
and matchAll :: "rule_env \<Rightarrow> sub_rules \<Rightarrow> nat \<Rightarrow> match_helper \<Rightarrow> rule list \<Rightarrow> match_state \<Rightarrow> (bool \<times> match_state) option"
and matchSubRules :: "rule_env \<Rightarrow> sub_rules \<Rightarrow> nat \<Rightarrow> match_helper \<Rightarrow> string \<Rightarrow> match_state \<Rightarrow> (matched \<times> match_state) option"
and matchList :: "rule_env \<Rightarrow> sub_rules \<Rightarrow> nat \<Rightarrow> match_helper \<Rightarrow> rule list \<Rightarrow> match_state \<Rightarrow> (matched \<times> match_state) option" where
  "matchRule env subs n h rule st =
     (case rule of
        Logic t payload ad rules \<Rightarrow>
          if t = TSubRules then
            (case rules of
               [] \<Rightarrow> Some ((False, []), st)
             | r # _ \<Rightarrow>
                 (case matchRule env subs n h r st of
                    None \<Rightarrow> None
                  | Some ((m, _), st) \<Rightarrow> if m then matchSubRules env subs n h ad st else Some ((False, []), st)))
          else if t = TNOT then
            (case rules of
               [] \<Rightarrow> Some ((False, []), st)
             | r # _ \<Rightarrow>
                 (case matchRule env subs n h r st of
                    None \<Rightarrow> None
                  | Some ((m, _), st) \<Rightarrow> Some (if \<not> m then (True, ad) else (False, []), st)))
          else if t = TOR then
            (case matchAny env subs n h rules st of None \<Rightarrow> None | Some (m, st) \<Rightarrow> Some (found m ad, st))
          else if t = TAND then
            (case matchAll env subs n h rules st of None \<Rightarrow> None | Some (m, st) \<Rightarrow> Some ((m, ad), st))
          else Some ((False, []), st)
      | _ \<Rightarrow> Some (matchAtom env h rule st))"
| "matchAny env subs n h [] st = Some (False, st)"
| "matchAny env subs n h (r # rs) st =
     (case matchRule env subs n h r st of
        None \<Rightarrow> None
      | Some ((m, _), st) \<Rightarrow> if m then Some (True, st) else matchAny env subs n h rs st)"
| "matchAll env subs n h [] st = Some (True, st)"
| "matchAll env subs n h (r # rs) st =
     (case matchRule env subs n h r st of
        None \<Rightarrow> None
      | Some ((m, _), st) \<Rightarrow> if \<not> m then Some (False, st) else matchAll env subs n h rs st)"
| "matchSubRules env subs 0 h name st = None"
| "matchSubRules env subs (Suc n) h name st = matchList env subs n h (subRulesOf subs name) st"
| "matchList env subs n h [] st = Some ((False, []), st)"
| "matchList env subs n h (r # rs) st =
     (case matchRule env subs n h r st of
        None \<Rightarrow> None
      | Some ((m, a), st) \<Rightarrow>
          if \<not> m then matchList env subs n h rs st
          else
            (case (if RuleType r = TSubRules then matchSubRules env subs n h (adapter r) st else Some ((m, a), st)) of
               None \<Rightarrow> None
             | Some ((m, a), st) \<Rightarrow>
                 if m \<and> (a = ''PASS-RULE'' \<or> (case CheckPassRule h of None \<Rightarrow> False | Some check \<Rightarrow> check st a))
                 then matchList env subs n h rs st
                 else Some ((m, a), st)))"
  by pat_completeness auto
termination
  by (relation "measures
      [\<lambda>x. case x of Inl (Inl (_, _, n, _)) \<Rightarrow> n | Inl (Inr (_, _, n, _)) \<Rightarrow> n | Inr (Inl (_, _, n, _)) \<Rightarrow> n
             | Inr (Inr (Inl (_, _, n, _))) \<Rightarrow> n | Inr (Inr (Inr (_, _, n, _))) \<Rightarrow> n,
       \<lambda>x. case x of Inl (Inl (_, _, _, _, r, _)) \<Rightarrow> size r | Inl (Inr (_, _, _, _, rs, _)) \<Rightarrow> size_list size rs
             | Inr (Inl (_, _, _, _, rs, _)) \<Rightarrow> size_list size rs
             | Inr (Inr (Inl _)) \<Rightarrow> 0 | Inr (Inr (Inr (_, _, _, _, rs, _))) \<Rightarrow> Suc (size_list size rs)]") auto

declare matchRule.simps [simp del]

end
