(* ===== verification/RuleSpec.thy ===== *)
theory RuleSpec
  imports RuleMatch
begin

text \<open>
  What the parser promises of the rules, that the check of the sub-rules is exact, and that the
  matcher returns on the rules of a configuration that has been accepted.
\<close>

subsection \<open>Well-formed rules\<close>

text \<open>
  The shape of rules that the matcher and the printer rely on: the rule that \<^verbatim>\<open>rules[0]\<close> reads is
  there, and a rule inside a logical rule is neither a sub-rule nor \<^verbatim>\<open>MATCH\<close>.
\<close>

fun wellFormed :: "rule \<Rightarrow> bool" where
  "wellFormed r =
     (case r of
        Logic t payload ad rs \<Rightarrow>
          t \<in> {TSubRules, TNOT, TOR, TAND} \<and> (t \<in> {TSubRules, TNOT} \<longrightarrow> length rs = 1)
          \<and> (\<forall>r\<in>set rs. wellFormed r \<and> RuleType r \<notin> {TSubRules, TMATCH})
      | Port t rs payload ad \<Rightarrow> t \<in> {TSrcPort, TDstPort, TInPort} \<and> rs \<noteq> []
      | DscpRule rs payload ad \<Rightarrow> (\<forall>r\<in>set rs. rangeEnd r \<le> 63)
      | UidRule rs payload ad \<Rightarrow> rs \<noteq> []
      | ProcessRule t pattern ad \<Rightarrow>
          t \<in> {TProcessName, TProcessPath, TProcessNameRegex, TProcessPathRegex, TProcessNameWildcard, TProcessPathWildcard}
      | InType ts payload ad \<Rightarrow> ts \<noteq> []
      | InUserRule names payload ad \<Rightarrow> names \<noteq> [] \<and> [] \<notin> set names
      | InNameRule names payload ad \<Rightarrow> names \<noteq> [] \<and> [] \<notin> set names
      | RematchNameRule names payload ad \<Rightarrow> names \<noteq> [] \<and> [] \<notin> set names
      | _ \<Rightarrow> True)"

declare wellFormed.simps [simp del]

lemma wellFormed_Logic [simp]:
  "wellFormed (Logic t payload ad rs) \<longleftrightarrow>
     t \<in> {TSubRules, TNOT, TOR, TAND} \<and> (t \<in> {TSubRules, TNOT} \<longrightarrow> length rs = 1)
     \<and> (\<forall>r\<in>set rs. wellFormed r \<and> RuleType r \<notin> {TSubRules, TMATCH})"
  by (subst wellFormed.simps) simp

lemma RuleType_Logic [simp]: "RuleType (Logic t payload ad rs) = t"
  by (simp add: RuleType_def)

lemma trimNames_ok: "trimNames ss = Inr ts \<Longrightarrow> length ts = length ss \<and> [] \<notin> set ts"
  by (induction ss arbitrary: ts) (auto simp: rbind_eq_Inr split: if_splits)

lemma splitAt_nonempty: "splitAt d acc s \<noteq> []"
  by (induction d acc s rule: splitAt.induct) (simp_all add: splitAt.simps)

lemma parseInTypes_nonempty: "parseInTypes env tps = Inr ts \<Longrightarrow> tps \<noteq> [] \<Longrightarrow> ts \<noteq> []"
  by (cases tps) (auto simp: rbind_eq_Inr Let_def split: if_splits)

lemmas constructor_defs =
  NewDomain_def NewDomainSuffix_def NewDomainKeyword_def NewDomainRegex_def NewDomainWildcard_def NewGEOSITE_def
  NewGEOIP_def NewIPASN_def NewIPCIDR_def NewIPSuffix_def NewPort_def NewDSCP_def NewProcess_def NewNetworkType_def
  NewUid_def NewInType_def NewInUser_def NewInName_def NewRematchName_def NewRuleSet_def NewMatch_def

lemma names_ok: "trimNames (splitAt d acc s) = Inr ts \<Longrightarrow> ts \<noteq> [] \<and> [] \<notin> set ts"
  using trimNames_ok splitAt_nonempty by fastforce

text \<open>What a constructor of a rule without sub-rules gives.\<close>

definition atomOk :: "string \<Rightarrow> string \<Rightarrow> rule checked \<Rightarrow> bool" where
  "atomOk tp target res \<longleftrightarrow>
     (\<forall>r. res = Inr r \<longrightarrow> wellFormed r \<and> adapter r = target \<and> RuleType r \<noteq> TSubRules \<and> (RuleType r = TMATCH \<longleftrightarrow> tp = ''MATCH''))"

lemma atomOk_constructors:
  "tp \<noteq> ''MATCH'' \<Longrightarrow> atomOk tp ad (Inr (NewDomain env s ad))"
  "tp \<noteq> ''MATCH'' \<Longrightarrow> atomOk tp ad (Inr (NewDomainSuffix env s ad))"
  "tp \<noteq> ''MATCH'' \<Longrightarrow> atomOk tp ad (Inr (NewDomainKeyword env s ad))"
  "tp \<noteq> ''MATCH'' \<Longrightarrow> atomOk tp ad (NewDomainRegex env s ad)"
  "tp \<noteq> ''MATCH'' \<Longrightarrow> atomOk tp ad (NewDomainWildcard env s ad)"
  "tp \<noteq> ''MATCH'' \<Longrightarrow> atomOk tp ad (NewGEOSITE env s ad)"
  "tp \<noteq> ''MATCH'' \<Longrightarrow> atomOk tp ad (NewGEOIP env s ad src no)"
  "tp \<noteq> ''MATCH'' \<Longrightarrow> atomOk tp ad (NewIPASN env s ad src no)"
  "tp \<noteq> ''MATCH'' \<Longrightarrow> atomOk tp ad (NewIPCIDR env s ad src no)"
  "tp \<noteq> ''MATCH'' \<Longrightarrow> atomOk tp ad (NewIPSuffix env s ad src no)"
  "tp \<noteq> ''MATCH'' \<Longrightarrow> t \<in> {TSrcPort, TDstPort, TInPort} \<Longrightarrow> atomOk tp ad (NewPort s ad t)"
  "tp \<noteq> ''MATCH'' \<Longrightarrow> atomOk tp ad (NewDSCP s ad)"
  "tp \<noteq> ''MATCH'' \<Longrightarrow>
    t \<in> {TProcessName, TProcessPath, TProcessNameRegex, TProcessPathRegex, TProcessNameWildcard, TProcessPathWildcard} \<Longrightarrow>
    atomOk tp ad (NewProcess env s ad t)"
  "tp \<noteq> ''MATCH'' \<Longrightarrow> atomOk tp ad (NewNetworkType env s ad)"
  "tp \<noteq> ''MATCH'' \<Longrightarrow> atomOk tp ad (NewUid env s ad)"
  "tp \<noteq> ''MATCH'' \<Longrightarrow> atomOk tp ad (NewInType env s ad)"
  "tp \<noteq> ''MATCH'' \<Longrightarrow> atomOk tp ad (NewInUser s ad)"
  "tp \<noteq> ''MATCH'' \<Longrightarrow> atomOk tp ad (NewInName s ad)"
  "tp \<noteq> ''MATCH'' \<Longrightarrow> atomOk tp ad (NewRematchName s ad)"
  "tp \<noteq> ''MATCH'' \<Longrightarrow> atomOk tp ad (NewRuleSet s ad src no)"
  "atomOk ''MATCH'' ad (Inr (NewMatch ad))"
  by (auto simp: atomOk_def constructor_defs rbind_eq_Inr wellFormed.simps RuleType_def Let_def names_ok splitAt_nonempty
        list_ex_iff linorder_not_less parseInTypes_nonempty split: if_splits option.splits prod.splits)

lemma atomOk_Inl: "atomOk tp target (Inl e)"
  by (simp add: atomOk_def)

lemma parseAtom_ok: "atomOk tp target (parseAtom env tp payload target params)"
  by (auto simp: parseAtom_def atomOk_constructors atomOk_Inl split: prod.splits)

lemma mapChecked_member:
  "mapChecked f xs = Inr ys \<Longrightarrow> y \<in> set ys \<Longrightarrow> \<exists>x\<in>set xs. f x = Inr y"
  by (induction xs arbitrary: ys) (auto simp: rbind_eq_Inr)

text \<open>\<open>f\<close> keeps the promise on payloads that are shorter than \<open>n\<close>.\<close>

definition parserOk :: "nat \<Rightarrow> rule_parser \<Rightarrow> bool" where
  "parserOk n f \<longleftrightarrow>
     (\<forall>tp p target params r. length p < n \<longrightarrow> f tp p target params = Inr r \<longrightarrow>
        wellFormed r \<and> adapter r = target \<and> (RuleType r = TSubRules \<longleftrightarrow> tp = ''SUB-RULE'') \<and> (RuleType r = TMATCH \<longleftrightarrow> tp = ''MATCH''))"

lemma parsePayload_ok:
  assumes "parserOk n f" "length q \<le> n + 2" "parsePayload f env q = Inr rs" "r \<in> set rs"
  shows "wellFormed r \<and> RuleType r \<notin> {TSubRules, TMATCH}"
proof -
  obtain ss s where s: "subPayloads q = Inr ss" "s \<in> set ss" "payloadToRule f env s = Inr r"
    using assms(3,4) mapChecked_member by (fastforce simp: parsePayload_def rbind_eq_Inr)
  obtain tp p target params where l: "ParseRulePayload env s False = (tp, p, target, params)" by (metis prod_cases4)
  then have "length p < n" using ParseRulePayload_shorter [of env s False] subPayloads_shorter [OF s(1,2)] assms(2) by simp
  then show ?thesis using s(3) assms(1) by (auto simp: payloadToRule_def l parserOk_def split: if_splits)
qed

lemma NewLogic_ok:
  assumes "parserOk (length q) f"
  shows "NewSubRule f env q ad = Inr r \<Longrightarrow> wellFormed r \<and> adapter r = ad \<and> RuleType r = TSubRules"
    and "NewNOT f env q ad = Inr r \<Longrightarrow> wellFormed r \<and> adapter r = ad \<and> RuleType r = TNOT"
    and "NewOR f env q ad = Inr r \<Longrightarrow> wellFormed r \<and> adapter r = ad \<and> RuleType r = TOR"
    and "NewAND f env q ad = Inr r \<Longrightarrow> wellFormed r \<and> adapter r = ad \<and> RuleType r = TAND"
proof -
  have inner: "\<forall>r\<in>set rs. wellFormed r \<and> RuleType r \<notin> {TSubRules, TMATCH}"
    if "parsePayload f env q' = Inr rs" "length q' \<le> length q + 2" for q' rs
    using parsePayload_ok [OF assms that(2,1)] by blast
  show "NewSubRule f env q ad = Inr r \<Longrightarrow> wellFormed r \<and> adapter r = ad \<and> RuleType r = TSubRules"
    using inner [of "''('' @ q @ '')''"] by (auto simp: NewSubRule_def rbind_eq_Inr split: if_splits)
  show "NewNOT f env q ad = Inr r \<Longrightarrow> wellFormed r \<and> adapter r = ad \<and> RuleType r = TNOT"
    using inner [of q] by (auto simp: NewNOT_def rbind_eq_Inr split: if_splits)
  show "NewOR f env q ad = Inr r \<Longrightarrow> wellFormed r \<and> adapter r = ad \<and> RuleType r = TOR"
    using inner [of q] by (auto simp: NewOR_def rbind_eq_Inr)
  show "NewAND f env q ad = Inr r \<Longrightarrow> wellFormed r \<and> adapter r = ad \<and> RuleType r = TAND"
    using inner [of q] by (auto simp: NewAND_def rbind_eq_Inr)
qed

lemma ParseRule_ok:
  "ParseRule env tp payload target params = Inr r \<Longrightarrow>
    wellFormed r \<and> adapter r = target \<and> (RuleType r = TSubRules \<longleftrightarrow> tp = ''SUB-RULE'') \<and> (RuleType r = TMATCH \<longleftrightarrow> tp = ''MATCH'')"
proof (induction "length payload" arbitrary: tp payload target params r rule: less_induct)
  case less
  then have ok: "parserOk (length payload) (ParseRule env)" by (simp add: parserOk_def)
  note logic = NewLogic_ok [OF ok, of env target r]
  show ?case
    using less.prems logic parseAtom_ok [of tp target env payload params]
    by (auto simp: ParseRule.simps [of env tp] atomOk_def split: if_splits)
qed

text \<open>
  C18: A line of the configuration that is accepted gives a rule of the right shape: the logical
  rules have the sub-rules that the matcher and \<^verbatim>\<open>Payload\<close> take without looking, a list of ports or
  of users that is configured is not empty, a DSCP value does not exceed six bits, and only the
  top of a rule can be a sub-rule or \<^verbatim>\<open>MATCH\<close>.  The rule's adapter is the target of the line.
\<close>

theorem parsed_rules_are_well_formed:
  assumes "ParseRule env tp payload target params = Inr r"
  shows "wellFormed r \<and> adapter r = target \<and>
    (RuleType r = TSubRules \<longleftrightarrow> tp = ''SUB-RULE'') \<and> (RuleType r = TMATCH \<longleftrightarrow> tp = ''MATCH'')"
  using ParseRule_ok [OF assms] .

text \<open>A concrete environment for the examples: no databases and no providers.\<close>

definition sampleEnv :: rule_env where
  "sampleEnv =
     \<lparr>toUpper = id, toLower = id, equalFold = (=), regexCompiles = (\<lambda>_. True), regexMatch = (=),
      parsePrefix = (\<lambda>_. None), prefixString = (\<lambda>_ _. []), isLan = (\<lambda>_. False), geodataMode = False,
      geoInit = (\<lambda>_. True), geoIPMatcher = (\<lambda>_. None), geoSiteMatcher = (\<lambda>_. None), lookupCode = (\<lambda>_. []),
      lookupASN = (\<lambda>_. ([], [])), onLinux = True, ruleProvider = (\<lambda>_. None)\<rparr>"

theorem parsed_rules_are_well_formed_witness:
  "wellFormed (Logic TNOT ''((DOMAIN,a.b))'' ''DIRECT'' [Domain ''a.b'' []])"
proof -
  have "ParseRule sampleEnv ''NOT'' ''((DOMAIN,a.b))'' ''DIRECT'' [] = Inr (Logic TNOT ''((DOMAIN,a.b))'' ''DIRECT'' [Domain ''a.b'' []])"
    by code_simp
  then show ?thesis using parsed_rules_are_well_formed by blast
qed

subsection \<open>The rules of a configuration\<close>

lemma parseRules_ok:
  "parseRules env ps subNames providers lines = Inr rs \<Longrightarrow> r \<in> set rs \<Longrightarrow>
    wellFormed r \<and> (RuleType r = TSubRules \<longrightarrow> adapter r \<in> set ps \<union> set subNames) \<and>
    (RuleType r \<noteq> TSubRules \<longrightarrow> adapter r \<in> set ps)"
proof (induction lines arbitrary: rs)
  case (Cons line lines)
  obtain tp p target params where l: "ParseRulePayload env line True = (tp, p, target, params)" by (metis prod_cases4)
  obtain parsed rules where step: "ParseRule env tp p target params = Inr parsed" "rs = parsed # rules"
      "parseRules env ps subNames providers lines = Inr rules"
    and found: "tp = ''SUB-RULE'' \<and> target \<in> set ps \<union> set subNames \<or> target \<in> set ps"
    using Cons.prems(1) by (simp add: l rbind_eq_Inr split: if_splits) blast
  show ?case
  proof (cases "r = parsed")
    case True
    then show ?thesis using ParseRule_ok [OF step(1)] found by blast
  next
    case False
    then show ?thesis using Cons.IH [OF step(3)] Cons.prems(2) step(2) by simp
  qed
qed simp

lemma parseSubRuleLists_ok:
  "parseSubRuleLists env ps subNames providers cfg = Inr subs \<Longrightarrow>
    map fst subs = map fst cfg \<and> (\<forall>(name, rs)\<in>set subs. \<forall>r\<in>set rs. wellFormed r)"
proof (induction cfg arbitrary: subs)
  case (Cons c cfg)
  obtain name lines where c: "c = (name, lines)" by (cases c)
  obtain rules subs' where parts: "parseRules env ps subNames providers lines = Inr rules"
      "parseSubRuleLists env ps subNames providers cfg = Inr subs'" "subs = (name, rules) # subs'"
    using Cons.prems by (auto simp: c rbind_eq_Inr split: if_splits)
  then show ?case using Cons.IH [OF parts(2)] parseRules_ok [OF parts(1)] by (auto simp: c)
qed simp

definition subsOk :: "sub_rules \<Rightarrow> bool" where
  "subsOk subs \<longleftrightarrow> (\<forall>(name, rs)\<in>set subs. \<forall>r\<in>set rs. wellFormed r)"

lemma subRulesOf_ok: "subsOk subs \<Longrightarrow> r \<in> set (subRulesOf subs name) \<Longrightarrow> wellFormed r"
  by (cases "map_of subs name") (use map_of_SomeD in \<open>fastforce simp: subRulesOf_def subsOk_def\<close>)+

lemma parseSubRules_ok: "parseSubRules env ps providers cfg = Inr subs \<Longrightarrow> subsOk subs \<and> verifySubRule subs = Inr ()"
  using parseSubRuleLists_ok by (fastforce simp: parseSubRules_def rbind_eq_Inr subsOk_def)

subsection \<open>References between the sub-rules\<close>

definition references :: "sub_rules \<Rightarrow> (string \<times> string) set" where
  "references subs = {(a, b). a \<in> fst ` set subs \<and> (\<exists>r\<in>set (subRulesOf subs a). RuleType r = TSubRules \<and> adapter r = b)}"

lemma verifyRules_step:
  "verifyRules subs arr rs = Inr () \<Longrightarrow> r \<in> set rs \<Longrightarrow> RuleType r = TSubRules \<Longrightarrow>
    adapter r \<in> fst ` set subs \<and> adapter r \<notin> set arr \<and> verifyRules subs (arr @ [adapter r]) (subRulesOf subs (adapter r)) = Inr ()"
  by (induction rs) (auto simp: rbind_eq_Inr split: if_splits)

lemma verified_path:
  "(a, b) \<in> (references subs)\<^sup>+ \<Longrightarrow> verifyRules subs arr (subRulesOf subs a) = Inr () \<Longrightarrow> b \<notin> set arr \<and> b \<in> fst ` set subs"
proof (induction arbitrary: arr rule: converse_trancl_induct)
  case (base a)
  then show ?case using verifyRules_step by (auto simp: references_def)
next
  case (step a c)
  then have "verifyRules subs (arr @ [c]) (subRulesOf subs c) = Inr ()" using verifyRules_step by (auto simp: references_def)
  then show ?case using step.IH by fastforce
qed

lemma verifyRules_complete:
  "acyclic (references subs) \<Longrightarrow> references subs \<subseteq> UNIV \<times> fst ` set subs \<Longrightarrow>
    \<forall>r\<in>set rs. RuleType r = TSubRules \<longrightarrow> adapter r \<in> fst ` set subs \<and> (\<forall>a\<in>set arr. (a, adapter r) \<in> (references subs)\<^sup>+) \<Longrightarrow>
    verifyRules subs arr rs = Inr ()"
proof (induction subs arr rs rule: verifyRules.induct)
  case (2 subs arr r rs)
  show ?case
  proof (cases "RuleType r = TSubRules")
    case True
    then have r: "adapter r \<in> fst ` set subs" "\<forall>a\<in>set arr. (a, adapter r) \<in> (references subs)\<^sup>+"
      using "2.prems"(3) by auto
    then have new: "adapter r \<notin> set arr" using "2.prems"(1) by (auto simp: acyclic_def)
    have "(adapter r, adapter r') \<in> references subs"
      if "r' \<in> set (subRulesOf subs (adapter r))" "RuleType r' = TSubRules" for r'
      using that r(1) by (auto simp: references_def)
    then have "\<forall>r'\<in>set (subRulesOf subs (adapter r)). RuleType r' = TSubRules \<longrightarrow>
        adapter r' \<in> fst ` set subs \<and> (\<forall>a\<in>set (arr @ [adapter r]). (a, adapter r') \<in> (references subs)\<^sup>+)"
      using r(2) "2.prems"(2) by (auto intro: trancl_into_trancl)
    then have "verifyRules subs (arr @ [adapter r]) (subRulesOf subs (adapter r)) = Inr ()"
      using "2.IH"(2) True r(1) new "2.prems"(1,2) by simp
    then show ?thesis using "2.IH"(3) True r(1) new "2.prems" by simp
  next
    case False
    then show ?thesis using 2 by simp
  qed
qed simp

lemma verifyNames_iff:
  "verifyNames subs ns = Inr () \<longleftrightarrow> (\<forall>n\<in>set ns. verifyRules subs [n] (subRulesOf subs n) = Inr ())"
  by (induction ns) (auto simp: verifySubRuleCircularReferences_def rbind_eq_Inr)

text \<open>
  C2: The check of the sub-rules is exact: a configuration is accepted if and only if all sub-rules
  that are referred to exist and no sub-rule reaches itself through references.
\<close>

theorem circular_references_refused:
  "verifySubRule subs = Inr () \<longleftrightarrow> acyclic (references subs) \<and> references subs \<subseteq> UNIV \<times> fst ` set subs"
proof
  assume "verifySubRule subs = Inr ()"
  then have verified: "verifyRules subs [n] (subRulesOf subs n) = Inr ()" if "n \<in> fst ` set subs" for n
    using that by (auto simp: verifySubRule_def verifyNames_iff)
  have "b \<noteq> a \<and> b \<in> fst ` set subs" if "(a, b) \<in> (references subs)\<^sup>+" for a b
  proof -
    have "a \<in> fst ` set subs" using that by (induction rule: converse_trancl_induct) (auto simp: references_def)
    then show ?thesis using verified_path [OF that verified] by simp
  qed
  then show "acyclic (references subs) \<and> references subs \<subseteq> UNIV \<times> fst ` set subs" by (auto simp: acyclic_def)
next
  assume ok: "acyclic (references subs) \<and> references subs \<subseteq> UNIV \<times> fst ` set subs"
  have "verifyRules subs [n] (subRulesOf subs n) = Inr ()" if "n \<in> fst ` set subs" for n
  proof (rule verifyRules_complete)
    show "\<forall>r\<in>set (subRulesOf subs n). RuleType r = TSubRules \<longrightarrow>
        adapter r \<in> fst ` set subs \<and> (\<forall>a\<in>set [n]. (a, adapter r) \<in> (references subs)\<^sup>+)"
    proof (intro ballI impI)
      fix r assume "r \<in> set (subRulesOf subs n)" "RuleType r = TSubRules"
      then have "(n, adapter r) \<in> references subs" using that by (auto simp: references_def)
      then show "adapter r \<in> fst ` set subs \<and> (\<forall>a\<in>set [n]. (a, adapter r) \<in> (references subs)\<^sup>+)" using ok by auto
    qed
  qed (use ok in simp_all)
  then show "verifySubRule subs = Inr ()" by (auto simp: verifySubRule_def verifyNames_iff)
qed

subsection \<open>The matcher returns\<close>

lemma matchLists_return:
  assumes "\<And>r st. r \<in> set rs \<Longrightarrow> matchRule env subs n h r st \<noteq> None"
  shows "matchAny env subs n h rs st \<noteq> None" and "matchAll env subs n h rs st \<noteq> None"
proof -
  show "matchAny env subs n h rs st \<noteq> None" using assms
  proof (induction rs arbitrary: st)
    case (Cons r rs)
    obtain m a st' where "matchRule env subs n h r st = Some ((m, a), st')" using Cons.prems [of r st] by auto
    then show ?case using Cons by (cases m) (simp_all del: not_None_eq)
  qed simp
  show "matchAll env subs n h rs st \<noteq> None" using assms
  proof (induction rs arbitrary: st)
    case (Cons r rs)
    obtain m a st' where "matchRule env subs n h r st = Some ((m, a), st')" using Cons.prems [of r st] by auto
    then show ?case using Cons by (cases m) (simp_all del: not_None_eq)
  qed simp
qed

text \<open>A well-formed rule that is no sub-rule needs no fuel.\<close>

lemma plain_rule_returns:
  "wellFormed r \<Longrightarrow> RuleType r \<noteq> TSubRules \<Longrightarrow> matchRule env subs n h r st \<noteq> None"
proof (induction "size r" arbitrary: r st rule: less_induct)
  case less
  show ?case
  proof (cases "is_Logic r")
    case True
    then obtain t p ad rs where r: "r = Logic t p ad rs" by (cases r) auto
    have inner: "matchRule env subs n h r' st \<noteq> None" if "r' \<in> set rs" for r' st
    proof (rule less.hyps)
      show "size r' < size r" using size_list_estimation' [OF that, of "size r'" size] by (simp add: r)
    qed (use less.prems that in \<open>simp_all add: r\<close>)
    have t: "t = TNOT \<longrightarrow> length rs = 1" "t \<noteq> TSubRules" using less.prems by (auto simp: r)
    show ?thesis
    proof (cases "t = TNOT")
      case True
      then obtain r' where "rs = [r']" using t by (auto simp: length_Suc_conv)
      then show ?thesis using inner [of r' st] True by (auto simp: r matchRule.simps)
    next
      case False
      moreover obtain x y where "matchAny env subs n h rs st = Some x" "matchAll env subs n h rs st = Some y"
        using matchLists_return [of rs env subs n h st] inner by blast
      ultimately show ?thesis using t by (simp add: r matchRule.simps del: not_None_eq split: prod.split)
    qed
  next
    case False
    then show ?thesis by (cases r) (simp_all add: matchRule.simps del: not_None_eq)
  qed
qed

text \<open>A rule that matches, a sub-rule or not, in terms of the call of the sub-rules it makes.\<close>

lemma rule_returns:
  assumes "wellFormed r"
    and "\<And>st. RuleType r = TSubRules \<Longrightarrow> matchSubRules env subs n h (adapter r) st \<noteq> None"
  shows "matchRule env subs n h r st \<noteq> None"
proof (cases "RuleType r = TSubRules")
  case True
  have "is_Logic r" using True assms(1) by (cases r) (auto simp: RuleType_def wellFormed.simps split: if_splits)
  then obtain p ad r' where r: "r = Logic TSubRules p ad [r']"
    using True assms(1) by (cases r) (auto simp: length_Suc_conv)
  obtain m a st' where m: "matchRule env subs n h r' st = Some ((m, a), st')"
    using plain_rule_returns [of r' env subs n h st] assms(1) by (auto simp: r)
  then show ?thesis using assms(2) [of st'] by (subst matchRule.simps) (simp add: r m del: not_None_eq)
qed (use plain_rule_returns assms(1) in blast)

lemma matchList_returns:
  "subsOk subs \<Longrightarrow> verifyRules subs arr rs = Inr () \<Longrightarrow> card (fst ` set subs - set arr) \<le> n \<Longrightarrow> \<forall>r\<in>set rs. wellFormed r \<Longrightarrow>
    matchList env subs n h rs st \<noteq> None"
proof (induction subs arr rs arbitrary: n st rule: verifyRules.induct)
  case (2 subs arr r rs)
  have sub: "matchSubRules env subs n h (adapter r) st \<noteq> None" if sub: "RuleType r = TSubRules" for st
  proof -
    have ok: "adapter r \<in> fst ` set subs" "adapter r \<notin> set arr" "verifyRules subs (arr @ [adapter r]) (subRulesOf subs (adapter r)) = Inr ()"
      using verifyRules_step [OF "2.prems"(2), of r] sub by simp_all
    then have "fst ` set subs - set (arr @ [adapter r]) \<subset> fst ` set subs - set arr" by auto
    then have "card (fst ` set subs - set (arr @ [adapter r])) < card (fst ` set subs - set arr)"
      by (intro psubset_card_mono) simp_all
    then have "card (fst ` set subs - set (arr @ [adapter r])) < n" using "2.prems"(3) by (rule less_le_trans)
    then obtain k where "n = Suc k" "card (fst ` set subs - set (arr @ [adapter r])) \<le> k" by (cases n) auto
    then show ?thesis
      using "2.IH"(2) [of k st] sub ok "2.prems"(1) subRulesOf_ok by simp
  qed
  have rest: "matchList env subs n h rs st \<noteq> None" for st
  proof (cases "RuleType r = TSubRules")
    case True
    then show ?thesis using "2.IH"(3) [of "()" n st] "2.prems" by (auto simp: rbind_eq_Inr split: if_splits)
  next
    case False
    then show ?thesis using "2.IH"(1) [of n st] "2.prems" by simp
  qed
  obtain m a st' where r: "matchRule env subs n h r st = Some ((m, a), st')"
    using rule_returns [of r env subs n h st] sub "2.prems"(4) by auto
  obtain m' a' st2 where "(if RuleType r = TSubRules then matchSubRules env subs n h (adapter r) st' else Some ((m, a), st')) = Some ((m', a'), st2)"
    using sub [of st'] by (cases "RuleType r = TSubRules") auto
  then show ?case using rest [of st'] rest [of st2] r by (simp del: not_None_eq)
qed simp

lemma matchSubRules_returns:
  assumes "subsOk subs" "verifySubRule subs = Inr ()"
  shows "matchSubRules env subs (Suc (length subs)) h name st \<noteq> None"
proof (cases "name \<in> fst ` set subs")
  case True
  then have "verifyRules subs [name] (subRulesOf subs name) = Inr ()"
    using assms(2) by (auto simp: verifySubRule_def verifyNames_iff)
  moreover have "card (fst ` set subs - set [name]) \<le> length subs"
    using card_length [of "map fst subs"] card_Diff1_le [of "fst ` set subs" name] by simp
  ultimately show ?thesis using matchList_returns [OF assms(1)] subRulesOf_ok [OF assms(1)] by simp
next
  case False
  then have "map_of subs name = None" by (simp add: map_of_eq_None_iff)
  then show ?thesis by (simp add: subRulesOf_def)
qed

lemma configured_rule_returns:
  assumes "subsOk subs" "verifySubRule subs = Inr ()" "wellFormed r"
  shows "matchRule env subs (Suc (length subs)) h r st \<noteq> None"
  by (rule rule_returns) (use assms matchSubRules_returns in blast)+

text \<open>
  Matching a rule of an accepted configuration returns: the depth of the calls of sub-rules is
  bounded by the number of sub-rules, whatever the connection is.
\<close>

theorem configured_rules_return:
  assumes "parseSubRules env ps providers cfg = Inr subs"
    and "ParseRule env tp payload target params = Inr r"
  shows "\<exists>m ad st'. matchRule env' subs (Suc (length subs)) h r st = Some ((m, ad), st')"
  using configured_rule_returns [of subs r env' h st] parseSubRules_ok [OF assms(1)] ParseRule_ok [OF assms(2)] by auto

theorem configured_rules_return_witness:
  "\<forall>h st. \<exists>m ad st'. matchRule sampleEnv [(''lan'', [Domain ''a.b'' ''DIRECT''])] 2 h
     (Logic TSubRules ''(NETWORK,TCP)'' ''lan'' [NetworkType TCP []]) st = Some ((m, ad), st')"
proof (intro allI)
  fix h st
  have "parseSubRules sampleEnv [''DIRECT''] [] [(''lan'', [''DOMAIN,a.b,DIRECT''])] = Inr [(''lan'', [Domain ''a.b'' ''DIRECT''])]"
    by code_simp
  moreover have "ParseRule sampleEnv ''SUB-RULE'' ''(NETWORK,TCP)'' ''lan'' []
      = Inr (Logic TSubRules ''(NETWORK,TCP)'' ''lan'' [NetworkType TCP []])"
    by code_simp
  ultimately show "\<exists>m ad st'. matchRule sampleEnv [(''lan'', [Domain ''a.b'' ''DIRECT''])] 2 h
     (Logic TSubRules ''(NETWORK,TCP)'' ''lan'' [NetworkType TCP []]) st = Some ((m, ad), st')"
    using configured_rules_return by (fastforce simp: numeral_2_eq_2)
qed

subsection \<open>Passing on\<close>

text \<open>
  The target that the rules of a sub-rule choose is never \<^verbatim>\<open>PASS-RULE\<close> and never an adapter that
  passes on to the next rule: the rules after such a match are tried.
\<close>

theorem passing_targets_not_chosen:
  assumes "matchList env subs n h rs st = Some ((True, a), st')"
  shows "a \<noteq> ''PASS-RULE'' \<and> \<not> (case CheckPassRule h of None \<Rightarrow> False | Some check \<Rightarrow> check st' a)"
  using assms
proof (induction rs arbitrary: st)
  case (Cons r rs)
  then show ?case by (auto split: option.splits prod.splits if_splits)
qed simp

definition passG :: "match_state \<Rightarrow> string \<Rightarrow> bool" where
  "passG st a \<longleftrightarrow> a = ''G''"

theorem passing_targets_not_chosen_witness:
  "\<forall>st. \<exists>h. CheckPassRule h = Some passG \<and>
     matchList sampleEnv [] 0 h [Match ''PASS-RULE'', Match ''G'', Match ''DIRECT''] st = Some ((True, ''DIRECT''), st) \<and>
     \<not> passG st ''DIRECT''"
proof (intro allI exI conjI)
  fix st
  let ?h = "\<lparr>ResolveIP = None, FindProcess = None, CheckPassRule = Some passG\<rparr>"
  show run: "matchList sampleEnv [] 0 ?h [Match ''PASS-RULE'', Match ''G'', Match ''DIRECT''] st = Some ((True, ''DIRECT''), st)"
    by (simp add: matchRule.simps matchAtom_def matchFinal_def matchNetworkType_def RuleType_def Let_def passG_def)
  show "CheckPassRule ?h = Some passG" by simp
  show "\<not> passG st ''DIRECT''" using passing_targets_not_chosen [OF run] by simp
qed

end
