(* ===== verification/RulePayloadSpec.thy ===== *)
theory RulePayloadSpec
  imports RuleSpec "HOL-Library.Multiset"
begin

text \<open>
  What the payloads of the logical rules (\<^verbatim>\<open>rules/logic/logic.go\<close>) stand for: the round trip of
  their lists of sub-rules, and the lists that are lost.
\<close>

subsection \<open>Payloads of the logical rules\<close>

inductive balanced :: "string \<Rightarrow> bool" where
  "balanced []"
| "c \<noteq> CHR ''('' \<Longrightarrow> c \<noteq> CHR '')'' \<Longrightarrow> balanced s \<Longrightarrow> balanced (c # s)"
| "balanced s \<Longrightarrow> balanced s' \<Longrightarrow> balanced (CHR ''('' # s @ CHR '')'' # s')"

text \<open>Balanced text adds its own ranges and leaves the stack as it was.\<close>

definition rangesOf :: "nat \<Rightarrow> string \<Rightarrow> paren list \<Rightarrow> bool" where
  "rangesOf i s rs \<longleftrightarrow>
     (\<forall>r\<in>set rs. i \<le> pstart r \<and> pstart r < pend r \<and> pend r < i + length s)
     \<and> (\<forall>stack s'. formatLoop i stack (s @ s') = rbind (formatLoop (i + length s) stack s') (\<lambda>rs'. Inr (rs @ rs')))"

lemma rbind_append: "rbind (rbind m (\<lambda>rs. Inr (xs @ rs))) (\<lambda>rs. Inr (ys @ rs)) = rbind m (\<lambda>rs. Inr ((ys @ xs) @ rs))"
  by (cases m) auto

lemma balanced_ranges: "balanced s \<Longrightarrow> \<exists>rs. rangesOf i s rs"
proof (induction arbitrary: i rule: balanced.induct)
  case 1
  have "rangesOf i [] []" by (auto simp: rangesOf_def rbind_def split: sum.splits)
  then show ?case by blast
next
  case (2 c s)
  then obtain rs where "rangesOf (i + 1) s rs" by blast
  with 2 have "rangesOf i (c # s) rs" by (auto simp: rangesOf_def)
  then show ?case by blast
next
  case (3 s s')
  obtain rs where rs: "rangesOf (i + 1) s rs" using "3.IH"(1) by blast
  obtain rs' where rs': "rangesOf (i + length s + 2) s' rs'" using "3.IH"(2) by blast
  have "rangesOf i (CHR ''('' # s @ CHR '')'' # s') (rs @ [\<lparr>pstart = i, pend = i + length s + 1\<rparr>] @ rs')"
    using rs rs' by (auto simp: rangesOf_def rbind_assoc add.assoc)
  then show ?case by blast
qed

lemma rangesOf_group:
  assumes "rangesOf (i + 1) s rs"
  shows "rangesOf i (''('' @ s @ '')'') (rs @ [\<lparr>pstart = i, pend = i + length s + 1\<rparr>])"
  using assms by (auto simp: rangesOf_def rbind_assoc)

lemma rangesOf_append: "rangesOf i s rs \<Longrightarrow> rangesOf (i + length s) s' rs' \<Longrightarrow> rangesOf i (s @ s') (rs @ rs')"
  by (auto simp: rangesOf_def rbind_append add.assoc)

lemma rangesOf_char: "c \<noteq> CHR ''('' \<Longrightarrow> c \<noteq> CHR '')'' \<Longrightarrow> rangesOf (i + 1) s rs \<Longrightarrow> rangesOf i (c # s) rs"
  by (auto simp: rangesOf_def)

lemma rangesOf_bounds: "rangesOf i s rs \<Longrightarrow> r \<in> set rs \<Longrightarrow> i \<le> pstart r \<and> pstart r < pend r \<and> pend r < i + length s"
  by (simp add: rangesOf_def)

lemma sort_key_parts:
  assumes "\<And>a b. a \<in> set xs \<Longrightarrow> b \<in> set ys \<Longrightarrow> f a < f b"
  shows "sort_key f (xs @ ys) = sort_key f xs @ sort_key f ys" and "sort_key f (ys @ xs) = sort_key f xs @ sort_key f ys"
proof -
  have sorted: "sorted (map f (sort_key f xs @ sort_key f ys))" using assms by (auto simp: sorted_append less_imp_le)
  have "filter (\<lambda>x. f k = f x) xs = [] \<or> filter (\<lambda>x. f k = f x) ys = []" for k
    using assms by (fastforce simp: filter_empty_conv)
  then have same: "filter (\<lambda>x. f k = f x) (xs @ ys) = filter (\<lambda>x. f k = f x) (ys @ xs)" for k by (metis append.right_neutral append_Nil filter_append)
  have stable: "filter (\<lambda>x. f k = f x) (sort_key f zs) = filter (\<lambda>x. f k = f x) zs" for k zs
    using sort_key_stable [of f "f k" zs] by (simp add: eq_commute)
  show "sort_key f (xs @ ys) = sort_key f xs @ sort_key f ys"
    by (rule properties_for_sort_key) (use sorted stable in simp_all)
  show "sort_key f (ys @ xs) = sort_key f xs @ sort_key f ys"
    by (rule properties_for_sort_key) (use sorted stable same in simp_all)
qed

definition grouped :: "string \<Rightarrow> string" where
  "grouped s = ''('' @ s @ '')''"

fun groupRanges :: "nat \<Rightarrow> string list \<Rightarrow> paren list" where
  "groupRanges i [] = []"
| "groupRanges i (s # ss) = \<lparr>pstart = i, pend = i + length s + 1\<rparr> # groupRanges (i + length s + 3) ss"

lemma subRuleLoop_append: "subRuleLoop len acc (xs @ ys) = subRuleLoop len (subRuleLoop len acc xs) ys"
  by (induction len acc xs rule: subRuleLoop.induct) auto

lemma subRuleLoop_inside:
  "\<forall>r\<in>set rs. \<exists>a\<in>set acc. containRange r (pstart a) (pend a) \<Longrightarrow> subRuleLoop len acc rs = acc"
  by (induction rs) (auto simp: list_ex_iff)

lemma subRuleLoop_group:
  assumes "0 < i" "\<forall>r\<in>set acc. pend r < i" "rangesOf (i + 1) s rs"
  shows "subRuleLoop len acc (\<lparr>pstart = i, pend = i + length s + 1\<rparr> # sort_key pstart rs)
    = acc @ [\<lparr>pstart = i, pend = i + length s + 1\<rparr>]"
proof -
  have "\<not> list_ex (\<lambda>r. containRange \<lparr>pstart = i, pend = i + length s + 1\<rparr> (pstart r) (pend r)) acc"
    using assms(2) by (auto simp: list_ex_iff containRange_def)
  moreover have "containRange r i (i + length s + 1)" if "r \<in> set rs" for r
    using rangesOf_bounds [OF assms(3) that] by (simp add: containRange_def)
  ultimately show ?thesis using assms(1) by (simp add: subRuleLoop_inside)
qed

lemma groups_ranges:
  "\<forall>s\<in>set ss. balanced s \<Longrightarrow> 0 < i \<Longrightarrow>
    \<exists>rs. rangesOf i (joinStrings '','' (map grouped ss)) rs \<and>
      (\<forall>len acc. (\<forall>r\<in>set acc. pend r < i) \<longrightarrow> subRuleLoop len acc (sort_key pstart rs) = acc @ groupRanges i ss)"
proof (induction ss arbitrary: i)
  case Nil
  have "rangesOf i [] []" by (auto simp: rangesOf_def rbind_def split: sum.splits)
  then show ?case by (intro exI [of _ "[]"]) simp
next
  case (Cons s ss)
  let ?top = "\<lparr>pstart = i, pend = i + length s + 1\<rparr>"
  obtain inner where inner: "rangesOf (i + 1) s inner" using balanced_ranges Cons.prems(1) by fastforce
  have group: "rangesOf i (grouped s) (inner @ [?top])" using rangesOf_group [OF inner] by (simp add: grouped_def)
  have top: "sort_key pstart (inner @ [?top]) = ?top # sort_key pstart inner"
    using sort_key_parts(2) [of "[?top]" inner pstart] rangesOf_bounds [OF inner] by fastforce
  obtain rs where rs: "rangesOf (i + length s + 3) (joinStrings '','' (map grouped ss)) rs"
      "\<And>len acc. (\<forall>r\<in>set acc. pend r < i + length s + 3) \<Longrightarrow>
        subRuleLoop len acc (sort_key pstart rs) = acc @ groupRanges (i + length s + 3) ss"
    using Cons.IH [of "i + length s + 3"] Cons.prems by auto
  have all: "rangesOf i (joinStrings '','' (map grouped (s # ss))) ((inner @ [?top]) @ rs)"
  proof (cases ss)
    case Nil
    then have "rs = []" using rangesOf_bounds [OF rs(1), of "hd rs"] by (cases rs) auto
    then show ?thesis using group Nil by simp
  next
    case (Cons s' ss')
    have "rangesOf (i + length s + 2) ('','' @ joinStrings '','' (map grouped ss)) rs"
      using rangesOf_char [of "CHR '',''" "i + length s + 2"] rs(1) by (simp add: numeral_3_eq_3)
    then show ?thesis using rangesOf_append [OF group, of "'','' @ joinStrings '','' (map grouped ss)" rs]
      by (simp add: Cons grouped_def)
  qed
  have "sort_key pstart ((inner @ [?top]) @ rs) = (?top # sort_key pstart inner) @ sort_key pstart rs"
    using sort_key_parts(1) [of "inner @ [?top]" rs pstart] rangesOf_bounds [OF group] rangesOf_bounds [OF rs(1)] top
    by (fastforce simp: grouped_def)
  then have "subRuleLoop len acc (sort_key pstart ((inner @ [?top]) @ rs)) = acc @ groupRanges i (s # ss)"
    if "\<forall>r\<in>set acc. pend r < i" for len acc
    using that subRuleLoop_group [OF Cons.prems(2) that inner, of len] rs(2) [of "acc @ [?top]" len]
    by (simp only: subRuleLoop_append) fastforce
  then show ?case using all by blast
qed

lemma groupRanges_payload:
  "length pre = i \<Longrightarrow> map (subPayload (pre @ joinStrings '','' (map grouped ss) @ post)) (groupRanges i ss) = ss"
proof (induction ss arbitrary: i pre)
  case (Cons s ss)
  have first: "subPayload (pre @ grouped s @ rest) \<lparr>pstart = i, pend = i + length s + 1\<rparr> = s" for rest
    using Cons.prems by (simp add: subPayload_def grouped_def)
  show ?case
  proof (cases ss)
    case Nil
    then show ?thesis using first by simp
  next
    case (Cons s' ss')
    then have "pre @ joinStrings '','' (map grouped (s # ss)) @ post
        = (pre @ grouped s @ '','') @ joinStrings '','' (map grouped ss) @ post" by simp
    moreover have "length (pre @ grouped s @ '','') = i + length s + 3" using Cons.prems by (simp add: grouped_def)
    ultimately show ?thesis using Cons.IH [of "pre @ grouped s @ '',''"] first [of "'','' @ joinStrings '','' (map grouped ss) @ post"]
      by (simp add: numeral_3_eq_3)
  qed
qed simp

text \<open>
  C16: The payload of a logical rule is read back: for texts with balanced parentheses, the list of
  them, each in parentheses and separated by commas, inside one more pair of parentheses, is split
  into exactly these texts, in their order and at any depth of nesting.
\<close>

theorem logic_payload_round_trip:
  assumes "\<forall>s\<in>set ss. balanced s"
  shows "subPayloads (grouped (joinStrings '','' (map grouped ss))) = Inr ss"
proof -
  let ?body = "joinStrings '','' (map grouped ss)"
  let ?outer = "\<lparr>pstart = 0, pend = length ?body + 1\<rparr>"
  obtain rs where rs: "rangesOf 1 ?body rs"
      "\<And>len acc. (\<forall>r\<in>set acc. pend r < 1) \<Longrightarrow> subRuleLoop len acc (sort_key pstart rs) = acc @ groupRanges 1 ss"
    using groups_ranges [OF assms, of 1] by auto
  have "rangesOf 0 (grouped ?body) (rs @ [?outer])" using rangesOf_group [of 0 ?body rs] rs(1) by (simp add: grouped_def)
  then have "formatLoop 0 [] (grouped ?body @ []) = rbind (formatLoop (length (grouped ?body)) [] []) (\<lambda>rs'. Inr ((rs @ [?outer]) @ rs'))"
    unfolding rangesOf_def by (metis add_0)
  then have "formatLoop 0 [] (grouped ?body) = Inr (rs @ [?outer])" by simp
  moreover have "sort_key pstart (rs @ [?outer]) = ?outer # sort_key pstart rs"
    using sort_key_parts(2) [of "[?outer]" rs pstart] rangesOf_bounds [OF rs(1)] by fastforce
  moreover have "findSubRuleRange (grouped ?body) (?outer # sort_key pstart rs) = groupRanges 1 ss"
    using rs(2) [of "[]"] by (simp add: findSubRuleRange_def grouped_def)
  moreover have "map (subPayload (grouped ?body)) (groupRanges 1 ss) = ss"
    using groupRanges_payload [of "''(''" 1 ss "'')''"] by (simp add: grouped_def)
  moreover have "hasPrefix (grouped ?body) ''(''" "hasSuffix (grouped ?body) '')''"
    by (simp_all add: hasPrefix_def hasSuffix_def grouped_def)
  ultimately show ?thesis by (simp add: subPayloads_def formatPayload_def)
qed

text \<open>
  C17: A pair of parentheses around a payload is taken for the outer pair.  The rule \<^verbatim>\<open>AND,(x),target\<close>
  is accepted without any sub-rule, whatever \<^verbatim>\<open>x\<close> is, and matches every connection.
\<close>

theorem single_parentheses_match_everything:
  assumes "CHR ''('' \<notin> set x" "CHR '')'' \<notin> set x"
  shows "ParseRule env ''AND'' (grouped x) target params = Inr (Logic TAND (grouped x) target []) \<and>
    matchRule env' subs n h (Logic TAND (grouped x) target []) st = Some ((True, target), st)"
proof -
  have skip: "formatLoop i stack (x @ s) = formatLoop (i + length x) stack s" for i stack s
    using assms by (induction x arbitrary: i) auto
  have "subPayloads (grouped x) = Inr []"
    by (simp add: subPayloads_def grouped_def formatPayload_def hasPrefix_def hasSuffix_def skip findSubRuleRange_def)
  moreover have "grouped x \<noteq> []" by (simp add: grouped_def)
  ultimately have "ParseRule env ''AND'' (grouped x) target params = Inr (Logic TAND (grouped x) target [])"
    by (subst ParseRule.simps) (simp add: NewAND_def parsePayload_def)
  then show ?thesis by (simp add: matchRule.simps)
qed

text \<open>A list of two rules, the second of which has parentheses of its own.\<close>

theorem logic_payload_round_trip_witness:
  "subPayloads ''((NETWORK,TCP),(NOT,((a))))'' = Inr [''NETWORK,TCP'', ''NOT,((a))'']"
proof -
  have "balanced ''NOT,((a))''"
    using balanced.intros(3) [of "''(a)''" "[]"] balanced.intros(3) [of "''a''" "[]"] by (simp add: balanced.intros)
  moreover have "balanced ''NETWORK,TCP''" by (simp add: balanced.intros)
  ultimately show ?thesis
    using logic_payload_round_trip [of "[''NETWORK,TCP'', ''NOT,((a))'']"] by (simp add: grouped_def)
qed

theorem single_parentheses_match_everything_witness:
  "ParseRule sampleEnv ''AND'' ''(DOMAIN,a.b)'' ''DIRECT'' [] = Inr (Logic TAND ''(DOMAIN,a.b)'' ''DIRECT'' [])"
  using single_parentheses_match_everything [of "''DOMAIN,a.b''" sampleEnv "''DIRECT''" "[]"] by (simp add: grouped_def)

end
