(* ===== verification/IpRuleSpec.thy ===== *)
theory IpRuleSpec
  imports Rules
begin

text \<open>
  The byte-wise comparison of address suffixes (\<^verbatim>\<open>rules/common/ipsuffix.go\<close>) against the comparison
  of single bits.
\<close>

definition byteBits :: "8 word \<Rightarrow> bool list" where
  "byteBits b = map (bit b) [0..<8]"

text \<open>The bits of an address from its last one on.\<close>

definition lowBits :: "8 word list \<Rightarrow> bool list" where
  "lowBits bs = concat (map byteBits (rev bs))"

lemma length_byteBits [simp]: "length (byteBits b) = 8"
  by (simp add: byteBits_def)

lemma byteBits_eq: "byteBits a = byteBits b \<longleftrightarrow> a = b"
proof
  assume "byteBits a = byteBits b"
  then have "bit a n = bit b n" if "n < 8" for n using that by (auto simp: byteBits_def)
  then show "a = b" by (intro bit_word_eqI) simp
qed simp

lemma take_concat_bytes:
  "n \<le> 8 * length bs \<Longrightarrow>
    take n (concat (map byteBits bs)) =
    concat (map byteBits (take (n div 8) bs)) @ (if n mod 8 = 0 then [] else take (n mod 8) (byteBits (bs ! (n div 8))))"
proof (induction bs arbitrary: n)
  case (Cons b bs)
  show ?case
  proof (cases "n < 8")
    case True
    then show ?thesis by simp
  next
    case False
    then have n: "n div 8 = Suc ((n - 8) div 8)" "n mod 8 = (n - 8) mod 8" by (simp_all add: le_div_geq le_mod_geq)
    then show ?thesis using Cons.IH [of "n - 8"] Cons.prems False by simp
  qed
qed simp

lemma concat_bytes_eq: "length xs = length ys \<Longrightarrow> concat (map byteBits xs) = concat (map byteBits ys) \<longleftrightarrow> xs = ys"
  by (induction rule: list_induct2) (auto simp: byteBits_eq)

lemma take_byteBits_eq: "r < 8 \<Longrightarrow> take r (byteBits a) = take r (byteBits b) \<longleftrightarrow> push_bit (8 - r) a = push_bit (8 - r) b"
proof -
  assume r: "r < 8"
  have "take r (byteBits a) = take r (byteBits b) \<longleftrightarrow> (\<forall>n<r. bit a n = bit b n)"
    using r by (auto simp: byteBits_def take_map list_eq_iff_nth_eq)
  also have "\<dots> \<longleftrightarrow> push_bit (8 - r) a = push_bit (8 - r) b"
  proof
    assume "\<forall>n<r. bit a n = bit b n"
    then show "push_bit (8 - r) a = push_bit (8 - r) b"
      using r by (intro bit_word_eqI) (auto simp: bit_push_bit_iff)
  next
    assume eq: "push_bit (8 - r) a = push_bit (8 - r) b"
    have "bit a n = bit b n" if n: "n < r" for n
    proof -
      have "8 - r \<le> 8 + n - r" "8 + n - r < 8" using n r by simp_all
      then show ?thesis using arg_cong [OF eq, of "\<lambda>w. bit w (8 - r + n)"] n r by (simp add: bit_push_bit_iff)
    qed
    then show "\<forall>n<r. bit a n = bit b n" by blast
  qed
  finally show ?thesis .
qed

lemma suffixBytes_take:
  "length xs = length ys \<Longrightarrow> i \<le> length ys \<Longrightarrow> suffixBytes xs ys i \<longleftrightarrow> take i (rev xs) = take i (rev ys)"
proof (induction i)
  case (Suc i)
  then have "take (Suc i) (rev xs) = take i (rev xs) @ [xs ! (length ys - Suc i)]"
    "take (Suc i) (rev ys) = take i (rev ys) @ [ys ! (length ys - Suc i)]"
    by (simp_all add: take_Suc_conv_app_nth rev_nth)
  then show ?case using Suc by auto
qed simp

text \<open>
  The rule IP-SUFFIX compares addresses by their last bits: the comparison of whole bytes from the
  end and of one shifted byte is the comparison of the last \<open>bits\<close> bits of two addresses of the same
  length.
\<close>

theorem ip_suffix_compares_low_bits:
  assumes "bits \<le> 8 * length net"
  shows "ipSuffixMatch net bits ip \<longleftrightarrow> length net = length ip \<and> take bits (lowBits net) = take bits (lowBits ip)"
proof (cases "length net = length ip")
  case True
  let ?k = "bits div 8" and ?r = "bits mod 8"
  have k: "?k \<le> length ip" using assms True by simp
  have parts: "take bits (lowBits xs) =
      concat (map byteBits (take ?k (rev xs))) @ (if ?r = 0 then [] else take ?r (byteBits (rev xs ! ?k)))"
    if "length xs = length ip" for xs
    using take_concat_bytes [of bits "rev xs"] assms that True by (simp add: lowBits_def)
  have whole: "concat (map byteBits (take ?k (rev net))) = concat (map byteBits (take ?k (rev ip))) \<longleftrightarrow> suffixBytes net ip ?k"
    using suffixBytes_take [OF True k] concat_bytes_eq [of "take ?k (rev net)" "take ?k (rev ip)"] True by simp
  have last: "take ?r (byteBits (rev net ! ?k)) = take ?r (byteBits (rev ip ! ?k)) \<longleftrightarrow>
      push_bit (8 - ?r) (net ! (length ip - ?k - 1)) = push_bit (8 - ?r) (ip ! (length ip - ?k - 1))" if "?r \<noteq> 0"
  proof -
    have "?k < length ip" using assms True that by presburger
    then show ?thesis using take_byteBits_eq [of ?r] True by (simp add: rev_nth)
  qed
  show ?thesis
  proof (cases "?r = 0")
    case True
    then show ?thesis using whole parts \<open>length net = length ip\<close> by (simp add: ipSuffixMatch_def)
  next
    case False
    then show ?thesis using whole last parts [of net] parts [of ip] \<open>length net = length ip\<close>
      by (simp add: ipSuffixMatch_def Let_def)
  qed
qed (simp add: ipSuffixMatch_def)

text \<open>The suffix of 12 bits of two IPv4 addresses that differ in their first 20 bits.\<close>

theorem ip_suffix_compares_low_bits_witness:
  "ipSuffixMatch [8, 8, 8, 8] 12 [1, 2, 0x18, 8] \<and> take 12 (lowBits [8, 8, 8, 8]) = take 12 (lowBits [1, 2, 0x18, 8])"
proof -
  have "take 12 (lowBits [8, 8, 8, 8]) = take 12 (lowBits [1, 2, 0x18, 8])" by code_simp
  then show ?thesis using ip_suffix_compares_low_bits [of 12 "[8, 8, 8, 8]" "[1, 2, 0x18, 8]"] by simp
qed

end
