(* ===== verification/Hosts.thy ===== *)
theory Hosts
  imports Metadata DomainTrie
begin

text \<open>
  The hosts table: \<^verbatim>\<open>mihomo/component/resolver/host.go\<close>, and \<^verbatim>\<open>parseHosts\<close> of
  \<^verbatim>\<open>mihomo/config/config.go\<close>.  Neither of the loops along the names that a name stands for has a bound:
  \<open>None\<close> is a run that has used up the fuel.
\<close>

subsection \<open>Values\<close>

record host_value =
  IsDomain :: bool
  IPs :: "addr list"
  aliasName :: string

definition zeroValue :: host_value where
  "zeroValue = \<lparr>IsDomain = False, IPs = [], aliasName = []\<rparr>"

definition NewHostValueByIPs :: "addr list \<Rightarrow> host_value checked" where
  "NewHostValueByIPs ips =
     (if length ips = 0 then Inl ''ip list is empty'' else Inr \<lparr>IsDomain = False, IPs = ips, aliasName = []\<rparr>)"

definition NewHostValueByDomain :: "string \<Rightarrow> host_value checked" where
  "NewHostValueByDomain domain =
     (let domain = trimSet {CHR ''.''} domain in
      if length (splitAt ''.'' [] domain) < 2 then Inl ''invalid domain''
      else Inr \<lparr>IsDomain = True, IPs = [], aliasName = domain\<rparr>)"

fun parseAddrs :: "(string \<Rightarrow> addr option) \<Rightarrow> string list \<Rightarrow> addr list checked" where
  "parseAddrs parseAddr [] = Inr []"
| "parseAddrs parseAddr (s # ss) =
     (case parseAddr s of
        None \<Rightarrow> Inl ''unable to parse IP''
      | Some ip \<Rightarrow> rbind (parseAddrs parseAddr ss) (\<lambda>ips. Inr (Unmap ip # ips)))"

definition NewHostValue :: "(string \<Rightarrow> addr option) \<Rightarrow> string list \<Rightarrow> host_value checked" where
  "NewHostValue parseAddr hostNames =
     (case hostNames of
        [] \<Rightarrow> Inl ''value is empty''
      | [host] \<Rightarrow>
          (case parseAddr host of
             Some ip \<Rightarrow> NewHostValueByIPs [Unmap ip]
           | None \<Rightarrow> NewHostValueByDomain host)
      | _ \<Rightarrow> rbind (parseAddrs parseAddr hostNames) NewHostValueByIPs)"

text \<open>\<open>i\<close> is the random number, which is less than the number of addresses.\<close>

definition RandIP :: "nat \<Rightarrow> host_value \<Rightarrow> addr checked" where
  "RandIP i hv = (if IsDomain hv then Inl ''value type is error'' else Inr (IPs hv ! i))"

subsection \<open>Search\<close>

fun aliasLoop ::
  "(string \<Rightarrow> string) \<Rightarrow> host_value domain_trie \<Rightarrow> bool \<Rightarrow> nat \<Rightarrow> host_value \<Rightarrow> (host_value \<times> bool) option" where
  "aliasLoop lower t wantDomain 0 hv = None"
| "aliasLoop lower t wantDomain (Suc n) hv =
     (if wantDomain \<and> IsDomain hv then Some (hv, True)
      else
        (case Search lower t (aliasName hv) of
           Some node \<Rightarrow> aliasLoop lower t wantDomain n (node_data node)
         | None \<Rightarrow> Some (hv, wantDomain = IsDomain hv)))"

text \<open>The hosts file of the system is a parameter; so are the switches for it.\<close>

record system_hosts =
  DisableSystemHosts :: bool
  UseSystemHosts :: bool
  LookupStaticHost :: "string \<Rightarrow> string list"

definition hostsSearch ::
  "(string \<Rightarrow> string) \<Rightarrow> (string \<Rightarrow> addr option) \<Rightarrow> system_hosts \<Rightarrow> nat \<Rightarrow> host_value domain_trie \<Rightarrow>
   string \<Rightarrow> bool \<Rightarrow> (host_value option \<times> bool) option" where
  "hostsSearch lower parseAddr sys n t domain wantDomain =
     (case Search lower t domain of
        Some node \<Rightarrow> map_option (\<lambda>(hv, ok). (Some hv, ok)) (aliasLoop lower t wantDomain n (node_data node))
      | None \<Rightarrow>
          Some
            (if \<not> wantDomain \<and> \<not> DisableSystemHosts sys \<and> UseSystemHosts sys then
               (case NewHostValue parseAddr (LookupStaticHost sys domain) of
                  Inr hv \<Rightarrow> (Some hv, True)
                | Inl e \<Rightarrow> (None, False))
             else (None, False)))"

subsection \<open>The table of a configuration\<close>

text \<open>Whether the names that follow from \<open>node\<close> come back to \<open>domain\<close>.\<close>

fun cycleLoop ::
  "(string \<Rightarrow> string) \<Rightarrow> host_value domain_trie \<Rightarrow> string \<Rightarrow> nat \<Rightarrow> host_value node option \<Rightarrow> bool option" where
  "cycleLoop lower t domain 0 node = None"
| "cycleLoop lower t domain (Suc n) node =
     (case node of
        None \<Rightarrow> Some False
      | Some nd \<Rightarrow>
          if \<not> IsDomain (node_data nd) then Some False
          else if aliasName (node_data nd) = domain then Some True
          else cycleLoop lower t domain n (Search lower t (aliasName (node_data nd))))"

text \<open>
  An address of a network interface: its text, and whether it is a loopback or a link-local one.
  The addresses may not be available.
\<close>

type_synonym interface_addr = "string \<times> bool \<times> bool"

definition expandLan :: "interface_addr list option \<Rightarrow> string list \<Rightarrow> string list" where
  "expandLan addrs hostNames =
     (if length hostNames = 1 \<and> hostNames ! 0 = ''lan'' then
        (case addrs of
           None \<Rightarrow> hostNames
         | Some as \<Rightarrow> map fst (filter (\<lambda>(_, loopback, linkLocal). \<not> loopback \<and> \<not> linkLocal) as))
      else hostNames)"

text \<open>An entry's value is an error when it is neither a string nor a list.\<close>

fun hostsLoop ::
  "(string \<Rightarrow> string) \<Rightarrow> (string \<Rightarrow> addr option) \<Rightarrow> interface_addr list option \<Rightarrow> nat \<Rightarrow>
   (string \<times> string list checked) list \<Rightarrow> host_value domain_trie \<Rightarrow> host_value domain_trie checked option" where
  "hostsLoop lower parseAddr addrs n [] t = Some (Inr t)"
| "hostsLoop lower parseAddr addrs n ((domain, anyValue) # cfg) t =
     (case rbind anyValue (\<lambda>hostNames. NewHostValue parseAddr (expandLan addrs hostNames)) of
        Inl e \<Rightarrow> Some (Inl e)
      | Inr value \<Rightarrow>
          (case (if IsDomain value then cycleLoop lower t domain n (Search lower t (aliasName value)) else Some False) of
             None \<Rightarrow> None
           | Some cycle \<Rightarrow>
               if cycle then Some (Inl ''there is a cycle in domain name mapping'')
               else hostsLoop lower parseAddr addrs n cfg (snd (trieInsert lower zeroValue domain value t))))"

definition parseHosts ::
  "(string \<Rightarrow> string) \<Rightarrow> (string \<Rightarrow> addr option) \<Rightarrow> interface_addr list option \<Rightarrow> nat \<Rightarrow>
   (string \<times> string list checked) list \<Rightarrow> host_value domain_trie checked option" where
  "parseHosts lower parseAddr addrs n cfg =
     (let local = \<lparr>IsDomain = False, IPs = [Addr4 [127, 0, 0, 1]], aliasName = []\<rparr>;
          t = snd (trieInsert lower zeroValue ''localhost'' local (newTrie zeroValue)) in
      map_option (\<lambda>r. rbind r (\<lambda>t. Inr (Optimize t))) (hostsLoop lower parseAddr addrs n cfg t))"

end
