(* ===== verification/HostsSpec.thy ===== *)
theory HostsSpec
  imports Hosts DomainTrieSpec
begin

text \<open>
  When a lookup in the hosts table ends: always in a table of plain names that map to other names, and
  never for a name that comes back to itself, which the check of the configuration does not exclude.
\<close>

subsection \<open>Lookups in the trie\<close>

lemma search_entries:
  "found (Search lower t domain) =
     (case ValidAndSplitDomain lower domain of
        Inl _ \<Rightarrow> None
      | Inr parts \<Rightarrow> if hd parts = [] then None else best (entries (root t)) (rev parts))"
  by (simp add: Search_def Let_def found_isEmpty found_searchPath split: sum.split)

lemma search_data:
  "Search lower t domain = Some node \<Longrightarrow> found (Search lower t domain) = Some (node_data node)"
  using search_found [of lower t domain] by (auto simp: found_def split: if_splits)

lemma search_same:
  assumes "found (Search lower t x) = found (Search lower t' x)"
  shows "map_option node_data (Search lower t x) = map_option node_data (Search lower t' x)"
  using assms search_data [of lower t x] search_data [of lower t' x] search_found [of lower t x] search_found [of lower t' x]
  by (cases "Search lower t x"; cases "Search lower t' x") auto

text \<open>Maps without wildcards are searched by the whole name.\<close>

definition plainMap :: "(string list \<rightharpoonup> 'd) \<Rightarrow> bool" where
  "plainMap m \<longleftrightarrow> (\<forall>p. m p \<noteq> None \<longrightarrow> wildcard \<notin> set p \<and> dotWildcard \<notin> set p)"

lemma plainMap_step: "plainMap m \<Longrightarrow> plainMap (\<lambda>p. m (d # p))"
  by (auto simp: plainMap_def)

lemma best_wildcard: "plainMap m \<Longrightarrow> best (\<lambda>p. m (wildcard # p)) ds = None"
  by (metis best_finds list.set_intros(1) plainMap_def)

lemma best_plain: "plainMap m \<Longrightarrow> best m ds = m ds"
proof (induction ds arbitrary: m)
  case (Cons d ds)
  have "m [dotWildcard] = None" using Cons.prems by (auto simp: plainMap_def)
  then show ?case using Cons.IH [OF plainMap_step [OF Cons.prems]] best_wildcard [OF Cons.prems]
    by (simp split: option.split)
qed simp

text \<open>A name that is stored and looked up as it is written.\<close>

definition plainName :: "(string \<Rightarrow> string) \<Rightarrow> string \<Rightarrow> bool" where
  "plainName lower d \<longleftrightarrow>
     lower d = d \<and> (\<exists>parts. ValidAndSplitDomain lower d = Inr parts \<and> set parts \<inter> {wildcard, dotWildcard, complexWildcard} = {})"

lemma joinDomain_splitDots: "joinDomain (splitDots s) = s"
proof (induction s rule: splitDots.induct)
  case (2 c s)
  then show ?case by (cases "splitDots s" rule: joinDomain.cases) (auto split: list.splits)
qed simp

lemma valid_split: "ValidAndSplitDomain lower d = Inr parts \<Longrightarrow> parts = splitDots (lower d)"
  by (auto simp: ValidAndSplitDomain_def Let_def split: if_splits option.splits)

lemma parts_inject:
  "ValidAndSplitDomain lower d = Inr p \<Longrightarrow> ValidAndSplitDomain lower x = Inr p \<Longrightarrow> lower d = d \<Longrightarrow> lower x = x \<Longrightarrow> x = d"
  using joinDomain_splitDots valid_split by metis

lemma insert_entries:
  assumes "wf_node (root t)" "plainName lower d"
  obtains p where "ValidAndSplitDomain lower d = Inr p" "hd p \<noteq> []" "wildcard \<notin> set p" "dotWildcard \<notin> set p"
    "wf_node (root (snd (trieInsert lower z d v t)))" "entries (root (snd (trieInsert lower z d v t))) = (entries (root t))(rev p \<mapsto> v)"
proof -
  obtain p where p: "ValidAndSplitDomain lower d = Inr p" "set p \<inter> {wildcard, dotWildcard, complexWildcard} = {}"
    using assms(2) by (auto simp: plainName_def)
  have "p \<noteq> []" using valid_split [OF p(1)] by simp
  then have "hd p \<in> set p" by simp
  then have "hd p \<noteq> complexWildcard" "hd p \<noteq> []" using p(2) by (auto simp: dotWildcard_def)
  then show thesis using that [of p] p insert_inv [OF assms(1), of lower z d v] by (auto simp: add_paths_def pattern_paths_def)
qed

lemma found_insert:
  assumes "wf_node (root t)" "plainMap (entries (root t))" "plainName lower d" "lower x = x"
  shows "found (Search lower (snd (trieInsert lower z d v t)) x) = (if x = d then Some v else found (Search lower t x))"
proof -
  let ?t = "snd (trieInsert lower z d v t)"
  obtain p where p: "ValidAndSplitDomain lower d = Inr p" "hd p \<noteq> []" "wildcard \<notin> set p" "dotWildcard \<notin> set p"
      "entries (root ?t) = (entries (root t))(rev p \<mapsto> v)"
    using insert_entries [OF assms(1,3)] by metis
  then have plain: "plainMap (entries (root ?t))" using assms(2) by (simp add: plainMap_def)
  have low: "lower d = d" using assms(3) by (simp add: plainName_def)
  show ?thesis
  proof (cases "ValidAndSplitDomain lower x")
    case (Inl e)
    then have "x \<noteq> d" using p(1) by auto
    then show ?thesis by (simp add: search_entries Inl)
  next
    case (Inr q)
    have "q = p \<longleftrightarrow> x = d" using parts_inject [OF p(1) _ low assms(4)] Inr p(1) by auto
    then show ?thesis using p(2)
      by (cases "x = d") (simp_all add: search_entries Inr p(1) best_plain [OF plain, unfolded p(5)] best_plain [OF assms(2)] p(5))
  qed
qed

subsection \<open>Chains of names\<close>

lemma aliasLoop_mono: "aliasLoop lower t w n hv = Some r \<Longrightarrow> n \<le> m \<Longrightarrow> aliasLoop lower t w m hv = Some r"
proof (induction n arbitrary: hv m)
  case (Suc n)
  then obtain m' where "m = Suc m'" "n \<le> m'" by (cases m) auto
  then show ?case using Suc by (auto split: option.splits if_splits)
qed simp

lemma aliasLoop_early: "aliasLoop lower t False n hv \<noteq> None \<Longrightarrow> aliasLoop lower t w n hv \<noteq> None"
  by (induction n arbitrary: hv) (auto split: option.splits)

lemma cycleLoop_mono: "cycleLoop lower t d n nd = Some r \<Longrightarrow> n \<le> m \<Longrightarrow> cycleLoop lower t d m nd = Some r"
proof (induction n arbitrary: nd m)
  case (Suc n)
  then obtain m' where "m = Suc m'" "n \<le> m'" by (cases m) auto
  then show ?case using Suc by (auto split: option.splits if_splits)
qed simp

lemma hostsLoop_mono: "hostsLoop lower pa as n cfg t = Some r \<Longrightarrow> n \<le> m \<Longrightarrow> hostsLoop lower pa as m cfg t = Some r"
proof (induction cfg arbitrary: t)
  case (Cons c cfg)
  then show ?case
    by (cases c) (auto split: sum.splits option.splits if_splits dest: cycleLoop_mono)
qed simp

definition ends :: "(string \<Rightarrow> string) \<Rightarrow> host_value domain_trie \<Rightarrow> host_value \<Rightarrow> bool" where
  "ends lower t hv \<longleftrightarrow> (\<exists>n. aliasLoop lower t False n hv \<noteq> None)"

lemma ends_step:
  "ends lower t hv \<longleftrightarrow> (case found (Search lower t (aliasName hv)) of None \<Rightarrow> True | Some hv' \<Rightarrow> ends lower t hv')"
proof (cases "Search lower t (aliasName hv)")
  case None
  then have "aliasLoop lower t False (Suc 0) hv \<noteq> None" by simp
  then have "ends lower t hv" unfolding ends_def by blast
  then show ?thesis using None by simp
next
  case (Some node)
  then have "aliasLoop lower t False (Suc n) hv = aliasLoop lower t False n (node_data node)" for n by simp
  then have "ends lower t hv \<longleftrightarrow> ends lower t (node_data node)"
    unfolding ends_def by (metis not0_implies_Suc aliasLoop.simps(1))
  then show ?thesis using search_data [OF Some] by simp
qed

text \<open>What holds of a table of plain names.\<close>

definition valueOk :: "(string \<Rightarrow> string) \<Rightarrow> host_value \<Rightarrow> bool" where
  "valueOk lower v \<longleftrightarrow> (if IsDomain v then lower (aliasName v) = aliasName v else aliasName v = [])"

definition tableOk :: "(string \<Rightarrow> string) \<Rightarrow> host_value domain_trie \<Rightarrow> bool" where
  "tableOk lower t \<longleftrightarrow>
     wf_node (root t) \<and> plainMap (entries (root t)) \<and>
     (\<forall>p v. entries (root t) p = Some v \<longrightarrow> valueOk lower v \<and> ends lower t v)"

lemma found_stored: "tableOk lower t \<Longrightarrow> found (Search lower t x) = Some v \<Longrightarrow> valueOk lower v \<and> ends lower t v"
  by (auto simp: tableOk_def search_entries best_plain split: sum.splits if_splits)

lemma search_empty [simp]: "Search lower t [] = None"
  by (simp add: Search_def ValidAndSplitDomain_def)

lemma ends_address: "valueOk lower v \<Longrightarrow> \<not> IsDomain v \<Longrightarrow> ends lower t v"
  by (subst ends_step) (simp add: valueOk_def)

text \<open>The loop of the check returns on such a table.\<close>

lemma cycleLoop_returns:
  assumes "tableOk lower t"
  shows "aliasLoop lower t False n hv \<noteq> None \<Longrightarrow> cycleLoop lower t d (Suc n) (Search lower t (aliasName hv)) \<noteq> None"
proof (induction n arbitrary: hv)
  case (Suc n)
  show ?case
  proof (cases "Search lower t (aliasName hv)")
    case (Some node)
    then have "aliasLoop lower t False n (node_data node) \<noteq> None" using Suc.prems by simp
    then show ?thesis using Suc.IH [of "node_data node"] Some by (simp del: not_None_eq)
  qed simp
qed simp

text \<open>A chain of names that never comes to \<open>d\<close> is the same after an insertion for \<open>d\<close>.\<close>

lemma checked_chain_ends:
  assumes "tableOk lower t" "plainName lower d"
  shows "cycleLoop lower t d k (Search lower t (aliasName hv)) = Some False \<Longrightarrow> lower (aliasName hv) = aliasName hv \<Longrightarrow>
    aliasName hv \<noteq> d \<Longrightarrow> ends lower (snd (trieInsert lower z d v t)) hv"
proof (induction k arbitrary: hv)
  case (Suc k)
  have same: "found (Search lower (snd (trieInsert lower z d v t)) (aliasName hv)) = found (Search lower t (aliasName hv))"
    using found_insert [of t lower d "aliasName hv" z v] assms Suc.prems(2,3) by (simp add: tableOk_def)
  show ?case
  proof (cases "Search lower t (aliasName hv)")
    case None
    then show ?thesis by (subst ends_step) (simp add: same)
  next
    case (Some node)
    note data = search_data [OF Some]
    have ok: "valueOk lower (node_data node)" using found_stored [OF assms(1) data] by simp
    show ?thesis
    proof (cases "IsDomain (node_data node)")
      case True
      then have "ends lower (snd (trieInsert lower z d v t)) (node_data node)"
        using Suc.prems(1) Suc.IH [of "node_data node"] ok Some by (auto simp: valueOk_def split: if_splits)
      then show ?thesis by (subst ends_step) (simp add: same data)
    next
      case False
      then show ?thesis by (subst ends_step) (simp add: same data ends_address [OF ok])
    qed
  qed
qed simp

lemma old_chain_ends:
  assumes "tableOk lower t" "plainName lower d" "ends lower (snd (trieInsert lower z d v t)) v"
  shows "aliasLoop lower t False n hv \<noteq> None \<Longrightarrow> valueOk lower hv \<Longrightarrow> ends lower (snd (trieInsert lower z d v t)) hv"
proof (induction n arbitrary: hv)
  case (Suc n)
  show ?case
  proof (cases "IsDomain hv")
    case True
    then have "lower (aliasName hv) = aliasName hv" using Suc.prems(2) by (simp add: valueOk_def)
    then have data: "found (Search lower (snd (trieInsert lower z d v t)) (aliasName hv))
        = (if aliasName hv = d then Some v else found (Search lower t (aliasName hv)))"
      using found_insert [of t lower d "aliasName hv" z v] assms(1,2) by (simp add: tableOk_def)
    show ?thesis
    proof (cases "Search lower t (aliasName hv)")
      case None
      then show ?thesis using assms(3) by (subst ends_step) (simp add: data)
    next
      case (Some node)
      have "ends lower (snd (trieInsert lower z d v t)) (node_data node)"
        using Suc Some found_stored [OF assms(1) search_data [OF Some]] by simp
      then show ?thesis using assms(3) by (subst ends_step) (simp add: data search_data [OF Some])
    qed
  qed (use ends_address Suc.prems(2) in blast)
qed simp

lemma tableOk_insert:
  assumes "tableOk lower t" "plainName lower d" "valueOk lower v"
    and "IsDomain v \<Longrightarrow> aliasName v \<noteq> d \<and> cycleLoop lower t d k (Search lower t (aliasName v)) = Some False"
  shows "tableOk lower (snd (trieInsert lower z d v t))"
proof -
  let ?t = "snd (trieInsert lower z d v t)"
  obtain p where p: "wildcard \<notin> set p" "dotWildcard \<notin> set p" "wf_node (root ?t)" "entries (root ?t) = (entries (root t))(rev p \<mapsto> v)"
    using insert_entries [OF _ assms(2)] assms(1) by (metis tableOk_def)
  have new: "ends lower ?t v"
  proof (cases "IsDomain v")
    case True
    then have "lower (aliasName v) = aliasName v" using assms(3) by (simp add: valueOk_def)
    then show ?thesis using checked_chain_ends [OF assms(1,2)] assms(4) True by blast
  qed (use ends_address assms(3) in blast)
  have "valueOk lower v' \<and> ends lower ?t v'" if "entries (root t) q = Some v'" for q v'
    using assms(1) old_chain_ends [OF assms(1,2) new] that unfolding tableOk_def ends_def by blast
  then show ?thesis using p assms(1,3) new by (auto simp: tableOk_def plainMap_def split: if_splits)
qed

subsection \<open>The table of a configuration\<close>

definition localAddress :: host_value where
  "localAddress = \<lparr>IsDomain = False, IPs = [Addr4 [127, 0, 0, 1]], aliasName = []\<rparr>"

lemma tableOk_new: "tableOk lower (newTrie z)"
  by (simp add: tableOk_def newTrie_def plainMap_def)

lemma NewHostValue_ok:
  assumes "NewHostValue pa hs = Inr v"
  shows "\<not> IsDomain v \<Longrightarrow> aliasName v = []"
  using assms
  by (auto simp: NewHostValue_def NewHostValueByIPs_def NewHostValueByDomain_def Let_def rbind_eq_Inr
      split: list.splits option.splits if_splits)

text \<open>
  An entry of the configuration that has a plain name, and whose value is no other name, or a name that
  is not the entry's own.
\<close>

definition entryOk ::
  "(string \<Rightarrow> string) \<Rightarrow> (string \<Rightarrow> addr option) \<Rightarrow> interface_addr list option \<Rightarrow> string \<times> string list checked \<Rightarrow> bool" where
  "entryOk lower pa addrs e \<longleftrightarrow>
     plainName lower (fst e) \<and>
     (\<forall>v. rbind (snd e) (\<lambda>hs. NewHostValue pa (expandLan addrs hs)) = Inr v \<longrightarrow> IsDomain v \<longrightarrow>
        lower (aliasName v) = aliasName v \<and> aliasName v \<noteq> fst e)"

lemma cycle_check_returns:
  assumes "tableOk lower t"
  shows "\<exists>k. cycleLoop lower t d k (Search lower t x) \<noteq> None"
proof -
  let ?hv = "\<lparr>IsDomain = True, IPs = [], aliasName = x\<rparr>"
  have "ends lower t ?hv"
    by (subst ends_step) (use found_stored [OF assms, of x] in \<open>auto split: option.split\<close>)
  then obtain n where "aliasLoop lower t False n ?hv \<noteq> None" by (auto simp: ends_def)
  then have "cycleLoop lower t d (Suc n) (Search lower t (aliasName ?hv)) \<noteq> None" by (rule cycleLoop_returns [OF assms])
  then have "cycleLoop lower t d (Suc n) (Search lower t x) \<noteq> None" by simp
  then show ?thesis by blast
qed

lemma hostsLoop_returns:
  assumes "tableOk lower t" "\<forall>e\<in>set cfg. entryOk lower pa addrs e"
  shows "\<exists>k r. hostsLoop lower pa addrs k cfg t = Some r \<and> (\<forall>t'. r = Inr t' \<longrightarrow> tableOk lower t')"
  using assms
proof (induction cfg arbitrary: t)
  case Nil
  then show ?case by auto
next
  case (Cons e cfg)
  obtain d av where e: "e = (d, av)" by (cases e)
  show ?case
  proof (cases "rbind av (\<lambda>hs. NewHostValue pa (expandLan addrs hs))")
    case (Inl err)
    then show ?thesis by (auto simp: e)
  next
    case (Inr v)
    have ok: "plainName lower d" "IsDomain v \<longrightarrow> lower (aliasName v) = aliasName v \<and> aliasName v \<noteq> d"
      using Cons.prems(2) Inr by (auto simp: e entryOk_def)
    have "valueOk lower v" using ok(2) NewHostValue_ok Inr by (auto simp: valueOk_def rbind_eq_Inr)
    obtain k c where k: "(if IsDomain v then cycleLoop lower t d k (Search lower t (aliasName v)) else Some False) = Some c"
      using cycle_check_returns [OF Cons.prems(1), of d "aliasName v"] by (cases "IsDomain v") auto
    show ?thesis
    proof (cases c)
      case True
      then show ?thesis using k Inr by (intro exI [of _ k]) (auto simp: e)
    next
      case False
      have "tableOk lower (snd (trieInsert lower zeroValue d v t))"
        by (rule tableOk_insert [OF Cons.prems(1) ok(1) \<open>valueOk lower v\<close>, of k]) (use ok(2) k False in \<open>auto split: if_splits\<close>)
      then obtain k' r where r: "hostsLoop lower pa addrs k' cfg (snd (trieInsert lower zeroValue d v t)) = Some r"
          "\<forall>t'. r = Inr t' \<longrightarrow> tableOk lower t'"
        using Cons.IH Cons.prems(2) by fastforce
      have "hostsLoop lower pa addrs (max k k') cfg (snd (trieInsert lower zeroValue d v t)) = Some r"
        using hostsLoop_mono [OF r(1)] by simp
      moreover have "(if IsDomain v then cycleLoop lower t d (max k k') (Search lower t (aliasName v)) else Some False) = Some False"
        using k False cycleLoop_mono [of lower t d k _ False "max k k'"] by (simp split: if_splits)
      ultimately have "hostsLoop lower pa addrs (max k k') (e # cfg) t = Some r" using Inr by (simp add: e)
      then show ?thesis using r(2) by blast
    qed
  qed
qed

lemma tableOk_optimize:
  assumes "tableOk lower t"
  shows "tableOk lower (Optimize t)"
proof -
  have same: "wf_node (root (Optimize t))" "entries (root (Optimize t)) = entries (root t)"
    using assms by (simp_all add: tableOk_def Optimize_def wf_optimize entries_optimize)
  have found: "found (Search lower (Optimize t) x) = found (Search lower t x)" for x
    unfolding search_entries same(2) ..
  have chain: "aliasLoop lower t False n hv \<noteq> None \<Longrightarrow> ends lower (Optimize t) hv" for n hv
  proof (induction n arbitrary: hv)
    case (Suc n)
    then show ?case
      by (cases "Search lower t (aliasName hv)") (subst ends_step, use search_data in \<open>force simp: found\<close>)+
  qed simp
  then have "ends lower (Optimize t) hv" if "ends lower t hv" for hv using that chain unfolding ends_def [of lower t] by blast
  then show ?thesis using assms same by (auto simp: tableOk_def)
qed

text \<open>
  C11: For a configuration of plain names whose values are other names or addresses, the table is built
  or refused in finitely many steps, and every lookup in a table that is accepted returns: the check
  for cycles has excluded all others.
\<close>

theorem hosts_lookup_returns:
  assumes "plainName lower ''localhost''" "\<forall>e\<in>set cfg. entryOk lower pa addrs e"
  shows "\<exists>k r. parseHosts lower pa addrs k cfg = Some r \<and>
    (\<forall>t domain w. r = Inr t \<longrightarrow> (\<exists>n. hostsSearch lower pa sys n t domain w \<noteq> None))"
proof -
  have "tableOk lower (snd (trieInsert lower zeroValue ''localhost'' localAddress (newTrie zeroValue)))"
    by (rule tableOk_insert [OF tableOk_new assms(1)]) (simp_all add: valueOk_def localAddress_def)
  then obtain k r where r: "hostsLoop lower pa addrs k cfg
        (snd (trieInsert lower zeroValue ''localhost'' localAddress (newTrie zeroValue))) = Some r"
      "\<forall>t. r = Inr t \<longrightarrow> tableOk lower t"
    using hostsLoop_returns [OF _ assms(2)] by blast
  have "\<exists>n. hostsSearch lower pa sys n (Optimize t) domain w \<noteq> None" if "r = Inr t" for t domain w
  proof (cases "Search lower (Optimize t) domain")
    case (Some node)
    have "tableOk lower (Optimize t)" using r(2) that tableOk_optimize by blast
    then obtain n where "aliasLoop lower (Optimize t) False n (node_data node) \<noteq> None"
      using found_stored [OF _ search_data [OF Some]] by (auto simp: ends_def)
    then show ?thesis using aliasLoop_early Some by (intro exI [of _ n]) (fastforce simp: hostsSearch_def)
  qed (simp add: hostsSearch_def)
  then show ?thesis
    by (intro exI [of _ k] exI [of _ "rbind r (\<lambda>t. Inr (Optimize t))"])
      (use r(1) in \<open>auto simp: parseHosts_def localAddress_def rbind_eq_Inr\<close>)
qed

subsection \<open>A name that stands for itself\<close>

lemma aliasLoop_diverges:
  "Search lower t (aliasName hv) = Some node \<Longrightarrow> node_data node = hv \<Longrightarrow> aliasLoop lower t False n hv = None"
  by (induction n) auto

definition startTable :: "host_value domain_trie" where
  "startTable = snd (trieInsert id zeroValue ''localhost'' localAddress (newTrie zeroValue))"

definition selfValue :: host_value where
  "selfValue = \<lparr>IsDomain = True, IPs = [], aliasName = ''www.a.com''\<rparr>"

definition selfTable :: "host_value domain_trie" where
  "selfTable = Optimize (snd (trieInsert id zeroValue ''*.a.com'' selfValue startTable))"

lemma self_alias_steps:
  "NewHostValueByDomain ''www.a.com'' = Inr selfValue"
  "Search id startTable ''www.a.com'' = None"
  "map_option node_data (Search id selfTable ''www.a.com'') = Some selfValue"
  by code_simp+

lemma lower_id:
  assumes "lower d = d"
  shows "Search lower t d = Search id t d" and "trieInsert lower z d v t = trieInsert id z d v t"
proof -
  have "ValidAndSplitDomain lower d = ValidAndSplitDomain id d" using assms by (simp add: ValidAndSplitDomain_def)
  then show "Search lower t d = Search id t d" "trieInsert lower z d v t = trieInsert id z d v t"
    by (simp_all add: Search_def trieInsert_def)
qed

text \<open>
  C12: The check misses a name that stands for itself.  A configuration that maps \<^verbatim>\<open>*.a.com\<close> to
  \<^verbatim>\<open>www.a.com\<close> is accepted, and the lookup of the address of \<^verbatim>\<open>www.a.com\<close> never returns: no fuel is
  enough.
\<close>

theorem hosts_self_alias_never_returns:
  assumes "lower ''localhost'' = ''localhost''" "lower ''*.a.com'' = ''*.a.com''" "lower ''www.a.com'' = ''www.a.com''"
    and "pa ''www.a.com'' = None"
  shows "\<exists>t. parseHosts lower pa addrs 1 [(''*.a.com'', Inr [''www.a.com''])] = Some (Inr t) \<and>
    (\<forall>n. hostsSearch lower pa sys n t ''www.a.com'' False = None)"
proof -
  have "NewHostValue pa (expandLan addrs [''www.a.com'']) = Inr selfValue"
    using assms(4) self_alias_steps(1) by (simp add: NewHostValue_def expandLan_def)
  moreover have "aliasName selfValue = ''www.a.com''" "IsDomain selfValue" by (simp_all add: selfValue_def)
  ultimately have "parseHosts lower pa addrs 1 [(''*.a.com'', Inr [''www.a.com''])] = Some (Inr selfTable)"
    using self_alias_steps(2)
    by (simp add: parseHosts_def lower_id [where lower = lower, OF assms(1)] lower_id [where lower = lower, OF assms(2)] lower_id [where lower = lower, OF assms(3)]
        localAddress_def [symmetric] startTable_def [symmetric] selfTable_def)
  moreover have "hostsSearch lower pa sys n selfTable ''www.a.com'' False = None" for n
    using self_alias_steps(3) aliasLoop_diverges [of lower selfTable selfValue] \<open>aliasName selfValue = ''www.a.com''\<close>
    by (auto simp: hostsSearch_def lower_id [where lower = lower, OF assms(3)])
  ultimately show ?thesis by blast
qed

theorem hosts_self_alias_never_returns_witness:
  "\<forall>sys. \<exists>t. parseHosts id (\<lambda>_. None) None 1 [(''*.a.com'', Inr [''www.a.com''])] = Some (Inr t) \<and>
    (\<forall>n. hostsSearch id (\<lambda>_. None) sys n t ''www.a.com'' False = None)"
  using hosts_self_alias_never_returns [of id "\<lambda>_. None" None] by simp

definition oneAddr :: "string \<Rightarrow> addr option" where
  "oneAddr s = (if s = ''1.1.1.1'' then Some (Addr4 [1, 1, 1, 1]) else None)"

lemma plain_names:
  "plainName id ''localhost''" "plainName id ''a.com''" "plainName id ''b.com''"
proof -
  have "ValidAndSplitDomain id ''localhost'' = Inr [''localhost'']" "ValidAndSplitDomain id ''a.com'' = Inr [''a'', ''com'']"
    "ValidAndSplitDomain id ''b.com'' = Inr [''b'', ''com'']" by code_simp+
  then show "plainName id ''localhost''" "plainName id ''a.com''" "plainName id ''b.com''"
    by (simp_all add: plainName_def wildcard_def dotWildcard_def complexWildcard_def)
qed

theorem hosts_lookup_returns_witness:
  "\<forall>sys. \<exists>k r. parseHosts id oneAddr None k [(''a.com'', Inr [''b.com'']), (''b.com'', Inr [''1.1.1.1''])] = Some r \<and>
    (\<forall>t domain w. r = Inr t \<longrightarrow> (\<exists>n. hostsSearch id oneAddr sys n t domain w \<noteq> None))"
proof (intro allI hosts_lookup_returns plain_names)
  have "NewHostValueByDomain ''b.com'' = Inr \<lparr>IsDomain = True, IPs = [], aliasName = ''b.com''\<rparr>" by code_simp
  then show "\<forall>e\<in>set [(''a.com'', Inr [''b.com'']), (''b.com'', Inr [''1.1.1.1''])]. entryOk id oneAddr None e"
    by (auto simp: entryOk_def plain_names NewHostValue_def expandLan_def oneAddr_def NewHostValueByIPs_def)
qed

end
