(* ===== verification/Tunnel.thy ===== *)
theory Tunnel
  imports RuleMatch Hosts
begin

text \<open>
  The routing decision (\<^verbatim>\<open>mihomo/tunnel/tunnel.go\<close>), the wrapper that counts hits
  (\<^verbatim>\<open>rules/wrapper/wrapper.go\<close>) and the adapter that sends a connection through the rules again
  (\<^verbatim>\<open>adapter/outbound/rematch.go\<close>).
\<close>

subsection \<open>Wrapped rules\<close>

record wrapped =
  wrule :: rule
  disabled :: bool
  hitCount :: "64 word"
  hitAt :: int
  missCount :: "64 word"
  missAt :: int

definition NewRuleWrapper :: "rule \<Rightarrow> wrapped" where
  "NewRuleWrapper r = \<lparr>wrule = r, disabled = False, hitCount = 0, hitAt = 0, missCount = 0, missAt = 0\<rparr>"

definition SetDisabled :: "bool \<Rightarrow> wrapped \<Rightarrow> wrapped" where
  "SetDisabled v w = w\<lparr>disabled := v\<rparr>"

definition wrapperHit :: "int \<Rightarrow> wrapped \<Rightarrow> wrapped" where
  "wrapperHit now w = w\<lparr>hitCount := hitCount w + 1, hitAt := now\<rparr>"

definition wrapperMiss :: "int \<Rightarrow> wrapped \<Rightarrow> wrapped" where
  "wrapperMiss now w = w\<lparr>missCount := missCount w + 1, missAt := now\<rparr>"

definition wrapperMatch ::
  "rule_env \<Rightarrow> sub_rules \<Rightarrow> nat \<Rightarrow> match_helper \<Rightarrow> int \<Rightarrow> wrapped \<Rightarrow> match_state \<Rightarrow>
   (matched \<times> match_state \<times> wrapped) option" where
  "wrapperMatch env subs n h now w st =
     (if disabled w then Some ((False, []), st, w)
      else
        (case matchRule env subs n h (wrule w) st of
           None \<Rightarrow> None
         | Some ((ok, ad), st) \<Rightarrow> Some ((ok, ad), st, if ok then wrapperHit now w else wrapperMiss now w)))"

subsection \<open>Proxies\<close>

text \<open>
  An adapter as far as the routing looks at it; the targets of a rematch are nil when they are not
  configured.
\<close>

datatype (plugins only: code size) adapter_type = Pass | Rematch | PassRule | OtherAdapter

record proxy =
  proxyName :: string
  proxyType :: adapter_type
  SupportUDP :: bool
  targetRematchName :: "string option"
  targetSubRule :: "string option"

definition applyMetadata :: "proxy \<Rightarrow> metadata \<Rightarrow> metadata" where
  "applyMetadata p m =
     (let m = (case targetRematchName p of None \<Rightarrow> m | Some name \<Rightarrow> m\<lparr>RematchName := name\<rparr>) in
      (case targetSubRule p of None \<Rightarrow> m | Some name \<Rightarrow> m\<lparr>SpecialRules := name\<rparr>))"

datatype (plugins only: code size) tunnel_mode = GlobalMode | RuleMode | DirectMode

text \<open>
  \<open>unwraps\<close> lists an adapter, what it unwraps to, and so on to the end; the groups that unwrap are
  not modelled.  \<open>searchHost\<close>, \<open>resolveIP\<close> and \<open>findProcess\<close> stand for the hosts table, the
  resolver and the process lookup, whose results fill in the metadata.
\<close>

record tunnel =
  rules :: "wrapped list"
  subRules :: sub_rules
  proxies :: "(string \<times> proxy) list"
  mode :: tunnel_mode
  unwraps :: "proxy \<Rightarrow> metadata \<Rightarrow> proxy list"

record lookups =
  searchHost :: "string \<Rightarrow> addr option"
  resolveHost :: "string \<Rightarrow> addr option"
  findProcess :: "metadata \<Rightarrow> metadata"

datatype (plugins only: code size) find_process_mode = FindProcessAlways | FindProcessStrict | FindProcessOff

subsection \<open>Before the rules\<close>

text \<open>
  What the handlers of connections do first.  The enhancer and the hosts table are parameters; a search
  of the table may not return.  \<open>i\<close> is the random number of the choice of an address.
\<close>

definition fixMetadata :: "(string \<Rightarrow> addr option) \<Rightarrow> metadata \<Rightarrow> metadata" where
  "fixMetadata parseAddr m =
     (let m = m\<lparr>DstIP := Unmap (DstIP m)\<rparr> in
      (case parseAddr (Host m) of
         Some ip \<Rightarrow> m\<lparr>DstIP := Unmap ip, Host := []\<rparr>
       | None \<Rightarrow> m))"

record resolver =
  mappingEnabled :: bool
  findHostByIP :: "addr \<Rightarrow> string option"
  isFakeIP :: "addr \<Rightarrow> bool"
  searchHosts :: "string \<Rightarrow> bool \<Rightarrow> (host_value option \<times> bool) option"

definition needLookupIP :: "resolver \<Rightarrow> metadata \<Rightarrow> bool" where
  "needLookupIP r m \<longleftrightarrow> mappingEnabled r \<and> Host m = [] \<and> IsValid (DstIP m)"

definition randAddr :: "nat \<Rightarrow> host_value \<Rightarrow> addr" where
  "randAddr i hv = (case RandIP i hv of Inl e \<Rightarrow> NoAddr | Inr ip \<Rightarrow> ip)"

definition preHandleMetadata :: "resolver \<Rightarrow> nat \<Rightarrow> metadata \<Rightarrow> metadata checked option" where
  "preHandleMetadata r i m =
     (if needLookupIP r m then
        (case findHostByIP r (DstIP m) of
           Some host \<Rightarrow>
             let m = m\<lparr>Host := host, DNSMode := DNSMapping\<rparr> in
             if isFakeIP r (DstIP m) then Some (Inr (m\<lparr>DstIP := NoAddr, DNSMode := DNSFakeIP\<rparr>))
             else
               (case searchHosts r host False of
                  None \<Rightarrow> None
                | Some (Some node, True) \<Rightarrow> Some (Inr (m\<lparr>DstIP := randAddr i node\<rparr>))
                | Some (Some node, False) \<Rightarrow> Some (Inr (if IsDomain node then m\<lparr>Host := aliasName node\<rparr> else m))
                | Some (None, _) \<Rightarrow> Some (Inr m))
         | None \<Rightarrow> if isFakeIP r (DstIP m) then Some (Inl ''fake DNS record missing'') else Some (Inr m))
      else
        (case searchHosts r (Host m) True of
           None \<Rightarrow> None
         | Some (Some node, True) \<Rightarrow> Some (Inr (m\<lparr>Host := aliasName node\<rparr>))
         | Some _ \<Rightarrow> Some (Inr m)))"

subsection \<open>The helpers\<close>

definition resolveIP :: "lookups \<Rightarrow> match_state \<Rightarrow> match_state" where
  "resolveIP lk st =
     (let m = meta st in
      if \<not> resolved st \<and> Host m \<noteq> [] \<and> \<not> Resolved m then
        (case resolveHost lk (Host m) of
           None \<Rightarrow> st\<lparr>resolved := True\<rparr>
         | Some ip \<Rightarrow> st\<lparr>meta := m\<lparr>DstIP := ip\<rparr>, resolved := True\<rparr>)
      else st)"

definition lookupProcess :: "lookups \<Rightarrow> match_state \<Rightarrow> match_state" where
  "lookupProcess lk st =
     (if attemptProcessLookup st then st\<lparr>meta := findProcess lk (meta st), attemptProcessLookup := False\<rparr> else st)"

definition checkPassRule :: "tunnel \<Rightarrow> match_state \<Rightarrow> string \<Rightarrow> bool" where
  "checkPassRule t st name =
     (case map_of (proxies t) name of
        None \<Rightarrow> False
      | Some p \<Rightarrow> list_ex (\<lambda>a. proxyType a = PassRule) (unwraps t p (meta st)))"

subsection \<open>Matching\<close>

text \<open>What comes of a rule that has matched: nothing, another round, or the adapter.\<close>

datatype (plugins only: code size) verdict = Skip | Again proxy | Take proxy

fun scanChain :: "metadata \<Rightarrow> proxy \<Rightarrow> proxy list \<Rightarrow> verdict" where
  "scanChain m p [] = (if NetWork m = UDP \<and> \<not> SupportUDP p then Skip else Take p)"
| "scanChain m p (a # as) =
     (if proxyType a = Pass then Skip else if proxyType a = Rematch then Again a else scanChain m p as)"

definition judge :: "tunnel \<Rightarrow> string \<Rightarrow> metadata \<Rightarrow> verdict" where
  "judge t name m = (case map_of (proxies t) name of None \<Rightarrow> Skip | Some p \<Rightarrow> scanChain m p (unwraps t p m))"

text \<open>One round over the rules; the rules come back with their counters.\<close>

fun ruleRound ::
  "rule_env \<Rightarrow> tunnel \<Rightarrow> nat \<Rightarrow> match_helper \<Rightarrow> int \<Rightarrow> wrapped list \<Rightarrow> match_state \<Rightarrow>
   ((verdict \<times> rule option) \<times> match_state \<times> wrapped list) option" where
  "ruleRound env t n h now [] st = Some ((Skip, None), st, [])"
| "ruleRound env t n h now (w # ws) st =
     (case wrapperMatch env (subRules t) n h now w st of
        None \<Rightarrow> None
      | Some ((ok, ad), st, w) \<Rightarrow>
          let v = (if ok then judge t ad (meta st) else Skip) in
          if v \<noteq> Skip then Some ((v, Some (wrule w)), st, w # ws)
          else
            (case ruleRound env t n h now ws st of
               None \<Rightarrow> None
             | Some (r, st, ws) \<Rightarrow> Some (r, st, w # ws)))"

text \<open>The rules of a round: named sub-rules, which are not wrapped and have no counters, or all rules.\<close>

definition getRules :: "tunnel \<Rightarrow> metadata \<Rightarrow> wrapped list" where
  "getRules t m =
     (case map_of (subRules t) (SpecialRules m) of
        Some rs \<Rightarrow> map NewRuleWrapper rs
      | None \<Rightarrow> rules t)"

definition putRules :: "metadata \<Rightarrow> wrapped list \<Rightarrow> tunnel \<Rightarrow> tunnel" where
  "putRules m ws t = (case map_of (subRules t) (SpecialRules m) of Some rs \<Rightarrow> t | None \<Rightarrow> t\<lparr>rules := ws\<rparr>)"

type_synonym routed = "(proxy option \<times> rule option) \<times> match_state \<times> tunnel"

text \<open>
  The rounds: \<open>chain\<close> are the names of the adapters that have asked for another round.  A rematch
  adapter's connection never fails, so that its error branch is not reached.
\<close>

fun matchRounds ::
  "rule_env \<Rightarrow> nat \<Rightarrow> nat \<Rightarrow> match_helper \<Rightarrow> int \<Rightarrow> string list \<Rightarrow> tunnel \<Rightarrow> match_state \<Rightarrow> routed option" where
  "matchRounds env n 0 h now chain t st = None"
| "matchRounds env n (Suc k) h now chain t st =
     (case ruleRound env t n h now (getRules t (meta st)) st of
        None \<Rightarrow> None
      | Some ((v, rule), st', ws) \<Rightarrow>
          let t = putRules (meta st) ws t in
          (case v of
             Take p \<Rightarrow> Some ((Some p, rule), st', t)
           | Again p \<Rightarrow>
               if proxyName p \<in> set chain then Some ((Some p, rule), st', t)
               else matchRounds env n k h now (chain @ [proxyName p]) t (st'\<lparr>meta := applyMetadata p (meta st')\<rparr>)
           | Skip \<Rightarrow> Some ((map_of (proxies t) ''DIRECT'', None), st', t)))"

definition resolveMetadata ::
  "rule_env \<Rightarrow> lookups \<Rightarrow> find_process_mode \<Rightarrow> nat \<Rightarrow> nat \<Rightarrow> int \<Rightarrow> tunnel \<Rightarrow> metadata \<Rightarrow> (string + routed) option" where
  "resolveMetadata env lk fpm n k now t m =
     (let start = \<lparr>meta = m, resolved = False, attemptProcessLookup = (Type m \<noteq> INNER)\<rparr> in
      if SpecialProxy m \<noteq> [] then
        (case map_of (proxies t) (SpecialProxy m) of
           None \<Rightarrow> Some (Inl ''proxy not found'')
         | Some p \<Rightarrow> Some (Inr ((Some p, None), start, t)))
      else
        let st = (case searchHost lk (Host m) of
                    None \<Rightarrow> start
                  | Some ip \<Rightarrow> start\<lparr>meta := m\<lparr>DstIP := ip\<rparr>, resolved := True\<rparr>);
            st = (if fpm = FindProcessAlways then lookupProcess lk st else st);
            h = \<lparr>ResolveIP = Some (resolveIP lk),
                 FindProcess = (if fpm = FindProcessStrict then Some (lookupProcess lk) else None),
                 CheckPassRule = Some (checkPassRule t)\<rparr> in
        (case mode t of
           DirectMode \<Rightarrow> Some (Inr ((map_of (proxies t) ''DIRECT'', None), st, t))
         | GlobalMode \<Rightarrow> Some (Inr ((map_of (proxies t) ''GLOBAL'', None), st, t))
         | RuleMode \<Rightarrow> map_option Inr (matchRounds env n k h now [] t st)))"

end
