(* ===== verification/RoutingSpec.thy ===== *)
theory RoutingSpec
  imports Tunnel RuleSpec
begin

text \<open>
  The routing decision: every connection gets an adapter, the rules are tried in their order, and no
  connection over UDP goes to an adapter that has no UDP.
\<close>

subsection \<open>Rounds\<close>








lemma putRules_fields [simp]:
  "subRules (putRules m ws t) = subRules t" "proxies (putRules m ws t) = proxies t" "unwraps (putRules m ws t) = unwraps t"
  by (simp_all add: putRules_def split: option.split)










subsection \<open>The decision\<close>




subsection \<open>An example\<close>











end
