(* ===== verification/TlsSniffer.thy ===== *)
theory TlsSniffer
  imports Prelude
begin

text \<open>
  The sniffer of TLS connections (\<^verbatim>\<open>mihomo/component/sniffer/tls_sniffer.go\<close>): the name of the server in
  the first bytes of a connection.  Every index and slice expression may panic; a result that waits
  for more bytes says how many it needs.
\<close>

datatype (plugins only: code size) sniff_stop = Abort abort | NeedAtLeast int | NotTLS | NotClientHello | NoClue | NotHTTP | HostIsIP
  | UnsupportedSniffer

type_synonym 'a sniff = "sniff_stop + 'a"

definition orAbort :: "'a outcome \<Rightarrow> 'a sniff" where
  "orAbort m = (case m of Inl a \<Rightarrow> Inl (Abort a) | Inr x \<Rightarrow> Inr x)"

definition tlsRecordHeaderLen :: int where "tlsRecordHeaderLen = 5"
definition tlsHandshakeHeaderLen :: int where "tlsHandshakeHeaderLen = 4"
definition tlsRecordTypeHandshake :: int where "tlsRecordTypeHandshake = 0x16"
definition tlsHandshakeTypeClientHello :: int where "tlsHandshakeTypeClientHello = 1"
definition tlsMaxPlaintext :: int where "tlsMaxPlaintext = 2 ^ 14"

definition IsValidTLSVersion :: "int \<Rightarrow> int \<Rightarrow> bool" where
  "IsValidTLSVersion major minor \<longleftrightarrow> major = 3"

text \<open>\<^verbatim>\<open>int(data[i])\<close> and \<^verbatim>\<open>int(data[i])<<8 | int(data[i+1])\<close>.\<close>

definition byteAt :: "8 word list \<Rightarrow> int \<Rightarrow> int sniff" where
  "byteAt data i = rbind (orAbort (go_get data i)) (\<lambda>b. Inr (uint b))"

definition uint16At :: "8 word list \<Rightarrow> int \<Rightarrow> int sniff" where
  "uint16At data i = rbind (byteAt data i) (\<lambda>a. rbind (byteAt data (i + 1)) (\<lambda>b. Inr (a * 2 ^ 8 + b)))"

lemma byteAt_range: "byteAt data i = Inr n \<Longrightarrow> 0 \<le> n \<and> n < 256"
  using uint_lt2p [where 'a = 8] by (auto simp: byteAt_def rbind_eq_Inr)

lemma uint16At_range: "uint16At data i = Inr n \<Longrightarrow> 0 \<le> n \<and> n < 65536"
  by (auto simp: uint16At_def rbind_eq_Inr dest!: byteAt_range)

subsection \<open>The hello message\<close>

text \<open>\<open>data\<close> is the part of the message that has arrived, at most its size.\<close>

definition need :: "int \<Rightarrow> 8 word list \<Rightarrow> int \<Rightarrow> unit sniff" where
  "need helloSize data n =
     (if n > helloSize then Inl NotClientHello
      else if int (length data) < n then Inl (NeedAtLeast n)
      else Inr ())"

text \<open>The loop over the names of the extension: the name, or the offset after the last one.\<close>

function namesLoop :: "int \<Rightarrow> 8 word list \<Rightarrow> int \<Rightarrow> int \<Rightarrow> (8 word list + int) sniff" where
  "namesLoop helloSize data namesEnd offset =
     (if offset < namesEnd then
        rbind (need helloSize data (offset + 3)) (\<lambda>_.
        rbind (byteAt data offset) (\<lambda>nameType.
        rbind (uint16At data (offset + 1)) (\<lambda>nameLen.
        let offset = offset + 3; nameEnd = offset + nameLen in
        if nameEnd > namesEnd then Inl NotClientHello
        else
          rbind (need helloSize data nameEnd) (\<lambda>_.
          if nameType = 0 then
            rbind (orAbort (go_slice data offset nameEnd)) (\<lambda>serverName.
            if serverName \<noteq> [] \<and> last serverName = 46 then Inl NotClientHello
            else Inr (Inl serverName))
          else namesLoop helloSize data namesEnd nameEnd))))
      else Inr (Inr offset))"
  by pat_completeness auto
termination
  by (relation "measure (\<lambda>(h, data, e, offset). nat (e - offset))") (auto dest: uint16At_range)

declare namesLoop.simps [simp del]

lemma namesLoop_offset: "namesLoop h data e off = Inr (Inr off') \<Longrightarrow> off \<le> off' \<and> e \<le> off'"
proof (induction h data e off rule: namesLoop.induct)
  case (1 h data e off)
  show ?case
  proof (cases "off < e")
    case True
    then obtain t n where parts: "need h data (off + 3) = Inr ()" "byteAt data off = Inr t" "uint16At data (off + 1) = Inr n"
        "off + 3 + n \<le> e" "need h data (off + 3 + n) = Inr ()"
      and rest: "(if t = 0 then rbind (orAbort (go_slice data (off + 3) (off + 3 + n))) (\<lambda>s. if s \<noteq> [] \<and> last s = 46 then Inl NotClientHello else Inr (Inl s))
           else namesLoop h data e (off + 3 + n)) = Inr (Inr off')"
      using "1.prems" by (subst (asm) namesLoop.simps) (auto simp: rbind_eq_Inr Let_def split: if_splits)
    then have "t \<noteq> 0" by (auto simp: rbind_eq_Inr split: if_splits)
    then have "off + 3 + n \<le> off' \<and> e \<le> off'"
      using "1.IH" [OF True parts(1,2,3) refl refl _ parts(5)] parts(4) rest by auto
    then show ?thesis using uint16At_range [OF parts(3)] by simp
  qed (use "1.prems" in \<open>simp add: namesLoop.simps\<close>)
qed

text \<open>The loop over the extensions.\<close>

function extensionLoop :: "int \<Rightarrow> 8 word list \<Rightarrow> int \<Rightarrow> int \<Rightarrow> 8 word list sniff" where
  "extensionLoop helloSize data extensionsEnd offset =
     (if offset < extensionsEnd then
        rbind (need helloSize data (offset + 4)) (\<lambda>_.
        rbind (uint16At data offset) (\<lambda>extension.
        rbind (uint16At data (offset + 2)) (\<lambda>length.
        let offset = offset + 4; extensionEnd = offset + length in
        if extensionEnd > extensionsEnd then Inl NotClientHello
        else if extension = 0 then
          if length < 2 then Inl NotClientHello
          else
            rbind (need helloSize data (offset + 2)) (\<lambda>_.
            rbind (uint16At data offset) (\<lambda>namesLen.
            let offset = offset + 2; namesEnd = offset + namesLen in
            if namesEnd \<noteq> extensionEnd then Inl NotClientHello
            else
              rbind (namesLoop helloSize data namesEnd offset) (\<lambda>r.
              case r of
                Inl serverName \<Rightarrow> Inr serverName
              | Inr offset \<Rightarrow> extensionLoop helloSize data extensionsEnd offset)))
        else if extensionEnd = extensionsEnd then Inl NotTLS
        else rbind (need helloSize data extensionEnd) (\<lambda>_. extensionLoop helloSize data extensionsEnd extensionEnd))))
      else Inl NotTLS)"
  by pat_completeness auto
termination
  by (relation "measure (\<lambda>(h, data, e, offset). nat (e - offset))")
    (auto dest!: uint16At_range namesLoop_offset)

declare extensionLoop.simps [simp del]

definition clientHelloSize :: "8 word list \<Rightarrow> int sniff" where
  "clientHelloSize data =
     (if int (length data) < tlsHandshakeHeaderLen then Inl NoClue
      else
        rbind (byteAt data 0) (\<lambda>t.
        if t \<noteq> tlsHandshakeTypeClientHello then Inl NotClientHello
        else
          rbind (byteAt data 1) (\<lambda>a.
          rbind (byteAt data 2) (\<lambda>b.
          rbind (byteAt data 3) (\<lambda>c.
          Inr (tlsHandshakeHeaderLen + (a * 2 ^ 16 + b * 2 ^ 8 + c)))))))"

definition helloBody :: "int \<Rightarrow> 8 word list \<Rightarrow> 8 word list sniff" where
  "helloBody helloSize data =
     (let offset = tlsHandshakeHeaderLen + 2 + 32 in
      rbind (need helloSize data (offset + 1)) (\<lambda>_.
      rbind (byteAt data offset) (\<lambda>sessionIDLen.
      if sessionIDLen > 32 then Inl NotClientHello
      else
        let offset = offset + 1 in
        rbind (need helloSize data (offset + sessionIDLen)) (\<lambda>_.
        let offset = offset + sessionIDLen in
        rbind (need helloSize data (offset + 2)) (\<lambda>_.
        rbind (uint16At data offset) (\<lambda>cipherSuiteLen.
        if cipherSuiteLen mod 2 = 1 then Inl NotClientHello
        else
          let offset = offset + 2 in
          rbind (need helloSize data (offset + cipherSuiteLen)) (\<lambda>_.
          let offset = offset + cipherSuiteLen in
          rbind (need helloSize data (offset + 1)) (\<lambda>_.
          rbind (byteAt data offset) (\<lambda>compressionMethodsLen.
          let offset = offset + 1 in
          rbind (need helloSize data (offset + compressionMethodsLen)) (\<lambda>_.
          let offset = offset + compressionMethodsLen in
          if offset = helloSize then Inl NotClientHello
          else
            rbind (need helloSize data (offset + 2)) (\<lambda>_.
            rbind (uint16At data offset) (\<lambda>extensionsLength.
            let offset = offset + 2; extensionsEnd = offset + extensionsLength in
            if extensionsEnd \<noteq> helloSize then Inl NotClientHello
            else extensionLoop helloSize data extensionsEnd offset))))))))))))"

definition ReadClientHello :: "8 word list \<Rightarrow> 8 word list sniff" where
  "ReadClientHello data =
     (if length data = 0 then Inl (NeedAtLeast 1)
      else
        rbind (byteAt data 0) (\<lambda>t.
        if t \<noteq> tlsHandshakeTypeClientHello then Inl NotClientHello
        else if int (length data) < tlsHandshakeHeaderLen then Inl (NeedAtLeast tlsHandshakeHeaderLen)
        else
          rbind (clientHelloSize data) (\<lambda>helloSize.
          rbind (if int (length data) > helloSize then orAbort (go_slice data 0 helloSize) else Inr data) (\<lambda>data.
          helloBody helloSize data))))"

subsection \<open>Records\<close>

text \<open>The length of the record at \<open>wireOffset\<close>, and where its payload ends in the bytes that are there.\<close>

definition recordHeader :: "8 word list \<Rightarrow> int \<Rightarrow> int sniff" where
  "recordHeader b wireOffset =
     rbind (orAbort (go_slice b wireOffset (wireOffset + tlsRecordHeaderLen))) (\<lambda>header.
     rbind (byteAt header 0) (\<lambda>t.
     rbind (byteAt header 1) (\<lambda>major.
     rbind (byteAt header 2) (\<lambda>minor.
     if t \<noteq> tlsRecordTypeHandshake \<or> \<not> IsValidTLSVersion major minor then Inl NotTLS
     else
       rbind (uint16At header 3) (\<lambda>recordLen.
       if recordLen > tlsMaxPlaintext then Inl NotTLS
       else if recordLen = 0 then Inl NotClientHello
       else Inr recordLen)))))"

definition recordPayloadEnd :: "8 word list \<Rightarrow> int \<Rightarrow> int \<Rightarrow> int" where
  "recordPayloadEnd b payloadOffset recordEnd =
     (let payloadEnd = int (length b);
          payloadEnd = (if payloadEnd > recordEnd then recordEnd else payloadEnd) in
      if payloadEnd < payloadOffset then payloadOffset else payloadEnd)"

lemma recordHeader_range: "recordHeader b w = Inr n \<Longrightarrow> 0 < n \<and> n \<le> 2 ^ 14"
  by (auto simp: recordHeader_def rbind_eq_Inr tlsMaxPlaintext_def split: if_splits dest!: uint16At_range)

function sniffRecords :: "8 word list \<Rightarrow> int \<Rightarrow> 8 word list \<Rightarrow> 8 word list sniff" where
  "sniffRecords b wireOffset clientHello =
     (if int (length b) - wireOffset < tlsRecordHeaderLen then Inl (NeedAtLeast (wireOffset + tlsRecordHeaderLen))
      else
        rbind (recordHeader b wireOffset) (\<lambda>recordLen.
        let payloadOffset = wireOffset + tlsRecordHeaderLen;
            recordEnd = payloadOffset + recordLen;
            payloadEnd = recordPayloadEnd b payloadOffset recordEnd in
        rbind (orAbort (go_slice b payloadOffset payloadEnd)) (\<lambda>payload.
        let clientHello = (if wireOffset = 0 then payload else clientHello @ payload) in
        case ReadClientHello clientHello of
          Inr domain \<Rightarrow> Inr domain
        | Inl (NeedAtLeast n) \<Rightarrow>
            if payloadEnd < recordEnd then
              let missing = n - int (length clientHello);
                  remaining = recordEnd - payloadEnd;
                  missing = (if missing > remaining then remaining else missing) in
              Inl (NeedAtLeast (payloadEnd + missing))
            else sniffRecords b recordEnd clientHello
        | Inl e \<Rightarrow> Inl e)))"
  by pat_completeness auto
termination
  by (relation "measure (\<lambda>(b, wireOffset, clientHello). nat (int (length b) - wireOffset))")
    (auto simp: tlsRecordHeaderLen_def dest!: recordHeader_range)

declare sniffRecords.simps [simp del]

definition SniffTLS :: "8 word list \<Rightarrow> 8 word list sniff" where
  "SniffTLS b = sniffRecords b 0 []"

end
