(* ===== verification/HttpSniffer.thy ===== *)
theory HttpSniffer
  imports TlsSniffer GoText
begin

text \<open>
  The sniffer of HTTP connections (\<^verbatim>\<open>mihomo/component/sniffer/http_sniffer.go\<close>): the target of an
  HTTP/1 request or its \<^verbatim>\<open>Host\<close> field, or the \<^verbatim>\<open>:authority\<close> of the first request of an HTTP/2
  connection.  The decoder of header fields of HTTP/2 (\<^verbatim>\<open>hpack\<close>), \<^verbatim>\<open>netip.ParseAddr\<close> and
  \<^verbatim>\<open>strings.ToLower\<close> are parameters.
\<close>

record 'h http_env =
  hpackNew :: 'h
  hpackWrite :: "8 word list \<Rightarrow> 'h \<Rightarrow> (string \<times> string) list \<times> bool \<times> 'h"
  parsesAddr :: "string \<Rightarrow> bool"
  lowerCase :: "string \<Rightarrow> string"

subsection \<open>Text\<close>

definition bytesText :: "8 word list \<Rightarrow> string" where
  "bytesText b = map (\<lambda>x. char_of (unat x)) b"

text \<open>\<^verbatim>\<open>bytes.Cut\<close>.\<close>

fun bytesCut :: "string \<Rightarrow> string \<Rightarrow> (string \<times> string) option" where
  "bytesCut sep s =
     (if take (length sep) s = sep then Some ([], drop (length sep) s)
      else case s of [] \<Rightarrow> None | c # s' \<Rightarrow> map_option (\<lambda>(before, after). (c # before, after)) (bytesCut sep s'))"

declare bytesCut.simps [simp del]

lemma bytesCut_length: "bytesCut sep s = Some (x, y) \<Longrightarrow> length s = length x + length sep + length y"
proof (induction sep s arbitrary: x rule: bytesCut.induct)
  case (1 sep s)
  show ?case
  proof (cases "take (length sep) s = sep")
    case True
    then have "length sep \<le> length s" by (metis length_take min.cobounded1)
    then show ?thesis using True "1.prems" by (subst (asm) bytesCut.simps) auto
  next
    case False
    then obtain c s' x' where "s = c # s'" "bytesCut sep s' = Some (x', y)" "x = c # x'"
      using "1.prems" by (subst (asm) bytesCut.simps) (auto split: list.splits)
    then show ?thesis using "1.IH" [OF False] by simp
  qed
qed

text \<open>
  \<^verbatim>\<open>bytes.EqualFold\<close> with an ASCII text on the right.  Two characters outside ASCII fold to a letter:
  the Kelvin sign to k and the long s to s.
\<close>

definition asciiLower :: "char \<Rightarrow> char" where
  "asciiLower c = (if 65 \<le> code c \<and> code c \<le> 90 then char_of (code c + 32) else c)"

fun equalFoldAscii :: "string \<Rightarrow> string \<Rightarrow> bool" where
  "equalFoldAscii s [] \<longleftrightarrow> s = []"
| "equalFoldAscii s (t # ts) \<longleftrightarrow>
     (case s of
        [] \<Rightarrow> False
      | c # cs \<Rightarrow>
          if code c < 128 then asciiLower c = asciiLower t \<and> equalFoldAscii cs ts
          else if take 2 s = [CHR 0xC5, CHR 0xBF] then asciiLower t = CHR ''s'' \<and> equalFoldAscii (drop 2 s) ts
          else take 3 s = [CHR 0xE2, CHR 0x84, CHR 0xAA] \<and> asciiLower t = CHR ''k'' \<and> equalFoldAscii (drop 3 s) ts)"

definition crlf :: string where "crlf = [CHR 0x0D, CHR 0x0A]"

subsection \<open>Hosts\<close>

text \<open>\<^verbatim>\<open>net.SplitHostPort\<close>: the host and the port, or no result.\<close>

definition lastIndex :: "char \<Rightarrow> string \<Rightarrow> int" where
  "lastIndex c s = (if c \<in> set s then int (length s) - 1 - int (length (takeWhile (\<lambda>x. x \<noteq> c) (rev s))) else -1)"

definition firstIndex :: "char \<Rightarrow> string \<Rightarrow> int" where
  "firstIndex c s = (if c \<in> set s then int (length (takeWhile (\<lambda>x. x \<noteq> c) s)) else -1)"

definition SplitHostPort :: "string \<Rightarrow> (string \<times> string) option" where
  "SplitHostPort hp =
     (let i = lastIndex (CHR '':'') hp in
      if i < 0 then None
      else if hd hp = CHR ''['' then
        (let close = firstIndex (CHR '']'') hp in
         if close < 0 \<or> close + 1 \<noteq> i \<or> CHR ''['' \<in> set (drop 1 hp) \<or> CHR '']'' \<in> set (drop (nat close + 1) hp) then None
         else Some (take (nat close - 1) (drop 1 hp), drop (nat i + 1) hp))
      else
        (let host = take (nat i) hp in
         if CHR '':'' \<in> set host \<or> CHR ''['' \<in> set hp \<or> CHR '']'' \<in> set hp then None
         else Some (host, drop (nat i + 1) hp)))"

definition trimRightDots :: "string \<Rightarrow> string" where
  "trimRightDots s = rev (dropWhile (\<lambda>c. c = CHR ''.'') (rev s))"

definition parseHost :: "'h http_env \<Rightarrow> string \<Rightarrow> string sniff" where
  "parseHost env h =
     (if length h = 0 then Inl NoClue
      else
        let hs = (case SplitHostPort h of Some (host, _) \<Rightarrow> host | None \<Rightarrow> h);
            hs = (if hasPrefix hs ''['' \<and> hasSuffix hs '']'' then take (length hs - 2) (drop 1 hs) else hs);
            hs = lowerCase env (trimRightDots hs) in
        if hs = [] then Inl NoClue
        else if parsesAddr env hs then Inl HostIsIP
        else Inr hs)"

subsection \<open>HTTP/1\<close>

definition httpMethods :: "string list" where
  "httpMethods = [''GET'', ''POST'', ''HEAD'', ''PUT'', ''DELETE'', ''OPTIONS'', ''CONNECT'', ''PATCH'', ''TRACE'']"

definition isHTTPMethod :: "string \<Rightarrow> bool" where
  "isHTTPMethod method \<longleftrightarrow> list_ex (equalFoldAscii method) httpMethods"

definition isHTTPMethodPrefix :: "string \<Rightarrow> bool" where
  "isHTTPMethodPrefix pre \<longleftrightarrow>
     list_ex (\<lambda>method. length pre \<le> length method \<and> equalFoldAscii pre (take (length pre) method)) httpMethods"

text \<open>The lines from \<open>rest\<close> on; \<open>len\<close> is the length of all bytes.\<close>

function headerLoop :: "'h http_env \<Rightarrow> nat \<Rightarrow> string \<Rightarrow> string sniff" where
  "headerLoop env len rest =
     (case bytesCut crlf rest of
        None \<Rightarrow> Inl (NeedAtLeast (int len + 1))
      | Some (line, tail) \<Rightarrow>
          if length line = 0 then Inl NoClue
          else
            (case bytesCut '':'' line of
               None \<Rightarrow> headerLoop env len tail
             | Some (key, val) \<Rightarrow>
                 if \<not> equalFoldAscii key ''host'' then headerLoop env len tail
                 else parseHost env (trimSpaces val)))"
  by pat_completeness auto
termination
  by (relation "measure (\<lambda>(env, len, rest). length rest)") (auto dest: bytesCut_length simp: crlf_def)

declare headerLoop.simps [simp del]

definition parseHeaderHostH1 :: "'h http_env \<Rightarrow> string \<Rightarrow> string sniff" where
  "parseHeaderHostH1 env b = headerLoop env (length b) b"

definition afterCut :: "string \<Rightarrow> string \<Rightarrow> string" where
  "afterCut sep s = (case bytesCut sep s of Some (_, after) \<Rightarrow> after | None \<Rightarrow> s)"

definition requestTarget :: "'h http_env \<Rightarrow> string \<Rightarrow> string \<Rightarrow> string sniff" where
  "requestTarget env b uri =
     (if hd uri = CHR ''/'' \<or> hd uri = CHR ''*'' then parseHeaderHostH1 env b
      else
        let uri = afterCut ''://'' uri;
            uri = takeWhile (\<lambda>c. c \<notin> set ''/?#'') uri;
            uri = afterCut ''@'' uri in
        case parseHost env uri of
          Inl err \<Rightarrow> parseHeaderHostH1 env b
        | Inr h \<Rightarrow> Inr h)"

definition sniffHTTP1 :: "'h http_env \<Rightarrow> string \<Rightarrow> string sniff" where
  "sniffHTTP1 env b =
     (case bytesCut '' '' b of
        None \<Rightarrow> if isHTTPMethodPrefix b then Inl (NeedAtLeast (int (length b) + 1)) else Inl NotHTTP
      | Some (method, _) \<Rightarrow>
          if \<not> isHTTPMethod method then Inl NotHTTP
          else
            (case bytesCut crlf b of
               None \<Rightarrow> Inl (NeedAtLeast (int (length b) + 1))
             | Some (req, _) \<Rightarrow>
                 if length req < 14 then Inl NoClue
                 else
                   (case bytesCut '' '' req of
                      None \<Rightarrow> Inl NoClue
                    | Some (_, rest) \<Rightarrow>
                        (case bytesCut '' '' rest of
                           None \<Rightarrow> Inl NoClue
                         | Some (uri, _) \<Rightarrow> if length uri = 0 then Inl NoClue else requestTarget env b uri))))"

subsection \<open>HTTP/2\<close>

definition h2ClientPreface :: string where
  "h2ClientPreface = ''PRI * HTTP/2.0'' @ crlf @ crlf @ ''SM'' @ crlf @ crlf"

definition h2FrameHeaderLen :: int where "h2FrameHeaderLen = 9"
definition h2FrameHeaders :: int where "h2FrameHeaders = 1"
definition h2FrameSettings :: int where "h2FrameSettings = 4"
definition h2FrameContinuation :: int where "h2FrameContinuation = 9"
definition h2FlagAck :: nat where "h2FlagAck = 0"
definition h2FlagEndHeaders :: nat where "h2FlagEndHeaders = 2"
definition h2FlagPadded :: nat where "h2FlagPadded = 3"
definition h2FlagPriority :: nat where "h2FlagPriority = 5"
definition h2DefaultMaxFrameSize :: int where "h2DefaultMaxFrameSize = 2 ^ 14"

text \<open>A flag is the number of its bit.\<close>

definition flagSet :: "int \<Rightarrow> nat \<Rightarrow> bool" where
  "flagSet flags k \<longleftrightarrow> odd (flags div 2 ^ k)"

record h2_header =
  frameLength :: int
  frameType :: int
  frameFlags :: int
  frameStream :: int

definition frameHeader :: "8 word list \<Rightarrow> h2_header sniff" where
  "frameHeader b =
     rbind (uint16At b 0) (\<lambda>hi. rbind (byteAt b 2) (\<lambda>lo.
     rbind (byteAt b 3) (\<lambda>t. rbind (byteAt b 4) (\<lambda>flags.
     rbind (uint16At b 5) (\<lambda>s. rbind (uint16At b 7) (\<lambda>s'.
     Inr \<lparr>frameLength = hi * 2 ^ 8 + lo, frameType = t, frameFlags = flags, frameStream = (s * 2 ^ 16 + s') mod 2 ^ 31\<rparr>))))))"

text \<open>What a frame header alone rejects; \<open>first\<close> is whether it is the first of the connection.\<close>

definition frameRejected :: "bool \<Rightarrow> int \<Rightarrow> h2_header \<Rightarrow> bool" where
  "frameRejected first headerStreamID f \<longleftrightarrow>
     first \<and> (frameType f \<noteq> h2FrameSettings \<or> flagSet (frameFlags f) h2FlagAck)
     \<or> frameLength f > h2DefaultMaxFrameSize
     \<or> frameType f = h2FrameSettings \<and>
         (frameStream f \<noteq> 0 \<or> flagSet (frameFlags f) h2FlagAck \<and> frameLength f \<noteq> 0
          \<or> \<not> flagSet (frameFlags f) h2FlagAck \<and> frameLength f mod 6 \<noteq> 0)
     \<or> (if headerStreamID = 0
         then frameType f = h2FrameContinuation \<or> frameType f = h2FrameHeaders \<and> frameStream f = 0
         else frameType f \<noteq> h2FrameContinuation \<or> frameStream f \<noteq> headerStreamID)"

text \<open>The part of the payload that holds header fields.\<close>

definition fragmentBounds :: "8 word list \<Rightarrow> int \<Rightarrow> h2_header \<Rightarrow> (int \<times> int) sniff" where
  "fragmentBounds b payloadOffset f =
     (if frameType f \<noteq> h2FrameHeaders then Inr (0, frameLength f)
      else
        rbind (if flagSet (frameFlags f) h2FlagPadded then
                 if frameLength f = 0 then Inl NoClue
                 else if length b = 0 then Inl (NeedAtLeast (payloadOffset + 1))
                 else
                   rbind (byteAt b 0) (\<lambda>padLen.
                   if padLen \<ge> frameLength f then Inl NoClue else Inr (1, frameLength f - padLen))
               else Inr (0, frameLength f)) (\<lambda>(fragmentStart, fragmentEnd).
        if flagSet (frameFlags f) h2FlagPriority then
          if fragmentEnd - fragmentStart < 5 then Inl NoClue else Inr (fragmentStart + 5, fragmentEnd)
        else Inr (fragmentStart, fragmentEnd)))"

text \<open>The fields that the decoder emits: the last \<^verbatim>\<open>:authority\<close> and the last \<^verbatim>\<open>host\<close>.\<close>

fun emitFields :: "(string \<times> string) list \<Rightarrow> string \<Rightarrow> string \<Rightarrow> string \<times> string" where
  "emitFields [] authority host = (authority, host)"
| "emitFields ((name, v) # fs) authority host =
     (if name = '':authority'' then emitFields fs v host
      else if name = ''host'' then emitFields fs authority v
      else emitFields fs authority host)"

text \<open>The fragment goes to the decoder: a host, or what the decoder has found so far.\<close>

definition readFragment ::
  "'h http_env \<Rightarrow> 8 word list \<Rightarrow> int \<Rightarrow> int \<Rightarrow> 'h \<Rightarrow> string \<Rightarrow> string \<Rightarrow> (string + 'h \<times> string \<times> string) sniff" where
  "readFragment env b fragmentStart availableEnd decoder authority host =
     (if availableEnd > fragmentStart then
        rbind (orAbort (go_slice b fragmentStart availableEnd)) (\<lambda>fragment.
        case hpackWrite env fragment decoder of
          (emitted, failed, decoder) \<Rightarrow>
            (case emitFields emitted authority host of
               (authority, host) \<Rightarrow>
                 if authority \<noteq> [] then rbind (parseHost env authority) (\<lambda>h. Inr (Inl h))
                 else if host \<noteq> [] then rbind (parseHost env host) (\<lambda>h. Inr (Inl h))
                 else if failed then Inl NoClue
                 else Inr (Inr (decoder, authority, host))))
      else Inr (Inr (decoder, authority, host)))"

text \<open>
  A frame with header fields whose payload begins at \<open>b\<close>: a host, or what the decoder has found when
  the next frame is to be read.
\<close>

definition headersFrame ::
  "'h http_env \<Rightarrow> nat \<Rightarrow> 8 word list \<Rightarrow> int \<Rightarrow> h2_header \<Rightarrow> 'h \<Rightarrow> string \<Rightarrow> string \<Rightarrow> (string + 'h \<times> string \<times> string) sniff" where
  "headersFrame env len b payloadOffset f decoder authority host =
     rbind (fragmentBounds b payloadOffset f) (\<lambda>(fragmentStart, fragmentEnd).
     let availableEnd = (if int (length b) > fragmentEnd then fragmentEnd else int (length b)) in
     rbind (readFragment env b fragmentStart availableEnd decoder authority host) (\<lambda>r.
     case r of
       Inl h \<Rightarrow> Inr (Inl h)
     | Inr state \<Rightarrow>
         if flagSet (frameFlags f) h2FlagEndHeaders \<and> (fragmentStart = fragmentEnd \<or> availableEnd = fragmentEnd)
         then Inl NoClue
         else if int (length b) < frameLength f then
           Inl (NeedAtLeast
             (if availableEnd < fragmentEnd
              then if int (length b) < fragmentStart then payloadOffset + fragmentStart + 1 else int len + 1
              else payloadOffset + frameLength f))
         else Inr (Inr state)))"

lemma frameHeader_range: "frameHeader b = Inr f \<Longrightarrow> 0 \<le> frameLength f"
  by (auto simp: frameHeader_def rbind_eq_Inr dest!: byteAt_range uint16At_range)

function h2Loop :: "'h http_env \<Rightarrow> nat \<Rightarrow> 8 word list \<Rightarrow> int \<Rightarrow> 'h \<Rightarrow> string \<Rightarrow> string \<Rightarrow> string sniff" where
  "h2Loop env len b headerStreamID decoder authority host =
     (if int (length b) < h2FrameHeaderLen then Inl (NeedAtLeast (int len - int (length b) + h2FrameHeaderLen))
      else
        rbind (frameHeader b) (\<lambda>f.
        rbind (orAbort (go_slice b h2FrameHeaderLen (int (length b)))) (\<lambda>b'.
        let payloadOffset = int len - int (length b');
            first = (payloadOffset = int (length h2ClientPreface) + h2FrameHeaderLen) in
        if frameRejected first headerStreamID f then Inl NoClue
        else if headerStreamID = 0 \<and> frameType f \<noteq> h2FrameHeaders then
          if int (length b') < frameLength f then Inl (NeedAtLeast (payloadOffset + frameLength f))
          else h2Loop env len (drop (nat (frameLength f)) b') headerStreamID decoder authority host
        else
          let headerStreamID = (if headerStreamID = 0 then frameStream f else headerStreamID) in
          rbind (headersFrame env len b' payloadOffset f decoder authority host) (\<lambda>r.
          case r of
            Inl h \<Rightarrow> Inr h
          | Inr (decoder, authority, host) \<Rightarrow>
              h2Loop env len (drop (nat (frameLength f)) b') headerStreamID decoder authority host))))"
  by pat_completeness auto
termination
  by (relation "measure (\<lambda>(env, len, b, hs, d, a, h). length b)")
    (auto simp: orAbort_def go_slice_def h2FrameHeaderLen_def split: if_splits)

declare h2Loop.simps [simp del]

definition sniffHTTP2 :: "'h http_env \<Rightarrow> 8 word list \<Rightarrow> string sniff" where
  "sniffHTTP2 env b =
     rbind (orAbort (go_slice b (int (length h2ClientPreface)) (int (length b)))) (\<lambda>b'.
     h2Loop env (length b) b' 0 (hpackNew env) [] [])"

definition httpSniffData :: "'h http_env \<Rightarrow> 8 word list \<Rightarrow> string sniff" where
  "httpSniffData env b =
     (if length b < length h2ClientPreface then
        if hasPrefix h2ClientPreface (bytesText b) then Inl (NeedAtLeast (int (length b) + 1))
        else sniffHTTP1 env (bytesText b)
      else if hasPrefix (bytesText b) h2ClientPreface then sniffHTTP2 env b
      else sniffHTTP1 env (bytesText b))"

definition tlsSniffData :: "8 word list \<Rightarrow> string sniff" where
  "tlsSniffData b = rbind (SniffTLS b) (\<lambda>domain. Inr (bytesText domain))"

end
