(* ===== verification/Dispatcher.thy ===== *)
theory Dispatcher
  imports HttpSniffer Metadata Ranges Lru
begin

text \<open>
  The dispatcher of the sniffers (\<^verbatim>\<open>mihomo/component/sniffer/dispatcher.go\<close>, with
  \<^verbatim>\<open>base_sniffer.go\<close> and the constructors of the sniffers): which sniffers may look at a connection,
  how many bytes they are given, and what a name that they find changes in the metadata.

  A connection is the bytes in its buffer and the list of what the next reads return before the
  deadline; when the list is empty a read fails.  \<open>now\<close> is the time in seconds.
\<close>

subsection \<open>Sniffers\<close>

record sniffer =
  supportNetwork :: network
  ports :: "16 ranges"
  sniffData :: "8 word list \<Rightarrow> string sniff"
  multiPacket :: bool
  overrideDest :: bool

datatype (plugins only: code size) sniffer_type = SniffTLS' | SniffHTTP' | SniffQUIC' | SniffOther int

definition snifferList :: "sniffer_type list" where
  "snifferList = [SniffTLS', SniffHTTP', SniffQUIC']"

definition defaultPorts :: "16 word \<Rightarrow> 16 ranges \<Rightarrow> 16 ranges" where
  "defaultPorts p rs = (if length rs = 0 then [NewRange p p] else rs)"

definition NewTLSSniffer :: "16 ranges \<times> bool \<Rightarrow> sniffer" where
  "NewTLSSniffer config =
     \<lparr>supportNetwork = TCP, ports = defaultPorts 443 (fst config), sniffData = tlsSniffData, multiPacket = False,
       overrideDest = snd config\<rparr>"

definition NewHTTPSniffer :: "'h http_env \<Rightarrow> 16 ranges \<times> bool \<Rightarrow> sniffer" where
  "NewHTTPSniffer env config =
     \<lparr>supportNetwork = TCP, ports = defaultPorts 80 (fst config), sniffData = httpSniffData env, multiPacket = False,
       overrideDest = snd config\<rparr>"

text \<open>The sniffer of QUIC works on whole packets behind its own sender.\<close>

definition NewQUICSniffer :: "16 ranges \<times> bool \<Rightarrow> sniffer" where
  "NewQUICSniffer config =
     \<lparr>supportNetwork = UDP, ports = defaultPorts 443 (fst config), sniffData = (\<lambda>b. Inl UnsupportedSniffer),
       multiPacket = True, overrideDest = snd config\<rparr>"

definition NewSniffer :: "'h http_env \<Rightarrow> sniffer_type \<Rightarrow> 16 ranges \<times> bool \<Rightarrow> sniffer option" where
  "NewSniffer env name config =
     (case name of
        SniffTLS' \<Rightarrow> Some (NewTLSSniffer config)
      | SniffHTTP' \<Rightarrow> Some (NewHTTPSniffer env config)
      | SniffQUIC' \<Rightarrow> Some (NewQUICSniffer config)
      | SniffOther _ \<Rightarrow> None)"

definition supportsNetwork :: "sniffer \<Rightarrow> network \<Rightarrow> bool" where
  "supportsNetwork s network \<longleftrightarrow> supportNetwork s = network \<or> supportNetwork s = ALLNet"

definition SupportPort :: "sniffer \<Rightarrow> 16 word \<Rightarrow> bool" where
  "SupportPort s port \<longleftrightarrow> rangesCheck (ports s) port"

subsection \<open>The dispatcher\<close>

type_synonym dst = "addr \<times> 16 word"

record dispatcher =
  enable :: bool
  sniffers :: "sniffer list"
  forceDomain :: "(string \<Rightarrow> bool) list"
  skipSrcAddress :: "(addr \<Rightarrow> bool) list"
  skipDstAddress :: "(addr \<Rightarrow> bool) list"
  skipDomain :: "(string \<Rightarrow> bool) list"
  skipList :: "(dst, 8 word) lru_cache"
  forceDnsMapping :: bool
  parsePureIp :: bool

record sniffer_config =
  configEnable :: bool
  configSniffers :: "(sniffer_type \<times> 16 ranges \<times> bool) list"
  configForceDomain :: "(string \<Rightarrow> bool) list"
  configSkipSrcAddress :: "(addr \<Rightarrow> bool) list"
  configSkipDstAddress :: "(addr \<Rightarrow> bool) list"
  configSkipDomain :: "(string \<Rightarrow> bool) list"
  configForceDnsMapping :: bool
  configParsePureIp :: bool

text \<open>The sniffers that are configured, in the fixed order of \<^verbatim>\<open>sniffer.List\<close>.\<close>

fun orderedSniffers :: "'h http_env \<Rightarrow> (sniffer_type \<times> 16 ranges \<times> bool) list \<Rightarrow> sniffer_type list \<Rightarrow> sniffer list option" where
  "orderedSniffers env cfg [] = Some []"
| "orderedSniffers env cfg (name # names) =
     (case map_of cfg name of
        None \<Rightarrow> orderedSniffers env cfg names
      | Some config \<Rightarrow>
          (case NewSniffer env name config of
             None \<Rightarrow> None
           | Some s \<Rightarrow> map_option (\<lambda>ss. s # ss) (orderedSniffers env cfg names)))"

text \<open>The keys of the map \<open>configSniffers\<close> are distinct; an error gives a disabled dispatcher.\<close>

definition NewDispatcher :: "'h http_env \<Rightarrow> sniffer_config \<Rightarrow> dispatcher option" where
  "NewDispatcher env cfg =
     (case orderedSniffers env (configSniffers cfg) snifferList of
        None \<Rightarrow> None
      | Some ss \<Rightarrow>
          if length ss \<noteq> length (configSniffers cfg) \<and> list_ex (\<lambda>(name, _). name \<notin> set snifferList) (configSniffers cfg)
          then None
          else
            Some \<lparr>enable = configEnable cfg, sniffers = ss, forceDomain = configForceDomain cfg,
              skipSrcAddress = configSkipSrcAddress cfg, skipDstAddress = configSkipDstAddress cfg,
              skipDomain = configSkipDomain cfg, skipList = newLru [WithSize 128, WithAge 600],
              forceDnsMapping = configForceDnsMapping cfg, parsePureIp = configParsePureIp cfg\<rparr>)"

definition forceSniff :: "dispatcher \<Rightarrow> metadata \<Rightarrow> bool" where
  "forceSniff sd m \<longleftrightarrow> list_ex (\<lambda>matches. matches (Host m)) (forceDomain sd)"

definition shouldOverride :: "dispatcher \<Rightarrow> metadata \<Rightarrow> bool" where
  "shouldOverride sd m \<longleftrightarrow>
     (if list_ex (\<lambda>matches. matches (DstIP m)) (skipDstAddress sd) then False
      else if list_ex (\<lambda>matches. matches (SrcIP m)) (skipSrcAddress sd) then False
      else if Host m = [] \<and> parsePureIp sd then True
      else if DNSMode m = DNSMapping \<and> forceDnsMapping sd then True
      else forceSniff sd m)"

text \<open>\<^verbatim>\<open>IsDomainName\<close> of the sing library is the parameter \<open>isDomain\<close>.\<close>

definition isValidSniffHost :: "(string \<Rightarrow> bool) \<Rightarrow> string \<Rightarrow> bool" where
  "isValidSniffHost isDomain host \<longleftrightarrow> host \<noteq> ''.'' \<and> isDomain host"

definition domainCanReplace :: "(string \<Rightarrow> bool) \<Rightarrow> dispatcher \<Rightarrow> string \<Rightarrow> bool" where
  "domainCanReplace isDomain sd host \<longleftrightarrow>
     (if \<not> isValidSniffHost isDomain host then False else \<not> list_ex (\<lambda>matches. matches host) (skipDomain sd))"

definition replaceDomain :: "metadata \<Rightarrow> string \<Rightarrow> bool \<Rightarrow> metadata" where
  "replaceDomain m host override =
     (let m = m\<lparr>SniffHost := host\<rparr>;
          m = (if override then m\<lparr>Host := host, DstIP := NoAddr\<rparr> else m) in
      m\<lparr>DNSMode := DNSNormal\<rparr>)"

subsection \<open>Reading and sniffing\<close>

text \<open>\<^verbatim>\<open>Peek\<close>: the buffer is filled until it has \<open>n\<close> bytes or a read fails.\<close>

fun peek :: "int \<Rightarrow> 8 word list \<Rightarrow> 8 word list list \<Rightarrow> bool \<times> 8 word list \<times> 8 word list list" where
  "peek n buf [] = (n \<le> int (length buf), buf, [])"
| "peek n buf (chunk # reads) =
     (if n \<le> int (length buf) then (True, buf, chunk # reads) else peek n (buf @ chunk) reads)"

lemma peek_reads:
  "peek n buf reads = (ok, buf', reads') \<Longrightarrow> length reads' \<le> length reads"
  "peek n buf reads = (ok, buf', reads') \<Longrightarrow> int (length buf) < n \<Longrightarrow> ok \<Longrightarrow> length reads' < length reads"
  by (induction n buf reads arbitrary: ok buf' reads' rule: peek.induct)
    (fastforce split: if_splits)+

datatype (plugins only: code size) sniff_error = SnifferPanic abort | SniffFailed | BufferFull | ReadFailed

definition maxSniffBufferSize :: int where "maxSniffBufferSize = 64 * 1024"

text \<open>The candidate \<open>s\<close> stays active with the request \<open>want\<close>.\<close>

definition keepCandidate :: "sniffer \<Rightarrow> int \<Rightarrow> sniff_error + (string \<times> bool) + (sniffer \<times> int) list \<Rightarrow>
    sniff_error + (string \<times> bool) + (sniffer \<times> int) list" where
  "keepCandidate s want r =
     rbind r (\<lambda>r. case r of Inl found \<Rightarrow> Inr (Inl found) | Inr remaining \<Rightarrow> Inr (Inr ((s, want) # remaining)))"

lemma keepCandidate_eq:
  "keepCandidate s want r = Inr (Inr cs) \<longleftrightarrow> (\<exists>cs'. r = Inr (Inr cs') \<and> cs = (s, want) # cs')"
  by (cases r) (auto simp: keepCandidate_def split: sum.splits)

lemma keepCandidate_eq_Inl: "keepCandidate s want r = Inl e \<longleftrightarrow> r = Inl e"
  by (cases r) (auto simp: keepCandidate_def split: sum.splits)

text \<open>
  One round: every candidate whose request is met looks at the bytes.  The result is the host with
  the policy of its sniffer, or the candidates that wait for more.
\<close>

fun sniffRound :: "(string \<Rightarrow> bool) \<Rightarrow> 8 word list \<Rightarrow> (sniffer \<times> int) list \<Rightarrow> sniff_error + (string \<times> bool) + (sniffer \<times> int) list" where
  "sniffRound isDomain data [] = Inr (Inr [])"
| "sniffRound isDomain data ((s, want) # cs) =
     (if want \<le> int (length data) then
        (case sniffData s data of
           Inr host \<Rightarrow>
             if isValidSniffHost isDomain host then Inr (Inl (host, overrideDest s))
             else sniffRound isDomain data cs
         | Inl (Abort a) \<Rightarrow> Inl (SnifferPanic a)
         | Inl (NeedAtLeast n) \<Rightarrow> if n \<le> int (length data) then sniffRound isDomain data cs
             else keepCandidate s n (sniffRound isDomain data cs)
         | Inl _ \<Rightarrow> sniffRound isDomain data cs)
      else keepCandidate s want (sniffRound isDomain data cs))"

fun nextWant :: "int \<Rightarrow> (sniffer \<times> int) list \<Rightarrow> int" where
  "nextWant acc [] = acc"
| "nextWant acc ((s, want) # cs) = nextWant (if acc = 0 \<or> want < acc then want else acc) cs"

lemma sniffRound_wants:
  "sniffRound isDomain data cs = Inr (Inr cs') \<Longrightarrow> \<forall>(s, want)\<in>set cs'. int (length data) < want"
proof (induction cs arbitrary: cs')
  case (Cons c cs)
  then show ?case
    by (cases c) (auto simp: keepCandidate_eq split: if_splits sum.splits sniff_stop.splits)
qed simp

lemma nextWant_bound:
  "\<forall>(s, want)\<in>set cs. k < want \<Longrightarrow> 0 \<le> k \<Longrightarrow> acc = 0 \<or> k < acc \<Longrightarrow> cs \<noteq> [] \<or> k < acc \<Longrightarrow> k < nextWant acc cs"
  by (induction acc cs rule: nextWant.induct) (auto split: if_splits)

function sniffLoop :: "(string \<Rightarrow> bool) \<Rightarrow> (sniffer \<times> int) list \<Rightarrow> int \<Rightarrow> 8 word list \<Rightarrow> 8 word list list \<Rightarrow> sniff_error + string \<times> bool" where
  "sniffLoop isDomain candidates want buf reads =
     (if candidates = [] then Inl SniffFailed
      else if want > maxSniffBufferSize \<and> want > int (length buf) then Inl BufferFull
      else
        (case peek want buf reads of
           (False, _, _) \<Rightarrow> Inl ReadFailed
         | (True, data, reads) \<Rightarrow>
             rbind (sniffRound isDomain data candidates) (\<lambda>r.
             case r of
               Inl found \<Rightarrow> Inr found
             | Inr remaining \<Rightarrow> sniffLoop isDomain remaining (nextWant 0 remaining) data reads)))"
  by pat_completeness auto
termination
proof (relation "measures [\<lambda>(d, cs, want, buf, reads). length reads,
    \<lambda>(d, cs, want, buf, reads). if cs = [] then 0 else if want \<le> int (length buf) then 2 else 1]", goal_cases)
  case (2 isDomain candidates want buf reads ok rest data reads' r remaining)
  show ?case
  proof (cases "want \<le> int (length buf)")
    case True
    then have same: "peek want buf reads = (True, buf, reads)" by (cases reads) auto
    then have "sniffRound isDomain buf candidates = Inr (Inr remaining)" using 2 by auto
    then have "remaining = [] \<or> int (length buf) < nextWant 0 remaining"
      by (auto dest!: sniffRound_wants intro!: nextWant_bound)
    then show ?thesis using True same 2 by auto
  next
    case False
    then show ?thesis using peek_reads(2) [of want buf reads ok data reads'] 2 by auto
  qed
qed simp

declare sniffLoop.simps [simp del]

definition sniffCandidates :: "dispatcher \<Rightarrow> metadata \<Rightarrow> (sniffer \<times> int) list" where
  "sniffCandidates sd m =
     map (\<lambda>s. (s, 1)) (filter (\<lambda>s. supportsNetwork s TCP \<and> SupportPort s (DstPort m)) (sniffers sd))"

definition sniffDomain :: "(string \<Rightarrow> bool) \<Rightarrow> dispatcher \<Rightarrow> metadata \<Rightarrow> 8 word list \<Rightarrow> 8 word list list \<Rightarrow> sniff_error + string \<times> bool" where
  "sniffDomain isDomain sd m buf reads =
     (let candidates = sniffCandidates sd m in
      if length candidates = 0 then Inl SniffFailed
      else
        (case peek 1 buf reads of
           (False, _, _) \<Rightarrow> Inl ReadFailed
         | (True, buf, reads) \<Rightarrow> sniffLoop isDomain candidates (int (length buf)) buf reads))"

definition AddrPort :: "metadata \<Rightarrow> dst" where
  "AddrPort m = (DstIP m, DstPort m)"

definition countFailure :: "8 word \<Rightarrow> bool \<Rightarrow> 8 word \<times> bool" where
  "countFailure oldValue loaded = (if oldValue \<le> 5 then oldValue + 1 else oldValue, False)"

definition cacheSniffFailed :: "int \<Rightarrow> dispatcher \<Rightarrow> metadata \<Rightarrow> dispatcher" where
  "cacheSniffFailed now sd m =
     (case Compute 0 now (AddrPort m) countFailure (skipList sd) of (_, _, l) \<Rightarrow> sd\<lparr>skipList := l\<rparr>)"

text \<open>
  The attempt, once the destination is not skipped.  A panic of a sniffer is a panic of the dispatcher.
\<close>

definition trySniff ::
  "(string \<Rightarrow> bool) \<Rightarrow> int \<Rightarrow> bool \<Rightarrow> dispatcher \<Rightarrow> metadata \<Rightarrow> 8 word list \<Rightarrow> 8 word list list \<Rightarrow> (bool \<times> metadata \<times> dispatcher) outcome" where
  "trySniff isDomain now forceSniffer sd m buf reads =
     (case sniffDomain isDomain sd m buf reads of
        Inl (SnifferPanic a) \<Rightarrow> Inl a
      | Inl _ \<Rightarrow> Inr (False, m, if \<not> forceSniffer then cacheSniffFailed now sd m else sd)
      | Inr (host, override) \<Rightarrow>
          if \<not> domainCanReplace isDomain sd host then Inr (False, m, sd)
          else
            (case lruDelete (AddrPort m) (skipList sd) of
               (_, l) \<Rightarrow> Inr (True, replaceDomain m host override, sd\<lparr>skipList := l\<rparr>)))"

definition TCPSniff ::
  "(string \<Rightarrow> bool) \<Rightarrow> int \<Rightarrow> dispatcher \<Rightarrow> metadata \<Rightarrow> 8 word list \<Rightarrow> 8 word list list \<Rightarrow> (bool \<times> metadata \<times> dispatcher) outcome" where
  "TCPSniff isDomain now sd m buf reads =
     (if \<not> shouldOverride sd m then Inr (False, m, sd)
      else if \<not> list_ex (\<lambda>s. supportsNetwork s TCP \<and> SupportPort s (DstPort m)) (sniffers sd) then Inr (False, m, sd)
      else if forceSniff sd m then trySniff isDomain now True sd m buf reads
      else
        (case lruGet now (AddrPort m) (skipList sd) of
           (count, _, l) \<Rightarrow>
             if (case count of None \<Rightarrow> False | Some n \<Rightarrow> n > 5) then Inr (False, m, sd\<lparr>skipList := l\<rparr>)
             else trySniff isDomain now False (sd\<lparr>skipList := l\<rparr>) m buf reads))"

text \<open>
  The first packet of a UDP flow: the metadata, and the sniffer whose own sender takes over, if any.
\<close>

fun udpLoop :: "(string \<Rightarrow> bool) \<Rightarrow> dispatcher \<Rightarrow> metadata \<Rightarrow> 8 word list \<Rightarrow> sniffer list \<Rightarrow> (metadata \<times> sniffer option) outcome" where
  "udpLoop isDomain sd m data [] = Inr (m, None)"
| "udpLoop isDomain sd m data (s # ss) =
     (if supportsNetwork s UDP \<and> SupportPort s (DstPort m) then
        if multiPacket s then Inr (m, Some s)
        else
          (case sniffData s data of
             Inl (Abort a) \<Rightarrow> Inl a
           | Inl _ \<Rightarrow> udpLoop isDomain sd m data ss
           | Inr host \<Rightarrow>
               Inr (if domainCanReplace isDomain sd host then replaceDomain m host (overrideDest s) else m, None))
      else udpLoop isDomain sd m data ss)"

definition UDPSniff :: "(string \<Rightarrow> bool) \<Rightarrow> dispatcher \<Rightarrow> metadata \<Rightarrow> 8 word list \<Rightarrow> (metadata \<times> sniffer option) outcome" where
  "UDPSniff isDomain sd m data = (if shouldOverride sd m then udpLoop isDomain sd m data (sniffers sd) else Inr (m, None))"

end
