(* ===== verification/TlsSnifferSpec.thy ===== *)
theory TlsSnifferSpec
  imports TlsSniffer
begin

text \<open>
  What the sniffer of TLS connections promises on the bytes of a stranger: it never panics, a verdict
  on the first bytes of a connection is the verdict on all longer ones, and waiting for the bytes
  it asks for is neither too short nor in vain.
\<close>

subsection \<open>Results on a prefix\<close>

text \<open>
  The result \<open>m\<close> on \<open>k\<close> bytes against the result \<open>m'\<close> on \<open>k'\<close> bytes that begin with them; \<open>h\<close> bounds
  what may be asked for.
\<close>

definition settles :: "nat \<Rightarrow> nat \<Rightarrow> int \<Rightarrow> 'a sniff \<Rightarrow> 'a sniff \<Rightarrow> bool" where
  "settles k k' h m m' \<longleftrightarrow>
     (\<forall>a. m \<noteq> Inl (Abort a)) \<and>
     (case m of
        Inl (NeedAtLeast n) \<Rightarrow> int k < n \<and> n \<le> h \<and> (int k' < n \<longrightarrow> m' = m)
      | _ \<Rightarrow> m' = m)"

lemma settles_verdict: "e \<in> {NotTLS, NotClientHello, NoClue} \<Longrightarrow> settles k k' h (Inl e) (Inl e)"
  by (auto simp: settles_def)

lemma settles_Inr: "settles k k' h (Inr x) (Inr x)"
  by (simp add: settles_def)

lemma settles_bind:
  "settles k k' h m m' \<Longrightarrow> (\<And>v. m = Inr v \<Longrightarrow> settles k k' h (f v) (f' v)) \<Longrightarrow> settles k k' h (rbind m f) (rbind m' f')"
  by (cases m) (auto simp: settles_def split: sniff_stop.splits)

lemma settles_need:
  "(n \<le> int (length d) \<Longrightarrow> settles (length d) (length d + length c) h f f') \<Longrightarrow>
    settles (length d) (length d + length c) h (rbind (need h d n) (\<lambda>_. f)) (rbind (need h (d @ c) n) (\<lambda>_. f'))"
  by (auto simp: need_def settles_def split: sum.splits sniff_stop.splits)

lemma settles_byte:
  assumes "0 \<le> i" "i < int (length d)" "\<And>v. 0 \<le> v \<Longrightarrow> v < 256 \<Longrightarrow> settles k k' h (f v) (f' v)"
  shows "settles k k' h (rbind (byteAt d i) f) (rbind (byteAt (d @ c) i) f')"
  using assms uint_lt2p [where 'a = 8 and x = "d ! nat i"] by (simp add: byteAt_def orAbort_def nth_append nat_less_iff)

lemma settles_uint16:
  assumes "0 \<le> i" "i + 1 < int (length d)" "\<And>v. 0 \<le> v \<Longrightarrow> v < 65536 \<Longrightarrow> settles k k' h (f v) (f' v)"
  shows "settles k k' h (rbind (uint16At d i) f) (rbind (uint16At (d @ c) i) f')"
proof -
  have "settles k k' h (rbind (byteAt d i) (\<lambda>a. rbind (rbind (byteAt d (i + 1)) (\<lambda>b. Inr (a * 2 ^ 8 + b))) f))
      (rbind (byteAt (d @ c) i) (\<lambda>a. rbind (rbind (byteAt (d @ c) (i + 1)) (\<lambda>b. Inr (a * 2 ^ 8 + b))) f'))"
    unfolding rbind_assoc rbind_simps by (intro settles_byte assms(3)) (use assms(1,2) in auto)
  then show ?thesis by (simp add: uint16At_def rbind_assoc)
qed

lemma settles_slice:
  assumes "0 \<le> lo" "lo \<le> hi" "hi \<le> int (length d)" "\<And>s. length s = nat (hi - lo) \<Longrightarrow> settles k k' h (f s) (f' s)"
  shows "settles k k' h (rbind (orAbort (go_slice d lo hi)) f) (rbind (orAbort (go_slice (d @ c) lo hi)) f')"
proof -
  have "nat lo \<le> length d" "nat hi \<le> length d" using assms(1-3) by linarith+
  then show ?thesis using assms by (simp add: orAbort_def nat_diff_distrib)
qed

lemma settles_if:
  "(b \<Longrightarrow> settles k k' h m m') \<Longrightarrow> (\<not> b \<Longrightarrow> settles k k' h n n') \<Longrightarrow>
    settles k k' h (if b then m else n) (if b then m' else n')"
  by simp

lemmas settles_intros = settles_need settles_if settles_byte settles_uint16 settles_slice settles_Inr settles_verdict

subsection \<open>The hello message\<close>

lemma namesLoop_settles:
  "0 \<le> off \<Longrightarrow> settles (length d) (length d + length c) h (namesLoop h d e off) (namesLoop h (d @ c) e off)"
proof (induction "nat (e - off)" arbitrary: off rule: less_induct)
  case less
  show ?case
  proof (cases "off < e")
    case True
    have rec: "settles (length d) (length d + length c) h (namesLoop h d e (off + 3 + n)) (namesLoop h (d @ c) e (off + 3 + n))"
      if "0 \<le> n" for n
      using less.prems that True by (intro less.hyps) simp_all
    show ?thesis
      unfolding namesLoop.simps [of h d e off] namesLoop.simps [of h "d @ c" e off] Let_def
      by (intro settles_intros rec) (use less.prems in auto)
  qed (simp add: namesLoop.simps settles_Inr)
qed

lemma extensionLoop_settles:
  "0 \<le> off \<Longrightarrow> settles (length d) (length d + length c) h (extensionLoop h d e off) (extensionLoop h (d @ c) e off)"
proof (induction "nat (e - off)" arbitrary: off rule: less_induct)
  case less
  show ?case
  proof (cases "off < e")
    case True
    have rec: "settles (length d) (length d + length c) h (extensionLoop h d e off') (extensionLoop h (d @ c) e off')"
      if "off + 4 \<le> off'" for off'
      using less.prems that True by (intro less.hyps) simp_all
    have names: "settles (length d) (length d + length c) h
        (rbind (namesLoop h d e' (off + 4 + 2)) (\<lambda>r. case r of Inl s \<Rightarrow> Inr s | Inr off' \<Rightarrow> extensionLoop h d e off'))
        (rbind (namesLoop h (d @ c) e' (off + 4 + 2)) (\<lambda>r. case r of Inl s \<Rightarrow> Inr s | Inr off' \<Rightarrow> extensionLoop h (d @ c) e off'))" for e'
    proof (intro settles_bind namesLoop_settles)
      fix r assume r: "namesLoop h d e' (off + 4 + 2) = Inr r"
      show "settles (length d) (length d + length c) h (case r of Inl s \<Rightarrow> Inr s | Inr off' \<Rightarrow> extensionLoop h d e off')
          (case r of Inl s \<Rightarrow> Inr s | Inr off' \<Rightarrow> extensionLoop h (d @ c) e off')"
      proof (cases r)
        case (Inr off')
        then have "off + 4 \<le> off'" using namesLoop_offset r by fastforce
        then show ?thesis using rec Inr by simp
      qed (simp add: settles_Inr)
    qed (use less.prems in simp)
    show ?thesis
      unfolding extensionLoop.simps [of h d e off] extensionLoop.simps [of h "d @ c" e off] Let_def
      by (intro settles_intros names rec) (use less.prems in auto)
  qed (simp add: extensionLoop.simps settles_verdict)
qed

lemma helloBody_settles: "settles (length d) (length d + length c) h (helloBody h d) (helloBody h (d @ c))"
  unfolding helloBody_def Let_def tlsHandshakeHeaderLen_def
  by (intro settles_intros extensionLoop_settles) auto

text \<open>The whole function has no bound that is known before the size of the message has been read.\<close>

definition settled :: "nat \<Rightarrow> nat \<Rightarrow> 'a sniff \<Rightarrow> 'a sniff \<Rightarrow> bool" where
  "settled k k' m m' \<longleftrightarrow> (\<exists>h. settles k k' h m m')"

lemma settled_iff:
  "settled k k' m m' \<longleftrightarrow>
     (\<forall>a. m \<noteq> Inl (Abort a)) \<and>
     (case m of Inl (NeedAtLeast n) \<Rightarrow> int k < n \<and> (int k' < n \<longrightarrow> m' = m) | _ \<Rightarrow> m' = m)"
  by (auto simp: settled_def settles_def split: sum.splits sniff_stop.splits)

lemma clientHelloSize_ok:
  assumes "4 \<le> length d"
  obtains r where "clientHelloSize d = r" "clientHelloSize (d @ c) = r" "\<forall>a n. r \<noteq> Inl (Abort a) \<and> r \<noteq> Inl (NeedAtLeast n)"
    "\<And>h. r = Inr h \<Longrightarrow> 4 \<le> h"
proof -
  have byte: "byteAt (d @ x) i = Inr (uint (d ! nat i))" if "0 \<le> i" "i < 4" for i x
    using that assms by (simp add: byteAt_def orAbort_def nth_append nat_less_iff)
  have size: "clientHelloSize (d @ x) = (if uint (d ! 0) \<noteq> 1 then Inl NotClientHello
      else Inr (4 + (uint (d ! 1) * 2 ^ 16 + uint (d ! 2) * 2 ^ 8 + uint (d ! 3))))" for x
    using assms byte [of 0 x] byte [of 1 x] byte [of 2 x] byte [of 3 x]
    by (simp add: clientHelloSize_def tlsHandshakeHeaderLen_def tlsHandshakeTypeClientHello_def)
  show thesis using that [of "clientHelloSize d"] size [of "[]"] size [of c] by (auto split: if_splits)
qed

lemma ReadClientHello_settled: "settled (length d) (length d + length c) (ReadClientHello d) (ReadClientHello (d @ c))"
proof (cases "d = []")
  case True
  then show ?thesis by (auto simp: ReadClientHello_def settled_iff)
next
  case False
  then have first: "byteAt d 0 = Inr (uint (d ! 0))" "byteAt (d @ c) 0 = Inr (uint (d ! 0))"
    by (cases d; simp add: byteAt_def orAbort_def nth_append)+
  show ?thesis
  proof (cases "uint (d ! 0) = 1 \<and> 4 \<le> length d")
    case False
    then show ?thesis using \<open>d \<noteq> []\<close> first
      by (auto simp: ReadClientHello_def settled_iff tlsHandshakeHeaderLen_def tlsHandshakeTypeClientHello_def not_le)
  next
    case True
    then obtain r where r: "clientHelloSize d = r" "clientHelloSize (d @ c) = r"
        "\<forall>a n. r \<noteq> Inl (Abort a) \<and> r \<noteq> Inl (NeedAtLeast n)" "\<And>h. r = Inr h \<Longrightarrow> 4 \<le> h"
      using clientHelloSize_ok [of d c] by blast
    have read: "ReadClientHello (d @ x) = rbind (clientHelloSize (d @ x)) (\<lambda>h.
        helloBody h (take (nat h) (d @ x)))" if "x = [] \<or> x = c" for x
      using that True first r
      by (cases r) (auto simp: ReadClientHello_def tlsHandshakeHeaderLen_def tlsHandshakeTypeClientHello_def orAbort_def)
    have d: "ReadClientHello d = rbind r (\<lambda>h. helloBody h (take (nat h) d))" using read [of "[]"] r(1) by simp
    have dc: "ReadClientHello (d @ c) = rbind r (\<lambda>h. helloBody h (take (nat h) (d @ c)))" using read [of c] r(2) by simp
    show ?thesis
    proof (cases r)
      case (Inl e)
      then show ?thesis using r(3) by (cases e) (auto simp: d dc settled_iff)
    next
      case (Inr h)
      have h: "4 \<le> h" using r(4) Inr by simp
      show ?thesis
      proof (cases "length d < nat h")
        case True
        have "settles (length d) (length d + length (take (nat h - length d) c)) h (helloBody h d)
            (helloBody h (d @ take (nat h - length d) c))" by (rule helloBody_settles)
        moreover have "take (nat h) d = d" "take (nat h) (d @ c) = d @ take (nat h - length d) c" using True by simp_all
        ultimately show ?thesis using True
          by (auto simp: d dc Inr settled_iff settles_def min_def split: sum.splits sniff_stop.splits if_splits)
      next
        case False
        then have "length (take (nat h) d) = nat h" "take (nat h) (d @ c) = take (nat h) d" by simp_all
        then show ?thesis using helloBody_settles [of "take (nat h) d" "[]" h] h
          by (auto simp: d dc Inr settled_iff settles_def split: sum.splits sniff_stop.splits)
      qed
    qed
  qed
qed

subsection \<open>Records\<close>

lemma recordHeader_prefix:
  assumes "0 \<le> w" "w + 5 \<le> int (length b)"
  shows "recordHeader (b @ c) w = recordHeader b w" and "recordHeader b w \<noteq> Inl (Abort a)" and "recordHeader b w \<noteq> Inl (NeedAtLeast k)"
proof -
  have "nat (w + 5) \<le> length b" "nat w \<le> length b" "nat (w + 5) - nat w = 5" using assms by linarith+
  then have slice: "go_slice (b @ x) w (w + 5) = Inr (take 5 (drop (nat w) b))" "length (take 5 (drop (nat w) b)) = 5" for x
    using assms by simp_all
  then have bytes: "byteAt (take 5 (drop (nat w) b)) i = Inr (uint (take 5 (drop (nat w) b) ! nat i))" if "0 \<le> i" "i < 5" for i
    using that by (simp add: byteAt_def orAbort_def)
  show "recordHeader (b @ c) w = recordHeader b w"
    using slice(1) [of c] slice(1) [of "[]"] by (simp add: recordHeader_def tlsRecordHeaderLen_def)
  show "recordHeader b w \<noteq> Inl (Abort a)" "recordHeader b w \<noteq> Inl (NeedAtLeast k)"
    using slice(1) [of "[]"] bytes
    by (auto simp: recordHeader_def tlsRecordHeaderLen_def orAbort_def uint16At_def rbind_eq_Inl)
qed

text \<open>What a record does once its length is known, in terms of the hello message so far.\<close>

definition afterPayload :: "8 word list \<Rightarrow> int \<Rightarrow> int \<Rightarrow> 8 word list \<Rightarrow> 8 word list sniff" where
  "afterPayload b recordEnd payloadEnd hello =
     (case ReadClientHello hello of
        Inr domain \<Rightarrow> Inr domain
      | Inl (NeedAtLeast n) \<Rightarrow>
          if payloadEnd < recordEnd then Inl (NeedAtLeast (payloadEnd + min (n - int (length hello)) (recordEnd - payloadEnd)))
          else sniffRecords b recordEnd hello
      | Inl e \<Rightarrow> Inl e)"

lemma sniffRecords_record:
  assumes "0 \<le> w" "w + 5 \<le> int (length b)" "recordHeader b w = Inr n"
  shows "sniffRecords b w ch =
    afterPayload b (w + 5 + n) (min (int (length b)) (w + 5 + n))
      ((if w = 0 then [] else ch) @ take (nat n) (drop (nat (w + 5)) b))"
proof -
  let ?pe = "min (int (length b)) (w + 5 + n)"
  have n: "0 < n" using recordHeader_range [OF assms(3)] by simp
  have pe: "recordPayloadEnd b (w + 5) (w + 5 + n) = ?pe" using assms(2) n by (auto simp: recordPayloadEnd_def Let_def)
  have "nat ?pe - nat (w + 5) = min (length b - nat (w + 5)) (nat n)" using assms(1,2) n by linarith
  then have slice: "orAbort (go_slice b (w + 5) ?pe) = Inr (take (nat n) (drop (nat (w + 5)) b))"
    using assms(1,2) n by (simp add: go_slice_def orAbort_def) (simp add: min_def)
  have short: "(int (length b) - w < 5) = False" using assms(2) by simp
  have least: "(if r < m then r else m) = min m r" for r m :: int by (simp add: min_def)
  have hello: "(if w = 0 then p else ch @ p) = (if w = 0 then [] else ch) @ p" for p by simp
  show ?thesis
    unfolding sniffRecords.simps [of b w ch] tlsRecordHeaderLen_def short if_False assms(3) rbind_simps Let_def pe slice hello
      least afterPayload_def ..
qed

lemma afterPayload_settled:
  assumes "recordEnd \<le> int (length b)"
    and "\<And>ch. settled (length b) (length b + length c) (sniffRecords b recordEnd ch) (sniffRecords (b @ c) recordEnd ch)"
  shows "settled (length b) (length b + length c) (afterPayload b recordEnd recordEnd hello) (afterPayload (b @ c) recordEnd recordEnd hello)"
proof (cases "\<exists>n. ReadClientHello hello = Inl (NeedAtLeast n)")
  case True
  then show ?thesis using assms(2) [of hello] by (auto simp: afterPayload_def)
next
  case False
  then show ?thesis using ReadClientHello_settled [of hello "[]"]
    by (auto simp: afterPayload_def settled_iff split: sum.splits sniff_stop.splits)
qed

lemma afterPayload_waits:
  assumes "int (length b) < recordEnd"
  shows "settled (length b) (length b + length c) (afterPayload b recordEnd (int (length b)) hello)
    (afterPayload (b @ c) recordEnd (min (int (length b + length c)) recordEnd) (hello @ take (nat recordEnd - length b) c))"
proof -
  let ?more = "take (nat recordEnd - length b) c"
  have read: "settled (length hello) (length hello + length ?more) (ReadClientHello hello) (ReadClientHello (hello @ ?more))"
    by (rule ReadClientHello_settled)
  show ?thesis
  proof (cases "\<exists>n. ReadClientHello hello = Inl (NeedAtLeast n)")
    case False
    then show ?thesis using read by (auto simp: afterPayload_def settled_iff split: sum.splits sniff_stop.splits)
  next
    case True
    then obtain n where n: "ReadClientHello hello = Inl (NeedAtLeast n)" by blast
    then have len: "int (length hello) < n" using read by (simp add: settled_iff)
    let ?want = "int (length b) + min (n - int (length hello)) (recordEnd - int (length b))"
    have "afterPayload (b @ c) recordEnd (min (int (length b + length c)) recordEnd) (hello @ ?more) = Inl (NeedAtLeast ?want)"
      if want: "int (length b + length c) < ?want"
    proof -
      have "length c \<le> nat recordEnd - length b" using want by linarith
      then have more: "?more = c" by simp
      have "ReadClientHello (hello @ c) = Inl (NeedAtLeast n)"
        using read [unfolded more] n want by (simp add: settled_iff)
      then show ?thesis unfolding more using want by (simp add: afterPayload_def)
    qed
    moreover have "afterPayload b recordEnd (int (length b)) hello = Inl (NeedAtLeast ?want)"
      using n assms by (simp add: afterPayload_def)
    ultimately show ?thesis using assms len by (auto simp: settled_iff)
  qed
qed

lemma sniffRecords_settled:
  "0 \<le> w \<Longrightarrow> settled (length b) (length b + length c) (sniffRecords b w ch) (sniffRecords (b @ c) w ch)"
proof (induction "nat (int (length b) - w)" arbitrary: w ch rule: less_induct)
  case less
  show ?case
  proof (cases "w + 5 \<le> int (length b)")
    case False
    then show ?thesis
      by (auto simp: sniffRecords.simps [of b] sniffRecords.simps [of "b @ c"] tlsRecordHeaderLen_def settled_iff)
  next
    case True
    note header = recordHeader_prefix [OF less.prems True]
    show ?thesis
    proof (cases "recordHeader b w")
      case (Inl e)
      then have "sniffRecords b w ch = Inl e" "sniffRecords (b @ c) w ch = Inl e"
        using True header(1) [of c] by (subst sniffRecords.simps; simp add: tlsRecordHeaderLen_def)+
      then show ?thesis using header(2,3) Inl by (cases e) (auto simp: settled_iff)
    next
      case (Inr n)
      let ?re = "w + 5 + n" and ?hello = "(if w = 0 then [] else ch) @ take (nat n) (drop (nat (w + 5)) b)"
      have n: "0 < n" using recordHeader_range [OF Inr] by simp
      note step = sniffRecords_record [OF less.prems True Inr, of ch]
      have step': "sniffRecords (b @ c) w ch = afterPayload (b @ c) ?re (min (int (length (b @ c))) ?re)
          ((if w = 0 then [] else ch) @ take (nat n) (drop (nat (w + 5)) (b @ c)))"
        by (rule sniffRecords_record) (use less.prems True Inr header(1) in simp_all)
      show ?thesis
      proof (cases "?re \<le> int (length b)")
        case True
        have "nat (w + 5) \<le> length b" "nat n \<le> length b - nat (w + 5)" using True n less.prems by linarith+
        then have "take (nat n) (drop (nat (w + 5)) (b @ c)) = take (nat n) (drop (nat (w + 5)) b)" by simp
        moreover have "settled (length b) (length b + length c) (sniffRecords b ?re ch') (sniffRecords (b @ c) ?re ch')" for ch'
          using less.prems True n by (intro less.hyps) simp_all
        moreover have "min (int (length b)) ?re = ?re" "min (int (length (b @ c))) ?re = ?re" using True by simp_all
        ultimately show ?thesis unfolding step step' using afterPayload_settled [OF True, of c ?hello] by metis
      next
        case False
        have "nat (w + 5) \<le> length b" "nat ?re - length b = nat n - (length b - nat (w + 5))"
          using False n less.prems \<open>w + 5 \<le> int (length b)\<close> by linarith+
        then have "take (nat n) (drop (nat (w + 5)) (b @ c)) = take (nat n) (drop (nat (w + 5)) b) @ take (nat ?re - length b) c"
          by simp
        moreover have "min (int (length b)) ?re = int (length b)" using False by simp
        ultimately show ?thesis unfolding step step' using afterPayload_waits [of b ?re c ?hello] False by simp
      qed
    qed
  qed
qed

text \<open>
  C31: The sniffer on the first bytes \<open>b\<close> of a connection never panics.  When it asks for \<open>n\<close> bytes, it
  asks for more than there are, and asks again for the same with fewer than \<open>n\<close> of them; every other
  result is its result on all longer inputs, so that it is safe to act on it at once.
\<close>

theorem tls_sniffer_incremental:
  "(\<forall>a. SniffTLS b \<noteq> Inl (Abort a)) \<and>
   (case SniffTLS b of
      Inl (NeedAtLeast n) \<Rightarrow> int (length b) < n \<and> (int (length b + length c) < n \<longrightarrow> SniffTLS (b @ c) = SniffTLS b)
    | _ \<Rightarrow> SniffTLS (b @ c) = SniffTLS b)"
  using sniffRecords_settled [of 0 b c "[]"] unfolding SniffTLS_def settled_iff by simp

lemma tls_sniffer_incremental_witness: "SniffTLS ([0x16, 3] @ [1]) = Inl (NeedAtLeast 5)"
proof -
  have "SniffTLS [0x16, 3] = Inl (NeedAtLeast 5)" by (simp add: SniffTLS_def sniffRecords.simps tlsRecordHeaderLen_def)
  then show ?thesis using tls_sniffer_incremental [of "[0x16, 3]" "[1]"] by simp
qed

subsection \<open>Hello messages with a server name\<close>

definition u16 :: "nat \<Rightarrow> 8 word list" where
  "u16 n = [word_of_nat (n div 256), word_of_nat n]"

definition u24 :: "nat \<Rightarrow> 8 word list" where
  "u24 n = [word_of_nat (n div 65536), word_of_nat (n div 256), word_of_nat n]"

definition extensionBytes :: "nat \<times> 8 word list \<Rightarrow> 8 word list" where
  "extensionBytes e = u16 (fst e) @ u16 (length (snd e)) @ snd e"

definition serverNameBytes :: "8 word list \<Rightarrow> 8 word list" where
  "serverNameBytes name = extensionBytes (0, u16 (length name + 3) @ [0] @ u16 (length name) @ name)"

lemma length_u16 [simp]: "length (u16 n) = 2"
  by (simp add: u16_def)

lemma uint_byte: "uint (word_of_nat n :: 8 word) = int (n mod 256)"
  by (simp add: unsigned_of_nat take_bit_eq_mod of_nat_mod)

lemma uint16At_u16:
  assumes "d = pre @ u16 n @ post" "i = int (length pre)" "n < 65536"
  shows "uint16At d i = Inr (int n)"
proof -
  have "n div 256 < 256" using assms(3) by simp
  have "int (n div 256) * 256 + int (n mod 256) = int n"
    by (metis div_mult_mod_eq of_nat_add of_nat_mult of_nat_numeral)
  moreover have "nat (int (length pre) + 1) = Suc (length pre)" by simp
  ultimately show ?thesis using assms \<open>n div 256 < 256\<close>
    by (simp add: uint16At_def byteAt_def orAbort_def u16_def nth_append uint_byte)
qed

lemma byteAt_app: "d = pre @ x # post \<Longrightarrow> i = int (length pre) \<Longrightarrow> byteAt d i = Inr (uint x)"
  by (simp add: byteAt_def orAbort_def)

lemma need_ok [simp]: "n \<le> h \<Longrightarrow> n \<le> int (length d) \<Longrightarrow> need h d n = Inr ()"
  by (simp add: need_def)

lemma namesLoop_name:
  assumes d: "d = pre @ [0] @ u16 (length name) @ name @ post" and e: "e = int (length pre) + 3 + int (length name)"
    and h: "h = int (length d)" and name: "length name < 65536" "\<not> (name \<noteq> [] \<and> last name = 46)"
  shows "namesLoop h d e (int (length pre)) = Inr (Inl name)"
proof -
  have byte: "byteAt d (int (length pre)) = Inr 0" using byteAt_app [of d pre 0] d by simp
  have len: "uint16At d (int (length pre) + 1) = Inr (int (length name))"
    by (rule uint16At_u16 [of d "pre @ [0]" _ "name @ post"]) (use d name in simp_all)
  have "nat (int (length pre) + 3 + int (length name)) = length pre + 3 + length name" "nat (int (length pre) + 3) = length pre + 3"
    by simp_all
  then have slice: "orAbort (go_slice d (int (length pre) + 3) (int (length pre) + 3 + int (length name))) = Inr name"
    using d by (simp add: orAbort_def u16_def)
  have size: "int (length pre) + 3 + int (length name) \<le> int (length d)" using d by simp
  show ?thesis
    using byte len slice size name e h by (subst namesLoop.simps) (auto simp: Let_def)
qed

lemma extensionLoop_name:
  assumes "h = int (length d)" "length name + 9 < 65536" "\<not> (name \<noteq> [] \<and> last name = 46)"
  shows "d = pre @ concat (map extensionBytes before) @ serverNameBytes name @ after \<Longrightarrow>
    \<forall>e\<in>set before. 0 < fst e \<and> fst e < 65536 \<and> length (snd e) < 65536 \<Longrightarrow>
    extensionLoop h d h (int (length pre)) = Inr name"
proof (induction before arbitrary: pre)
  case Nil
  let ?off = "int (length pre)" and ?L = "length name + 5"
  have d: "d = pre @ u16 0 @ u16 ?L @ u16 (length name + 3) @ [0] @ u16 (length name) @ name @ after"
    using Nil.prems(1) by (simp add: serverNameBytes_def extensionBytes_def eval_nat_numeral)
  have t: "uint16At d ?off = Inr 0" using uint16At_u16 [of d pre 0 _ ?off] d by simp
  have l: "uint16At d (?off + 2) = Inr (int ?L)"
    by (rule uint16At_u16 [of d "pre @ u16 0"]) (use d assms(2) in simp_all)
  have n: "uint16At d (?off + 4) = Inr (int (length name + 3))"
    by (rule uint16At_u16 [of d "pre @ u16 0 @ u16 ?L"]) (use d assms(2) in simp_all)
  have names: "namesLoop h d (?off + 4 + int ?L) (?off + 4 + 2) = Inr (Inl name)"
    using namesLoop_name [of d "pre @ u16 0 @ u16 ?L @ u16 (length name + 3)" name after "?off + 4 + int ?L" h] d assms
    by (simp add: algebra_simps)
  have size: "?off + 4 + int ?L \<le> h" using d assms(1) by simp
  show ?case using t l n names size assms(1)
    by (subst extensionLoop.simps) (simp add: Let_def)
next
  case (Cons e before)
  let ?off = "int (length pre)" and ?L = "length (snd e)"
  have d: "d = pre @ u16 (fst e) @ u16 ?L @ snd e @ concat (map extensionBytes before) @ serverNameBytes name @ after"
    using Cons.prems(1) by (simp add: extensionBytes_def [of e])
  have t: "uint16At d ?off = Inr (int (fst e))" using uint16At_u16 [of d pre "fst e" _ ?off] d Cons.prems(2) by simp
  have l: "uint16At d (?off + 2) = Inr (int ?L)"
    by (rule uint16At_u16 [of d "pre @ u16 (fst e)"]) (use d Cons.prems(2) in simp_all)
  have "0 < int (length (serverNameBytes name))" by (simp add: serverNameBytes_def extensionBytes_def)
  moreover have "int (length d) = ?off + 4 + int ?L + int (length (concat (map extensionBytes before) @ after))
      + int (length (serverNameBytes name))"
    using d by simp
  ultimately have size: "?off + 4 + int ?L < h" using assms(1) by linarith
  have rest: "extensionLoop h d h (int (length (pre @ extensionBytes e))) = Inr name"
    using Cons.IH [of "pre @ extensionBytes e"] Cons.prems by (simp only: list.simps concat.simps append_assoc) simp
  have "int (length (pre @ extensionBytes e)) = ?off + 4 + int ?L" by (simp add: extensionBytes_def)
  with rest have "extensionLoop h d h (?off + 4 + int ?L) = Inr name" by (simp only:)
  then show ?case using t l size assms(1) Cons.prems(2)
    by (subst extensionLoop.simps) (simp add: Let_def)
qed

text \<open>A hello message; \<open>versionRandom\<close> are the version and the random bytes, \<open>before\<close> extensions of other types.\<close>

definition helloExtensions :: "(nat \<times> 8 word list) list \<Rightarrow> 8 word list \<Rightarrow> 8 word list \<Rightarrow> 8 word list" where
  "helloExtensions before name after = concat (map extensionBytes before) @ serverNameBytes name @ after"

definition helloMessageBody :: "8 word list \<Rightarrow> 8 word list \<Rightarrow> 8 word list \<Rightarrow> 8 word list \<Rightarrow> 8 word list \<Rightarrow> 8 word list" where
  "helloMessageBody versionRandom session suites methods extensions =
     versionRandom @ [word_of_nat (length session)] @ session @ u16 (length suites) @ suites @
     [word_of_nat (length methods)] @ methods @ u16 (length extensions) @ extensions"

definition helloMessage :: "8 word list \<Rightarrow> 8 word list" where
  "helloMessage body = [1] @ u24 (length body) @ body"

definition helloOk :: "8 word list \<Rightarrow> 8 word list \<Rightarrow> 8 word list \<Rightarrow> 8 word list \<Rightarrow> (nat \<times> 8 word list) list \<Rightarrow>
    8 word list \<Rightarrow> 8 word list \<Rightarrow> bool" where
  "helloOk versionRandom session suites methods before name after \<longleftrightarrow>
     length versionRandom = 34 \<and> length session \<le> 32 \<and> even (length suites) \<and> length suites < 65536 \<and>
     length methods < 256 \<and> length (helloExtensions before name after) < 65536 \<and>
     (\<forall>e\<in>set before. 0 < fst e \<and> fst e < 65536 \<and> length (snd e) < 65536) \<and> \<not> (name \<noteq> [] \<and> last name = 46)"

lemma helloBody_name:
  assumes ok: "helloOk vr sid suites methods before name after"
    and d: "d = t4 @ helloMessageBody vr sid suites methods (helloExtensions before name after)" "length t4 = 4"
  shows "helloBody (int (length d)) d = Inr name"
proof -
  let ?exts = "helloExtensions before name after"
  let ?s = "int (length sid)" and ?c = "int (length suites)" and ?m = "int (length methods)"
  note ok = ok [unfolded helloOk_def]
  have d': "d = (t4 @ vr) @ [word_of_nat (length sid)] @ sid @ u16 (length suites) @ suites @
      [word_of_nat (length methods)] @ methods @ u16 (length ?exts) @ ?exts"
    using d by (simp add: helloMessageBody_def)
  have len: "int (length d) = 39 + ?s + 2 + ?c + 1 + ?m + 2 + int (length ?exts)" using d ok by (simp add: helloMessageBody_def)
  have b1: "byteAt d 38 = Inr ?s"
    using byteAt_app [of d "t4 @ vr" "word_of_nat (length sid)" _ 38] d' ok d(2) by (simp add: uint_byte)
  have b2: "uint16At d (39 + ?s) = Inr ?c"
    by (rule uint16At_u16 [of d "(t4 @ vr) @ [word_of_nat (length sid)] @ sid"]) (use d' ok d(2) in simp_all)
  have b3: "byteAt d (39 + ?s + 2 + ?c) = Inr ?m"
    using byteAt_app [of d "(t4 @ vr) @ [word_of_nat (length sid)] @ sid @ u16 (length suites) @ suites" "word_of_nat (length methods)" _
        "39 + ?s + 2 + ?c"] d' ok d(2) by (simp add: uint_byte)
  have b4: "uint16At d (39 + ?s + 2 + ?c + 1 + ?m) = Inr (int (length ?exts))"
    by (rule uint16At_u16 [of d "(t4 @ vr) @ [word_of_nat (length sid)] @ sid @ u16 (length suites) @ suites @
      [word_of_nat (length methods)] @ methods"]) (use d' ok d(2) in simp_all)
  let ?pre = "(t4 @ vr) @ [word_of_nat (length sid)] @ sid @ u16 (length suites) @ suites @
      [word_of_nat (length methods)] @ methods @ u16 (length ?exts)"
  have "length name + 9 \<le> length ?exts" by (simp add: helloExtensions_def serverNameBytes_def extensionBytes_def)
  then have "extensionLoop (int (length d)) d (int (length d)) (int (length ?pre)) = Inr name"
    by (intro extensionLoop_name) (use ok d' in \<open>auto simp: helloExtensions_def\<close>)
  moreover have "int (length ?pre) = 39 + ?s + 2 + ?c + 1 + ?m + 2" using d(2) ok by simp
  ultimately have ext: "extensionLoop (int (length d)) d (int (length d)) (39 + ?s + 2 + ?c + 1 + ?m + 2) = Inr name"
    by (simp only:)
  show ?thesis
    using b1 b2 b3 b4 ext ok len by (simp add: helloBody_def Let_def tlsHandshakeHeaderLen_def)
qed

lemma int_digits: "a * 65536 + b * 256 + c = n \<Longrightarrow> int a * 65536 + int b * 256 + int c = int n"
  by auto

lemma clientHelloSize_hello:
  assumes "length body < 2 ^ 24"
  shows "clientHelloSize (helloMessage body @ junk) = Inr (int (length (helloMessage body)))"
proof -
  have d: "helloMessage body @ junk = [] @ 1 # u24 (length body) @ body @ junk" by (simp add: helloMessage_def)
  define A B C where "A = int (length body div 65536 mod 256)" "B = int (length body div 256 mod 256)" "C = int (length body mod 256)"
  note digits = this
  have b: "byteAt (helloMessage body @ junk) 0 = Inr 1" "byteAt (helloMessage body @ junk) 1 = Inr A"
      "byteAt (helloMessage body @ junk) 2 = Inr B" "byteAt (helloMessage body @ junk) 3 = Inr C"
    unfolding d digits by (simp_all add: byteAt_def orAbort_def u24_def uint_byte)
  have "length body div 65536 mod 256 * 65536 + length body div 256 mod 256 * 256 + length body mod 256 = length body"
  proof -
    let ?q = "length body div 256"
    have "length body div 65536 = ?q div 256" by (simp add: div_mult2_eq [symmetric])
    moreover have "?q div 256 mod 256 = ?q div 256" using assms by (simp add: less_mult_imp_div_less)
    moreover have gen: "a * 256 + b = q \<Longrightarrow> q * 256 + m = n \<Longrightarrow> a * 65536 + b * 256 + m = n" for a b q m n :: nat by simp
    have "?q div 256 * 65536 + ?q mod 256 * 256 + length body mod 256 = length body"
      by (rule gen) (rule div_mult_mod_eq)+
    with calculation show ?thesis by (simp only:)
  qed
  then have "A * 65536 + B * 256 + C = int (length body)"
    unfolding digits by (rule int_digits)
  then show ?thesis
    unfolding clientHelloSize_def b by (simp add: tlsHandshakeHeaderLen_def tlsHandshakeTypeClientHello_def helloMessage_def u24_def)
qed

lemma ReadClientHello_name:
  assumes "helloOk vr sid suites methods before name after"
    and "hello = helloMessage (helloMessageBody vr sid suites methods (helloExtensions before name after))"
  shows "ReadClientHello hello = Inr name"
proof -
  let ?body = "helloMessageBody vr sid suites methods (helloExtensions before name after)"
  have "length ?body < 2 ^ 24" using assms(1) by (simp add: helloOk_def helloMessageBody_def)
  then have size: "clientHelloSize hello = Inr (int (length hello))"
    using clientHelloSize_hello [of ?body "[]"] assms(2) by simp
  have "helloBody (int (length hello)) hello = Inr name"
    using helloBody_name [OF assms(1), of hello "[1] @ u24 (length ?body)"] assms(2) by (simp add: helloMessage_def u24_def)
  moreover have "byteAt hello 0 = Inr 1" "4 \<le> length hello" using assms(2) by (simp_all add: helloMessage_def byteAt_def orAbort_def u24_def)
  ultimately show ?thesis using size
    by (auto simp: ReadClientHello_def tlsHandshakeHeaderLen_def tlsHandshakeTypeClientHello_def)
qed

subsection \<open>A hello message in records\<close>

definition handshakeRecord :: "8 word \<times> 8 word list \<Rightarrow> 8 word list" where
  "handshakeRecord r = [0x16, 3, fst r] @ u16 (length (snd r)) @ snd r"

lemma recordHeader_record:
  assumes "b = pre @ handshakeRecord r @ post" "0 < length (snd r)" "length (snd r) \<le> 2 ^ 14"
  shows "recordHeader b (int (length pre)) = Inr (int (length (snd r)))"
proof -
  let ?h = "[0x16, 3, fst r] @ u16 (length (snd r))"
  have "nat (int (length pre) + 5) = length pre + 5" by simp
  then have "orAbort (go_slice b (int (length pre)) (int (length pre) + 5)) = Inr ?h"
    using assms(1) by (simp add: orAbort_def handshakeRecord_def u16_def)
  moreover have "byteAt ?h 0 = Inr 0x16" "byteAt ?h 1 = Inr 3" "byteAt ?h 2 = Inr (uint (fst r))"
    by (simp_all add: byteAt_def orAbort_def)
  moreover have "uint16At ?h 3 = Inr (int (length (snd r)))"
    by (rule uint16At_u16 [of ?h "[0x16, 3, fst r]" _ "[]"]) (use assms in simp_all)
  ultimately show ?thesis using assms(2,3)
    by (simp add: recordHeader_def tlsRecordHeaderLen_def tlsRecordTypeHandshake_def IsValidTLSVersion_def tlsMaxPlaintext_def)
qed

lemma sniffRecords_name:
  assumes "ReadClientHello hello = Inr name"
  shows "b = pre @ concat (map handshakeRecord fs) @ junk \<Longrightarrow> ch @ concat (map snd fs) = hello \<Longrightarrow> fs \<noteq> [] \<Longrightarrow>
    (pre = [] \<longrightarrow> ch = []) \<Longrightarrow> \<forall>f\<in>set fs. 0 < length (snd f) \<and> length (snd f) \<le> 2 ^ 14 \<Longrightarrow>
    sniffRecords b (int (length pre)) ch = Inr name"
proof (induction fs arbitrary: pre ch)
  case (Cons f fs)
  let ?w = "int (length pre)" and ?n = "int (length (snd f))"
  have f: "0 < length (snd f)" "length (snd f) \<le> 2 ^ 14" using Cons.prems(5) by simp_all
  have b: "b = pre @ handshakeRecord f @ concat (map handshakeRecord fs) @ junk" using Cons.prems(1) by simp
  have len: "length (handshakeRecord f) = 5 + length (snd f)" by (simp add: handshakeRecord_def)
  have hello: "(if ?w = 0 then [] else ch) @ take (nat ?n) (drop (nat (?w + 5)) b) = ch @ snd f"
    using Cons.prems(4) b by (simp add: nat_add_distrib handshakeRecord_def u16_def)
  have fits: "?w + 5 \<le> int (length b)" using b len by simp
  have ends: "min (int (length b)) (?w + 5 + ?n) = ?w + 5 + ?n" using b len by simp
  have step: "sniffRecords b ?w ch = afterPayload b (?w + 5 + ?n) (?w + 5 + ?n) (ch @ snd f)"
    unfolding sniffRecords_record [OF of_nat_0_le_iff fits recordHeader_record [OF b f]] hello ends ..
  show ?case
  proof (cases "fs = []")
    case True
    then show ?thesis using Cons.prems(2) assms by (simp add: step afterPayload_def)
  next
    case False
    have read: "ReadClientHello (ch @ snd f) = Inr name \<or> (\<exists>n. ReadClientHello (ch @ snd f) = Inl (NeedAtLeast n))"
      using ReadClientHello_settled [of "ch @ snd f" "concat (map snd fs)"] Cons.prems(2) assms
      by (auto simp: settled_iff split: sum.splits sniff_stop.splits)
    have "sniffRecords b (int (length (pre @ handshakeRecord f))) (ch @ snd f) = Inr name"
      by (rule Cons.IH) (use Cons.prems b False in \<open>auto simp: handshakeRecord_def\<close>)
    moreover have "int (length (pre @ handshakeRecord f)) = ?w + 5 + ?n" using len by simp
    ultimately have "sniffRecords b (?w + 5 + ?n) (ch @ snd f) = Inr name" by (simp only:)
    with read show ?thesis unfolding step afterPayload_def by auto
  qed
qed simp

lemma records_name:
  assumes "helloOk vr sid suites methods before name after"
    and "concat (map snd fs) = helloMessage (helloMessageBody vr sid suites methods (helloExtensions before name after))"
    and "\<forall>f\<in>set fs. 0 < length (snd f) \<and> length (snd f) \<le> 2 ^ 14"
  shows "SniffTLS (concat (map handshakeRecord fs) @ junk) = Inr name"
proof -
  have "fs \<noteq> []" using assms(2) by (auto simp: helloMessage_def)
  then show ?thesis
    using sniffRecords_name [OF ReadClientHello_name [OF assms(1) refl], of _ "[]" fs junk "[]"] assms(2,3)
    by (simp add: SniffTLS_def)
qed

text \<open>
  C32: The sniffer finds the server name of a hello message whatever its other extensions are and
  however it is cut into records, and whatever follows it.
\<close>

theorem tls_server_name_found:
  assumes "helloOk vr sid suites methods before name after"
    and "concat (map snd fs) = helloMessage (helloMessageBody vr sid suites methods (helloExtensions before name after))"
    and "\<forall>f\<in>set fs. 0 < length (snd f) \<and> length (snd f) \<le> 2 ^ 14"
  shows "SniffTLS (concat (map handshakeRecord fs) @ junk) = Inr name"
  using records_name [OF assms] .

text \<open>A message with an ALPN extension before the name, cut after its first ten bytes.\<close>

definition sampleHello :: "8 word list" where
  "sampleHello = helloMessage (helloMessageBody (replicate 34 7) [] [0x13, 1] [0] (helloExtensions [(16, [0, 1, 0])] [97, 46, 98] []))"

lemma length_sampleHello: "length sampleHello = 66"
  by (simp add: sampleHello_def helloMessage_def helloMessageBody_def helloExtensions_def serverNameBytes_def extensionBytes_def u24_def)

lemma sample_hello:
  "helloOk (replicate 34 7) [] [0x13, 1] [0] [(16, [0, 1, 0])] [97, 46, 98] []"
  "\<forall>f\<in>set [(1, take 10 sampleHello), (1 :: 8 word, drop 10 sampleHello)]. 0 < length (snd f) \<and> length (snd f) \<le> 2 ^ 14"
  "concat (map snd [(1 :: 8 word, take 10 sampleHello), (1, drop 10 sampleHello)]) =
    helloMessage (helloMessageBody (replicate 34 7) [] [0x13, 1] [0] (helloExtensions [(16, [0, 1, 0])] [97, 46, 98] []))"
proof -
  show "helloOk (replicate 34 7) [] [0x13, 1] [0] [(16, [0, 1, 0])] [97, 46, 98] []"
    by (simp add: helloOk_def helloExtensions_def serverNameBytes_def extensionBytes_def u16_def)
  show "\<forall>f\<in>set [(1, take 10 sampleHello), (1 :: 8 word, drop 10 sampleHello)]. 0 < length (snd f) \<and> length (snd f) \<le> 2 ^ 14"
    by (simp add: length_sampleHello flip: length_greater_0_conv)
qed (simp add: sampleHello_def)

theorem tls_server_name_found_witness:
  "SniffTLS (concat (map handshakeRecord [(1, take 10 sampleHello), (1, drop 10 sampleHello)]) @ []) = Inr [97, 46, 98]"
  by (rule tls_server_name_found [OF sample_hello(1,3,2)])

end
