(* ===== verification/HttpSnifferSpec.thy ===== *)
theory HttpSnifferSpec
  imports HttpSniffer TlsSnifferSpec
begin

text \<open>
  What the sniffer of HTTP connections promises: it never panics, and a plain HTTP/1 request is
  waited for until its \<^verbatim>\<open>Host\<close> field is complete, which is then the result.
\<close>

subsection \<open>No panics\<close>

text \<open>A result that is no panic and, when it waits, waits for more than \<open>k\<close> bytes.\<close>

definition sound :: "int \<Rightarrow> 'a sniff \<Rightarrow> bool" where
  "sound k m \<longleftrightarrow> (\<forall>a. m \<noteq> Inl (Abort a)) \<and> (\<forall>n. m = Inl (NeedAtLeast n) \<longrightarrow> k < n)"

lemma sound_simps [simp]:
  "sound k (Inr x)" "sound k (Inl NoClue)" "sound k (Inl NotHTTP)" "sound k (Inl HostIsIP)"
  "sound k (Inl (NeedAtLeast n)) \<longleftrightarrow> k < n"
  by (simp_all add: sound_def)

lemma sound_bind: "sound k m \<Longrightarrow> (\<And>x. m = Inr x \<Longrightarrow> sound k (f x)) \<Longrightarrow> sound k (rbind m f)"
  by (cases m) (auto simp: sound_def)

lemma parseHost_result: "parseHost env h \<in> {Inl NoClue, Inl HostIsIP} \<or> (\<exists>x. parseHost env h = Inr x)"
  by (simp add: parseHost_def Let_def)

lemma sound_parseHost [simp]: "sound k (parseHost env h)"
  using parseHost_result [of env h] by auto

lemma sound_headerLoop: "k \<le> int len \<Longrightarrow> sound k (headerLoop env len rest)"
proof (induction env len rest rule: headerLoop.induct)
  case (1 env len rest)
  then show ?case by (subst headerLoop.simps) (auto split: option.splits)
qed

lemma sound_sniffHTTP1: "sound (int (length b)) (sniffHTTP1 env b)"
proof -
  have "sound (int (length b)) (parseHeaderHostH1 env b)"
    unfolding parseHeaderHostH1_def by (rule sound_headerLoop) simp
  then show ?thesis
    using parseHost_result [of env] by (auto simp: sniffHTTP1_def requestTarget_def Let_def split: option.splits sum.splits)
qed

lemma byteAt_in: "0 \<le> i \<Longrightarrow> i < int (length d) \<Longrightarrow> byteAt d i = Inr (uint (d ! nat i))"
  by (simp add: byteAt_def orAbort_def)

lemma uint16At_in: "0 \<le> i \<Longrightarrow> i + 1 < int (length d) \<Longrightarrow> \<exists>v. uint16At d i = Inr v"
  by (simp add: uint16At_def byteAt_in)

lemma frameHeader_in:
  assumes "9 \<le> length b" shows "\<exists>f. frameHeader b = Inr f"
proof -
  obtain v v' v'' where "uint16At b 0 = Inr v" "uint16At b 5 = Inr v'" "uint16At b 7 = Inr v''"
    using assms uint16At_in [of 0 b] uint16At_in [of 5 b] uint16At_in [of 7 b] by auto
  then show ?thesis using assms by (simp add: frameHeader_def byteAt_in)
qed

lemma fragmentBounds_sound:
  assumes "0 \<le> frameLength f"
  shows "sound (p + int (length b)) (fragmentBounds b p f)"
    and "fragmentBounds b p f = Inr (s, e) \<Longrightarrow> 0 \<le> s \<and> s \<le> e \<and> e \<le> frameLength f"
proof -
  have range: "uint (b ! 0) < 256" "0 \<le> uint (b ! 0)" using uint_lt2p [of "b ! 0"] by simp_all
  show "sound (p + int (length b)) (fragmentBounds b p f)"
      "fragmentBounds b p f = Inr (s, e) \<Longrightarrow> 0 \<le> s \<and> s \<le> e \<and> e \<le> frameLength f"
    using assms range by (auto simp: fragmentBounds_def byteAt_in split: if_splits)
qed

lemma sound_readFragment: "0 \<le> s \<Longrightarrow> a \<le> int (length b) \<Longrightarrow> sound k (readFragment env b s a d au ho)"
  by (auto simp: readFragment_def orAbort_def intro!: sound_bind split: prod.splits)

lemma sound_headersFrame:
  assumes "0 \<le> frameLength f" "p + int (length b) = int len"
  shows "sound (int len) (headersFrame env len b p f d au ho)"
  unfolding headersFrame_def
proof (rule sound_bind, goal_cases)
  case 1
  then show ?case using fragmentBounds_sound(1) [OF assms(1), of p b] assms(2) by simp
next
  case (2 x)
  then obtain s e where x: "x = (s, e)" "0 \<le> s" "s \<le> e" "e \<le> frameLength f"
    using fragmentBounds_sound(2) [OF assms(1)] by (cases x) blast
  show ?case
    unfolding x(1) prod.case Let_def
    by (intro sound_bind sound_readFragment) (use x assms in \<open>auto split: sum.splits\<close>)
qed

lemma sound_h2Loop: "length b \<le> len \<Longrightarrow> sound (int len) (h2Loop env len b hs d au ho)"
proof (induction "length b" arbitrary: b hs d au ho rule: less_induct)
  case less
  show ?case
  proof (cases "9 \<le> length b")
    case False
    then show ?thesis using less.prems by (subst h2Loop.simps) (simp add: h2FrameHeaderLen_def)
  next
    case True
    then obtain f where f: "frameHeader b = Inr f" using frameHeader_in by blast
    note n = frameHeader_range [OF f]
    let ?b' = "drop 9 b" and ?p = "int len - int (length (drop 9 b))"
    have slice: "orAbort (go_slice b 9 (int (length b))) = Inr ?b'" using True by (simp add: orAbort_def)
    have rec: "sound (int len) (h2Loop env len (drop (nat (frameLength f)) ?b') hs' d' au' ho')" for hs' d' au' ho'
      using True less.prems by (intro less.hyps) simp_all
    have short: "(int (length b) < 9) = False" using True by simp
    have frame: "sound (int len) (headersFrame env len ?b' ?p f d au ho)" by (rule sound_headersFrame [OF n]) simp
    have rest: "sound (int len) (rbind (headersFrame env len ?b' ?p f d au ho) (\<lambda>r. case r of Inl h \<Rightarrow> Inr h
        | Inr (d, au, ho) \<Rightarrow> h2Loop env len (drop (nat (frameLength f)) ?b') hs' d au ho))" for hs'
      by (intro sound_bind frame) (use rec in \<open>auto split: sum.splits\<close>)
    show ?thesis
      unfolding h2Loop.simps [of env len b] h2FrameHeaderLen_def short if_False f rbind_simps slice Let_def
      using rest rec by (simp del: drop_drop drop_all drop_eq_Nil length_drop)
  qed
qed

lemma sound_httpSniffData: "sound (int (length b)) (httpSniffData env b)"
proof -
  have len: "length (bytesText b) = length b" by (simp add: bytesText_def)
  have http1: "sound (int (length b)) (sniffHTTP1 env (bytesText b))" using sound_sniffHTTP1 [of "bytesText b" env] len by simp
  have "sound (int (length b)) (sniffHTTP2 env b)" if "length h2ClientPreface \<le> length b"
    using that by (auto simp: sniffHTTP2_def orAbort_def intro!: sound_h2Loop)
  then show ?thesis using http1 by (simp add: httpSniffData_def)
qed

text \<open>
  The sniffer never panics on the first bytes \<open>b\<close> of a connection, whatever the decoder of header
  fields does, and when it asks for more bytes it asks for more than there are.
\<close>

theorem http_sniffer_safe:
  "(\<forall>a. httpSniffData env b \<noteq> Inl (Abort a)) \<and> (\<forall>n. httpSniffData env b = Inl (NeedAtLeast n) \<longrightarrow> int (length b) < n)"
  using sound_httpSniffData [of b env] unfolding sound_def .

subsection \<open>Waiting for a message\<close>

text \<open>
  The sniffer waits for the message \<open>msg\<close>: before its end it gives the host \<open>h\<close> or asks for bytes
  that are still part of the message, and then it gives \<open>h\<close>, whatever follows.
\<close>

definition finds :: "('b list \<Rightarrow> 'h sniff) \<Rightarrow> 'b list \<Rightarrow> 'h \<Rightarrow> bool" where
  "finds sniff msg h \<longleftrightarrow>
     (\<forall>m c. msg = m @ c \<and> c \<noteq> [] \<longrightarrow>
        sniff m = Inr h \<or> (\<exists>n. sniff m = Inl (NeedAtLeast n) \<and> int (length m) < n \<and> n \<le> int (length msg)))
     \<and> (\<forall>junk. sniff (msg @ junk) = Inr h)"

text \<open>A sniffer whose verdicts are final and whose requests are exact.\<close>

locale incremental =
  fixes sniff :: "'b list \<Rightarrow> 'h sniff"
  assumes settled: "settled (length b) (length b + length c) (sniff b) (sniff (b @ c))"
begin

lemma verdict_final: "sniff b = Inr h \<Longrightarrow> sniff (b @ c) = Inr h"
  using settled [of b c] by (simp add: settled_iff)

lemma finds_message: "sniff msg = Inr h \<Longrightarrow> finds sniff msg h"
proof (unfold finds_def, intro conjI allI impI)
  fix m c assume msg: "sniff msg = Inr h" "msg = m @ c \<and> c \<noteq> []"
  then show "sniff m = Inr h \<or> (\<exists>n. sniff m = Inl (NeedAtLeast n) \<and> int (length m) < n \<and> n \<le> int (length msg))"
    using settled [of m c] by (auto simp: settled_iff not_less split: sum.splits sniff_stop.splits)
qed (rule verdict_final)

end

lemma settled_bind_Inr: "settled k k' m m' \<Longrightarrow> settled k k' (rbind m (\<lambda>x. Inr (f x))) (rbind m' (\<lambda>x. Inr (f x)))"
  by (cases m) (auto simp: settled_iff split: sniff_stop.splits)

interpretation tls: incremental tlsSniffData
  by unfold_locales (unfold tlsSniffData_def SniffTLS_def, intro settled_bind_Inr sniffRecords_settled order.refl)

subsection \<open>Plain requests\<close>

definition textBytes :: "string \<Rightarrow> 8 word list" where
  "textBytes s = map (\<lambda>c. word_of_nat (of_char c)) s"

lemma bytesText_textBytes [simp]: "bytesText (textBytes s) = s"
  by (induction s) (simp_all add: bytesText_def textBytes_def unsigned_of_nat take_bit_eq_mod)

lemma textBytes_append [simp]: "textBytes (s @ t) = textBytes s @ textBytes t"
  by (simp add: textBytes_def)

lemma length_textBytes [simp]: "length (textBytes s) = length s"
  by (simp add: textBytes_def)

lemma bytesText_append [simp]: "bytesText (b @ c) = bytesText b @ bytesText c"
  by (simp add: bytesText_def)

lemma bytesCut_char:
  "d \<notin> set x \<Longrightarrow> bytesCut [d] (x @ d # y) = Some (x, y)" "d \<notin> set x \<Longrightarrow> bytesCut [d] x = None"
  by (induction x) (auto simp: bytesCut.simps)

lemma bytesCut_crlf:
  "CHR 0x0D \<notin> set x \<Longrightarrow> bytesCut crlf (x @ crlf @ y) = Some (x, y)"
  by (induction x) (auto simp: bytesCut.simps crlf_def)

lemma bytesCut_crlf_partial:
  assumes "CHR 0x0D \<notin> set x" "x @ crlf = m @ c" "c \<noteq> []"
  shows "bytesCut crlf m = None"
proof -
  have none: "bytesCut crlf z = None \<and> bytesCut crlf (z @ [CHR 0x0D]) = None" if "CHR 0x0D \<notin> set z" for z
    using that by (induction z) (auto simp: bytesCut.simps crlf_def)
  have "m = take (length m) x \<or> m = x @ [CHR 0x0D]"
    using assms(2,3) by (auto simp: crlf_def append_eq_append_conv2 append_eq_Cons_conv Cons_eq_append_conv)
  then show ?thesis using none assms(1) by (metis in_set_takeD)
qed

lemma prefix_cases:
  "x @ y = m @ c \<Longrightarrow> (\<exists>m'. m = x @ m' \<and> y = m' @ c) \<or> (\<exists>c'. c' \<noteq> [] \<and> x = m @ c' \<and> c = c' @ y)"
  by (auto simp: append_eq_append_conv2)

text \<open>A line that is no \<^verbatim>\<open>Host\<close> field.\<close>

definition passes :: "string \<Rightarrow> bool" where
  "passes l \<longleftrightarrow> l \<noteq> [] \<and> CHR 0x0D \<notin> set l \<and>
     (case bytesCut '':'' l of None \<Rightarrow> True | Some (key, _) \<Rightarrow> \<not> equalFoldAscii key ''host'')"

definition hostField :: "string \<Rightarrow> string \<Rightarrow> bool" where
  "hostField key v \<longleftrightarrow> CHR '':'' \<notin> set key \<and> CHR 0x0D \<notin> set key \<and> CHR 0x0D \<notin> set v \<and> equalFoldAscii key ''host''"

definition linesText :: "string list \<Rightarrow> string" where
  "linesText ls = concat (map (\<lambda>l. l @ crlf) ls)"

lemma headerLoop_skip: "passes l \<Longrightarrow> headerLoop env len (l @ crlf @ rest) = headerLoop env len rest"
  by (subst headerLoop.simps) (auto simp: passes_def bytesCut_crlf split: option.splits simp del: equalFoldAscii.simps)

lemma linesText_simps [simp]: "linesText [] = []" "linesText (l # ls) = l @ crlf @ linesText ls"
    "linesText (ls @ ls') = linesText ls @ linesText ls'"
  by (simp_all add: linesText_def)

lemma headerLoop_lines: "list_all passes ls \<Longrightarrow> headerLoop env len (linesText ls @ rest) = headerLoop env len rest"
  by (induction ls) (simp_all add: headerLoop_skip)

lemma headerLoop_host:
  "hostField key v \<Longrightarrow> headerLoop env len (key @ '':'' @ v @ crlf @ rest) = parseHost env (trimSpaces v)"
  using bytesCut_crlf [of "key @ '':'' @ v" rest] bytesCut_char(1) [of "CHR '':''" key v]
  by (subst headerLoop.simps) (auto simp: hostField_def)

lemma headerLoop_partial:
  "list_all passes ls \<Longrightarrow> CHR 0x0D \<notin> set l \<Longrightarrow> linesText (ls @ [l]) = m @ c \<Longrightarrow> c \<noteq> [] \<Longrightarrow>
    headerLoop env len m = Inl (NeedAtLeast (int len + 1))"
proof (induction ls arbitrary: m)
  case Nil
  then have "bytesCut crlf m = None" by (intro bytesCut_crlf_partial [of l m c]) simp_all
  then show ?case by (simp add: headerLoop.simps)
next
  case (Cons l' ls)
  then have l': "passes l'" "CHR 0x0D \<notin> set l'" by (simp_all add: passes_def)
  have "(l' @ crlf) @ linesText (ls @ [l]) = m @ c" using Cons.prems(3) by simp
  from prefix_cases [OF this] consider m' where "m = l' @ crlf @ m'" "linesText (ls @ [l]) = m' @ c" | c' where "c' \<noteq> []" "l' @ crlf = m @ c'"
    by (auto simp only: append_assoc)
  then show ?case
  proof cases
    case 1
    then show ?thesis using Cons headerLoop_skip [OF l'(1), of env len] by simp
  next
    case 2
    then show ?thesis using bytesCut_crlf_partial [OF l'(2)] by (simp add: headerLoop.simps)
  qed
qed

text \<open>The request line and what the request is.\<close>

definition plainRequest :: "string \<Rightarrow> string \<Rightarrow> string \<Rightarrow> string list \<Rightarrow> string \<Rightarrow> string \<Rightarrow> bool" where
  "plainRequest verb uri version hdrs key v \<longleftrightarrow>
     verb \<in> set httpMethods \<and> uri \<noteq> [] \<and> hd uri = CHR ''/'' \<and> CHR '' '' \<notin> set uri \<and>
     14 \<le> length (verb @ '' '' @ uri @ '' '' @ version) \<and>
     list_all passes ((verb @ '' '' @ uri @ '' '' @ version) # hdrs) \<and> hostField key v"

definition requestText :: "string \<Rightarrow> string \<Rightarrow> string \<Rightarrow> string list \<Rightarrow> string \<Rightarrow> string \<Rightarrow> string" where
  "requestText verb uri version hdrs key v =
     linesText ((verb @ '' '' @ uri @ '' '' @ version) # hdrs @ [key @ '':'' @ v])"

lemma method_facts:
  assumes "m \<in> set httpMethods"
  shows "CHR '' '' \<notin> set m" "isHTTPMethod m" "isHTTPMethodPrefix (take n m)" "take 4 (m @ '' '') \<noteq> ''PRI ''"
proof -
  have refl: "equalFoldAscii x x" if "\<forall>c\<in>set x. code c < 128" for x using that by (induction x) auto
  have ascii: "list_all (\<lambda>m. \<forall>c\<in>set m. code c < 128) httpMethods" by (simp add: httpMethods_def)
  then have m: "\<forall>c\<in>set m. code c < 128" using assms by (simp add: list_all_iff)
  show "CHR '' '' \<notin> set m" "take 4 (m @ '' '') \<noteq> ''PRI ''" using assms by (auto simp: httpMethods_def)
  show "isHTTPMethod m" using refl [OF m] assms by (auto simp: isHTTPMethod_def list_ex_iff)
  have "equalFoldAscii (take n m) (take n m)" using m by (intro refl) (auto dest: in_set_takeD)
  then have "equalFoldAscii (take n m) (take (length (take n m)) m)" by (cases "n < length m") simp_all
  moreover have "length (take n m) \<le> length m" by simp
  ultimately show "isHTTPMethodPrefix (take n m)" using assms unfolding isHTTPMethodPrefix_def list_ex_iff by blast
qed

lemma sniffHTTP1_line:
  assumes "plainRequest verb uri version hdrs key v" "b = (verb @ '' '' @ uri @ '' '' @ version) @ crlf @ rest"
  shows "sniffHTTP1 env b = headerLoop env (length b) b"
proof -
  let ?line = "verb @ '' '' @ uri @ '' '' @ version"
  note ok = assms(1) [unfolded plainRequest_def]
  have line: "CHR 0x0D \<notin> set ?line" "CHR '' '' \<notin> set verb" "CHR '' '' \<notin> set uri"
    using ok method_facts(1) by (auto simp: passes_def)
  have "bytesCut '' '' b = Some (verb, uri @ '' '' @ version @ crlf @ rest)"
    using bytesCut_char(1) [OF line(2)] assms(2) by simp
  moreover have "bytesCut crlf b = Some (?line, rest)" using bytesCut_crlf [OF line(1)] assms(2) by simp
  moreover have "bytesCut '' '' ?line = Some (verb, uri @ '' '' @ version)" using bytesCut_char(1) [OF line(2)] by simp
  moreover have "bytesCut '' '' (uri @ '' '' @ version) = Some (uri, version)" using bytesCut_char(1) [OF line(3)] by simp
  ultimately show ?thesis
    using ok method_facts(2) [of verb] by (simp add: sniffHTTP1_def requestTarget_def parseHeaderHostH1_def)
qed

lemma httpSniffData_http1:
  assumes "verb \<in> set httpMethods" "bytesText b = verb @ '' '' @ rest"
  shows "httpSniffData env b = sniffHTTP1 env (bytesText b)"
proof -
  have four: "3 \<le> length verb" using assms(1) by (auto simp: httpMethods_def)
  have "take 4 (bytesText b) = take 4 (verb @ '' '') @ take (4 - length (verb @ '' '')) rest"
    using assms(2) by (metis append.assoc take_append)
  then have "take 4 (bytesText b) \<noteq> take 4 h2ClientPreface"
    using method_facts(4) [OF assms(1)] four by (simp add: h2ClientPreface_def)
  moreover have "take 4 h2ClientPreface = take 4 (bytesText b)" if "hasPrefix h2ClientPreface (bytesText b)"
  proof -
    have "take (length (bytesText b)) h2ClientPreface = bytesText b" using that by (simp add: hasPrefix_def)
    then have "take 4 (take (length (bytesText b)) h2ClientPreface) = take 4 (bytesText b)" by simp
    then show ?thesis using four assms(2) by (simp add: min_def)
  qed
  moreover have "take 4 h2ClientPreface = take 4 (bytesText b)" if "hasPrefix (bytesText b) h2ClientPreface"
  proof -
    have "take (length h2ClientPreface) (bytesText b) = h2ClientPreface" using that by (simp add: hasPrefix_def)
    moreover have "length h2ClientPreface = 24" by (simp add: h2ClientPreface_def crlf_def)
    ultimately have "take 4 (take 24 (bytesText b)) = take 4 h2ClientPreface" by simp
    then show ?thesis by simp
  qed
  ultimately show ?thesis by (auto simp: httpSniffData_def)
qed

lemma http_waits:
  assumes ok: "plainRequest verb uri version hdrs key v"
    and b: "requestText verb uri version hdrs key v = bytesText b @ c" "c \<noteq> []"
  shows "httpSniffData env b = Inl (NeedAtLeast (int (length b) + 1))"
proof -
  let ?line = "verb @ '' '' @ uri @ '' '' @ version" and ?t = "bytesText b"
  note ok' = ok [unfolded plainRequest_def]
  have verb: "verb \<in> set httpMethods" using ok' by simp
  have len: "length ?t = length b" by (simp add: bytesText_def)
  have T1: "(verb @ '' '') @ uri @ '' '' @ version @ crlf @ linesText (hdrs @ [key @ '':'' @ v]) = ?t @ c"
      "(?line @ crlf) @ linesText (hdrs @ [key @ '':'' @ v]) = ?t @ c"
    using b(1) by (simp_all add: requestText_def)
  from prefix_cases [OF T1(1)] consider (name) c' where "c' \<noteq> []" "verb @ '' '' = ?t @ c'" | (line) t' where "?t = verb @ '' '' @ t'"
    by (auto simp only: append_assoc)
  then show ?thesis
  proof cases
    case name
    then have t: "?t = take (length ?t) verb" by (auto simp: append_eq_append_conv2 append_eq_Cons_conv Cons_eq_append_conv)
    then have "CHR '' '' \<notin> set ?t" using method_facts(1) [OF verb] by (metis in_set_takeD)
    then have "bytesCut '' '' ?t = None" using bytesCut_char(2) by simp
    moreover have "isHTTPMethodPrefix ?t" using method_facts(3) [OF verb, of "length ?t"] t by simp
    moreover have "length verb \<le> 7" using verb by (auto simp: httpMethods_def)
    then have "length b < length h2ClientPreface"
      using arg_cong [OF t, of length] len by (simp add: h2ClientPreface_def crlf_def)
    ultimately show ?thesis using len by (simp add: httpSniffData_def sniffHTTP1_def)
  next
    case line
    then have http1: "httpSniffData env b = sniffHTTP1 env ?t" using httpSniffData_http1 [OF verb] by simp
    from prefix_cases [OF T1(2)] consider (part) c' where "c' \<noteq> []" "?line @ crlf = ?t @ c'" | (full) t' where "?t = ?line @ crlf @ t'"
      by (auto simp only: append_assoc)
    then show ?thesis
    proof cases
      case part
      have "bytesCut '' '' ?t = Some (verb, t')" using bytesCut_char(1) [OF method_facts(1) [OF verb]] line by simp
      moreover have "bytesCut crlf ?t = None" using part ok' by (intro bytesCut_crlf_partial [of ?line]) (auto simp: passes_def)
      ultimately show ?thesis using http1 len method_facts(2) [OF verb] by (simp add: sniffHTTP1_def)
    next
      case full
      have "headerLoop env (length ?t) ?t = Inl (NeedAtLeast (int (length ?t) + 1))"
        by (rule headerLoop_partial [of "?line # hdrs" "key @ '':'' @ v"])
          (use ok' b in \<open>auto simp: requestText_def hostField_def\<close>)
      then show ?thesis using http1 len sniffHTTP1_line [OF ok, of ?t t' env] full by simp
    qed
  qed
qed

text \<open>
  C33: A plain HTTP/1 request with a \<^verbatim>\<open>Host\<close> field that names a host is waited for byte by byte until
  the line of the field is complete, however it arrives, and then the host is the result, whatever
  follows.
\<close>

theorem http_request_found:
  assumes "plainRequest verb uri version hdrs key v" "parseHost env (trimSpaces v) = Inr h"
  shows "finds (httpSniffData env) (textBytes (requestText verb uri version hdrs key v)) h"
  unfolding finds_def
proof (intro conjI allI impI)
  let ?T = "requestText verb uri version hdrs key v"
  fix m c assume mc: "textBytes ?T = m @ c \<and> c \<noteq> []"
  then have "?T = bytesText m @ bytesText c" by (metis bytesText_append bytesText_textBytes)
  moreover have "bytesText c \<noteq> []" using mc by (simp add: bytesText_def)
  ultimately have "httpSniffData env m = Inl (NeedAtLeast (int (length m) + 1))" using http_waits [OF assms(1)] by blast
  then show "httpSniffData env m = Inr h \<or> (\<exists>n. httpSniffData env m = Inl (NeedAtLeast n) \<and> int (length m) < n \<and>
      n \<le> int (length (textBytes ?T)))"
    using mc by (cases c) auto
next
  let ?T = "requestText verb uri version hdrs key v" and ?line = "verb @ '' '' @ uri @ '' '' @ version"
  fix junk
  let ?t = "?T @ bytesText junk"
  have t: "?t = ?line @ crlf @ linesText (hdrs @ [key @ '':'' @ v]) @ bytesText junk" by (simp add: requestText_def)
  have "httpSniffData env (textBytes ?T @ junk) = sniffHTTP1 env ?t"
    using httpSniffData_http1 [of verb "textBytes ?T @ junk" "uri @ '' '' @ version @ crlf @ linesText (hdrs @ [key @ '':'' @ v]) @ bytesText junk" env]
      assms(1) t by (simp add: plainRequest_def)
  also have "\<dots> = headerLoop env (length ?t) ?t" by (rule sniffHTTP1_line [OF assms(1) t])
  also have "\<dots> = Inr h"
    using headerLoop_lines [of "?line # hdrs" env "length ?t" "key @ '':'' @ v @ crlf @ bytesText junk"]
      headerLoop_host [of key v env "length ?t" "bytesText junk"] assms by (simp add: requestText_def plainRequest_def)
  finally show "httpSniffData env (textBytes ?T @ junk) = Inr h" .
qed

text \<open>An environment for the examples: no addresses and a decoder that finds nothing.\<close>

definition sampleHttp :: "unit http_env" where
  "sampleHttp = \<lparr>hpackNew = (), hpackWrite = (\<lambda>b d. ([], False, d)), parsesAddr = (\<lambda>s. False), lowerCase = id\<rparr>"

lemma sample_request: "plainRequest ''GET'' ''/a'' ''HTTP/1.1'' [''Accept: *''] ''HOST'' ''a.b:80''"
  by code_simp

lemma sample_host: "parseHost sampleHttp (trimSpaces ''a.b:80'') = Inr ''a.b''"
proof -
  have "trimSpaces ''a.b:80'' = ''a.b:80''" by (rule trimSpaces_graph) (simp add: isGraph_def)
  moreover have "parseHost sampleHttp ''a.b:80'' = Inr ''a.b''" by code_simp
  ultimately show ?thesis by simp
qed

theorem http_request_found_witness:
  "finds (httpSniffData sampleHttp)
     (textBytes (requestText ''GET'' ''/a'' ''HTTP/1.1'' [''Accept: *''] ''HOST'' ''a.b:80'')) ''a.b''"
  by (rule http_request_found [OF sample_request sample_host])

end
