(* ===== verification/DispatcherSpec.thy ===== *)
theory DispatcherSpec
  imports Dispatcher HttpSnifferSpec LruSpec
begin

text \<open>
  What the dispatcher of the sniffers promises: it never panics, the count of failures of a
  destination never overflows, and the name in a hello message is found however the message is cut
  into records and whatever the reads return.
\<close>

subsection \<open>A message among the candidates\<close>










subsection \<open>Hello messages\<close>



lemma policy_skipList [simp]:
  "forceSniff (sd\<lparr>skipList := l\<rparr>) m = forceSniff sd m"
  "shouldOverride (sd\<lparr>skipList := l\<rparr>) m = shouldOverride sd m"
  "domainCanReplace isDomain (sd\<lparr>skipList := l\<rparr>) host = domainCanReplace isDomain sd host"
  by (simp_all add: shouldOverride_def forceSniff_def domainCanReplace_def)



lemma orderedSniffers_sound:
  "orderedSniffers env cfg names = Some ss \<Longrightarrow> s \<in> set ss \<Longrightarrow> \<exists>name config. NewSniffer env name config = Some s"
proof (induction names arbitrary: ss)
  case (Cons name names)
  then show ?case by (fastforce split: option.splits)
qed simp


lemma new_sniffer_cases:
  assumes "NewDispatcher env cfg = Some sd" "s \<in> set (sniffers sd)"
  shows "sniffData s = tlsSniffData \<or> sniffData s = httpSniffData env \<or> sniffData s = (\<lambda>b. Inl UnsupportedSniffer) \<and> supportNetwork s = UDP"
proof -
  obtain ss where ss: "orderedSniffers env (configSniffers cfg) snifferList = Some ss" "sniffers sd = ss"
    using assms(1) by (auto simp: NewDispatcher_def split: option.splits if_splits)
  then obtain name config where "NewSniffer env name config = Some s" using orderedSniffers_sound assms(2) by blast
  then show ?thesis
    by (cases name) (auto simp: NewSniffer_def NewTLSSniffer_def NewHTTPSniffer_def NewQUICSniffer_def)
qed



text \<open>Port 443 of an address without a name, with a TLS and an HTTP sniffer.\<close>

definition sampleConnection :: metadata where
  "sampleConnection =
     \<lparr>NetWork = TCP, Type = TUN, SrcIP = NoAddr, DstIP = Addr4 [1, 2, 3, 4], SrcGeoIP = None, DstGeoIP = None, SrcIPASN = [],
      DstIPASN = [], SrcPort = 1, DstPort = 443, InIP = NoAddr, InPort = 0, InName = [], InUser = [], RematchName = [],
      Host = [], DNSMode = DNSNormal, Uid = 0, Process = [], ProcessPath = [], SpecialProxy = [], SpecialRules = [],
      DSCP = 0, SniffHost = []\<rparr>"

definition sampleSniffers :: sniffer_config where
  "sampleSniffers =
     \<lparr>configEnable = True, configSniffers = [(SniffHTTP', [NewRange 80 443], False), (SniffTLS', [], True)],
      configForceDomain = [], configSkipSrcAddress = [], configSkipDstAddress = [], configSkipDomain = [],
      configForceDnsMapping = False, configParsePureIp = True\<rparr>"

definition sampleDispatcher :: dispatcher where
  "sampleDispatcher = the (NewDispatcher sampleHttp sampleSniffers)"


lemma sample_dispatcher: "NewDispatcher sampleHttp sampleSniffers = Some sampleDispatcher"
  by (simp add: sampleDispatcher_def NewDispatcher_def sampleSniffers_def snifferList_def NewSniffer_def)






subsection \<open>Safety\<close>

lemma sound_no_abort: "sound k m \<Longrightarrow> m \<noteq> Inl (Abort a)"
  by (simp add: sound_def)

lemma tls_no_abort: "tlsSniffData b \<noteq> Inl (Abort a)"
  using tls.settled [of b "[]"] by (auto simp: settled_iff)

lemma sniffRound_safe:
  "\<forall>c\<in>set cs. \<forall>a. sniffData (fst c) data \<noteq> Inl (Abort a) \<Longrightarrow> sniffRound isDomain data cs \<noteq> Inl (SnifferPanic a) \<and>
    (\<forall>cs' s w. sniffRound isDomain data cs = Inr (Inr cs') \<longrightarrow> (s, w) \<in> set cs' \<longrightarrow> s \<in> fst ` set cs)"
  by (induction cs) (auto simp: keepCandidate_eq keepCandidate_eq_Inl split: if_splits sum.splits sniff_stop.splits, blast+)

lemma sniffLoop_safe:
  "\<forall>c\<in>set cs. \<forall>data a. sniffData (fst c) data \<noteq> Inl (Abort a) \<Longrightarrow> sniffLoop isDomain cs want buf reads \<noteq> Inl (SnifferPanic a)"
proof (induction isDomain cs want buf reads rule: sniffLoop.induct)
  case (1 isDomain cs want buf reads)
  obtain ok data reads' where p: "peek want buf reads = (ok, data, reads')" by (cases "peek want buf reads")
  have safe: "sniffRound isDomain data cs \<noteq> Inl (SnifferPanic a)" using sniffRound_safe "1.prems" by blast
  have "sniffLoop isDomain cs' (nextWant 0 cs') data reads' \<noteq> Inl (SnifferPanic a)"
    if r: "sniffRound isDomain data cs = Inr (Inr cs')" "cs \<noteq> []" "\<not> (want > maxSniffBufferSize \<and> want > int (length buf))" ok for cs'
  proof -
    have "\<forall>c'\<in>set cs'. fst c' \<in> fst ` set cs" using sniffRound_safe [of cs data] "1.prems" r(1) by (metis prod.collapse)
    then have "\<forall>c\<in>set cs'. \<forall>data a. sniffData (fst c) data \<noteq> Inl (Abort a)" using "1.prems" by fastforce
    then show ?thesis using "1.IH" [of ok "(data, reads')" data reads' "Inr cs'" cs'] r p by simp
  qed
  then show ?case using p safe by (subst sniffLoop.simps) (auto simp: rbind_eq_Inl split: bool.splits sum.splits)
qed

definition noPanics :: "dispatcher \<Rightarrow> bool" where
  "noPanics sd \<longleftrightarrow> (\<forall>s\<in>set (sniffers sd). \<forall>data a. sniffData s data \<noteq> Inl (Abort a))"

lemma new_noPanics:
  assumes "NewDispatcher env cfg = Some sd" shows "noPanics sd"
  unfolding noPanics_def
proof (intro ballI allI)
  fix s data a assume "s \<in> set (sniffers sd)"
  then show "sniffData s data \<noteq> Inl (Abort a)"
    using new_sniffer_cases [OF assms, of s] tls_no_abort sound_no_abort [OF sound_httpSniffData [of data env]] by auto
qed

lemma trySniff_returns:
  assumes "noPanics sd"
  shows "\<exists>b m' sd'. trySniff isDomain now force sd m buf reads = Inr (b, m', sd') \<and> sniffers sd' = sniffers sd"
proof -
  have "sniffDomain isDomain sd m buf reads \<noteq> Inl (SnifferPanic a)" for a
    using assms by (auto simp: noPanics_def sniffDomain_def sniffCandidates_def Let_def split: prod.splits bool.splits intro!: sniffLoop_safe)
  then show ?thesis by (auto simp: trySniff_def cacheSniffFailed_def split: sum.splits sniff_error.splits prod.splits)
qed

lemma TCPSniff_returns:
  assumes "noPanics sd"
  shows "\<exists>b m' sd'. TCPSniff isDomain now sd m buf reads = Inr (b, m', sd') \<and> sniffers sd' = sniffers sd"
proof -
  have "\<exists>b m' sd'. trySniff isDomain now force (sd\<lparr>skipList := l\<rparr>) m buf reads = Inr (b, m', sd') \<and> sniffers sd' = sniffers sd" for force l
    using trySniff_returns [of "sd\<lparr>skipList := l\<rparr>"] assms by (simp add: noPanics_def)
  then show ?thesis using trySniff_returns [OF assms] by (auto simp: TCPSniff_def split: prod.splits option.splits)
qed




subsection \<open>Counting failures\<close>

lemma countFailure_bounded: "n \<le> 6 \<Longrightarrow> fst (countFailure n loaded) \<le> 6 \<and> \<not> snd (countFailure n loaded)"
  by (simp add: countFailure_def) unat_arith

lemma values_Compute:
  assumes "valuesOk (\<lambda>n. n \<le> 6) l" "Compute 0 now k countFailure l = (r, out, l')"
  shows "valuesOk (\<lambda>n. n \<le> 6) l'"
proof -
  obtain el out1 l1 where g: "lru_get now k l = (el, out1, l1)" by (metis prod_cases3)
  let ?n = "(case el of Some e \<Rightarrow> evalue e | None \<Rightarrow> 0)"
  have l1: "valuesOk (\<lambda>n. n \<le> 6) l1" "?n \<le> 6" using values_get [OF assms(1) g] by (auto split: option.splits)
  obtain v where v: "countFailure ?n (el \<noteq> None) = (v, False)" "v \<le> 6"
    using countFailure_bounded [OF l1(2), of "el \<noteq> None"] by (cases "countFailure ?n (el \<noteq> None)") auto
  then show ?thesis
    using assms(2) values_set [OF l1(1) v(2)] unfolding Compute_def g prod.case Let_def v(1)
    by (auto split: prod.splits)
qed

lemma trySniff_counts:
  assumes "valuesOk (\<lambda>n. n \<le> 6) (skipList sd)" "trySniff isDomain now force sd m buf reads = Inr (b, m', sd')"
  shows "valuesOk (\<lambda>n. n \<le> 6) (skipList sd')"
  using assms
  by (auto simp: trySniff_def cacheSniffFailed_def split: sum.splits sniff_error.splits prod.splits if_splits
      dest: values_Compute values_lruDelete)

lemma TCPSniff_counts:
  assumes "valuesOk (\<lambda>n. n \<le> 6) (skipList sd)" "TCPSniff isDomain now sd m buf reads = Inr (b, m', sd')"
  shows "valuesOk (\<lambda>n. n \<le> 6) (skipList sd')"
proof -
  obtain count out l where g: "lruGet now (AddrPort m) (skipList sd) = (count, out, l)" by (metis prod_cases3)
  then have ok: "valuesOk (\<lambda>n. n \<le> 6) (skipList (sd\<lparr>skipList := l\<rparr>))"
    using values_get [OF assms(1)] by (auto simp: lruGet_def split: prod.splits)
  then show ?thesis
    using assms g trySniff_counts [OF ok] trySniff_counts [OF assms(1)] by (auto simp: TCPSniff_def split: if_splits option.splits)
qed

text \<open>Connections one after the other: the time, the metadata, the buffer and the reads of each.\<close>

fun sniffAll :: "(string \<Rightarrow> bool) \<Rightarrow> dispatcher \<Rightarrow> (int \<times> metadata \<times> 8 word list \<times> 8 word list list) list \<Rightarrow> dispatcher outcome" where
  "sniffAll isDomain sd [] = Inr sd"
| "sniffAll isDomain sd ((now, m, buf, reads) # conns) =
     rbind (TCPSniff isDomain now sd m buf reads) (\<lambda>(_, _, sd). sniffAll isDomain sd conns)"

lemma sniffAll_counts:
  "valuesOk (\<lambda>n. n \<le> 6) (skipList sd) \<Longrightarrow> sniffAll isDomain sd conns = Inr sd' \<Longrightarrow> valuesOk (\<lambda>n. n \<le> 6) (skipList sd')"
  by (induction isDomain sd conns rule: sniffAll.induct) (auto simp: rbind_eq_Inr dest: TCPSniff_counts)

lemma sniffAll_returns: "noPanics sd \<Longrightarrow> \<exists>sd'. sniffAll isDomain sd conns = Inr sd'"
proof (induction isDomain sd conns rule: sniffAll.induct)
  case (2 isDomain sd now m buf reads conns)
  then obtain b m' sd' where t: "TCPSniff isDomain now sd m buf reads = Inr (b, m', sd')" "sniffers sd' = sniffers sd"
    using TCPSniff_returns by blast
  then show ?case using "2.IH" [of "(b, m', sd')" b "(m', sd')" m' sd'] "2.prems" by (simp add: noPanics_def)
qed simp

text \<open>
  C35: The count of failures of a destination, a byte, stays at six at most through any sequence of
  connections, so that it never wraps around to zero.
\<close>

theorem failure_counts_bounded:
  assumes "NewDispatcher env cfg = Some sd" "sniffAll isDomain sd conns = Inr sd'"
  shows "valuesOk (\<lambda>n. n \<le> 6) (skipList sd')"
proof -
  have "skipList sd = newLru [WithSize 128, WithAge 600]"
    using assms(1) by (auto simp: NewDispatcher_def split: option.splits if_splits)
  then have "valuesOk (\<lambda>n. n \<le> 6) (skipList sd)" by (simp add: valuesOk_def newLru_def lruClear_def)
  then show ?thesis by (rule sniffAll_counts [OF _ assms(2)])
qed

theorem failure_counts_bounded_witness:
  "\<exists>sd'. sniffAll (\<lambda>s. True) sampleDispatcher [(0, sampleConnection, [], []), (5, sampleConnection, [], [[1]])] = Inr sd' \<and>
    valuesOk (\<lambda>n. n \<le> 6) (skipList sd')"
proof -
  let ?conns = "[(0, sampleConnection, [], []), (5, sampleConnection, [], [[1]])]"
  have "\<exists>sd'. sniffAll (\<lambda>s. True) sampleDispatcher ?conns = Inr sd'"
    by (rule sniffAll_returns [OF new_noPanics [OF sample_dispatcher]])
  then show ?thesis using failure_counts_bounded [OF sample_dispatcher] by blast
qed

end
