(* ===== verification/Tuic.thy ===== *)
theory Tuic
  imports StunCodec Metadata
begin

text \<open>
  The messages of TUIC version 5 (\<^verbatim>\<open>mihomo/transport/tuic/v5/protocol.go\<close>).  A reader is the list of the
  bytes that are still to come, until its end; every reading function returns a value and the rest.
  A writer is a buffer, which takes all bytes.
\<close>

subsection \<open>Reading\<close>

datatype (plugins only: code size) message_error = EOF | UnexpectedEOF | WrongCommand "8 word" | ReadPanic abort

type_synonym 'a reading = "message_error + 'a \<times> bytes"

definition ReadByte :: "bytes \<Rightarrow> (8 word) reading" where
  "ReadByte bs = (case bs of [] \<Rightarrow> Inl EOF | b # bs \<Rightarrow> Inr (b, bs))"

text \<open>\<^verbatim>\<open>io.ReadFull\<close> with a buffer of \<open>n\<close> bytes.\<close>

definition ReadFull :: "nat \<Rightarrow> bytes \<Rightarrow> bytes reading" where
  "ReadFull n bs =
     (if n \<le> length bs then Inr (take n bs, drop n bs) else if bs = [] then Inl EOF else Inl UnexpectedEOF)"

definition readPanic :: "'a outcome \<Rightarrow> message_error + 'a" where
  "readPanic m = (case m of Inl a \<Rightarrow> Inl (ReadPanic a) | Inr x \<Rightarrow> Inr x)"

text \<open>\<^verbatim>\<open>binary.Read\<close> in big-endian order.\<close>

definition readUint16 :: "bytes \<Rightarrow> (16 word) reading" where
  "readUint16 bs =
     rbind (ReadFull 2 bs) (\<lambda>(b, bs). rbind (readPanic (uint16Of b)) (\<lambda>n. Inr (n, bs)))"

definition readUint8 :: "bytes \<Rightarrow> (8 word) reading" where
  "readUint8 bs = rbind (ReadFull 1 bs) (\<lambda>(b, bs). rbind (readPanic (go_get b 0)) (\<lambda>n. Inr (n, bs)))"

subsection \<open>Commands\<close>

definition AuthenticateType :: "8 word" where "AuthenticateType = 0x00"
definition ConnectType :: "8 word" where "ConnectType = 0x01"
definition PacketType :: "8 word" where "PacketType = 0x02"
definition DissociateType :: "8 word" where "DissociateType = 0x03"
definition HeartbeatType :: "8 word" where "HeartbeatType = 0x04"
definition VER5 :: "8 word" where "VER5 = 0x05"

record command_head =
  VER :: "8 word"
  cmdType :: "8 word"

definition NewCommandHead :: "8 word \<Rightarrow> command_head" where
  "NewCommandHead t = \<lparr>VER = VER5, cmdType = t\<rparr>"

definition ReadCommandHead :: "bytes \<Rightarrow> command_head reading" where
  "ReadCommandHead bs =
     rbind (ReadByte bs) (\<lambda>(v, bs). rbind (ReadByte bs) (\<lambda>(t, bs). Inr (\<lparr>VER = v, cmdType = t\<rparr>, bs)))"

definition writeHead :: "command_head \<Rightarrow> bytes" where
  "writeHead c = [VER c] @ [cmdType c]"

definition headLen :: "command_head \<Rightarrow> int" where
  "headLen c = 1 + 1"

text \<open>A message is read after its head when the head has its type.\<close>

definition checkType :: "8 word \<Rightarrow> command_head \<Rightarrow> message_error + unit" where
  "checkType t head = (if cmdType head \<noteq> t then Inl (WrongCommand (cmdType head)) else Inr ())"

subsection \<open>Addresses\<close>

definition AtypDomainName5 :: "8 word" where "AtypDomainName5 = 0"
definition AtypIPv4_5 :: "8 word" where "AtypIPv4_5 = 1"
definition AtypIPv6_5 :: "8 word" where "AtypIPv6_5 = 2"
definition AtypNone :: "8 word" where "AtypNone = 255"

record address =
  addrType :: "8 word"
  addrBytes :: bytes
  addrPort :: "16 word"

definition NewAddress :: "metadata \<Rightarrow> address" where
  "NewAddress m =
     (case AddrType m of
        AtypIPv4 \<Rightarrow> \<lparr>addrType = AtypIPv4_5, addrBytes = AsSlice (DstIP m), addrPort = DstPort m\<rparr>
      | AtypIPv6 \<Rightarrow> \<lparr>addrType = AtypIPv6_5, addrBytes = AsSlice (DstIP m), addrPort = DstPort m\<rparr>
      | AtypDomainName \<Rightarrow>
          \<lparr>addrType = AtypDomainName5, addrBytes = word_of_nat (length (Host m)) # map of_char (Host m), addrPort = DstPort m\<rparr>)"

definition NewAddressAddrPort :: "addr \<Rightarrow> 16 word \<Rightarrow> address" where
  "NewAddressAddrPort ip port =
     (let addr = Unmap ip in
      \<lparr>addrType = (if Is4 addr then AtypIPv4_5 else AtypIPv6_5), addrBytes = AsSlice addr, addrPort = port\<rparr>)"

text \<open>
  The address of a packet: its \<^verbatim>\<open>AddrPort\<close> when it has a valid one, else its text, which
  \<^verbatim>\<open>netip.ParseAddrPort\<close> or \<^verbatim>\<open>SetRemoteAddress\<close> understands.
\<close>

definition NewAddressNetAddr ::
  "(string \<Rightarrow> (addr \<times> 16 word) option) \<Rightarrow> (string \<Rightarrow> metadata checked) \<Rightarrow> (addr \<times> 16 word) option \<Rightarrow> string \<Rightarrow> address checked" where
  "NewAddressNetAddr parseAddrPort setRemoteAddress ap s =
     (case ap of
        Some (ip, port) \<Rightarrow> if IsValid ip then Inr (NewAddressAddrPort ip port) else
          (case parseAddrPort s of
             Some (ip, port) \<Rightarrow> Inr (NewAddressAddrPort ip port)
           | None \<Rightarrow> rbind (setRemoteAddress s) (\<lambda>m. Inr (NewAddress m)))
      | None \<Rightarrow>
          (case parseAddrPort s of
             Some (ip, port) \<Rightarrow> Inr (NewAddressAddrPort ip port)
           | None \<Rightarrow> rbind (setRemoteAddress s) (\<lambda>m. Inr (NewAddress m))))"

text \<open>
  The length of a domain is a byte, and so is the size \<^verbatim>\<open>addrLen+1\<close> of the buffer that is made for it.
\<close>

definition readDomain :: "bytes \<Rightarrow> bytes reading" where
  "readDomain bs =
     rbind (ReadByte bs) (\<lambda>(addrLen, bs).
     rbind (readPanic (go_make 0 (uint (addrLen + 1)))) (\<lambda>ADDR.
     rbind (readPanic (go_set ADDR 0 addrLen)) (\<lambda>ADDR.
     rbind (ReadFull (length ADDR - 1) bs) (\<lambda>(name, bs). Inr (take 1 ADDR @ name, bs)))))"

definition ReadAddress :: "bytes \<Rightarrow> address reading" where
  "ReadAddress bs =
     rbind (ReadByte bs) (\<lambda>(t, bs).
     rbind (if t = AtypIPv4_5 then ReadFull 4 bs
            else if t = AtypIPv6_5 then ReadFull 16 bs
            else if t = AtypDomainName5 then readDomain bs
            else Inr ([], bs)) (\<lambda>(a, bs).
     if t = AtypNone then Inr (\<lparr>addrType = t, addrBytes = a, addrPort = 0\<rparr>, bs)
     else rbind (readUint16 bs) (\<lambda>(port, bs). Inr (\<lparr>addrType = t, addrBytes = a, addrPort = port\<rparr>, bs))))"

definition writeAddress :: "address \<Rightarrow> bytes" where
  "writeAddress c = [addrType c] @ (if addrType c = AtypNone then [] else addrBytes c @ putUint16 (addrPort c))"

definition addressLen :: "address \<Rightarrow> int" where
  "addressLen c = 1 + int (length (addrBytes c)) + 2"

text \<open>The address in the form of SOCKS5, whose types are 1, 3 and 4; other types leave a zero.\<close>

definition SocksAddr :: "address \<Rightarrow> bytes" where
  "SocksAddr c =
     [if addrType c = AtypIPv4_5 then 1 else if addrType c = AtypIPv6_5 then 4 else if addrType c = AtypDomainName5 then 3 else 0]
     @ addrBytes c @ putUint16 (addrPort c)"

subsection \<open>Authenticate and Connect\<close>

record authenticate =
  authHead :: command_head
  UUID :: bytes
  TOKEN :: bytes

definition NewAuthenticate :: "bytes \<Rightarrow> bytes \<Rightarrow> authenticate" where
  "NewAuthenticate uuid token = \<lparr>authHead = NewCommandHead AuthenticateType, UUID = uuid, TOKEN = token\<rparr>"

definition ReadAuthenticateWithHead :: "command_head \<Rightarrow> bytes \<Rightarrow> authenticate reading" where
  "ReadAuthenticateWithHead head bs =
     rbind (checkType AuthenticateType head) (\<lambda>_.
     rbind (ReadFull 16 bs) (\<lambda>(uuid, bs).
     rbind (ReadFull 32 bs) (\<lambda>(token, bs). Inr (\<lparr>authHead = head, UUID = uuid, TOKEN = token\<rparr>, bs))))"

definition ReadAuthenticate :: "bytes \<Rightarrow> authenticate reading" where
  "ReadAuthenticate bs = rbind (ReadCommandHead bs) (\<lambda>(head, bs). ReadAuthenticateWithHead head bs)"

definition writeAuthenticate :: "authenticate \<Rightarrow> bytes" where
  "writeAuthenticate c = writeHead (authHead c) @ UUID c @ TOKEN c"

definition authenticateLen :: "authenticate \<Rightarrow> int" where
  "authenticateLen c = headLen (authHead c) + 16 + 32"

text \<open>\<^verbatim>\<open>ExportKeyingMaterial\<close> of TLS is the parameter \<open>export\<close>; the token has 32 bytes.\<close>

definition GenToken :: "(bytes \<Rightarrow> string \<Rightarrow> bytes option) \<Rightarrow> bytes \<Rightarrow> string \<Rightarrow> bytes option" where
  "GenToken export uuid password = map_option (go_copy (replicate 32 0)) (export uuid password)"

record connect =
  connectHead :: command_head
  connectAddr :: address

definition NewConnect :: "address \<Rightarrow> connect" where
  "NewConnect a = \<lparr>connectHead = NewCommandHead ConnectType, connectAddr = a\<rparr>"

definition ReadConnectWithHead :: "command_head \<Rightarrow> bytes \<Rightarrow> connect reading" where
  "ReadConnectWithHead head bs =
     rbind (checkType ConnectType head) (\<lambda>_.
     rbind (ReadAddress bs) (\<lambda>(a, bs). Inr (\<lparr>connectHead = head, connectAddr = a\<rparr>, bs)))"

definition ReadConnect :: "bytes \<Rightarrow> connect reading" where
  "ReadConnect bs = rbind (ReadCommandHead bs) (\<lambda>(head, bs). ReadConnectWithHead head bs)"

definition writeConnect :: "connect \<Rightarrow> bytes" where
  "writeConnect c = writeHead (connectHead c) @ writeAddress (connectAddr c)"

definition connectLen :: "connect \<Rightarrow> int" where
  "connectLen c = headLen (connectHead c) + addressLen (connectAddr c)"

subsection \<open>Packet\<close>

record tuic_packet =
  packetHead :: command_head
  ASSOC_ID :: "16 word"
  PKT_ID :: "16 word"
  FRAG_TOTAL :: "8 word"
  FRAG_ID :: "8 word"
  SIZE :: "16 word"
  packetAddr :: address
  DATA :: bytes

definition NewPacket :: "16 word \<Rightarrow> 16 word \<Rightarrow> 8 word \<Rightarrow> 8 word \<Rightarrow> 16 word \<Rightarrow> address \<Rightarrow> bytes \<Rightarrow> tuic_packet" where
  "NewPacket assoc pkt fragTotal fragID sz a d =
     \<lparr>packetHead = NewCommandHead PacketType, ASSOC_ID = assoc, PKT_ID = pkt, FRAG_TOTAL = fragTotal, FRAG_ID = fragID,
      SIZE = sz, packetAddr = a, DATA = d\<rparr>"

definition ReadPacketWithHead :: "command_head \<Rightarrow> bytes \<Rightarrow> tuic_packet reading" where
  "ReadPacketWithHead head bs =
     rbind (checkType PacketType head) (\<lambda>_.
     rbind (readUint16 bs) (\<lambda>(assoc, bs).
     rbind (readUint16 bs) (\<lambda>(pkt, bs).
     rbind (readUint8 bs) (\<lambda>(fragTotal, bs).
     rbind (readUint8 bs) (\<lambda>(fragID, bs).
     rbind (readUint16 bs) (\<lambda>(sz, bs).
     rbind (ReadAddress bs) (\<lambda>(a, bs).
     rbind (ReadFull (unat sz) bs) (\<lambda>(d, bs).
     Inr (\<lparr>packetHead = head, ASSOC_ID = assoc, PKT_ID = pkt, FRAG_TOTAL = fragTotal, FRAG_ID = fragID, SIZE = sz,
           packetAddr = a, DATA = d\<rparr>, bs)))))))))"

definition ReadPacket :: "bytes \<Rightarrow> tuic_packet reading" where
  "ReadPacket bs = rbind (ReadCommandHead bs) (\<lambda>(head, bs). ReadPacketWithHead head bs)"

definition writePacket :: "tuic_packet \<Rightarrow> bytes" where
  "writePacket c =
     writeHead (packetHead c) @ putUint16 (ASSOC_ID c) @ putUint16 (PKT_ID c) @ [FRAG_TOTAL c] @ [FRAG_ID c]
     @ putUint16 (SIZE c) @ writeAddress (packetAddr c) @ DATA c"

definition packetLen :: "tuic_packet \<Rightarrow> int" where
  "packetLen c = headLen (packetHead c) + 4 + 2 + addressLen (packetAddr c) + int (length (DATA c))"

definition PacketOverHead :: int where
  "PacketOverHead = packetLen (NewPacket 0 0 0 0 0 (NewAddressAddrPort (Addr6 (replicate 16 0) []) 0) [])"

subsection \<open>Dissociate and Heartbeat\<close>

record dissociate =
  dissociateHead :: command_head
  dissociateID :: "16 word"

definition NewDissociate :: "16 word \<Rightarrow> dissociate" where
  "NewDissociate assoc = \<lparr>dissociateHead = NewCommandHead DissociateType, dissociateID = assoc\<rparr>"

definition ReadDissociateWithHead :: "command_head \<Rightarrow> bytes \<Rightarrow> dissociate reading" where
  "ReadDissociateWithHead head bs =
     rbind (checkType DissociateType head) (\<lambda>_.
     rbind (readUint16 bs) (\<lambda>(assoc, bs). Inr (\<lparr>dissociateHead = head, dissociateID = assoc\<rparr>, bs)))"

definition ReadDissociate :: "bytes \<Rightarrow> dissociate reading" where
  "ReadDissociate bs = rbind (ReadCommandHead bs) (\<lambda>(head, bs). ReadDissociateWithHead head bs)"

definition writeDissociate :: "dissociate \<Rightarrow> bytes" where
  "writeDissociate c = writeHead (dissociateHead c) @ putUint16 (dissociateID c)"

definition dissociateLen :: "dissociate \<Rightarrow> int" where
  "dissociateLen c = headLen (dissociateHead c) + 4"

text \<open>A heartbeat is its head.\<close>

definition NewHeartbeat :: command_head where
  "NewHeartbeat = NewCommandHead HeartbeatType"

definition ReadHeartbeatWithHead :: "command_head \<Rightarrow> bytes \<Rightarrow> command_head reading" where
  "ReadHeartbeatWithHead head bs = rbind (checkType HeartbeatType head) (\<lambda>_. Inr (head, bs))"

definition ReadHeartbeat :: "bytes \<Rightarrow> command_head reading" where
  "ReadHeartbeat bs = rbind (ReadCommandHead bs) (\<lambda>(head, bs). ReadHeartbeatWithHead head bs)"

end
