(* ===== verification/TuicSpec.thy ===== *)
theory TuicSpec
  imports Tuic StunSpec
begin

text \<open>
  What the readers of \<open>Tuic\<close> accept is what the writers write: every message has one form, and a
  message that is read and written again is the same bytes.
\<close>

subsection \<open>Numbers and buffers\<close>

lemma ReadByte_iff: "ReadByte bs = Inr (b, rest) \<longleftrightarrow> bs = b # rest"
  by (auto simp: ReadByte_def split: list.splits)

lemma ReadFull_iff: "ReadFull n bs = Inr (x, rest) \<longleftrightarrow> bs = x @ rest \<and> length x = n"
  by (auto simp: ReadFull_def)

lemma readPanic_iff [simp]:
  "readPanic m = Inr x \<longleftrightarrow> m = Inr x" "readPanic m = Inl (ReadPanic a) \<longleftrightarrow> m = Inl a" "readPanic m \<noteq> Inl EOF"
  by (auto simp: readPanic_def split: sum.splits)

lemma putUint16_be16: "putUint16 (be16 hi lo) = [hi, lo]"
proof -
  have "ucast (drop_bit 8 (push_bit 8 (ucast hi :: 16 word) OR ucast lo)) = hi" "ucast (push_bit 8 (ucast hi :: 16 word) OR ucast lo) = lo"
    by (rule bit_word_eqI; auto simp: bit_simps dest: bit_imp_le_length)+
  then show ?thesis by (simp add: putUint16_def be16_def)
qed

lemma putUint16_ex: "length x = 2 \<Longrightarrow> \<exists>n. x = putUint16 n"
  by (auto simp: length_Suc_conv numeral_2_eq_2 intro: putUint16_be16 [symmetric])

lemma putUint16_uint16Of: "length x = 2 \<Longrightarrow> uint16Of x = Inr n \<longleftrightarrow> x = putUint16 n"
  using be16_putUint16 [of n] putUint16_be16
  by (auto simp: length_Suc_conv numeral_2_eq_2 be16_def putUint16_def)

lemma length_putUint16 [simp]: "length (putUint16 n) = 2"
  by (simp add: putUint16_def)

lemma readUint16_iff: "readUint16 bs = Inr (n, rest) \<longleftrightarrow> bs = putUint16 n @ rest"
  by (auto simp: readUint16_def rbind_eq_Inr ReadFull_iff putUint16_uint16Of)

lemma readUint8_iff: "readUint8 bs = Inr (n, rest) \<longleftrightarrow> bs = n # rest"
  by (auto simp: readUint8_def rbind_eq_Inr ReadFull_iff length_Suc_conv)

lemma ReadCommandHead_iff: "ReadCommandHead bs = Inr (h, rest) \<longleftrightarrow> bs = writeHead h @ rest"
  by (cases h) (auto simp: ReadCommandHead_def writeHead_def rbind_eq_Inr ReadByte_iff)

lemma checkType_iff: "checkType t h = Inr u \<longleftrightarrow> cmdType h = t"
  by (auto simp: checkType_def)

subsection \<open>Addresses\<close>

text \<open>The addresses that can be read: a domain has at most 254 bytes.\<close>

definition addressOk :: "address \<Rightarrow> bool" where
  "addressOk a \<longleftrightarrow>
     (if addrType a = AtypIPv4_5 then length (addrBytes a) = 4
      else if addrType a = AtypIPv6_5 then length (addrBytes a) = 16
      else if addrType a = AtypDomainName5 then
        (case addrBytes a of [] \<Rightarrow> False | n # name \<Rightarrow> length name = unat n \<and> n \<noteq> 255)
      else addrBytes a = [] \<and> (addrType a = AtypNone \<longrightarrow> addrPort a = 0))"

lemma plus_one_word: "n \<noteq> 255 \<Longrightarrow> unat (n + 1 :: 8 word) = Suc (unat n)"
proof -
  assume n: "n \<noteq> 255"
  have "unat n \<noteq> 255" using n by (simp add: word_unat_eq_iff)
  then show ?thesis using unsigned_less [of n, where 'a = nat] by (simp add: unat_word_ariths)
qed

lemma readDomain_iff:
  "readDomain bs = Inr (a, rest) \<longleftrightarrow> (\<exists>n name. bs = a @ rest \<and> a = n # name \<and> length name = unat n \<and> n \<noteq> 255)"
proof -
  have r: "rbind (readPanic (go_make 0 (uint (n + 1)))) (\<lambda>ADDR. rbind (readPanic (go_set ADDR 0 n)) (\<lambda>ADDR.
      rbind (ReadFull (length ADDR - 1) bs) (\<lambda>(name, bs). Inr (take 1 ADDR @ name, bs)))) = Inr (a, rest) \<longleftrightarrow>
    n \<noteq> 255 \<and> (\<exists>name. bs = name @ rest \<and> a = n # name \<and> length name = unat n)" for n bs
  proof (cases "n = 255")
    case False
    have "nat (uint (n + 1)) = Suc (unat n)" using plus_one_word [OF False] by simp
    moreover from this have "0 < uint (n + 1)" by linarith
    ultimately show ?thesis using False by (auto simp: readPanic_def go_set_def ReadFull_iff rbind_eq_Inr)
  qed (simp add: readPanic_def go_set_def)
  show ?thesis
  proof (cases bs)
    case (Cons n bs')
    then show ?thesis by (auto simp only: readDomain_def ReadByte_def list.case rbind_simps prod.case r append.simps list.inject) blast
  qed (simp add: readDomain_def ReadByte_def)
qed

lemma ReadAddress_iff: "ReadAddress bs = Inr (a, rest) \<longleftrightarrow> bs = writeAddress a @ rest \<and> addressOk a"
proof (cases bs)
  case (Cons t bs')
  note simps = Cons ReadAddress_def writeAddress_def addressOk_def rbind_eq_Inr ReadByte_iff ReadFull_iff readDomain_iff readUint16_iff
    AtypIPv4_5_def AtypIPv6_5_def AtypDomainName5_def AtypNone_def
  consider "t = 0" | "t = 1" | "t = 2" | "t = 255" | "t \<notin> {0, 1, 2, 255}" by blast
  then show ?thesis
  proof cases
    case 1 then show ?thesis by (cases a) (auto simp: simps split: list.splits if_splits)
  next
    case 2 then show ?thesis by (cases a) (auto simp: simps split: list.splits if_splits)
  next
    case 3 then show ?thesis by (cases a) (auto simp: simps split: list.splits if_splits)
  next
    case 4 then show ?thesis by (cases a) (auto simp: simps split: list.splits if_splits)
  next
    case 5 then show ?thesis by (cases a) (auto simp: simps split: list.splits if_splits)
  qed
qed (auto simp: ReadAddress_def writeAddress_def ReadByte_def)

lemmas reads = ReadByte_iff ReadFull_iff readUint16_iff readUint8_iff ReadCommandHead_iff checkType_iff ReadAddress_iff rbind_eq_Inr

subsection \<open>Messages\<close>

definition packetOk :: "tuic_packet \<Rightarrow> bool" where
  "packetOk c \<longleftrightarrow> cmdType (packetHead c) = PacketType \<and> addressOk (packetAddr c) \<and> length (DATA c) = unat (SIZE c)"

lemma packets_one_form: "ReadPacket bs = Inr (c, rest) \<longleftrightarrow> bs = writePacket c @ rest \<and> packetOk c"
  by (cases c) (auto simp: ReadPacket_def ReadPacketWithHead_def writePacket_def packetOk_def reads)

text \<open>
  C37: Packets have one form.  A packet is read from a buffer exactly when the buffer begins with what the
  writer writes for it, its type is that of packets, its address is one that can be written and its size is
  the length of its data; and the rest of the buffer is untouched.  Reading is thus the inverse of
  writing, and no two encodings give one packet.
\<close>

theorem packets_have_one_form:
  "ReadPacket bs = Inr (c, rest) \<longleftrightarrow> bs = writePacket c @ rest \<and> packetOk c"
  by (rule packets_one_form)

lemma connects_have_one_form:
  "ReadConnect bs = Inr (c, rest) \<longleftrightarrow> bs = writeConnect c @ rest \<and> cmdType (connectHead c) = ConnectType \<and> addressOk (connectAddr c)"
  by (cases c) (auto simp: ReadConnect_def ReadConnectWithHead_def writeConnect_def reads)

lemma authenticates_have_one_form:
  "ReadAuthenticate bs = Inr (c, rest) \<longleftrightarrow>
     bs = writeAuthenticate c @ rest \<and> cmdType (authHead c) = AuthenticateType \<and> length (UUID c) = 16 \<and> length (TOKEN c) = 32"
  by (cases c) (auto simp: ReadAuthenticate_def ReadAuthenticateWithHead_def writeAuthenticate_def reads)

lemma dissociates_have_one_form:
  "ReadDissociate bs = Inr (c, rest) \<longleftrightarrow> bs = writeDissociate c @ rest \<and> cmdType (dissociateHead c) = DissociateType"
  by (cases c) (auto simp: ReadDissociate_def ReadDissociateWithHead_def writeDissociate_def reads)

subsection \<open>Panics\<close>

lemma reading_panics [simp]:
  "ReadByte bs \<noteq> Inl (ReadPanic a)" "ReadFull n bs \<noteq> Inl (ReadPanic a)" "checkType t h \<noteq> Inl (ReadPanic a)"
  "ReadCommandHead bs \<noteq> Inl (ReadPanic a)"
  by (auto simp: ReadByte_def ReadFull_def checkType_def ReadCommandHead_def rbind_eq_Inl split: list.splits)

lemma readUint_panics [simp]: "readUint16 bs \<noteq> Inl (ReadPanic a)" "readUint8 bs \<noteq> Inl (ReadPanic a)"
proof -
  have "uint16Of x \<noteq> Inl a" if "length x = 2" for x using that by (auto simp: length_Suc_conv numeral_2_eq_2)
  then show "readUint16 bs \<noteq> Inl (ReadPanic a)" by (auto simp: readUint16_def rbind_eq_Inl ReadFull_iff)
  show "readUint8 bs \<noteq> Inl (ReadPanic a)" by (auto simp: readUint8_def rbind_eq_Inl ReadFull_iff go_get_def split: if_splits)
qed

lemma readDomain_panics: "(\<exists>a. readDomain bs = Inl (ReadPanic a)) \<longleftrightarrow> (\<exists>rest. bs = 255 # rest)"
proof (cases bs)
  case (Cons n bs')
  show ?thesis
  proof (cases "n = 255")
    case False
    have "nat (uint (n + 1)) = Suc (unat n)" using plus_one_word [OF False] by simp
    then show ?thesis
      using False Cons by (auto simp: readDomain_def ReadByte_def readPanic_def go_set_def rbind_eq_Inl)
  qed (simp add: Cons readDomain_def ReadByte_def readPanic_def go_set_def)
qed (simp add: readDomain_def ReadByte_def)

lemma ReadAddress_panics: "(\<exists>a. ReadAddress bs = Inl (ReadPanic a)) \<longleftrightarrow> (\<exists>rest. bs = 0 # 255 # rest)"
proof (cases bs)
  case (Cons t bs')
  have "(\<exists>a. ReadAddress bs = Inl (ReadPanic a)) \<longleftrightarrow> t = 0 \<and> (\<exists>a. readDomain bs' = Inl (ReadPanic a))"
    by (auto simp: Cons ReadAddress_def ReadByte_def rbind_eq_Inl AtypIPv4_5_def AtypIPv6_5_def AtypDomainName5_def AtypNone_def)
  then show ?thesis using Cons by (simp add: readDomain_panics)
qed (simp add: ReadAddress_def ReadByte_def)

lemma ReadPacketWithHead_panics:
  "(\<exists>a. ReadPacketWithHead head bs = Inl (ReadPanic a)) \<longleftrightarrow>
     cmdType head = PacketType \<and> (\<exists>start rest. length start = 8 \<and> bs = start @ 0 # 255 # rest)"
proof -
  have *: "(\<exists>a. ReadPacketWithHead head bs = Inl (ReadPanic a)) \<longleftrightarrow> cmdType head = PacketType \<and>
    (\<exists>assoc pkt n i sz bs' a. bs = putUint16 assoc @ putUint16 pkt @ [n, i] @ putUint16 sz @ bs' \<and> ReadAddress bs' = Inl (ReadPanic a))"
    by (auto simp: ReadPacketWithHead_def rbind_eq_Inl reads)
  have ex: "\<exists>assoc pkt n i sz. start = putUint16 assoc @ putUint16 pkt @ [n, i] @ putUint16 sz" if "length start = 8" for start
  proof -
    have "length start = Suc (Suc (Suc (Suc (Suc (Suc (Suc (Suc 0)))))))" using that by simp
    then obtain a b c d n i e f where "start = [a, b, c, d, n, i, e, f]" by (auto simp: length_Suc_conv)
    then have "start = putUint16 (be16 a b) @ putUint16 (be16 c d) @ [n, i] @ putUint16 (be16 e f)" by (simp add: putUint16_be16)
    then show ?thesis by blast
  qed
  have "(\<exists>assoc pkt n i sz bs' a. bs = putUint16 assoc @ putUint16 pkt @ [n, i] @ putUint16 sz @ bs' \<and> ReadAddress bs' = Inl (ReadPanic a))
      \<longleftrightarrow> (\<exists>start bs' a. length start = 8 \<and> bs = start @ bs' \<and> ReadAddress bs' = Inl (ReadPanic a))" (is "?l \<longleftrightarrow> ?r")
  proof
    assume ?l
    then obtain assoc pkt n i sz bs' a where "bs = (putUint16 assoc @ putUint16 pkt @ [n, i] @ putUint16 sz) @ bs'"
      "ReadAddress bs' = Inl (ReadPanic a)" by auto
    moreover have "length (putUint16 assoc @ putUint16 pkt @ [n, i] @ putUint16 sz) = 8" by simp
    ultimately show ?r by blast
  next
    assume ?r
    then obtain start bs' a where s: "length start = 8" "bs = start @ bs'" "ReadAddress bs' = Inl (ReadPanic a)" by blast
    from ex [OF s(1)] obtain assoc pkt n i sz where "start = putUint16 assoc @ putUint16 pkt @ [n, i] @ putUint16 sz" by blast
    with s have "bs = putUint16 assoc @ putUint16 pkt @ [n, i] @ putUint16 sz @ bs'" by simp
    with s(3) show ?l by blast
  qed
  also have "?r \<longleftrightarrow> (\<exists>start rest. length start = 8 \<and> bs = start @ 0 # 255 # rest)" using ReadAddress_panics by metis
  finally show ?thesis unfolding * by simp
qed

text \<open>The bytes for which reading a packet panics.\<close>

lemma packets_that_panic:
  "(\<exists>a. ReadPacket bs = Inl (ReadPanic a)) \<longleftrightarrow> length bs \<ge> 12 \<and> bs ! 1 = PacketType \<and> bs ! 10 = 0 \<and> bs ! 11 = 255"
proof -
  have "(\<exists>a. ReadPacket bs = Inl (ReadPanic a)) \<longleftrightarrow>
      (\<exists>v start rest. length start = 8 \<and> bs = v # PacketType # start @ 0 # 255 # rest)" (is "_ \<longleftrightarrow> ?form")
    using ReadPacketWithHead_panics
    by (auto simp: ReadPacket_def rbind_eq_Inl ReadCommandHead_iff writeHead_def) (metis command_head.select_convs)+
  also have "?form \<longleftrightarrow> length bs \<ge> 12 \<and> bs ! 1 = PacketType \<and> bs ! 10 = 0 \<and> bs ! 11 = 255" (is "_ \<longleftrightarrow> ?at")
  proof
    assume ?at
    then obtain v t bs' where bs: "bs = v # t # bs'" by (cases bs; cases "tl bs") auto
    with \<open>?at\<close> have "drop 8 bs' = 0 # 255 # drop 10 bs'" "t = PacketType" "length (take 8 bs') = 8"
      using Cons_nth_drop_Suc [of 8 bs'] Cons_nth_drop_Suc [of 9 bs'] by (auto simp: nth_Cons')
    then show ?form using bs append_take_drop_id [of 8 bs'] by metis
  qed (auto simp: nth_Cons' nth_append)
  finally show ?thesis .
qed

subsection \<open>Lengths\<close>

lemma length_writePacket:
  "int (length (writePacket c)) = (if addrType (packetAddr c) = AtypNone then 11 else 13 + int (length (addrBytes (packetAddr c)))) + int (length (DATA c))"
  by (simp add: writePacket_def writeHead_def writeAddress_def)

lemma length_declared: "addrType (packetAddr c) \<noteq> AtypNone \<Longrightarrow> int (length (writePacket c)) = packetLen c + 2"
  by (simp add: length_writePacket packetLen_def headLen_def addressLen_def)

lemma PacketOverHead_eq: "PacketOverHead = 27"
proof -
  have "replicate 12 0 \<noteq> replicate 10 0 @ [255, 255 :: 8 word]" by (auto dest!: arg_cong [where f = "\<lambda>l. l ! 10"] simp: nth_append)
  then show ?thesis
    by (simp add: PacketOverHead_def packetLen_def headLen_def addressLen_def NewPacket_def NewAddressAddrPort_def Unmap_def AsSlice_def Let_def)
qed

end
