(* ===== verification/TuicFrag.thy ===== *)
theory TuicFrag
  imports TuicSpec Lru
begin

text \<open>
  Fragments of UDP packets in TUIC version 5 (\<^verbatim>\<open>mihomo/transport/tuic/v5/frag.go\<close>): a packet is cut into
  datagrams, and the bags of the cache put the pieces of a packet together again; and the packet connection
  that reads and writes them (\<^verbatim>\<open>packet.go\<close>).
\<close>

subsection \<open>Cutting\<close>

definition MaxFragSize :: int where "MaxFragSize = 1200 - PacketOverHead - 3"

text \<open>
  \<open>send\<close> hands a datagram to the connection and may fail.  The result are the datagrams that were
  handed over and the error that stopped the loop, if any.  Integers divide towards zero.
\<close>

function fragLoop :: "(bytes \<Rightarrow> 'e option) \<Rightarrow> int \<Rightarrow> bytes \<Rightarrow> tuic_packet \<Rightarrow> int \<Rightarrow> 8 word \<Rightarrow> (bytes list \<times> 'e option) outcome" where
  "fragLoop send fragSize fullPayload p off fragID =
     (if off < int (length fullPayload) then
        let payloadSize = int (length fullPayload) - off;
            payloadSize = (if payloadSize > fragSize then fragSize else payloadSize) in
        rbind (go_slice fullPayload off (off + payloadSize)) (\<lambda>piece.
        let frag = p\<lparr>FRAG_ID := fragID, SIZE := word_of_int payloadSize, DATA := piece\<rparr>;
            data = writePacket frag in
        case send data of
          Some e \<Rightarrow> Inr ([data], Some e)
        | None \<Rightarrow>
            if payloadSize = 0 then Inl Diverges
            else
              rbind (fragLoop send fragSize fullPayload (p\<lparr>packetAddr := (packetAddr p)\<lparr>addrType := AtypNone\<rparr>\<rparr>)
                  (off + payloadSize) (fragID + 1)) (\<lambda>(sent, e).
              Inr (data # sent, e)))
      else Inr ([], None))"
  by pat_completeness auto
termination
  by (relation "measure (\<lambda>(send, fs, d, p, off, i). nat (int (length d) - off))")
    (auto simp: go_slice_def split: if_splits)

declare fragLoop.simps [simp del]

definition fragWriteNative :: "(bytes \<Rightarrow> 'e option) \<Rightarrow> tuic_packet \<Rightarrow> int \<Rightarrow> (bytes list \<times> 'e option) outcome" where
  "fragWriteNative send p fragSize =
     (let fullPayload = DATA p in
      if fragSize = 0 then Inl (Panic ''integer divide by zero'')
      else
        let fragCount = word_of_int ((int (length fullPayload) + fragSize - 1) sdiv fragSize) in
        fragLoop send fragSize fullPayload (p\<lparr>FRAG_TOTAL := fragCount\<rparr>) 0 0)"

subsection \<open>Putting together\<close>

record packet_bag =
  frags :: "tuic_packet option list"
  bagCount :: "8 word"

type_synonym bag_cache = "(16 word, packet_bag) lru_cache"

definition newPacketBag :: packet_bag where
  "newPacketBag = \<lparr>frags = [], bagCount = 0\<rparr>"

text \<open>The cache is made at the first use.\<close>

definition initDeFragger :: "bag_cache option \<Rightarrow> bag_cache" where
  "initDeFragger d = (case d of None \<Rightarrow> newLru [WithAge 10, WithUpdateAgeOnGet] | Some l \<Rightarrow> l)"

text \<open>The bag is a pointer: a write to it changes the value in the cache and neither its age nor the order.\<close>

definition writeBag :: "16 word \<Rightarrow> packet_bag \<Rightarrow> bag_cache \<Rightarrow> bag_cache" where
  "writeBag k bag l =
     (case cache l k of
        None \<Rightarrow> l
      | Some le \<Rightarrow> l\<lparr>lru := writeElement le (\<lambda>e. e\<lparr>evalue := bag\<rparr>) (lru l)\<rparr>)"

definition assemble :: "tuic_packet option list \<Rightarrow> tuic_packet outcome" where
  "assemble fs =
     rbind (if None \<in> set fs then Inl (Panic ''nil dereference'') else Inr (concat (map (\<lambda>f. DATA (the f)) fs))) (\<lambda>d.
     rbind (go_get fs 0) (\<lambda>f.
     Inr ((the f)\<lparr>SIZE := word_of_nat (length d), DATA := d, FRAG_ID := 0, FRAG_TOTAL := 1\<rparr>)))"

definition Feed :: "int \<Rightarrow> tuic_packet \<Rightarrow> bag_cache option \<Rightarrow> (tuic_packet option \<times> bag_cache option) outcome" where
  "Feed now m d =
     (if FRAG_TOTAL m \<le> 1 then Inr (Some m, d)
      else if FRAG_ID m \<ge> FRAG_TOTAL m then Inr (None, d)
      else
        case GetOrStore now (PKT_ID m) (\<lambda>_. newPacketBag) (initDeFragger d) of
          ((bag, _), _, l) \<Rightarrow>
            if unat (FRAG_TOTAL m) \<noteq> length (frags bag) then
              rbind (go_set (replicate (unat (FRAG_TOTAL m)) None) (uint (FRAG_ID m)) (Some m)) (\<lambda>fs.
              Inr (None, Some (writeBag (PKT_ID m) \<lparr>frags = fs, bagCount = 1\<rparr> l)))
            else
              rbind (go_get (frags bag) (uint (FRAG_ID m))) (\<lambda>old.
              if old \<noteq> None then Inr (None, Some l)
              else
                rbind (go_set (frags bag) (uint (FRAG_ID m)) (Some m)) (\<lambda>fs.
                let n = bagCount bag + 1 in
                if unat n \<noteq> length fs then Inr (None, Some (writeBag (PKT_ID m) \<lparr>frags = fs, bagCount = n\<rparr> l))
                else
                  rbind (assemble fs) (\<lambda>p.
                  case lruDelete (PKT_ID m) (writeBag (PKT_ID m) \<lparr>frags = [], bagCount = n\<rparr> l) of
                    (_, l) \<Rightarrow> Inr (Some p, Some l)))))"

subsection \<open>The packet connection\<close>

text \<open>
  The connection keeps whether it is closed, and whether it has an input of its own (that of a client
  has, that of a server has the flag of its peer instead).  What goes to the QUIC connection are
  datagrams and one-way streams, each of which may fail; the callbacks for the failures are outside the model.
\<close>

datatype (plugins only: code size) relay_mode = QUIC | NATIVE

datatype (plugins only: code size) write_error = TooLarge int | NetClosed | WrongAddress string | SendFailed string

datatype (plugins only: code size) frame = Datagram bytes | UniStream bytes

record packet_conn =
  connId :: "16 word"
  hasInput :: bool
  relayMode :: relay_mode
  maxUdpRelayPacketSize :: int
  writeClosed :: "bool option"
  closeErr :: "write_error option"
  connClosed :: bool

definition Close :: "(bytes \<Rightarrow> write_error option) \<Rightarrow> packet_conn \<Rightarrow> write_error option \<times> frame list \<times> packet_conn" where
  "Close stream q =
     (if connClosed q then (closeErr q, [], q)
      else
        let q = q\<lparr>connClosed := True\<rparr> in
        if hasInput q then
          let data = writeDissociate (NewDissociate (connId q)); err = stream data in
          (err, [UniStream data], q\<lparr>hasInput := False, closeErr := err\<rparr>)
        else (None, [], q\<lparr>closeErr := None\<rparr>))"

definition WriteTo ::
  "(bytes \<Rightarrow> write_error option) \<Rightarrow> (bytes \<Rightarrow> write_error option) \<Rightarrow> 16 word \<Rightarrow> address checked \<Rightarrow> bytes \<Rightarrow> packet_conn \<Rightarrow>
   ((int \<times> write_error option) \<times> frame list \<times> packet_conn) outcome" where
  "WriteTo datagram stream pktId target p q =
     (if int (length p) > 0xffff then Inr ((0, Some (TooLarge 0xffff)), [], q)
      else if connClosed q then Inr ((0, Some NetClosed), [], q)
      else if writeClosed q = Some True then
        (case Close stream q of (_, out, q) \<Rightarrow> Inr ((0, Some NetClosed), out, q))
      else
        case target of
          Inl e \<Rightarrow> Inr ((0, Some (WrongAddress e)), [], q)
        | Inr a \<Rightarrow>
            let packet = NewPacket (connId q) pktId 1 0 (word_of_nat (length p)) a p; data = writePacket packet in
            (case relayMode q of
               QUIC \<Rightarrow>
                 (case stream data of
                    Some e \<Rightarrow> Inr ((0, Some e), [UniStream data], q)
                  | None \<Rightarrow> Inr ((int (length p), None), [UniStream data], q))
             | NATIVE \<Rightarrow>
                 rbind (if int (length p) > maxUdpRelayPacketSize q
                        then fragWriteNative datagram packet (maxUdpRelayPacketSize q)
                        else Inr ([data], datagram data)) (\<lambda>(sent, err).
                 rbind (case err of
                          Some (TooLarge n) \<Rightarrow> fragWriteNative datagram packet (n - PacketOverHead)
                        | _ \<Rightarrow> Inr ([], err)) (\<lambda>(sent', err).
                 Inr ((if err = None then int (length p) else 0, err), map Datagram (sent @ sent'), q)))))"

text \<open>
  The next packet of the input: messages are read and put together until a packet is whole.  \<open>clock\<close>
  is the time of each message, and the address is the bytes and the port that \<^verbatim>\<open>UDPAddr\<close> takes.
\<close>

lemma ReadPacket_shorter: "ReadPacket bs = Inr (c, rest) \<Longrightarrow> length rest < length bs"
  by (auto simp: packets_one_form writePacket_def writeHead_def)

function WaitReadFrom :: "(nat \<Rightarrow> int) \<Rightarrow> bag_cache option \<Rightarrow> bytes \<Rightarrow>
    ((bytes \<times> bytes \<times> 16 word) \<times> bag_cache option) reading" where
  "WaitReadFrom clock d bs =
     (case ReadPacket bs of
        Inl e \<Rightarrow> Inl e
      | Inr (packet, bs) \<Rightarrow>
          (case Feed (clock 0) packet d of
             Inl a \<Rightarrow> Inl (ReadPanic a)
           | Inr (Some p, d) \<Rightarrow> Inr (((DATA p, addrBytes (packetAddr p), addrPort (packetAddr p)), d), bs)
           | Inr (None, d) \<Rightarrow> WaitReadFrom (\<lambda>i. clock (Suc i)) d bs))"
  by pat_completeness auto
termination
  by (relation "measure (\<lambda>(clock, d, bs). length bs)") (auto dest: ReadPacket_shorter)

declare WaitReadFrom.simps [simp del]

text \<open>\<^verbatim>\<open>ReadFrom\<close> copies the data into the buffer of the caller, as much of it as fits.\<close>

definition ReadFrom :: "(nat \<Rightarrow> int) \<Rightarrow> bytes \<Rightarrow> bag_cache option \<Rightarrow> bytes \<Rightarrow>
    ((int \<times> bytes \<times> bytes \<times> 16 word) \<times> bag_cache option) reading" where
  "ReadFrom clock p d bs =
     rbind (WaitReadFrom clock d bs) (\<lambda>(((dat, a, port), d), bs).
     Inr (((int (min (length p) (length dat)), go_copy p dat, a, port), d), bs))"

end
