(* ===== verification/TuicServer.thy ===== *)
theory TuicServer
  imports TuicFrag
begin

text \<open>
  The server side of one TUIC version 5 connection (\<^verbatim>\<open>mihomo/transport/tuic/v5/server.go\<close>, and the
  choice of the version in \<^verbatim>\<open>mihomo/transport/tuic/server.go\<close>).  Every message is handled by a goroutine
  of its own, which waits for the authentication when it has something to relay; a goroutine is
  a task that waits, and the steps of the goroutines come in any order.
\<close>

datatype (plugins only: code size) task = WaitPacket tuic_packet relay_mode | WaitStream connect

text \<open>What the handler does to the outside; the user is the identifier that was authenticated.\<close>

datatype (plugins only: code size) server_effect =
    AuthenticationFailed
  | AuthenticationTimeout
  | CloseStream
  | HandleTcp bytes "bytes option"
  | HandleUdp bytes tuic_packet "16 word" relay_mode "bytes option"

record udp_input =
  inputClosed :: bool
  deFragger :: "bag_cache option"

text \<open>\<open>authDone\<close> is that \<^verbatim>\<open>authOnce\<close> has run, which ends with closing \<^verbatim>\<open>authCh\<close>.\<close>

record server_handler =
  serverUsers :: "bytes \<Rightarrow> string option"
  authDone :: bool
  authOk :: bool
  authUUID :: "bytes option"
  udpInputMap :: "16 word \<Rightarrow> udp_input option"
  waiting :: "task list"

definition NewServerHandler :: "(bytes \<Rightarrow> string option) \<Rightarrow> server_handler" where
  "NewServerHandler us =
     \<lparr>serverUsers = us, authDone = False, authOk = False, authUUID = None, udpInputMap = (\<lambda>_. None), waiting = []\<rparr>"

datatype (plugins only: code size) handler_error = ReadFailed message_error | TokenFailed

definition orReadFailed :: "message_error + 'a \<Rightarrow> handler_error + 'a" where
  "orReadFailed m = (case m of Inl e \<Rightarrow> Inl (ReadFailed e) | Inr x \<Rightarrow> Inr x)"

definition HandleTimeout :: "server_handler \<Rightarrow> server_effect list \<times> server_handler" where
  "HandleTimeout s =
     (if authDone s then ([], s) else ([AuthenticationTimeout], s\<lparr>authOk := False, authDone := True\<rparr>))"

definition waitFor :: "task \<Rightarrow> server_handler \<Rightarrow> server_handler" where
  "waitFor t s = s\<lparr>waiting := waiting s @ [t]\<rparr>"

text \<open>The handlers up to the point where they wait, or to their end.\<close>

definition HandleMessage :: "bytes \<Rightarrow> server_handler \<Rightarrow> handler_error + server_handler" where
  "HandleMessage message s =
     rbind (orReadFailed (ReadCommandHead message)) (\<lambda>(head, bs).
     if cmdType head = PacketType then
       rbind (orReadFailed (ReadPacketWithHead head bs)) (\<lambda>(p, _). Inr (waitFor (WaitPacket p NATIVE) s))
     else if cmdType head = HeartbeatType then
       rbind (orReadFailed (ReadHeartbeatWithHead head bs)) (\<lambda>_. Inr s)
     else Inr s)"

definition HandleStream :: "bytes \<Rightarrow> server_handler \<Rightarrow> handler_error + server_handler" where
  "HandleStream bs s = rbind (orReadFailed (ReadConnect bs)) (\<lambda>(c, _). Inr (waitFor (WaitStream c) s))"

text \<open>The first decision about the connection is the only one.\<close>

definition decideOnce :: "bool \<Rightarrow> bytes \<Rightarrow> server_handler \<Rightarrow> server_effect list \<times> server_handler" where
  "decideOnce ok uuid s =
     (if authDone s then ([], s)
      else (if ok then [] else [AuthenticationFailed], s\<lparr>authOk := ok, authUUID := Some uuid, authDone := True\<rparr>))"

definition checkToken :: "(bytes \<Rightarrow> string \<Rightarrow> bytes option) \<Rightarrow> authenticate \<Rightarrow> server_handler \<Rightarrow> handler_error + bool \<times> bytes" where
  "checkToken export a s =
     (case serverUsers s (UUID a) of
        None \<Rightarrow> Inr (False, replicate 16 0)
      | Some password \<Rightarrow>
          (case GenToken export (UUID a) password of
             None \<Rightarrow> Inl TokenFailed
           | Some token \<Rightarrow> Inr (if token = TOKEN a then (True, UUID a) else (False, replicate 16 0))))"

definition HandleUniStream ::
  "(bytes \<Rightarrow> string \<Rightarrow> bytes option) \<Rightarrow> bytes \<Rightarrow> server_handler \<Rightarrow> handler_error + server_effect list \<times> server_handler" where
  "HandleUniStream export bs s =
     rbind (orReadFailed (ReadCommandHead bs)) (\<lambda>(head, bs).
     if cmdType head = AuthenticateType then
       rbind (orReadFailed (ReadAuthenticateWithHead head bs)) (\<lambda>(a, _).
       rbind (checkToken export a s) (\<lambda>(ok, uuid). Inr (decideOnce ok uuid s)))
     else if cmdType head = PacketType then
       rbind (orReadFailed (ReadPacketWithHead head bs)) (\<lambda>(p, _). Inr ([], waitFor (WaitPacket p QUIC) s))
     else if cmdType head = DissociateType then
       rbind (orReadFailed (ReadDissociateWithHead head bs)) (\<lambda>(c, _).
       Inr ([], s\<lparr>udpInputMap := (udpInputMap s)(dissociateID c := None)\<rparr>))
     else Inr ([], s))"

text \<open>
  What follows the wait.  The flag of an input is set when the input leaves the map, so that an input
  of the map is open.
\<close>

definition parsePacket :: "int \<Rightarrow> tuic_packet \<Rightarrow> relay_mode \<Rightarrow> server_handler \<Rightarrow> (server_effect list \<times> server_handler) outcome" where
  "parsePacket now p udpRelayMode s =
     (if \<not> authOk s then Inr ([], s)
      else
        let assocId = ASSOC_ID p;
            input = (case udpInputMap s assocId of Some i \<Rightarrow> i | None \<Rightarrow> \<lparr>inputClosed = False, deFragger = None\<rparr>) in
        if inputClosed input then Inr ([], s\<lparr>udpInputMap := (udpInputMap s)(assocId := Some input)\<rparr>)
        else
          rbind (Feed now p (deFragger input)) (\<lambda>(out, d).
          let s = s\<lparr>udpInputMap := (udpInputMap s)(assocId := Some (input\<lparr>deFragger := d\<rparr>))\<rparr> in
          case out of
            None \<Rightarrow> Inr ([], s)
          | Some p \<Rightarrow> Inr ([HandleUdp (SocksAddr (packetAddr p)) p assocId udpRelayMode (authUUID s)], s)))"

definition resumeTask :: "int \<Rightarrow> task \<Rightarrow> server_handler \<Rightarrow> (server_effect list \<times> server_handler) outcome" where
  "resumeTask now t s =
     (case t of
        WaitPacket p mode \<Rightarrow> parsePacket now p mode s
      | WaitStream c \<Rightarrow>
          if \<not> authOk s then Inr ([CloseStream], s)
          else Inr ([HandleTcp (SocksAddr (connectAddr c)) (authUUID s)], s))"

subsection \<open>The connection\<close>

text \<open>
  What happens on a connection: bytes of each kind arrive, the timer runs out when nobody is
  authenticated, and the \<open>i\<close>th goroutine that waits goes on.  A handler that fails changes nothing; a
  panic ends the program.
\<close>

datatype (plugins only: code size) server_event =
    MessageIn bytes
  | UniStreamIn bytes
  | StreamIn bytes
  | TimerOut
  | Resume nat int

definition isVersion5 :: "bytes \<Rightarrow> bool" where
  "isVersion5 bs \<longleftrightarrow> bs \<noteq> [] \<and> hd bs = VER5"

definition orNothing :: "server_handler \<Rightarrow> handler_error + server_effect list \<times> server_handler \<Rightarrow> (server_effect list \<times> server_handler) outcome" where
  "orNothing s m =
     (case m of Inl (ReadFailed (ReadPanic a)) \<Rightarrow> Inl a | Inl _ \<Rightarrow> Inr ([], s) | Inr r \<Rightarrow> Inr r)"

definition serve :: "(bytes \<Rightarrow> string \<Rightarrow> bytes option) \<Rightarrow> server_event \<Rightarrow> server_handler \<Rightarrow> (server_effect list \<times> server_handler) outcome" where
  "serve export e s =
     (case e of
        MessageIn bs \<Rightarrow> if isVersion5 bs then orNothing s (rbind (HandleMessage bs s) (\<lambda>s. Inr ([], s))) else Inr ([], s)
      | UniStreamIn bs \<Rightarrow> if isVersion5 bs then orNothing s (HandleUniStream export bs s) else Inr ([], s)
      | StreamIn bs \<Rightarrow> if isVersion5 bs then orNothing s (rbind (HandleStream bs s) (\<lambda>s. Inr ([], s))) else Inr ([], s)
      | TimerOut \<Rightarrow> Inr (if authOk s then ([], s) else HandleTimeout s)
      | Resume i now \<Rightarrow>
          if authDone s \<and> i < length (waiting s) then
            resumeTask now (waiting s ! i) (s\<lparr>waiting := take i (waiting s) @ drop (Suc i) (waiting s)\<rparr>)
          else Inr ([], s))"

fun serveAll :: "(bytes \<Rightarrow> string \<Rightarrow> bytes option) \<Rightarrow> server_event list \<Rightarrow> server_handler \<Rightarrow> (server_effect list \<times> server_handler) outcome" where
  "serveAll export [] s = Inr ([], s)"
| "serveAll export (e # es) s =
     rbind (serve export e s) (\<lambda>(out, s). rbind (serveAll export es s) (\<lambda>(out', s). Inr (out @ out', s)))"

end
