(* ===== verification/TuicFragSpec.thy ===== *)
theory TuicFragSpec
  imports TuicFrag LruSpec "HOL-Library.Multiset"
begin

text \<open>
  What the fragments of a packet become: the reassembly is a map from packet numbers to the pieces
  that have come, and a packet that is cut, sent and read in any order is whole again.
\<close>

subsection \<open>The values of a cache that are still alive\<close>

definition aliveE :: "int \<Rightarrow> ('k \<times> 'v \<times> int) list \<Rightarrow> 'k \<Rightarrow> 'v option" where
  "aliveE t E k = (case map_of E k of Some (v, x) \<Rightarrow> if t < x then Some v else None | None \<Rightarrow> None)"

definition alive :: "int \<Rightarrow> ('k, 'v) lru_cache \<Rightarrow> 'k \<Rightarrow> 'v option" where
  "alive t l = aliveE t (contents l)"

lemma keys_distinct: "lru_inv l \<Longrightarrow> distinct (map fst (contents l))"
  by (simp add: lru_inv_def contents_def o_def split_beta)

lemma alive_delete: "aliveE t (AList.delete k E) j = (if j = k then None else aliveE t E j)"
  by (simp add: aliveE_def delete_conv')

lemma alive_touch: "aliveE t (touch k (v, x) E) j = (if j = k then if t < x then Some v else None else aliveE t E j)"
  by (auto simp: touch_def aliveE_def map_of_append delete_conv' map_add_def split: option.splits)

lemma alive_dropWhile:
  assumes "distinct (map fst E)" "now \<le> t"
  shows "aliveE t (dropWhile (\<lambda>(k, v, e). a \<and> e \<le> now) E) j = aliveE t E j"
  using assms
proof (induction E)
  case (Cons y E)
  obtain k v e where y: "y = (k, v, e)" by (cases y)
  have "map_of E k = None" using Cons.prems(1) y by (auto simp: map_of_eq_None_iff)
  then have dead: "aliveE t (y # E) j = aliveE t E j" if "e \<le> now"
    using that assms(2) y by (simp add: aliveE_def)
  show ?case
  proof (cases "a \<and> e \<le> now")
    case True
    then show ?thesis using Cons y dead by simp
  qed (use y in auto)
qed simp

lemma alive_expire: "distinct (map fst E) \<Longrightarrow> now \<le> t \<Longrightarrow> aliveE t (snd (ref_expire a now E)) j = aliveE t E j"
  unfolding ref_expire_def Let_def snd_conv by (rule alive_dropWhile)

lemma distinct_touch: "distinct (map fst E) \<Longrightarrow> distinct (map fst (touch k x E))"
  by (auto simp: touch_def delete_filter distinct_map_filter)

lemma alive_get:
  assumes "lru_inv l" "ages l" "updateAgeOnGet l" "lru_get now k l = (el, out, l')"
  shows "lru_inv l' \<and> same_config l l' \<and> map_option evalue el = alive now l k \<and>
    (\<forall>t\<ge>now. \<forall>j. alive t l' j = (if j = k then (if t < now + maxAge l then alive now l k else None) else alive t l j))"
proof -
  have s: "simulates l (map_option (\<lambda>e. (evalue e, expires e)) el, out, l') (ref_get l now k (contents l))"
    using lru_get_ok [OF assms(1), of now k] assms(4) by simp
  have d: "distinct (map fst (contents l))" by (rule keys_distinct [OF assms(1)])
  show ?thesis
  proof (cases "map_of (contents l) k")
    case None
    then show ?thesis using s by (auto simp: simulates_def ref_get_def alive_def aliveE_def)
  next
    case (Some p)
    obtain v x where p: "p = (v, x)" by (cases p)
    show ?thesis
    proof (cases "x \<le> now")
      case True
      then have "contents l' = snd (ref_expire True now (AList.delete k (contents l)))" "el = None"
        using s Some p assms(2) by (auto simp: simulates_def ref_get_def split_beta)
      then show ?thesis
        using s True Some p alive_expire [of "AList.delete k (contents l)" now] d
        by (auto simp: simulates_def alive_def alive_delete distinct_delete) (auto simp: aliveE_def)
    next
      case False
      have "maxAge l > 0" using assms(2) by (simp add: ages_def)
      then have "contents l' = touch k (v, now + maxAge l) (contents l)" "map_option evalue el = Some v"
        using s False Some p assms(2,3) by (auto simp: simulates_def ref_get_def Let_def)
      then show ?thesis
        using s False Some p by (auto simp: simulates_def alive_def alive_touch) (auto simp: aliveE_def)
    qed
  qed
qed

lemma alive_set:
  assumes "lru_inv l" "ages l" "maxSize l \<le> 0" "lru_set now k v l = (out, l')"
  shows "lru_inv l' \<and> same_config l l' \<and>
    (\<forall>t\<ge>now. \<forall>j. alive t l' j = (if j = k then (if t < now + maxAge l then Some v else None) else alive t l j))"
proof -
  have "maxAge l > 0" using assms(2) by (simp add: ages_def)
  then have "lru_inv l' \<and> same_config l l' \<and> contents l' = snd (ref_expire True now (touch k (v, now + maxAge l) (contents l)))"
    using lru_set_ok [OF assms(1), of now k v] assms by (auto simp: simulates_def ref_set_def Let_def split_beta)
  then show ?thesis
    using alive_expire [OF distinct_touch [OF keys_distinct [OF assms(1)]], of now] by (simp add: alive_def alive_touch)
qed

lemma alive_lruDelete:
  assumes "lru_inv l" "lruDelete k l = (out, l')"
  shows "lru_inv l' \<and> same_config l l' \<and> (\<forall>t j. alive t l' j = (if j = k then None else alive t l j))"
  using lruDelete_ok [OF assms(1), of k] assms(2) by (auto simp: simulates_def ref_delete_def alive_def alive_delete)

lemma alive_GetOrStore:
  assumes "lru_inv l" "ages l" "updateAgeOnGet l" "maxSize l \<le> 0" "GetOrStore now k f l = ((v, b), out, l')"
  shows "lru_inv l' \<and> same_config l l' \<and> v = (case alive now l k of Some v \<Rightarrow> v | None \<Rightarrow> f ()) \<and>
    (\<forall>t\<ge>now. \<forall>j. alive t l' j = (if j = k then (if t < now + maxAge l then Some v else None) else alive t l j))"
proof -
  obtain el out1 l1 where g: "lru_get now k l = (el, out1, l1)" by (metis prod_cases3)
  note a = alive_get [OF assms(1-3) g]
  show ?thesis
  proof (cases el)
    case None
    then obtain out2 where s: "lru_set now k (f ()) l1 = (out2, l')" and v: "v = f ()"
      using assms(5) g by (auto simp: GetOrStore_def Let_def split: prod.splits)
    have c: "ages l1" "maxSize l1 \<le> 0" "maxAge l1 = maxAge l" using a assms by (auto simp: same_config_def ages_def)
    have "lru_inv l1" using a by blast
    note b = alive_set [OF this c(1,2) s]
    show ?thesis using a b c(3) v None by (auto simp: same_config_def)
  next
    case (Some e)
    then have "l' = l1" "v = evalue e" using assms(5) g by (auto simp: GetOrStore_def)
    then show ?thesis using a Some by (auto simp: eq_commute [of "Some (evalue e)"])
  qed
qed

lemma alive_write:
  assumes "lru_inv l"
  shows "lru_inv (writeBag k bag l) \<and> same_config l (writeBag k bag l) \<and>
    (\<forall>t j. alive t (writeBag k bag l) j = (if j = k then map_option (\<lambda>_. bag) (alive t l k) else alive t l j))"
proof (cases "cache l k")
  case None
  then have "alive t l k = None" for t using assms by (simp add: alive_def aliveE_def map_of_contents)
  then show ?thesis using None assms by (simp add: writeBag_def)
next
  case (Some le)
  have e: "ekey e = k \<longleftrightarrow> h = le" if "(h, e) \<in> set (lru l)" for h e
    using cache_iff [OF assms Some that] by simp
  let ?l = "l\<lparr>lru := writeElement le (\<lambda>e. e\<lparr>evalue := bag\<rparr>) (lru l)\<rparr>"
  have c: "contents ?l = map (\<lambda>(j, v, x). (j, if j = k then bag else v, x)) (contents l)"
    by (auto simp: contents_def writeElement_def e)
  have m: "map_of (map (\<lambda>(j, v, x). (j, if j = k then bag else v, x)) E) j =
      map_option (\<lambda>(v, x). (if j = k then bag else v, x)) (map_of E j)" for E :: "('b \<times> packet_bag \<times> int) list" and j k bag
    by (induction E) auto
  have "map fst (lru ?l) = map fst (lru l)" "map (ekey \<circ> snd) (lru ?l) = map (ekey \<circ> snd) (lru l)"
    "map (\<lambda>(h, e). (ekey e, h)) (lru ?l) = map (\<lambda>(h, e). (ekey e, h)) (lru l)" "length (lru ?l) = length (lru l)"
    by (auto simp: writeElement_def)
  moreover from this(1) have "fst ` set (lru ?l) = fst ` set (lru l)" by (metis set_map)
  ultimately have "lru_inv ?l" using assms by (simp add: lru_inv_def)
  then show ?thesis
    using Some by (auto simp: writeBag_def same_config_def alive_def aliveE_def c m split: option.splits)
qed

subsection \<open>The reassembly as a map of pieces\<close>

definition joined :: "tuic_packet option list \<Rightarrow> tuic_packet" where
  "joined fs = (let d = concat (map (\<lambda>f. DATA (the f)) fs) in
     (the (hd fs))\<lparr>SIZE := word_of_nat (length d), DATA := d, FRAG_ID := 0, FRAG_TOTAL := 1\<rparr>)"

text \<open>The pieces that have come of a packet, before and after one more of them.\<close>

definition addPiece :: "tuic_packet \<Rightarrow> tuic_packet option list \<Rightarrow> tuic_packet option \<times> tuic_packet option list" where
  "addPiece m fs =
     (let n = unat (FRAG_TOTAL m); i = unat (FRAG_ID m) in
      if n \<noteq> length fs then (None, (replicate n None)[i := Some m])
      else if fs ! i \<noteq> None then (None, fs)
      else
        let fs = fs[i := Some m] in
        if None \<in> set fs then (None, fs) else (Some (joined fs), []))"

definition bagOk :: "packet_bag \<Rightarrow> bool" where
  "bagOk b \<longleftrightarrow> frags b = [] \<or>
     length (frags b) < 256 \<and> unat (bagCount b) = length (filter (\<lambda>f. f \<noteq> None) (frags b)) \<and> None \<in> set (frags b)"

definition cacheOk :: "bag_cache \<Rightarrow> bool" where
  "cacheOk l \<longleftrightarrow> lru_inv l \<and> maxAge l = 10 \<and> updateAgeOnGet l \<and> maxSize l = 0 \<and> \<not> staleReturn l \<and> valuesOk bagOk l"

definition deFraggerOk :: "bag_cache option \<Rightarrow> bool" where
  "deFraggerOk d \<longleftrightarrow> (case d of None \<Rightarrow> True | Some l \<Rightarrow> cacheOk l)"

definition pieces :: "int \<Rightarrow> bag_cache option \<Rightarrow> 16 word \<Rightarrow> tuic_packet option list" where
  "pieces t d k = (case d of None \<Rightarrow> [] | Some l \<Rightarrow> (case alive t l k of None \<Rightarrow> [] | Some b \<Rightarrow> frags b))"

lemma newPacketBag_ok: "bagOk newPacketBag"
  by (simp add: bagOk_def newPacketBag_def)

lemma init_ok:
  "deFraggerOk d \<Longrightarrow> cacheOk (initDeFragger d)" "pieces t (Some (initDeFragger d)) k = pieces t d k"
  by (auto simp: deFraggerOk_def cacheOk_def initDeFragger_def newLru_def lruClear_def lru_inv_def valuesOk_def pieces_def alive_def aliveE_def contents_def
      split: option.splits)

lemma init_pieces: "(case alive t (initDeFragger d) k of None \<Rightarrow> [] | Some b \<Rightarrow> frags b) = pieces t d k"
  using init_ok(2) [of t d k] by (simp add: pieces_def)

lemma alive_ok: "valuesOk P l \<Longrightarrow> alive t l k = Some v \<Longrightarrow> P v"
  by (force simp: valuesOk_def alive_def aliveE_def contents_def split: option.splits if_splits dest!: map_of_SomeD)

lemma values_writeBag: "valuesOk P l \<Longrightarrow> P bag \<Longrightarrow> valuesOk P (writeBag k bag l)"
  by (auto simp: valuesOk_def writeBag_def writeElement_def split: option.splits)

lemma GetOrStore_ok:
  assumes "cacheOk l" "GetOrStore now k (\<lambda>_. newPacketBag) l = ((v, b), out, l')"
  shows "cacheOk l' \<and> bagOk v \<and> v = (case alive now l k of Some v \<Rightarrow> v | None \<Rightarrow> newPacketBag) \<and>
    (\<forall>t\<ge>now. \<forall>j. alive t l' j = (if j = k then (if t < now + 10 then Some v else None) else alive t l j))"
proof -
  have l: "lru_inv l" "ages l" "updateAgeOnGet l" "maxSize l \<le> 0" "maxAge l = 10" "valuesOk bagOk l"
    using assms(1) by (auto simp: cacheOk_def ages_def)
  note a = alive_GetOrStore [OF l(1-4) assms(2)]
  have "bagOk v"
  proof (cases "alive now l k")
    case None then show ?thesis using a newPacketBag_ok by simp
  next
    case (Some b) then show ?thesis using a alive_ok [OF l(6) Some] by simp
  qed
  moreover have "valuesOk bagOk l'"
  proof -
    obtain el out1 l1 where g: "lru_get now k l = (el, out1, l1)" by (metis prod_cases3)
    have l1: "valuesOk bagOk l1" using values_get [OF l(6) g] by simp
    show ?thesis
    proof (cases el)
      case None
      then obtain out2 where "lru_set now k newPacketBag l1 = (out2, l')"
        using assms(2) g by (auto simp: GetOrStore_def Let_def split: prod.splits)
      then show ?thesis by (rule values_set [OF l1 newPacketBag_ok])
    qed (use assms(2) g l1 in \<open>simp add: GetOrStore_def\<close>)
  qed
  moreover have "\<forall>t\<ge>now. \<forall>j. alive t l' j = (if j = k then (if t < now + 10 then Some v else None) else alive t l j)"
    using a unfolding l(5) by blast
  moreover have "lru_inv l'" "same_config l l'" "v = (case alive now l k of Some v \<Rightarrow> v | None \<Rightarrow> newPacketBag)"
    using a by blast+
  ultimately show ?thesis using assms(1) by (simp add: cacheOk_def same_config_def)
qed

lemma write_ok:
  assumes "cacheOk l" "bagOk bag"
  shows "cacheOk (writeBag k bag l)"
  using assms alive_write [of l k bag] by (auto simp: cacheOk_def same_config_def values_writeBag)

lemma assemble_joined: "None \<notin> set fs \<Longrightarrow> fs \<noteq> [] \<Longrightarrow> assemble fs = Inr (joined fs)"
  by (auto simp: assemble_def joined_def go_get_def Let_def hd_conv_nth)

lemma count_set:
  "i < length fs \<Longrightarrow> fs ! i = None \<Longrightarrow>
    length (filter (\<lambda>f. f \<noteq> None) (fs[i := Some m])) = Suc (length (filter (\<lambda>f. f \<noteq> None) fs))"
  by (induction fs arbitrary: i) (auto split: nat.splits simp: less_Suc_eq_0_disj)

lemma count_full: "length (filter (\<lambda>f. f \<noteq> None) fs) = length fs \<longleftrightarrow> None \<notin> set fs"
  by (metis (mono_tags, lifting) filter_id_conv filter_True length_filter_less less_irrefl)

lemma bag_first: "i < n \<Longrightarrow> 1 < n \<Longrightarrow> n < 256 \<Longrightarrow> bagOk \<lparr>frags = (replicate n None)[i := Some m], bagCount = 1\<rparr>"
  using count_set [of i "replicate n None" m] count_full [of "(replicate n None)[i := Some m]"] by (simp add: bagOk_def)

lemma bag_next:
  assumes "bagOk bag" "i < length (frags bag)" "frags bag ! i = None"
  shows "unat (bagCount bag + 1) = length (filter (\<lambda>f. f \<noteq> None) ((frags bag)[i := Some m]))"
proof -
  let ?n = "length (filter (\<lambda>f. f \<noteq> None) ((frags bag)[i := Some m]))"
  have "?n \<le> length (frags bag)" by (metis length_filter_le length_list_update)
  then have "?n < 256" "?n = Suc (unat (bagCount bag))"
    using assms count_set [OF assms(2,3), of m] by (auto simp: bagOk_def)
  then show ?thesis by (simp add: unat_word_ariths)
qed

lemma go_index_byte:
  fixes i :: "8 word"
  assumes "unat i < length xs"
  shows "go_get xs (uint i) = Inr (xs ! unat i)" "go_set xs (uint i) x = Inr (xs[unat i := x])"
proof -
  have "nat (uint i) = unat i" "0 \<le> uint i" "uint i < int (length xs)" using assms by (simp_all add: nat_less_iff [symmetric])
  then show "go_get xs (uint i) = Inr (xs ! unat i)" "go_set xs (uint i) x = Inr (xs[unat i := x])"
    by (simp_all add: go_get_def go_set_def)
qed

lemma Feed_step:
  assumes "deFraggerOk d" "1 < FRAG_TOTAL m" "FRAG_ID m < FRAG_TOTAL m"
  shows "\<exists>out d'. Feed now m d = Inr (out, d') \<and> deFraggerOk d' \<and> out = fst (addPiece m (pieces now d (PKT_ID m)))
    \<and> (\<forall>t\<ge>now. pieces t d' = (pieces t d)(PKT_ID m := if t < now + 10 then snd (addPiece m (pieces now d (PKT_ID m))) else []))"
proof -
  let ?k = "PKT_ID m" and ?n = "unat (FRAG_TOTAL m)" and ?i = "unat (FRAG_ID m)"
  obtain bag b out l where g: "GetOrStore now ?k (\<lambda>_. newPacketBag) (initDeFragger d) = ((bag, b), out, l)" by (metis surj_pair)
  note ok = GetOrStore_ok [OF init_ok(1) [OF assms(1)] g]
  have n: "1 < ?n" "?i < ?n" "?n < 256"
    using assms(2,3) unsigned_less [of "FRAG_TOTAL m", where 'a = nat] by (auto simp: word_less_nat_alt)
  have fs: "frags bag = pieces now d ?k"
    using ok init_ok(2) [of now d ?k, symmetric] by (auto simp: pieces_def newPacketBag_def split: option.splits)
  have live: "alive t l ?k \<noteq> None \<longleftrightarrow> t < now + 10" if "now \<le> t" for t using ok that by simp
  have l: "pieces t (Some l) = (pieces t d)(?k := if t < now + 10 then frags bag else [])" if "now \<le> t" for t
  proof
    fix j
    have "pieces t d j = (case alive t (initDeFragger d) j of None \<Rightarrow> [] | Some b \<Rightarrow> frags b)" by (rule init_pieces [symmetric])
    then show "pieces t (Some l) j = ((pieces t d)(?k := if t < now + 10 then frags bag else [])) j"
      using ok that by (simp add: pieces_def)
  qed
  have w: "pieces t (Some (writeBag ?k bag' l)) = (pieces t d)(?k := if t < now + 10 then frags bag' else [])" if "now \<le> t" for t bag'
  proof
    fix j
    have "pieces t d j = (case alive t (initDeFragger d) j of None \<Rightarrow> [] | Some b \<Rightarrow> frags b)" by (rule init_pieces [symmetric])
    moreover have "alive t (writeBag ?k bag' l) j = (if j = ?k then map_option (\<lambda>_. bag') (alive t l ?k) else alive t l j)"
      using alive_write [of l ?k bag'] ok by (simp add: cacheOk_def)
    ultimately show "pieces t (Some (writeBag ?k bag' l)) j = ((pieces t d)(?k := if t < now + 10 then frags bag' else [])) j"
      using ok that by (simp add: pieces_def)
  qed
  have good: "bagOk bag" "cacheOk l" using ok by blast+
  have F: "Feed now m d = (if ?n \<noteq> length (frags bag) then
      Inr (None, Some (writeBag ?k \<lparr>frags = (replicate ?n None)[?i := Some m], bagCount = 1\<rparr> l))
    else if frags bag ! ?i \<noteq> None then Inr (None, Some l)
    else let fs = (frags bag)[?i := Some m]; n = bagCount bag + 1 in
      if unat n \<noteq> length fs then Inr (None, Some (writeBag ?k \<lparr>frags = fs, bagCount = n\<rparr> l))
      else rbind (assemble fs) (\<lambda>p. case lruDelete ?k (writeBag ?k \<lparr>frags = [], bagCount = n\<rparr> l) of (_, l) \<Rightarrow> Inr (Some p, Some l)))"
  proof -
    have "\<not> FRAG_TOTAL m \<le> 1" "\<not> FRAG_TOTAL m \<le> FRAG_ID m" using assms(2,3) by auto
    moreover have "go_set (replicate ?n None) (uint (FRAG_ID m)) (Some m) = Inr ((replicate ?n None)[?i := Some m])"
      by (rule go_index_byte) (simp add: n)
    moreover have "go_get (frags bag) (uint (FRAG_ID m)) = Inr (frags bag ! ?i)"
      "go_set (frags bag) (uint (FRAG_ID m)) (Some m) = Inr ((frags bag)[?i := Some m])" if "?n = length (frags bag)"
      using that n by (auto intro: go_index_byte)
    ultimately show ?thesis
      by (simp only: Feed_def g if_False prod.case rbind_simps Let_def split: if_split) simp
  qed
  show ?thesis
  proof (cases "?n = length (frags bag)")
    case False
    then show ?thesis
      using F w write_ok [of l "\<lparr>frags = (replicate ?n None)[?i := Some m], bagCount = 1\<rparr>"] bag_first [OF n(2,1,3)] good fs
      by (simp add: deFraggerOk_def addPiece_def)
  next
    case len: True
    show ?thesis
    proof (cases "frags bag ! ?i = None")
      case False
      then show ?thesis using F len l good fs by (simp add: deFraggerOk_def addPiece_def)
    next
      case True
      let ?fs = "(frags bag)[?i := Some m]"
      have c: "unat (bagCount bag + 1) = length (filter (\<lambda>f. f \<noteq> None) ?fs)"
        using bag_next [OF good(1), of ?i m] n(2) len True by simp
      then have full: "unat (bagCount bag + 1) = length ?fs \<longleftrightarrow> None \<notin> set ?fs" using count_full [of ?fs] by simp
      show ?thesis
      proof (cases "None \<in> set ?fs")
        case missing: True
        then have "bagOk \<lparr>frags = ?fs, bagCount = bagCount bag + 1\<rparr>" using c n len by (simp add: bagOk_def)
        then show ?thesis
          using F w write_ok [of l] len True missing full good fs by (simp add: deFraggerOk_def addPiece_def Let_def)
      next
        case False
        define l1 where "l1 = writeBag ?k \<lparr>frags = [], bagCount = bagCount bag + 1\<rparr> l"
        obtain out2 l2 where d: "lruDelete ?k l1 = (out2, l2)" by (metis surj_pair)
        have l1: "lru_inv l1" "same_config l l1" using alive_write [of l] good by (auto simp: l1_def cacheOk_def)
        note a = alive_lruDelete [OF l1(1) d]
        have "valuesOk bagOk l1" using good by (simp add: l1_def values_writeBag bagOk_def cacheOk_def)
        then have "deFraggerOk (Some l2)"
          using a l1 good values_lruDelete [OF d] by (simp add: deFraggerOk_def cacheOk_def same_config_def)
        moreover have "pieces t (Some l2) = (pieces t d)(?k := [])" if "now \<le> t" for t
          using a w [OF that, of "\<lparr>frags = [], bagCount = bagCount bag + 1\<rparr>", folded l1_def]
          by (auto simp: pieces_def fun_eq_iff split: if_splits)
        moreover have "?fs \<noteq> []" using n len by auto
        from assemble_joined [OF False this] have "Feed now m d = Inr (Some (joined ?fs), Some l2)"
          using F len True False full d by (simp add: Let_def l1_def)
        ultimately show ?thesis
          using len True False fs by (simp add: addPiece_def Let_def)
      qed
    qed
  qed
qed

text \<open>Packets that are whole, and pieces that cannot be, pass without a trace.\<close>

lemma Feed_outside: "\<not> (1 < FRAG_TOTAL m \<and> FRAG_ID m < FRAG_TOTAL m) \<Longrightarrow>
    Feed now m d = Inr (if FRAG_TOTAL m \<le> 1 then Some m else None, d)"
  by (auto simp: Feed_def)

definition receivePiece :: "tuic_packet \<Rightarrow> tuic_packet option list \<Rightarrow> tuic_packet option \<times> tuic_packet option list" where
  "receivePiece m fs =
     (if FRAG_TOTAL m \<le> 1 then (Some m, fs) else if FRAG_TOTAL m \<le> FRAG_ID m then (None, fs) else addPiece m fs)"

lemma Feed_refines:
  assumes "deFraggerOk d"
  shows "\<exists>out d'. Feed now m d = Inr (out, d') \<and> deFraggerOk d' \<and> out = fst (receivePiece m (pieces now d (PKT_ID m)))
    \<and> (\<forall>t. now \<le> t \<longrightarrow> t < now + 10 \<longrightarrow> pieces t d' = (pieces t d)(PKT_ID m :=
          if 1 < FRAG_TOTAL m \<and> FRAG_ID m < FRAG_TOTAL m then snd (receivePiece m (pieces now d (PKT_ID m))) else pieces t d (PKT_ID m)))"
proof (cases "1 < FRAG_TOTAL m \<and> FRAG_ID m < FRAG_TOTAL m")
  case True
  then have r: "receivePiece m = addPiece m" by (auto simp: receivePiece_def fun_eq_iff)
  obtain out d' where f: "Feed now m d = Inr (out, d')" "deFraggerOk d'" "out = fst (addPiece m (pieces now d (PKT_ID m)))"
    "\<And>t. now \<le> t \<Longrightarrow> pieces t d' = (pieces t d)(PKT_ID m := if t < now + 10 then snd (addPiece m (pieces now d (PKT_ID m))) else [])"
    using Feed_step [OF assms, of m now] True by blast
  show ?thesis
  proof (intro exI conjI allI impI)
    fix t :: int
    assume "now \<le> t" "t < now + 10"
    then show "pieces t d' = (pieces t d)(PKT_ID m := if 1 < FRAG_TOTAL m \<and> FRAG_ID m < FRAG_TOTAL m
        then snd (receivePiece m (pieces now d (PKT_ID m))) else pieces t d (PKT_ID m))"
      using f(4) True by (simp only: r True simp_thms if_True)
  qed (use f in \<open>simp_all add: r\<close>)
next
  case False
  then show ?thesis using Feed_outside [of m now d] assms by (auto simp: receivePiece_def not_less)
qed

text \<open>
  C36: The reassembly refines a map from packet numbers to pieces.  From every state that the code can
  reach, feeding a packet does not panic and keeps the invariant; what comes out, and the pieces that are kept
  for the next ten seconds, are those of \<open>receivePiece\<close>, and the pieces of other packets stay as they are.
\<close>

theorem reassembly_is_a_map_of_pieces:
  assumes "deFraggerOk d"
  shows "\<exists>out d'. Feed now m d = Inr (out, d') \<and> deFraggerOk d' \<and> out = fst (receivePiece m (pieces now d (PKT_ID m)))
    \<and> (\<forall>t. now \<le> t \<longrightarrow> t < now + 10 \<longrightarrow> pieces t d' = (pieces t d)(PKT_ID m :=
          if 1 < FRAG_TOTAL m \<and> FRAG_ID m < FRAG_TOTAL m then snd (receivePiece m (pieces now d (PKT_ID m))) else pieces t d (PKT_ID m)))"
  by (rule Feed_refines [OF assms])

lemma reassembly_is_a_map_of_pieces_witness:
  "\<exists>out d'. Feed 5 (NewPacket 7 42 2 1 1 (NewAddressAddrPort (Addr4 [1, 2, 3, 4]) 53) [30]) None = Inr (out, d') \<and> deFraggerOk d'
    \<and> out = fst (receivePiece (NewPacket 7 42 2 1 1 (NewAddressAddrPort (Addr4 [1, 2, 3, 4]) 53) [30]) (pieces 5 None 42))"
  using reassembly_is_a_map_of_pieces [of None 5 "NewPacket 7 42 2 1 1 (NewAddressAddrPort (Addr4 [1, 2, 3, 4]) 53) [30]"] by (auto simp: deFraggerOk_def NewPacket_def)

subsection \<open>A packet that is cut and put together\<close>

text \<open>The pieces of a packet, as they are sent and as they are read.\<close>

definition pieceCount :: "tuic_packet \<Rightarrow> nat \<Rightarrow> nat" where
  "pieceCount p fs = (length (DATA p) + fs - 1) div fs"

definition sentPiece :: "tuic_packet \<Rightarrow> nat \<Rightarrow> nat \<Rightarrow> tuic_packet" where
  "sentPiece p fs i =
     (let d = take fs (drop (i * fs) (DATA p)) in
      p\<lparr>FRAG_TOTAL := word_of_nat (pieceCount p fs), FRAG_ID := word_of_nat i, SIZE := word_of_nat (length d), DATA := d,
        packetAddr := if i = 0 then packetAddr p else (packetAddr p)\<lparr>addrType := AtypNone\<rparr>\<rparr>)"

definition readPiece :: "tuic_packet \<Rightarrow> nat \<Rightarrow> nat \<Rightarrow> tuic_packet" where
  "readPiece p fs i =
     (if i = 0 then sentPiece p fs i else (sentPiece p fs i)\<lparr>packetAddr := \<lparr>addrType = AtypNone, addrBytes = [], addrPort = 0\<rparr>\<rparr>)"

lemma pieceCount_less: "0 < fs \<Longrightarrow> i < pieceCount p fs \<longleftrightarrow> i * fs < length (DATA p)"
  using less_eq_div_iff_mult_less_eq [of fs "Suc i" "length (DATA p) + fs - 1"] by (auto simp: pieceCount_def Suc_le_eq [symmetric])

lemma fragLoop_pieces:
  assumes "0 < fs" "\<And>i. i < pieceCount p fs \<Longrightarrow> send (writePacket (sentPiece p fs i)) = None" "i \<le> pieceCount p fs"
  shows "fragLoop send (int fs) (DATA p) (p\<lparr>FRAG_TOTAL := word_of_nat (pieceCount p fs),
      packetAddr := if i = 0 then packetAddr p else (packetAddr p)\<lparr>addrType := AtypNone\<rparr>\<rparr>) (int (min (i * fs) (length (DATA p)))) (word_of_nat i)
    = Inr (map (\<lambda>i. writePacket (sentPiece p fs i)) [i..<pieceCount p fs], None)"
  using assms(3)
proof (induction "pieceCount p fs - i" arbitrary: i)
  case 0
  then have "length (DATA p) \<le> i * fs" using pieceCount_less [OF assms(1), of i p] by simp
  then show ?case using 0 by (simp add: fragLoop.simps)
next
  case (Suc n)
  let ?q = "p\<lparr>FRAG_TOTAL := word_of_nat (pieceCount p fs), packetAddr := if i = 0 then packetAddr p else (packetAddr p)\<lparr>addrType := AtypNone\<rparr>\<rparr>"
  let ?L = "length (DATA p)" and ?o = "int (i * fs)" and ?d = "take fs (drop (i * fs) (DATA p))"
  have i: "i < pieceCount p fs" using Suc.hyps(2) by simp
  then have i: "i < pieceCount p fs" "i * fs < ?L" using pieceCount_less [OF assms(1), of i p] by simp_all
  define s where "s = (if int ?L - ?o > int fs then int fs else int ?L - ?o)"
  have s: "s = int (length ?d)" "s \<noteq> 0" using i assms(1) by (auto simp: s_def min_def simp del: of_nat_mult)
  have sl: "go_slice (DATA p) ?o (?o + s) = Inr ?d"
  proof -
    have h: "?o + s = int (i * fs + length ?d)" using s(1) by simp
    have "i * fs + length ?d \<le> ?L" using i by simp
    then have "go_slice (DATA p) ?o (?o + s) = Inr (take (length ?d) (drop (i * fs) (DATA p)))"
      unfolding h by (simp add: go_slice_def del: of_nat_mult of_nat_add)
    then show ?thesis by (simp add: min_def)
  qed
  have w: "?q\<lparr>FRAG_ID := word_of_nat i, SIZE := word_of_int s, DATA := ?d\<rparr> = sentPiece p fs i"
    by (simp add: sentPiece_def Let_def s(1))
  have nxt: "?o + s = int (min (Suc i * fs) ?L)" using i by (auto simp: s_def min_def simp del: of_nat_mult)
  have o: "int (min (i * fs) ?L) = ?o" using i by simp
  have q: "?q\<lparr>packetAddr := (packetAddr ?q)\<lparr>addrType := AtypNone\<rparr>\<rparr> =
      p\<lparr>FRAG_TOTAL := word_of_nat (pieceCount p fs), packetAddr := if Suc i = 0 then packetAddr p else (packetAddr p)\<lparr>addrType := AtypNone\<rparr>\<rparr>"
    by simp
  have IH: "fragLoop send (int fs) (DATA p) (?q\<lparr>packetAddr := (packetAddr ?q)\<lparr>addrType := AtypNone\<rparr>\<rparr>) (?o + s) (word_of_nat i + 1) =
      Inr (map (\<lambda>i. writePacket (sentPiece p fs i)) [Suc i..<pieceCount p fs], None)"
    using Suc.hyps(1) [of "Suc i"] Suc.hyps(2) i unfolding nxt q by (simp add: add.commute)
  show ?case
    unfolding o fragLoop.simps [of send _ _ ?q] Let_def s_def [symmetric] sl rbind_simps w assms(2) [OF i(1)] option.case IH
    using i s(2) by (simp add: upt_conv_Cons del: of_nat_mult)
qed

lemma fragWriteNative_ok:
  assumes "0 < fs" "\<And>i. i < pieceCount p fs \<Longrightarrow> send (writePacket (sentPiece p fs i)) = None"
  shows "fragWriteNative send p (int fs) = Inr (map (\<lambda>i. writePacket (sentPiece p fs i)) [0..<pieceCount p fs], None)"
proof -
  have "int (length (DATA p)) + int fs - 1 = int (length (DATA p) + fs - 1)" using assms(1) by simp
  moreover have "int a sdiv int fs = int (a div fs)" for a
    using assms(1) by (cases "a = 0") (simp_all add: signed_divide_int_def zdiv_int)
  ultimately have c: "(int (length (DATA p)) + int fs - 1) sdiv int fs = int (pieceCount p fs)"
    by (simp only: pieceCount_def)
  have "fragLoop send (int fs) (DATA p) (p\<lparr>FRAG_TOTAL := word_of_nat (pieceCount p fs)\<rparr>) 0 0 =
      Inr (map (\<lambda>i. writePacket (sentPiece p fs i)) [0..<pieceCount p fs], None)"
    using fragLoop_pieces [where fs = fs and send = send and p = p and i = 0, OF assms] by simp
  then show ?thesis
    using assms(1) unfolding fragWriteNative_def Let_def c by simp
qed

definition cuttable :: "tuic_packet \<Rightarrow> nat \<Rightarrow> bool" where
  "cuttable p fs \<longleftrightarrow> 0 < fs \<and> fs < length (DATA p) \<and> length (DATA p) \<le> 0xffff \<and> pieceCount p fs \<le> 255
     \<and> cmdType (packetHead p) = PacketType \<and> addressOk (packetAddr p) \<and> addrType (packetAddr p) \<noteq> AtypNone"

lemma cuttable_count: "cuttable p fs \<Longrightarrow> 1 < pieceCount p fs \<and> pieceCount p fs < 256"
  using pieceCount_less [of fs 1 p] by (auto simp: cuttable_def)

lemma small_words:
  "n < 256 \<Longrightarrow> unat (word_of_nat n :: 8 word) = n" "n < 65536 \<Longrightarrow> unat (word_of_nat n :: 16 word) = n"
  by (simp_all add: unsigned_of_nat take_bit_nat_eq_self)

lemma ReadPacket_piece:
  assumes "cuttable p fs"
  shows "ReadPacket (writePacket (sentPiece p fs i)) = Inr (readPiece p fs i, [])"
proof -
  have "writePacket (sentPiece p fs i) = writePacket (readPiece p fs i)"
    by (simp add: readPiece_def writePacket_def writeAddress_def sentPiece_def Let_def)
  moreover have "unat (word_of_nat (length (take fs (drop (i * fs) (DATA p)))) :: 16 word) = length (take fs (drop (i * fs) (DATA p)))"
    by (rule small_words) (use assms in \<open>auto simp: cuttable_def min_def\<close>)
  then have "packetOk (readPiece p fs i)"
    using assms by (auto simp: packetOk_def readPiece_def sentPiece_def Let_def cuttable_def addressOk_def AtypIPv4_5_def AtypIPv6_5_def
        AtypDomainName5_def AtypNone_def simp del: length_take)
  ultimately show ?thesis by (simp add: packets_one_form)
qed

lemma piece_fields [simp]:
  "PKT_ID (readPiece p fs i) = PKT_ID p" "FRAG_TOTAL (readPiece p fs i) = word_of_nat (pieceCount p fs)"
  "FRAG_ID (readPiece p fs i) = word_of_nat i" "DATA (readPiece p fs i) = take fs (drop (i * fs) (DATA p))"
  by (simp_all add: readPiece_def sentPiece_def Let_def)

lemma piece_numbers:
  assumes "cuttable p fs" "i < pieceCount p fs"
  shows "unat (word_of_nat (pieceCount p fs) :: 8 word) = pieceCount p fs" "unat (word_of_nat i :: 8 word) = i"
  using cuttable_count [OF assms(1)] assms(2) by (auto intro!: small_words)

lemma concat_chunks: "concat (map (\<lambda>i. take n (drop (i * n) xs)) [0..<k]) = take (k * n) xs"
  by (induction k) (simp_all add: take_add add.commute [of n])

text \<open>The pieces that have come when those with the numbers of \<open>S\<close> have.\<close>

definition somePieces :: "tuic_packet \<Rightarrow> nat \<Rightarrow> nat set \<Rightarrow> tuic_packet option list" where
  "somePieces p fs S = (if S = {} then [] else map (\<lambda>i. if i \<in> S then Some (readPiece p fs i) else None) [0..<pieceCount p fs])"

definition wholePacket :: "tuic_packet \<Rightarrow> tuic_packet" where
  "wholePacket p = p\<lparr>FRAG_TOTAL := 1, FRAG_ID := 0, SIZE := word_of_nat (length (DATA p))\<rparr>"

lemma joined_pieces:
  assumes "cuttable p fs"
  shows "joined (map (\<lambda>i. Some (readPiece p fs i)) [0..<pieceCount p fs]) = wholePacket p"
proof -
  have n: "0 < pieceCount p fs" "length (DATA p) \<le> pieceCount p fs * fs"
    using cuttable_count [OF assms] pieceCount_less [of fs "pieceCount p fs" p] assms by (auto simp: cuttable_def)
  then have "hd (map (\<lambda>i. Some (readPiece p fs i)) [0..<pieceCount p fs]) = Some (sentPiece p fs 0)"
    by (simp add: hd_map readPiece_def)
  moreover have "concat (map (\<lambda>f. DATA (the f)) (map (\<lambda>i. Some (readPiece p fs i)) [0..<pieceCount p fs])) = DATA p"
    using concat_chunks [of fs "DATA p" "pieceCount p fs"] n(2) by (simp add: comp_def)
  ultimately show ?thesis by (simp add: joined_def wholePacket_def sentPiece_def Let_def)
qed

lemma addPiece_some:
  assumes "cuttable p fs" "S \<subseteq> {..<pieceCount p fs}" "i < pieceCount p fs" "i \<notin> S"
  shows "addPiece (readPiece p fs i) (somePieces p fs S) =
    (if insert i S = {..<pieceCount p fs} then (Some (wholePacket p), []) else (None, somePieces p fs (insert i S)))"
proof -
  let ?n = "pieceCount p fs"
  have n: "1 < ?n" using cuttable_count [OF assms(1)] by simp
  note num = piece_numbers [OF assms(1,3)]
  have new: "(map (\<lambda>j. if j \<in> S then Some (readPiece p fs j) else None) [0..<?n])[i := Some (readPiece p fs i)] =
      map (\<lambda>j. if j \<in> insert i S then Some (readPiece p fs j) else None) [0..<?n]"
    by (rule nth_equalityI) (use assms(3) in \<open>auto simp: nth_list_update\<close>)
  show ?thesis
  proof (cases "S = {}")
    case True
    have "insert i S \<noteq> {..<?n}" using True n by (metis card.empty card_insert_disjoint card_lessThan empty_iff finite.emptyI less_irrefl One_nat_def)
    moreover have "(replicate ?n None)[i := Some (readPiece p fs i)] = somePieces p fs (insert i S)"
      using new True by (simp add: somePieces_def map_replicate_const)
    ultimately show ?thesis using True n by (simp add: addPiece_def somePieces_def num Let_def)
  next
    case False
    have m: "None \<in> set (map (\<lambda>j. if j \<in> insert i S then Some (readPiece p fs j) else None) [0..<?n]) \<longleftrightarrow> insert i S \<noteq> {..<?n}"
      using assms(2,3) by (auto split: if_splits)
    have w: "map (\<lambda>j. if j \<in> insert i S then Some (readPiece p fs j) else None) [0..<?n] = map (\<lambda>i. Some (readPiece p fs i)) [0..<?n]"
      if "insert i S = {..<?n}" using that by auto
    show ?thesis
      using False assms(3,4) m w joined_pieces [OF assms(1)]
      by (auto simp: addPiece_def somePieces_def num Let_def new simp del: map_eq_conv set_map insert_iff)
  qed
qed

text \<open>Packets that arrive one after another, each at its time, and what comes out for the packet number \<open>k\<close>.\<close>

fun feedAll :: "(int \<times> tuic_packet) list \<Rightarrow> bag_cache option \<Rightarrow> (tuic_packet option list \<times> bag_cache option) outcome" where
  "feedAll [] d = Inr ([], d)"
| "feedAll ((now, m) # es) d =
     rbind (Feed now m d) (\<lambda>(out, d). rbind (feedAll es d) (\<lambda>(outs, d). Inr (out # outs, d)))"

fun outputsOf :: "16 word \<Rightarrow> (int \<times> tuic_packet) list \<Rightarrow> tuic_packet option list \<Rightarrow> tuic_packet option list" where
  "outputsOf k (e # es) (out # outs) = (if PKT_ID (snd e) = k then out # outputsOf k es outs else outputsOf k es outs)"
| "outputsOf k _ _ = []"

definition arrivalsOf :: "16 word \<Rightarrow> (int \<times> tuic_packet) list \<Rightarrow> tuic_packet list" where
  "arrivalsOf k es = map snd (filter (\<lambda>e. PKT_ID (snd e) = k) es)"

lemma rest_empty: "A \<union> B = C \<Longrightarrow> A \<inter> B = {} \<Longrightarrow> B = C \<longleftrightarrow> A = {}"
  by blast

lemma feedAll_pieces:
  assumes "cuttable p fs"
  shows "deFraggerOk d \<Longrightarrow> sorted (start # map fst es) \<Longrightarrow> \<forall>e\<in>set es. fst e < limit \<Longrightarrow> limit \<le> start + 10 \<Longrightarrow>
    arrivalsOf (PKT_ID p) es = map (readPiece p fs) is \<Longrightarrow> distinct is \<Longrightarrow> set is \<inter> S = {} \<Longrightarrow>
    is \<noteq> [] \<longrightarrow> set is \<union> S = {..<pieceCount p fs} \<and> (\<forall>t\<ge>start. t < limit \<longrightarrow> pieces t d (PKT_ID p) = somePieces p fs S) \<Longrightarrow>
    \<exists>outs d'. feedAll es d = Inr (outs, d') \<and>
      outputsOf (PKT_ID p) es outs = (if is = [] then [] else replicate (length is - 1) None @ [Some (wholePacket p)])"
proof (induction es arbitrary: d start S "is")
  case Nil
  then show ?case by (simp add: arrivalsOf_def)
next
  case (Cons e es)
  obtain now m where e: "e = (now, m)" by (cases e)
  have t: "start \<le> now" "now < limit" "limit \<le> now + 10" "sorted (now # map fst es)" "\<forall>e\<in>set es. fst e < limit"
    using Cons.prems(2-4) e by auto
  obtain out d' where f: "Feed now m d = Inr (out, d')" "deFraggerOk d'" "out = fst (receivePiece m (pieces now d (PKT_ID m)))"
    and p': "\<And>t. now \<le> t \<Longrightarrow> t < now + 10 \<Longrightarrow> pieces t d' = (pieces t d)(PKT_ID m :=
          if 1 < FRAG_TOTAL m \<and> FRAG_ID m < FRAG_TOTAL m then snd (receivePiece m (pieces now d (PKT_ID m))) else pieces t d (PKT_ID m))"
    using Feed_refines [OF Cons.prems(1), of now m] by blast
  show ?case
  proof (cases "PKT_ID m = PKT_ID p")
    case False
    then have "\<exists>outs d''. feedAll es d' = Inr (outs, d'') \<and>
        outputsOf (PKT_ID p) es outs = (if is = [] then [] else replicate (length is - 1) None @ [Some (wholePacket p)])"
    proof (intro Cons.IH [OF f(2) t(4,5,3), of "is" S])
      show "arrivalsOf (PKT_ID p) es = map (readPiece p fs) is" using Cons.prems(5) e False by (simp add: arrivalsOf_def)
      show "is \<noteq> [] \<longrightarrow> set is \<union> S = {..<pieceCount p fs} \<and> (\<forall>t\<ge>now. t < limit \<longrightarrow> pieces t d' (PKT_ID p) = somePieces p fs S)"
        using Cons.prems(8) t(1,3) p' False by fastforce
    qed (rule Cons.prems)+
    then show ?thesis using e f(1) False by auto
  next
    case True
    then obtain i js where i: "is = i # js" "m = readPiece p fs i" "arrivalsOf (PKT_ID p) es = map (readPiece p fs) js"
      using Cons.prems(5) e by (cases "is") (auto simp: arrivalsOf_def)
    have S: "S \<subseteq> {..<pieceCount p fs}" "i < pieceCount p fs" "i \<notin> S" "set is \<union> S = {..<pieceCount p fs}"
      using Cons.prems(7,8) i by auto
    have pc: "pieces now d (PKT_ID p) = somePieces p fs S" using Cons.prems(8) i t by auto
    have w: "1 < FRAG_TOTAL m" "FRAG_ID m < FRAG_TOTAL m"
      using piece_numbers [OF assms S(2)] cuttable_count [OF assms] S(2) by (simp_all add: i(2) word_less_nat_alt)
    then have r: "receivePiece m (pieces now d (PKT_ID m)) = addPiece (readPiece p fs i) (somePieces p fs S)"
      by (auto simp: receivePiece_def i(2) pc)
    note a = addPiece_some [OF assms S(1-3)]
    define S' where "S' = insert i S"
    have js: "set js \<union> S' = {..<pieceCount p fs}" "set js \<inter> S' = {}" "distinct js"
    proof -
      show "set js \<union> S' = {..<pieceCount p fs}" using S(4) unfolding i(1) S'_def by (simp only: list.set Un_insert_left Un_insert_right)
      show "distinct js" using Cons.prems(6) by (simp add: i(1))
      have "i \<notin> set js" "(insert i (set js)) \<inter> S = {}" using Cons.prems(6,7) unfolding i(1) by (simp_all only: distinct.simps list.set simp_thms)
      then show "set js \<inter> S' = {}" unfolding S'_def by blast
    qed
    then have "S' = {..<pieceCount p fs} \<longleftrightarrow> set js = {}" by (intro rest_empty)
    then have full: "S' = {..<pieceCount p fs} \<longleftrightarrow> js = []" by simp
    have nxt: "\<exists>outs d''. feedAll es d' = Inr (outs, d'') \<and>
        outputsOf (PKT_ID p) es outs = (if js = [] then [] else replicate (length js - 1) None @ [Some (wholePacket p)])"
    proof (rule Cons.IH [OF f(2) t(4,5,3) i(3)])
      show "distinct js" "set js \<inter> S' = {}" by (rule js)+
      show "js \<noteq> [] \<longrightarrow> set js \<union> S' = {..<pieceCount p fs} \<and> (\<forall>t\<ge>now. t < limit \<longrightarrow> pieces t d' (PKT_ID p) = somePieces p fs S')"
      proof
        assume "js \<noteq> []"
        then have "snd (receivePiece m (pieces now d (PKT_ID m))) = somePieces p fs S'" using a r full by (simp add: S'_def)
        then show "set js \<union> S' = {..<pieceCount p fs} \<and> (\<forall>t\<ge>now. t < limit \<longrightarrow> pieces t d' (PKT_ID p) = somePieces p fs S')"
          using js(1) p' w t(3) True by simp
      qed
    qed
    have "out = (if js = [] then Some (wholePacket p) else None)"
      using f(3) full unfolding r a S'_def by simp
    then show ?thesis using nxt e f(1) True i(1) by (cases js) auto
  qed
qed

lemma pieces_gone: "pieces t0 d k = [] \<Longrightarrow> t0 \<le> t \<Longrightarrow> pieces t d k = []"
  by (auto simp: pieces_def alive_def aliveE_def split: option.splits if_splits)

text \<open>The pieces that were read are the ones that were sent, in some order.\<close>

lemma arrivals_in_order:
  assumes "cuttable p fs"
    "image_mset (\<lambda>m. Inr (m, [])) (mset ms) = mset (map ReadPacket (map (\<lambda>i. writePacket (sentPiece p fs i)) [0..<pieceCount p fs]))"
  shows "\<exists>is. ms = map (readPiece p fs) is \<and> distinct is \<and> set is = {..<pieceCount p fs}"
proof -
  let ?n = "pieceCount p fs" and ?is = "map (unat \<circ> FRAG_ID) ms"
  have "image_mset (\<lambda>m. Inr (m, []) :: tuic_packet reading) (mset ms) = image_mset (\<lambda>m. Inr (m, [])) (mset (map (readPiece p fs) [0..<?n]))"
    using assms(2) ReadPacket_piece [OF assms(1)] by (simp add: comp_def image_mset.compositionality)
  from arg_cong [OF this, of "image_mset (fst \<circ> projr)"] have ms: "mset ms = mset (map (readPiece p fs) [0..<?n])"
    by (simp add: image_mset.compositionality comp_def)
  have "mset ?is = image_mset (unat \<circ> FRAG_ID) (mset (map (readPiece p fs) [0..<?n]))" using ms by simp
  also have "\<dots> = mset (map (\<lambda>i. unat (word_of_nat i :: 8 word)) [0..<?n])" by (simp add: image_mset.compositionality comp_def)
  also have "map (\<lambda>i. unat (word_of_nat i :: 8 word)) [0..<?n] = [0..<?n]"
    by (rule map_idI) (use piece_numbers [OF assms(1)] in auto)
  finally have "mset ?is = mset [0..<?n]" .
  then have "distinct ?is" "set ?is = {..<?n}" by (metis distinct_upt mset_eq_imp_distinct_iff, metis mset_eq_setD atLeast_upt)
  moreover have "readPiece p fs ((unat \<circ> FRAG_ID) m) = m" if "m \<in> set ms" for m
  proof -
    have "m \<in> set (map (readPiece p fs) [0..<?n])" using that mset_eq_setD [OF ms] by simp
    then show ?thesis using piece_numbers [OF assms(1)] by auto
  qed
  then have "ms = map (readPiece p fs) ?is" by (simp add: map_idI comp_def)
  ultimately show ?thesis by blast
qed

text \<open>
  C6: A packet that is cut comes out whole.  When all the datagrams that the sender makes of a packet
  arrive within ten seconds, each of them once, in any order and with pieces of any other packets in between,
  the reassembly gives nothing for this packet until the last datagram and then the packet itself.
\<close>

theorem cut_and_put_together:
  assumes "cuttable p fs" "fragWriteNative (\<lambda>_. None :: unit option) p (int fs) = Inr (sent, None)"
    "deFraggerOk d" "pieces t0 d (PKT_ID p) = []"
    "sorted (t0 # map fst es)" "\<forall>e\<in>set es. fst e < t0 + 10"
    "image_mset (\<lambda>m. Inr (m, [])) (mset (arrivalsOf (PKT_ID p) es)) = mset (map ReadPacket sent)"
  shows "\<exists>outs d'. feedAll es d = Inr (outs, d') \<and>
    outputsOf (PKT_ID p) es outs = replicate (length sent - 1) None @ [Some (wholePacket p)]"
proof -
  have sent: "sent = map (\<lambda>i. writePacket (sentPiece p fs i)) [0..<pieceCount p fs]"
    using assms(2) fragWriteNative_ok [of fs p "\<lambda>_. None :: unit option"] assms(1) by (simp add: cuttable_def)
  obtain "is" where i: "arrivalsOf (PKT_ID p) es = map (readPiece p fs) is" "distinct is" "set is = {..<pieceCount p fs}"
    using arrivals_in_order [OF assms(1) assms(7) [unfolded sent]] by blast
  have "length is = pieceCount p fs" using i(2,3) by (metis card_lessThan distinct_card)
  moreover have "0 < pieceCount p fs" using cuttable_count [OF assms(1)] by simp
  moreover have "\<exists>outs d'. feedAll es d = Inr (outs, d') \<and>
      outputsOf (PKT_ID p) es outs = (if is = [] then [] else replicate (length is - 1) None @ [Some (wholePacket p)])"
    by (rule feedAll_pieces [OF assms(1,3,5,6) order_refl i(1,2), of "{}"])
      (use i(3) pieces_gone [OF assms(4)] in \<open>auto simp: somePieces_def\<close>)
  ultimately show ?thesis by (auto simp: sent)
qed

text \<open>Three bytes in two pieces, the second of which comes first, with a whole packet in between.\<close>

definition samplePacket :: tuic_packet where
  "samplePacket = NewPacket 7 42 1 0 3 \<lparr>addrType = AtypIPv4_5, addrBytes = [127, 0, 0, 1], addrPort = 53\<rparr> [10, 20, 30]"

definition sampleArrivals :: "(int \<times> tuic_packet) list" where
  "sampleArrivals = [(100, readPiece samplePacket 2 1), (104, NewPacket 7 43 1 0 1 (packetAddr samplePacket) [5]), (109, readPiece samplePacket 2 0)]"

lemma sample_cuttable: "cuttable samplePacket 2"
  by (simp add: cuttable_def samplePacket_def NewPacket_def NewCommandHead_def pieceCount_def addressOk_def AtypIPv4_5_def AtypNone_def)

lemma sample_count: "pieceCount samplePacket 2 = 2"
  by (simp add: pieceCount_def samplePacket_def NewPacket_def)

lemma sample_sent: "fragWriteNative (\<lambda>_. None :: unit option) samplePacket (int 2) = Inr (map (\<lambda>i. writePacket (sentPiece samplePacket 2 i)) [0..<2], None)"
  using fragWriteNative_ok [of 2 samplePacket "\<lambda>_. None :: unit option"] by (simp add: sample_count)

lemma sample_arrivals: "arrivalsOf (PKT_ID samplePacket) sampleArrivals = [readPiece samplePacket 2 1, readPiece samplePacket 2 0]"
  by (simp add: arrivalsOf_def sampleArrivals_def) (simp add: samplePacket_def NewPacket_def)

lemma cut_and_put_together_witness:
  "\<exists>outs d'. feedAll sampleArrivals None = Inr (outs, d') \<and>
     outputsOf (PKT_ID samplePacket) sampleArrivals outs = [None, Some (wholePacket samplePacket)]"
proof -
  have "\<exists>outs d'. feedAll sampleArrivals None = Inr (outs, d') \<and>
     outputsOf (PKT_ID samplePacket) sampleArrivals outs =
       replicate (length (map (\<lambda>i. writePacket (sentPiece samplePacket 2 i)) [0..<2]) - 1) None @ [Some (wholePacket samplePacket)]"
  proof (rule cut_and_put_together [OF sample_cuttable sample_sent, of None 100])
    show "image_mset (\<lambda>m. Inr (m, [])) (mset (arrivalsOf (PKT_ID samplePacket) sampleArrivals)) =
        mset (map ReadPacket (map (\<lambda>i. writePacket (sentPiece samplePacket 2 i)) [0..<2]))"
      unfolding sample_arrivals by (simp add: ReadPacket_piece [OF sample_cuttable] upt_rec [of 0 2] upt_rec [of "Suc 0" 2] add_mset_commute)
  qed (simp_all add: deFraggerOk_def pieces_def sampleArrivals_def)
  then show ?thesis by simp
qed

subsection \<open>Datagrams that are too large\<close>


definition datagramsUpTo :: "int \<Rightarrow> bytes \<Rightarrow> write_error option" where
  "datagramsUpTo limit b = (if int (length b) > limit then Some (TooLarge limit) else None)"





text \<open>With two bytes more for the overhead every fragment would fit.\<close>

lemma fragments_would_fit:
  assumes "0 < fs" "length (addrBytes (packetAddr p)) \<le> 16" "int fs + 29 \<le> limit"
  shows "fragWriteNative (datagramsUpTo limit) p (int fs) = Inr (map (\<lambda>i. writePacket (sentPiece p fs i)) [0..<pieceCount p fs], None)"
proof (rule fragWriteNative_ok [OF assms(1)])
  fix i
  have "int (length (writePacket (sentPiece p fs i))) \<le> limit"
    using assms(2,3) by (auto simp: length_writePacket sentPiece_def Let_def)
  then show "datagramsUpTo limit (writePacket (sentPiece p fs i)) = None" by (simp add: datagramsUpTo_def)
qed

end
