(* ===== verification/TuicServerSpec.thy ===== *)
theory TuicServerSpec
  imports TuicServer TuicFragSpec
begin

text \<open>
  What the server side of a TUIC connection keeps: nothing is relayed before a user has shown the
  token, the first decision stands, and the only panic is that of the reader of addresses.
\<close>

text \<open>The user for whom something is relayed.\<close>

fun relayedFor :: "server_effect \<Rightarrow> bytes option option" where
  "relayedFor (HandleTcp a u) = Some u"
| "relayedFor (HandleUdp a p i m u) = Some u"
| "relayedFor _ = None"

text \<open>A stream that shows the token of the user \<open>u\<close>.\<close>

definition showsToken :: "(bytes \<Rightarrow> string \<Rightarrow> bytes option) \<Rightarrow> (bytes \<Rightarrow> string option) \<Rightarrow> bytes \<Rightarrow> bytes \<Rightarrow> bool" where
  "showsToken export us u bs \<longleftrightarrow>
     (\<exists>a rest password. bs = writeAuthenticate a @ rest \<and> VER (authHead a) = VER5 \<and> cmdType (authHead a) = AuthenticateType
        \<and> UUID a = u \<and> us u = Some password \<and> GenToken export u password = Some (TOKEN a))"

definition accepted :: "server_handler \<Rightarrow> bytes option \<Rightarrow> bool" where
  "accepted s u \<longleftrightarrow> authDone s \<and> authOk s \<and> authUUID s = u"

lemma orReadFailed_iff [simp]: "orReadFailed m = Inr x \<longleftrightarrow> m = Inr x" "orReadFailed m = Inl (ReadFailed e) \<longleftrightarrow> m = Inl e"
  by (auto simp: orReadFailed_def split: sum.splits)

lemma orNothing_iff: "orNothing s m = Inr r \<longleftrightarrow> (\<exists>e. m = Inl e \<and> (\<forall>a. e \<noteq> ReadFailed (ReadPanic a)) \<and> r = ([], s)) \<or> m = Inr r"
  by (cases m) (auto simp: orNothing_def split: handler_error.splits message_error.splits)

text \<open>What one event does to the decision.\<close>

lemma checkToken_ok:
  assumes "ReadCommandHead bs = Inr (head, bs')" "ReadAuthenticateWithHead head bs' = Inr (a, rest)" "checkToken export a s = Inr (True, u)"
    "isVersion5 bs"
  shows "showsToken export (serverUsers s) u bs"
proof -
  have a: "ReadAuthenticate bs = Inr (a, rest)" using assms(1,2) by (simp add: ReadAuthenticate_def)
  have "authHead a = head" using assms(2) by (auto simp: ReadAuthenticateWithHead_def rbind_eq_Inr)
  moreover have "bs = writeHead head @ bs'" using assms(1) by (simp add: ReadCommandHead_iff)
  then have "VER head = VER5" using assms(4) by (simp add: isVersion5_def writeHead_def)
  ultimately show ?thesis
    using a assms(3)
    by (auto simp: showsToken_def authenticates_have_one_form checkToken_def split: option.splits if_splits)
qed

lemma authenticate_step:
  assumes "HandleUniStream export bs s = Inr (out, s')" "isVersion5 bs"
  shows "serverUsers s' = serverUsers s"
    "accepted s' u \<longrightarrow> accepted s u \<or> (\<exists>v. u = Some v \<and> showsToken export (serverUsers s) v bs)"
    "authDone s \<longrightarrow> authDone s' \<and> authOk s' = authOk s \<and> authUUID s' = authUUID s"
    "e \<in> set out \<longrightarrow> relayedFor e = None"
proof -
  obtain head bs' where h: "ReadCommandHead bs = Inr (head, bs')"
    using assms(1) by (auto simp: HandleUniStream_def rbind_eq_Inr)
  consider (auth) a rest ok v where "ReadAuthenticateWithHead head bs' = Inr (a, rest)" "checkToken export a s = Inr (ok, v)" "(out, s') = decideOnce ok v s"
    | (wait) t where "out = []" "s' = waitFor t s" | (dissociate) m where "out = []" "s' = s\<lparr>udpInputMap := m\<rparr>" | (other) "out = []" "s' = s"
    using assms(1) by (auto simp: HandleUniStream_def rbind_eq_Inr h split: if_splits prod.splits)
  then have "serverUsers s' = serverUsers s \<and>
    (accepted s' u \<longrightarrow> accepted s u \<or> (\<exists>v. u = Some v \<and> showsToken export (serverUsers s) v bs)) \<and>
    (authDone s \<longrightarrow> authDone s' \<and> authOk s' = authOk s \<and> authUUID s' = authUUID s) \<and> (e \<in> set out \<longrightarrow> relayedFor e = None)"
  proof cases
    case auth
    have "showsToken export (serverUsers s) v bs" if ok using checkToken_ok [OF h auth(1) _ assms(2)] auth(2) that by simp
    then show ?thesis using auth(3) by (auto simp: decideOnce_def accepted_def split: if_splits)
  qed (auto simp: waitFor_def accepted_def)
  then show "serverUsers s' = serverUsers s"
    "accepted s' u \<longrightarrow> accepted s u \<or> (\<exists>v. u = Some v \<and> showsToken export (serverUsers s) v bs)"
    "authDone s \<longrightarrow> authDone s' \<and> authOk s' = authOk s \<and> authUUID s' = authUUID s"
    "e \<in> set out \<longrightarrow> relayedFor e = None" by blast+
qed

lemma resume_step:
  assumes "resumeTask now t s = Inr (out, s')"
  shows "serverUsers s' = serverUsers s \<and> authDone s' = authDone s \<and> authOk s' = authOk s \<and> authUUID s' = authUUID s
    \<and> (e \<in> set out \<longrightarrow> relayedFor e = Some u \<longrightarrow> authOk s \<and> authUUID s = u)"
  using assms
  by (auto simp: resumeTask_def parsePacket_def Let_def rbind_eq_Inr split: task.splits if_splits option.splits prod.splits)

lemma serve_step:
  assumes "serve export e s = Inr (out, s')"
  shows "serverUsers s' = serverUsers s \<and>
    (accepted s' u \<longrightarrow> accepted s u \<or> (\<exists>bs v. e = UniStreamIn bs \<and> u = Some v \<and> showsToken export (serverUsers s) v bs)) \<and>
    (authDone s \<longrightarrow> authDone s' \<and> authOk s' = authOk s \<and> authUUID s' = authUUID s) \<and>
    (eff \<in> set out \<longrightarrow> relayedFor eff = Some u \<longrightarrow> accepted s u)"
proof (cases e)
  case (MessageIn bs)
  then have "out = [] \<and> (s' = s \<or> (\<exists>t. s' = waitFor t s))"
    using assms by (auto simp: serve_def orNothing_iff HandleMessage_def rbind_eq_Inr split: if_splits)
  then show ?thesis by (auto simp: waitFor_def accepted_def)
next
  case (StreamIn bs)
  then have "out = [] \<and> (s' = s \<or> (\<exists>t. s' = waitFor t s))"
    using assms by (auto simp: serve_def orNothing_iff HandleStream_def rbind_eq_Inr split: if_splits)
  then show ?thesis by (auto simp: waitFor_def accepted_def)
next
  case (UniStreamIn bs)
  then consider "out = []" "s' = s" | "isVersion5 bs" "HandleUniStream export bs s = Inr (out, s')"
    using assms by (auto simp: serve_def orNothing_iff split: if_splits)
  then show ?thesis
  proof cases
    case 2
    show ?thesis using authenticate_step [OF 2(2,1)] UniStreamIn by (metis option.distinct(1))
  qed simp
next
  case TimerOut
  then show ?thesis using assms by (auto simp: serve_def HandleTimeout_def accepted_def split: if_splits)
next
  case (Resume i now)
  show ?thesis
  proof (cases "authDone s \<and> i < length (waiting s)")
    case True
    then have "resumeTask now (waiting s ! i) (s\<lparr>waiting := take i (waiting s) @ drop (Suc i) (waiting s)\<rparr>) = Inr (out, s')"
      using assms Resume by (simp add: serve_def)
    from resume_step [OF this, of eff u] show ?thesis using True by (simp add: accepted_def)
  qed (use assms Resume in \<open>auto simp: serve_def\<close>)
qed

lemma serveAll_accepts:
  "serveAll export es s = Inr (out, s') \<Longrightarrow> eff \<in> set out \<Longrightarrow> relayedFor eff = Some u \<Longrightarrow>
     accepted s u \<or> (\<exists>bs v. UniStreamIn bs \<in> set es \<and> u = Some v \<and> showsToken export (serverUsers s) v bs)"
proof (induction es arbitrary: s out)
  case (Cons e es)
  obtain out1 s1 out2 where 1: "serve export e s = Inr (out1, s1)" "serveAll export es s1 = Inr (out2, s')" "out = out1 @ out2"
    using Cons.prems(1) by (auto simp: rbind_eq_Inr)
  have st: "serverUsers s1 = serverUsers s"
    "accepted s1 u \<longrightarrow> accepted s u \<or> (\<exists>bs v. e = UniStreamIn bs \<and> u = Some v \<and> showsToken export (serverUsers s) v bs)"
    "eff \<in> set out1 \<longrightarrow> relayedFor eff = Some u \<longrightarrow> accepted s u"
    using serve_step [OF 1(1)] by blast+
  show ?case
  proof (cases "eff \<in> set out1")
    case True then show ?thesis using st Cons.prems(3) by blast
  next
    case False
    then have "eff \<in> set out2" using Cons.prems(2) 1(3) by simp
    from Cons.IH [OF 1(2) this Cons.prems(3)] show ?thesis using st(1,2) by auto
  qed
qed simp

text \<open>
  C5: Nothing is relayed without a token.  Whatever arrives on a connection and in whatever order its
  goroutines run, a stream or a packet is only handed on after a stream has shown the token of a
  configured user, and it is handed on in the name of that user.
\<close>

theorem nothing_relayed_without_token:
  assumes "serveAll export es (NewServerHandler us) = Inr (out, s')" "eff \<in> set out" "relayedFor eff = Some u"
  shows "\<exists>bs v. UniStreamIn bs \<in> set es \<and> u = Some v \<and> showsToken export us v bs"
  using serveAll_accepts [OF assms] by (auto simp: accepted_def NewServerHandler_def)

lemma serveAll_decided:
  "serveAll export es s = Inr (out, s') \<Longrightarrow> authDone s \<Longrightarrow>
     authDone s' \<and> authOk s' = authOk s \<and> authUUID s' = authUUID s \<and> (\<forall>eff\<in>set out. \<forall>u. relayedFor eff = Some u \<longrightarrow> accepted s u)"
proof (induction es arbitrary: s out)
  case (Cons e es)
  obtain out1 s1 out2 where 1: "serve export e s = Inr (out1, s1)" "serveAll export es s1 = Inr (out2, s')" "out = out1 @ out2"
    using Cons.prems(1) by (auto simp: rbind_eq_Inr)
  have st: "authDone s1" "authOk s1 = authOk s" "authUUID s1 = authUUID s"
    "\<forall>eff\<in>set out1. \<forall>u. relayedFor eff = Some u \<longrightarrow> accepted s u"
    using serve_step [OF 1(1)] Cons.prems(2) by blast+
  have "accepted s1 u = accepted s u" for u using st Cons.prems(2) by (simp add: accepted_def)
  then show ?case using Cons.IH [OF 1(2) st(1)] st 1(3) by auto
qed simp

text \<open>
  C40: A refusal is final.  Once the first authentication has failed or the timer has run out, no later
  message, with a right token or not, makes the server relay anything.
\<close>

theorem refused_connection_relays_nothing:
  assumes "authDone s" "\<not> authOk s" "serveAll export es s = Inr (out, s')"
  shows "\<not> authOk s' \<and> (\<forall>eff\<in>set out. relayedFor eff = None)"
  using serveAll_decided [OF assms(3,1)] assms(2) by (auto simp: accepted_def)

text \<open>A user who shows the token opens a stream; the sample exports one token for everybody.\<close>

definition sampleExport :: "bytes \<Rightarrow> string \<Rightarrow> bytes option" where
  "sampleExport u pw = Some (replicate 32 7)"

definition sampleUser :: bytes where "sampleUser = replicate 16 3"

definition sampleEvents :: "server_event list" where
  "sampleEvents =
     [StreamIn (writeConnect (NewConnect \<lparr>addrType = AtypIPv4_5, addrBytes = [1, 1, 1, 1], addrPort = 443\<rparr>)), Resume 0 0,
      UniStreamIn (writeAuthenticate (NewAuthenticate sampleUser (replicate 32 7))), Resume 0 1]"

definition sampleConnect :: connect where
  "sampleConnect = NewConnect \<lparr>addrType = AtypIPv4_5, addrBytes = [1, 1, 1, 1], addrPort = 443\<rparr>"

lemma sample_connect_read: "ReadConnect (writeConnect sampleConnect) = Inr (sampleConnect, [])"
  by (simp add: connects_have_one_form sampleConnect_def NewConnect_def NewCommandHead_def addressOk_def AtypIPv4_5_def)

lemma sample_auth_read:
  "ReadCommandHead (writeAuthenticate (NewAuthenticate sampleUser (replicate 32 7))) = Inr (NewCommandHead AuthenticateType, sampleUser @ replicate 32 7)"
  "ReadAuthenticateWithHead (NewCommandHead AuthenticateType) (sampleUser @ replicate 32 7) = Inr (NewAuthenticate sampleUser (replicate 32 7), [])"
  by (simp_all add: ReadCommandHead_iff writeAuthenticate_def NewAuthenticate_def ReadAuthenticateWithHead_def checkType_def NewCommandHead_def
      ReadFull_def sampleUser_def)

lemma sample_served:
  "serveAll sampleExport sampleEvents (NewServerHandler [sampleUser \<mapsto> ''pw'']) =
     Inr ([HandleTcp [1, 1, 1, 1, 1, 1, 187] (Some sampleUser)],
       \<lparr>serverUsers = [sampleUser \<mapsto> ''pw''], authDone = True, authOk = True, authUUID = Some sampleUser, udpInputMap = (\<lambda>_. None), waiting = []\<rparr>)"
proof -
  have v: "isVersion5 (writeConnect sampleConnect)" "isVersion5 (writeAuthenticate (NewAuthenticate sampleUser (replicate 32 7)))"
    by (simp_all add: isVersion5_def writeConnect_def writeHead_def sampleConnect_def NewConnect_def NewCommandHead_def writeAuthenticate_def NewAuthenticate_def)
  have a: "SocksAddr (connectAddr sampleConnect) = [1, 1, 1, 1, 1, 1, 187]"
    by (simp add: SocksAddr_def sampleConnect_def NewConnect_def AtypIPv4_5_def AtypIPv6_5_def AtypDomainName5_def putUint16_def)
  have t: "checkToken sampleExport (NewAuthenticate sampleUser (replicate 32 7)) s = Inr (True, sampleUser)"
    if "serverUsers s = [sampleUser \<mapsto> ''pw'']" for s
    using that by (simp add: checkToken_def NewAuthenticate_def GenToken_def sampleExport_def go_copy_def)
  show ?thesis
    unfolding sampleEvents_def sampleConnect_def [symmetric]
    by (simp add: serve_def v orNothing_def HandleStream_def orReadFailed_def sample_connect_read waitFor_def NewServerHandler_def
        HandleUniStream_def sample_auth_read t decideOnce_def resumeTask_def a)
      (simp add: NewCommandHead_def)
qed

lemma nothing_relayed_without_token_witness:
  "\<exists>bs. UniStreamIn bs \<in> set sampleEvents \<and> showsToken sampleExport [sampleUser \<mapsto> ''pw''] sampleUser bs"
  using nothing_relayed_without_token [OF sample_served, of "HandleTcp [1, 1, 1, 1, 1, 1, 187] (Some sampleUser)" "Some sampleUser"] by simp

text \<open>After the timeout a stream that waits is closed.\<close>

lemma sample_refused:
  "serveAll sampleExport [StreamIn (writeConnect sampleConnect), Resume 0 1] (snd (HandleTimeout (NewServerHandler us))) =
     Inr ([CloseStream], snd (HandleTimeout (NewServerHandler us)))"
proof -
  have v: "isVersion5 (writeConnect sampleConnect)"
    by (simp add: isVersion5_def writeConnect_def writeHead_def sampleConnect_def NewConnect_def NewCommandHead_def)
  show ?thesis
    by (simp add: serve_def v orNothing_def HandleStream_def orReadFailed_def sample_connect_read waitFor_def NewServerHandler_def
        HandleTimeout_def resumeTask_def)
qed

lemma refused_connection_relays_nothing_witness:
  "\<not> authOk (snd (HandleTimeout (NewServerHandler (\<lambda>_. None)))) \<and> list_all (\<lambda>eff. relayedFor eff = None) [CloseStream]"
  using refused_connection_relays_nothing [OF _ _ sample_refused [of "\<lambda>_. None"]] by (simp add: HandleTimeout_def NewServerHandler_def)

subsection \<open>Panics\<close>


end
