(* ===== verification/Spec2Isabelle.thy ===== *)
theory Spec2Isabelle
  imports DequeSpec Dot DomainTrieSpec IpCidrSpec FakeIpSpec StunSpec StunDiscoverSpec ExprSortSpec ExprAssignSpec RangesSpec Wildcard
    RulePayloadSpec IpRuleSpec HostsSpec RoutingSpec DispatcherSpec TuicServerSpec
begin

text \<open>
  NekoPro is an Android proxy client: the Go library \<^verbatim>\<open>NekoBox/libcore\<close> runs the proxy cores
  \<^verbatim>\<open>mihomo\<close> and \<^verbatim>\<open>sing-box\<close>.  This library models the core logic of \<^verbatim>\<open>mihomo\<close> that decides where a
  connection goes, the data structures it rests on, one of its transports, and the STUN
  client of \<^verbatim>\<open>libcore\<close>.  All paths are under \<^verbatim>\<open>src/\<close>.

  The way of a connection.  A listener hands over its metadata (\<open>Metadata\<close>,
  \<^verbatim>\<open>mihomo/constant/metadata.go\<close>).  If the destination is a fake address, the fake-IP pool gives back
  its name (\<open>FakeIp\<close>, \<^verbatim>\<open>mihomo/component/fakeip\<close>, on the caches of \<open>Lru\<close>, \<^verbatim>\<open>mihomo/common/lru\<close>); the hosts
  table may replace the name (\<open>Hosts\<close>, \<^verbatim>\<open>mihomo/component/resolver/host.go\<close> and \<^verbatim>\<open>parseHosts\<close> of
  \<^verbatim>\<open>mihomo/config/config.go\<close>, on the trie of \<open>DomainTrie\<close>, \<^verbatim>\<open>mihomo/component/trie\<close>); the sniffers look for a name
  in the first bytes (\<open>TlsSniffer\<close>, \<open>HttpSniffer\<close>, \<open>Dispatcher\<close>, \<^verbatim>\<open>mihomo/component/sniffer\<close>).  Then the
  rules decide (\<open>Tunnel\<close>, \<^verbatim>\<open>mihomo/tunnel/tunnel.go\<close>): they are parsed from the configuration
  (\<open>RuleParse\<close>, \<^verbatim>\<open>mihomo/rules/parser.go\<close>, \<^verbatim>\<open>rules/logic\<close>, \<^verbatim>\<open>config.go\<close>), and matched with the
  matchers of every kind of rule (\<open>Rules\<close>, \<open>RuleMatch\<close>, \<^verbatim>\<open>mihomo/rules/common\<close>, \<^verbatim>\<open>rules/logic\<close>; \<open>Ranges\<close>,
  \<^verbatim>\<open>mihomo/common/utils\<close>; \<open>Wildcard\<close>, \<^verbatim>\<open>mihomo/component/wildcard\<close>; \<open>IpCidrTrie\<close>, \<^verbatim>\<open>mihomo/component/trie\<close>), into
  an adapter.  Beside this path stand the DNS-over-TLS client (\<open>Dot\<close>, \<^verbatim>\<open>mihomo/dns/dot.go\<close>, whose idle connections are
  a ring buffer, \<open>Deque\<close>, \<^verbatim>\<open>mihomo/common/deque\<close>), the override language of proxy providers (\<open>ExprLex\<close>
  to \<open>ExprApply\<close>, \<^verbatim>\<open>mihomo/adapter/provider/override_expr.go\<close>), the TUIC transport (\<open>Tuic\<close>, \<open>TuicFrag\<close>,
  \<open>TuicServer\<close>, \<^verbatim>\<open>mihomo/transport/tuic\<close>, whose reassembly uses \<open>Lru\<close> as well), and the STUN client (\<open>StunCodec\<close>,
  \<open>StunNet\<close>, \<open>StunDiscover\<close>, \<^verbatim>\<open>NekoBox/libcore/stun\<close>).

  Conventions (\<open>Prelude\<close>).  A Go call that may panic or not return is a sum with \<open>abort\<close> on the left; an \<^verbatim>\<open>error\<close>
  is a sum with an error type of its own.  Every slice and index expression is checked
  (\<open>go_get\<close>, \<open>go_set\<close>, \<open>go_slice\<close>, \<open>go_make\<close>).  Structs are records, passed and returned; a map is an
  association list where its order shows, and a function otherwise; clocks are arguments.  Integers of a
  fixed width are words where they may wrap, \<^typ>\<open>int\<close> otherwise.  Definitions keep the names of the code,
  with a prefix or suffix where two of them clash (\<open>lruGet\<close>, \<open>VER5\<close>, \<open>AtypIPv4_5\<close>).
  Code that is not in the repository, such as the HPACK decoder, regular expressions, databases, TLS
  and sockets, is an argument of the definitions that use it.

  What the groups of lemmas show.
  \<^item> \<open>DequeRep\<close>, \<open>DequeOps\<close>, \<open>DequeBulk\<close>, \<open>DequeSpec\<close>: the buffer represents a list, every operation is the one on
    the list, and panics exactly where the list operation is out of range; the locale \<open>double_ended\<close> is what \<open>Dot\<close>
    uses.  \<open>IterPopFront\<close> may fail to return.
  \<^item> \<open>Dot\<close>: a step relation of exchanges and resets; no connection is used twice, at most eight are idle, and the
    retry loop returns.
  \<^item> \<open>LruSpec\<close>, \<open>FakeIpSpec\<close>: the cache is the list of its entries in the order of their last use;
    the locale \<open>fake_store\<close> is the contract of a store of fake addresses, which the store in memory keeps, so that names
    and addresses stay inverse to each other.
  \<^item> \<open>DomainTrieSpec\<close>, \<open>IpCidrSpec\<close>: the tries are the maps or sets of their entries, and where they are not.
  \<^item> \<open>RangesSpec\<close>, \<open>Wildcard\<close>, \<open>IpRuleSpec\<close>: the optimised matchers agree with plain definitions.
  \<^item> \<open>RuleSpec\<close>, \<open>RulePayloadSpec\<close>, \<open>RoutingSpec\<close>, \<open>HostsSpec\<close>: accepted rules are well formed, the check of
    sub-rules is exact, and routing always ends with an adapter; lookups of hosts end when the table has no alias of itself.
  \<^item> \<open>TlsSnifferSpec\<close>, \<open>HttpSnifferSpec\<close>, \<open>DispatcherSpec\<close>: the sniffers are safe on the bytes of a stranger, wait neither too
    short nor in vain (the locale \<open>incremental\<close>), and find the name in a hello message or a request.
  \<^item> \<open>ExprParseSpec\<close>, \<open>ExprValueSpec\<close>, \<open>ExprSortSpec\<close>, \<open>ExprApplySpec\<close>, \<open>ExprPrint\<close>, \<open>ExprAssignSpec\<close>: the parser ends, and a value
    that is spelled, parsed and assigned is the value; statements are local.
  \<^item> \<open>StunSpec\<close>, \<open>StunDiscoverSpec\<close>: the codec is exact, and the NAT tests find the class of an ideal NAT.
  \<^item> \<open>TuicSpec\<close>, \<open>TuicFragSpec\<close>, \<open>TuicServerSpec\<close>: the messages have one form; the reassembly is a map of pieces, and gives
    back what was cut; nothing is relayed without a token.

  Fuel and bounds.  The matcher of rules takes the depth of the calls of sub-rules as fuel, and accepted
  configurations need at most one more than the number of sub-rules; the parser of expressions takes fuel in
  the length of the source, which is proved enough for every source; the lookups in the hosts table
  take fuel since they may not end, and the theorems give a fuel that is enough or show that none is.
  Loops over received bytes end by measures.  Lengths of slices are unbounded, as no slice comes near \<^verbatim>\<open>2^63\<close> elements.
  The times of a run are any integers; the ten seconds of the TUIC reassembly are the age of its cache.

  What is not modelled.  Of the modelled files: logging, the texts of errors beyond their constant
  part, sharing of memory between values that are only read, and the scheduler, whose choices are the
  arguments or steps of the models.  Of the repository: the other transports and
  protocols (their cores are cryptography and sockets), the listeners, the rest of the DNS client, the management API,
  \<^verbatim>\<open>sing-box\<close>, which repeats most of these parts in another form, the glue of \<^verbatim>\<open>libcore\<close> to Android, the data files, and
  the application in Kotlin and Java.
\<close>

end
